(* ===== verification/Asmos_Prelude.thy ===== *)
theory Asmos_Prelude
  imports Main "HOL-Library.Word"
begin

unbundle bit_operations_syntax

text \<open>
  What every component of the development shares: names for the machine
  integers of the C sources (the kernel is built with \<^verbatim>\<open>-m32\<close>, so
  \<^verbatim>\<open>size_t\<close> is 32 bits wide), C strings and the bounded copy loop the sources
  repeat, little-endian memory accesses, and the generic lemmas on lists and
  words that the component proofs use.
\<close>

section \<open>Collections of facts\<close>

named_theorems word_unfold \<open>reading word arithmetic as integer arithmetic\<close>
named_theorems inv_intro \<open>operations that keep a component's invariant\<close>

section \<open>Machine integers\<close>

type_synonym u8 = "8 word"
type_synonym u16 = "16 word"
type_synonym u32 = "32 word"

lemmas [word_unfold] = uint_plus_if' uint_sub_if' word_le_def word_less_def

lemma uint_u32_bounds: "0 \<le> uint (x :: u32)" "uint (x :: u32) < 4294967296"
  using uint_lt2p [of x] by simp_all

lemma uint_u16_bounds: "0 \<le> uint (x :: u16)" "uint (x :: u16) < 65536"
  using uint_lt2p [of x] by simp_all

lemma unat_u32_bound: "unat (x :: u32) < 4294967296"
  using unsigned_less [where 'a = nat, of x] by simp

lemma unat_u16_bound: "unat (x :: u16) < 65536"
  using unsigned_less [where 'a = nat, of x] by simp

lemma unat_u8_bound: "unat (x :: u8) < 256"
  using unsigned_less [where 'a = nat, of x] by simp

section \<open>C strings\<close>

text \<open>
  A \<^verbatim>\<open>char *\<close> argument is the list of its characters; reading it as a C string
  stops at the first NUL or at the end of the list.
\<close>

abbreviation NUL :: char where "NUL \<equiv> CHR 0x00"

definition cstr :: "char list \<Rightarrow> string" where
  "cstr s = takeWhile (\<lambda>c. c \<noteq> NUL) s"

definition char_at :: "char list \<Rightarrow> nat \<Rightarrow> char" where
  "char_at s i = (if i < length s then s ! i else NUL)"

lemma cstr_no_nul: "NUL \<notin> set (cstr s)"
  by (auto simp: cstr_def dest: set_takeWhileD)

lemma cstr_id: "NUL \<notin> set s \<Longrightarrow> cstr s = s"
  by (simp add: cstr_def takeWhile_eq_all_conv) metis

lemma cstr_cstr [simp]: "cstr (cstr s) = cstr s"
  by (simp add: cstr_id cstr_no_nul)

lemma cstr_Nil [simp]: "cstr [] = []"
  by (simp add: cstr_def)

lemma cstr_Cons: "cstr (c # s) = (if c = NUL then [] else c # cstr s)"
  by (simp add: cstr_def)

lemma cstr_take: "cstr (take n (cstr s)) = take n (cstr s)"
  by (rule cstr_id) (meson cstr_no_nul in_set_takeD)

text \<open>
  The sources repeat two small routines under several names: a comparison that
  walks two strings in step (\<^verbatim>\<open>str_eq\<close>), and a copy into a buffer of \<open>n\<close> bytes
  that always terminates the result (\<^verbatim>\<open>str_copy\<close>, \<^verbatim>\<open>copy_str\<close>). The copy gives the
  string that the buffer then holds.
\<close>

fun str_eq :: "string \<Rightarrow> string \<Rightarrow> bool" where
  "str_eq (a # as) (b # bs) =
     (if a \<noteq> NUL \<and> b \<noteq> NUL \<and> a = b then str_eq as bs else a = b)"
| "str_eq [] (b # bs) = (b = NUL)"
| "str_eq (a # as) [] = (a = NUL)"
| "str_eq [] [] = True"

fun str_copy :: "nat \<Rightarrow> string \<Rightarrow> string" where
  "str_copy n [] = []"
| "str_copy n (c # cs) = (if c \<noteq> NUL \<and> 0 < n - 1 then c # str_copy (n - 1) cs else [])"

lemma str_eq_iff: "str_eq a b \<longleftrightarrow> cstr a = cstr b"
  by (induction a b rule: str_eq.induct) (auto simp: cstr_Cons)

lemma str_copy_take: "str_copy n s = take (n - 1) (cstr s)"
proof (induction n s rule: str_copy.induct)
  case (2 n c cs)
  then show ?case by (cases n; cases "n - 1") (auto simp: cstr_Cons)
qed simp

lemma str_copy_fits: "length (cstr s) < n \<Longrightarrow> str_copy n s = cstr s"
  by (simp add: str_copy_take)

lemma str_copy_length: "0 < n \<Longrightarrow> length (str_copy n s) < n"
  by (simp add: str_copy_take)

lemma cstr_str_copy [simp]: "cstr (str_copy n s) = str_copy n s"
  by (simp add: str_copy_take cstr_take)

section \<open>Bytes in memory\<close>

definition get16 :: "u8 list \<Rightarrow> nat \<Rightarrow> u16" where
  "get16 m i = ucast (m ! i) OR push_bit 8 (ucast (m ! (i + 1)))"

definition get32 :: "u8 list \<Rightarrow> nat \<Rightarrow> u32" where
  "get32 m i = ucast (m ! i) OR push_bit 8 (ucast (m ! (i + 1))) OR
               push_bit 16 (ucast (m ! (i + 2))) OR push_bit 24 (ucast (m ! (i + 3)))"

definition put16 :: "nat \<Rightarrow> u16 \<Rightarrow> u8 list \<Rightarrow> u8 list" where
  "put16 i w m = m[i := ucast w, i + 1 := ucast (drop_bit 8 w)]"

definition put32 :: "nat \<Rightarrow> u32 \<Rightarrow> u8 list \<Rightarrow> u8 list" where
  "put32 i w m = m[i := ucast w, i + 1 := ucast (drop_bit 8 w),
                   i + 2 := ucast (drop_bit 16 w), i + 3 := ucast (drop_bit 24 w)]"

lemma get_put16: "i + 1 < length m \<Longrightarrow> get16 (put16 i w m) i = w"
proof -
  assume "i + 1 < length m"
  then have "bit (get16 (put16 i w m) i) n = bit w n" if "n < 16" for n
    using that by (cases "n < 8") (auto simp: get16_def put16_def bit_simps)
  then show ?thesis by (intro bit_word_eqI) simp
qed

lemma get_put32: "i + 3 < length m \<Longrightarrow> get32 (put32 i w m) i = w"
proof -
  assume i: "i + 3 < length m"
  have "bit (get32 (put32 i w m) i) n = bit w n" if "n < 32" for n
  proof -
    consider "n < 8" | "8 \<le> n \<and> n < 16" | "16 \<le> n \<and> n < 24" | "24 \<le> n" by linarith
    then show ?thesis using that i by cases (auto simp: get32_def put32_def bit_simps)
  qed
  then show ?thesis by (intro bit_word_eqI) simp
qed

lemma put_lengths [simp]: "length (put16 i w m) = length m" "length (put32 i w' m) = length m"
  by (simp_all add: put16_def put32_def)

lemma put16_nth: "k \<noteq> i \<Longrightarrow> k \<noteq> i + 1 \<Longrightarrow> put16 i w m ! k = m ! k"
  by (simp add: put16_def)

lemma put32_nth: "k < i \<or> i + 3 < k \<Longrightarrow> put32 i w m ! k = m ! k"
  by (auto simp: put32_def)

section \<open>Port input and output\<close>

text \<open>The port instructions the x86 drivers use, over an arbitrary device state.\<close>

record 'w port_io =
  outb :: "u16 \<Rightarrow> u8 \<Rightarrow> 'w \<Rightarrow> 'w"
  inb :: "u16 \<Rightarrow> 'w \<Rightarrow> 'w \<times> u8"
  inw :: "u16 \<Rightarrow> 'w \<Rightarrow> 'w \<times> u16"

section \<open>Loops over arrays and fallible steps\<close>

text \<open>
  \<open>each f xs s\<close> runs the fallible step \<open>f\<close> for every element of \<open>xs\<close> from the left;
  a fault (an access outside an object) stops it. The two \<open>fold\<close> lemmas read the
  element-wise copy and fill loops of the sources as whole-array operations.
\<close>

primrec each :: "('a \<Rightarrow> 's \<Rightarrow> 's option) \<Rightarrow> 'a list \<Rightarrow> 's \<Rightarrow> 's option" where
  "each f [] s = Some s"
| "each f (x # xs) s = (case f x s of None \<Rightarrow> None | Some s' \<Rightarrow> each f xs s')"

lemma each_append: "each f (xs @ ys) s = Option.bind (each f xs s) (each f ys)"
  by (induction xs arbitrary: s) (auto split: option.splits)

lemma each_refines:
  assumes "\<And>x a. I a \<Longrightarrow> P x \<Longrightarrow> f x (r a) = Some (r (g x a)) \<and> I (g x a)" "I a" "\<forall>x\<in>set xs. P x"
  shows "each f xs (r a) = Some (r (fold g xs a)) \<and> I (fold g xs a)"
  using assms(2,3) by (induction xs arbitrary: a) (auto simp: assms(1))

lemma row_major_inj: "a * n + b = c * n + d \<Longrightarrow> b < n \<Longrightarrow> d < n \<Longrightarrow> a = c \<and> b = d" for a b c d n :: nat
  by (metis add_diff_cancel_left' div_mult_self3 div_less add.commute add_0 not_less0)

lemma fold_fill:
  "p + k \<le> length b \<Longrightarrow> fold (\<lambda>i b. b[p + i := v]) [0..<k] b = take p b @ replicate k v @ drop (p + k) b"
proof (induction k)
  case (Suc k)
  then have "drop (p + k) b = b ! (p + k) # drop (Suc (p + k)) b"
    by (intro Cons_nth_drop_Suc [symmetric]) simp
  with Suc show ?case
    by (simp add: list_update_append replicate_append_same [symmetric])
qed simp

lemma fold_copy_down:
  "p + d + k \<le> length b \<Longrightarrow>
   fold (\<lambda>i b. b[p + i := b ! (p + d + i)]) [0..<k] b = take p b @ take k (drop (p + d) b) @ drop (p + k) b"
proof (induction k)
  case (Suc k)
  have d: "drop (p + k) b = b ! (p + k) # drop (Suc (p + k)) b"
    using Suc.prems by (intro Cons_nth_drop_Suc [symmetric]) simp
  have l: "length (take k (drop (p + d) b)) = k" "length (take p b) = p" using Suc.prems by auto
  have n: "(take p b @ take k (drop (p + d) b) @ drop (p + k) b) ! (p + d + k) = b ! (p + d + k)"
    using Suc.prems by (simp add: nth_append algebra_simps)
  have t: "take (Suc k) (drop (p + d) b) = take k (drop (p + d) b) @ [b ! (p + d + k)]"
    using Suc.prems by (simp add: take_Suc_conv_app_nth)
  show ?case using Suc l n t d by (simp add: list_update_append)
qed simp

end
