(* ===== verification/Heap_Alloc.thy ===== *)
theory Heap_Alloc
  imports Asmos_Prelude
begin

text \<open>
  The kernel heap of \<^verbatim>\<open>src/memory_manager.c\<close>: a linked list of block headers
  laid out in the static array \<^verbatim>\<open>memory_pool\<close>, first-fit allocation with
  splitting, and a coalescing pass after each free.

  Pointers are byte offsets from the start of \<^verbatim>\<open>memory_pool\<close>. The pool is
  kept as two stores over these offsets: the block headers that have been
  written and the payload bytes. A walk along \<^verbatim>\<open>next\<close> pointers is a
  \<^theory_text>\<open>partial_function\<close> whose value \<open>None\<close> means that the walk does not end
  or reads an address where no header was written; the lemmas below show that
  this never happens in a well-formed heap.
\<close>

section \<open>State\<close>

definition MEMORY_POOL_SIZE :: u32 where "MEMORY_POOL_SIZE = 1024 * 1024"

definition ALIGNMENT :: u32 where "ALIGNMENT = 4"

definition SIZEOF_MEM_BLOCK :: u32 where "SIZEOF_MEM_BLOCK = 12"

record mem_block =
  mb_size :: u32
  mb_next :: "int option"
  mb_free :: bool

record heap =
  headers :: "int \<Rightarrow> mem_block option"
  bytes :: "int \<Rightarrow> u8"
  free_list :: "int option"

datatype ptr = NULL | Ptr int

section \<open>Operations\<close>

definition ALIGN :: "u32 \<Rightarrow> u32" where
  "ALIGN sz = (sz + (ALIGNMENT - 1)) AND NOT (ALIGNMENT - 1)"

definition init_memory_manager :: "heap \<Rightarrow> heap" where
  "init_memory_manager h =
     h\<lparr>free_list := Some 0,
       headers := (headers h)(0 \<mapsto>
         \<lparr>mb_size = MEMORY_POOL_SIZE - SIZEOF_MEM_BLOCK, mb_next = None, mb_free = True\<rparr>)\<rparr>"

partial_function (option) find_free_from ::
  "(int \<Rightarrow> mem_block option) \<Rightarrow> u32 \<Rightarrow> int option \<Rightarrow> int option option" where
  "find_free_from H sz current =
     (case current of
        None \<Rightarrow> Some None
      | Some a \<Rightarrow>
          (case H a of
             None \<Rightarrow> None
           | Some b \<Rightarrow>
               if mb_free b \<and> mb_size b \<ge> sz then Some (Some a)
               else find_free_from H sz (mb_next b)))"

definition find_free_block :: "heap \<Rightarrow> u32 \<Rightarrow> int option option" where
  "find_free_block h sz = find_free_from (headers h) sz (free_list h)"

definition split_block :: "heap \<Rightarrow> int \<Rightarrow> u32 \<Rightarrow> heap option" where
  "split_block h a sz =
     (case headers h a of
        None \<Rightarrow> None
      | Some b \<Rightarrow>
          if mb_size b \<ge> sz + SIZEOF_MEM_BLOCK + ALIGNMENT then
            let na = a + uint SIZEOF_MEM_BLOCK + uint sz;
                new_block = \<lparr>mb_size = mb_size b - sz - SIZEOF_MEM_BLOCK,
                             mb_next = mb_next b, mb_free = True\<rparr>
            in Some (h\<lparr>headers := (headers h)(na \<mapsto> new_block,
                         a \<mapsto> b\<lparr>mb_size := sz, mb_next := Some na\<rparr>)\<rparr>)
          else Some h)"

partial_function (option) merge_from ::
  "(int \<Rightarrow> mem_block option) \<Rightarrow> int option \<Rightarrow> (int \<Rightarrow> mem_block option) option" where
  "merge_from H current =
     (case current of
        None \<Rightarrow> Some H
      | Some a \<Rightarrow>
          (case H a of
             None \<Rightarrow> None
           | Some b \<Rightarrow>
               (case mb_next b of
                  None \<Rightarrow> Some H
                | Some n \<Rightarrow>
                    (case H n of
                       None \<Rightarrow> None
                     | Some c \<Rightarrow>
                         if mb_free b \<and> mb_free c then
                           merge_from
                             (H(a \<mapsto> b\<lparr>mb_size := mb_size b + (SIZEOF_MEM_BLOCK + mb_size c),
                                        mb_next := mb_next c\<rparr>)) (Some a)
                         else merge_from H (Some n)))))"

definition merge_free_blocks :: "heap \<Rightarrow> heap option" where
  "merge_free_blocks h =
     map_option (\<lambda>H. h\<lparr>headers := H\<rparr>) (merge_from (headers h) (free_list h))"

definition set_free :: "heap \<Rightarrow> int \<Rightarrow> bool \<Rightarrow> heap option" where
  "set_free h a f =
     (case headers h a of
        None \<Rightarrow> None
      | Some b \<Rightarrow> Some (h\<lparr>headers := (headers h)(a \<mapsto> b\<lparr>mb_free := f\<rparr>)\<rparr>))"

definition malloc :: "heap \<Rightarrow> u32 \<Rightarrow> (heap \<times> ptr) option" where
  "malloc h sz =
     (if sz = 0 then Some (h, NULL)
      else
        (let sz = ALIGN sz in
         case find_free_block h sz of
           None \<Rightarrow> None
         | Some None \<Rightarrow> Some (h, NULL)
         | Some (Some block) \<Rightarrow>
             Option.bind (split_block h block sz) (\<lambda>h1.
             Option.bind (set_free h1 block False) (\<lambda>h2.
             Some (h2, Ptr (block + uint SIZEOF_MEM_BLOCK))))))"

definition free :: "heap \<Rightarrow> ptr \<Rightarrow> heap option" where
  "free h p =
     (case p of
        NULL \<Rightarrow> Some h
      | Ptr o' \<Rightarrow>
          if o' < 0 \<or> o' \<ge> uint MEMORY_POOL_SIZE then Some h
          else Option.bind (set_free h (o' - uint SIZEOF_MEM_BLOCK) True) merge_free_blocks)"

fun copy_bytes :: "(int \<Rightarrow> u8) \<Rightarrow> int \<Rightarrow> int \<Rightarrow> nat \<Rightarrow> int \<Rightarrow> u8" where
  "copy_bytes m d s 0 = m"
| "copy_bytes m d s (Suc n) = copy_bytes (m(d := m s)) (d + 1) (s + 1) n"

text \<open>
  Copying or filling more bytes than the block at the pointer holds leaves its object,
  which is \<open>None\<close>.
\<close>

definition within_block :: "heap \<Rightarrow> int \<Rightarrow> u32 \<Rightarrow> bool" where
  "within_block h p n = (case headers h (p - uint SIZEOF_MEM_BLOCK) of None \<Rightarrow> False | Some b \<Rightarrow> n \<le> mb_size b)"

definition memcpy :: "heap \<Rightarrow> int \<Rightarrow> int \<Rightarrow> u32 \<Rightarrow> heap option" where
  "memcpy h dest src n =
     (if within_block h dest n \<and> within_block h src n
      then Some (h\<lparr>bytes := copy_bytes (bytes h) dest src (unat n)\<rparr>) else None)"

fun set_bytes :: "(int \<Rightarrow> u8) \<Rightarrow> int \<Rightarrow> u8 \<Rightarrow> nat \<Rightarrow> int \<Rightarrow> u8" where
  "set_bytes m p c 0 = m"
| "set_bytes m p c (Suc n) = set_bytes (m(p := c)) (p + 1) c n"

definition memset :: "heap \<Rightarrow> int \<Rightarrow> u8 \<Rightarrow> u32 \<Rightarrow> heap option" where
  "memset h s c n = (if within_block h s n then Some (h\<lparr>bytes := set_bytes (bytes h) s c (unat n)\<rparr>) else None)"

definition realloc :: "heap \<Rightarrow> ptr \<Rightarrow> u32 \<Rightarrow> (heap \<times> ptr) option" where
  "realloc h p new_size =
     (case p of
        NULL \<Rightarrow> malloc h new_size
      | Ptr o' \<Rightarrow>
          if new_size = 0 then map_option (\<lambda>h'. (h', NULL)) (free h p)
          else
            let block = o' - uint SIZEOF_MEM_BLOCK in
            (case headers h block of
               None \<Rightarrow> None
             | Some b \<Rightarrow>
                 if mb_size b \<ge> new_size then
                   map_option (\<lambda>h'. (h', p)) (split_block h block (ALIGN new_size))
                 else
                   Option.bind (malloc h new_size) (\<lambda>(h1, new_ptr).
                   case new_ptr of
                     NULL \<Rightarrow> Some (h1, NULL)
                   | Ptr n \<Rightarrow>
                       (case headers h1 block of
                          None \<Rightarrow> None
                        | Some b1 \<Rightarrow>
                            let len = (if mb_size b1 < new_size then mb_size b1 else new_size)
                            in Option.bind (memcpy h1 n o' len) (\<lambda>h2.
                               map_option (\<lambda>h3. (h3, new_ptr)) (free h2 p))))))"

definition calloc :: "heap \<Rightarrow> u32 \<Rightarrow> u32 \<Rightarrow> (heap \<times> ptr) option" where
  "calloc h nmemb sz =
     (let total_size = nmemb * sz in
      Option.bind (malloc h total_size) (\<lambda>(h1, p).
      case p of
        NULL \<Rightarrow> Some (h1, NULL)
      | Ptr o' \<Rightarrow> map_option (\<lambda>h2. (h2, p)) (memset h1 o' 0 total_size)))"

partial_function (option) used_from ::
  "(int \<Rightarrow> mem_block option) \<Rightarrow> u32 \<Rightarrow> int option \<Rightarrow> u32 option" where
  "used_from H used current =
     (case current of
        None \<Rightarrow> Some used
      | Some a \<Rightarrow>
          (case H a of
             None \<Rightarrow> None
           | Some b \<Rightarrow>
               used_from H (if \<not> mb_free b then used + (SIZEOF_MEM_BLOCK + mb_size b) else used)
                 (mb_next b)))"

definition get_memory_usage_percent :: "heap \<Rightarrow> u32 option" where
  "get_memory_usage_percent h =
     map_option (\<lambda>used. (used * 100) div MEMORY_POOL_SIZE)
       (used_from (headers h) 0 (free_list h))"

section \<open>Block lists: the abstract heap\<close>

text \<open>
  A well-formed heap is a list of blocks (payload size, free flag) that tile the
  pool. Everything else is determined: the block at position \<open>i\<close> starts
  where the blocks before it end.
\<close>

type_synonym blk = "u32 \<times> bool"

fun span :: "blk list \<Rightarrow> int" where
  "span [] = 0"
| "span ((s, f) # bs) = 12 + uint s + span bs"

fun seg :: "(int \<Rightarrow> mem_block option) \<Rightarrow> int option \<Rightarrow> int \<Rightarrow> blk list \<Rightarrow> int option \<Rightarrow> bool" where
  "seg H p a [] q = (p = q)"
| "seg H p a ((s, f) # bs) q =
     (p = Some a \<and>
      (case H a of None \<Rightarrow> False
       | Some b \<Rightarrow> mb_size b = s \<and> mb_free b = f \<and> seg H (mb_next b) (a + 12 + uint s) bs q))"

definition aligned :: "blk list \<Rightarrow> bool" where
  "aligned bs = list_all (\<lambda>(s, f). uint s mod 4 = 0) bs"

definition last_size :: "blk list \<Rightarrow> int" where
  "last_size bs = uint (fst (last bs))"

definition heap_rep :: "heap \<Rightarrow> blk list \<Rightarrow> bool" where
  "heap_rep h bs \<longleftrightarrow>
     seg (headers h) (free_list h) 0 bs None \<and> span bs = 1048576 \<and> aligned bs \<and>
     4 \<le> last_size bs"

fun live :: "int \<Rightarrow> blk list \<Rightarrow> (int \<times> u32) set" where
  "live a [] = {}"
| "live a ((s, f) # bs) = (if f then {} else {(a + 12, s)}) \<union> live (a + 12 + uint s) bs"

lemma pool_size [simp]: "uint MEMORY_POOL_SIZE = 1048576"
  by (simp add: MEMORY_POOL_SIZE_def)

lemma header_size [simp]: "uint SIZEOF_MEM_BLOCK = 12"
  by (simp add: SIZEOF_MEM_BLOCK_def)

lemma span_append [simp]: "span (xs @ ys) = span xs + span ys"
  by (induction xs rule: span.induct) auto

lemma span_nonneg: "0 \<le> span bs"
  by (induction bs rule: span.induct) auto

lemma aligned_append [simp]: "aligned (xs @ ys) \<longleftrightarrow> aligned xs \<and> aligned ys"
  by (simp add: aligned_def)

lemma aligned_Cons [simp]: "aligned ((s, f) # bs) \<longleftrightarrow> uint s mod 4 = 0 \<and> aligned bs"
  by (simp add: aligned_def)

lemma aligned_Nil [simp]: "aligned []"
  by (simp add: aligned_def)

lemma last_size_append [simp]: "last_size (xs @ y # ys) = last_size (y # ys)"
  by (simp add: last_size_def)

lemma last_size_Cons: "last_size ((s, f) # bs) = (if bs = [] then uint s else last_size bs)"
  by (simp add: last_size_def)

lemma span_mod4: "aligned bs \<Longrightarrow> span bs mod 4 = 0"
  by (induction bs rule: span.induct) (auto simp: aligned_def mod_add_eq [symmetric])

lemma seg_append: "seg H p a (xs @ ys) q \<longleftrightarrow> (\<exists>r. seg H p a xs r \<and> seg H r (a + span xs) ys q)"
  by (induction xs arbitrary: p a rule: span.induct) (auto split: option.splits simp: add.assoc)

lemma seg_upd: "x < a \<or> a + span bs \<le> x \<Longrightarrow> seg (H(x := v)) p a bs q = seg H p a bs q"
proof (induction bs arbitrary: p a rule: span.induct)
  case 1
  then show ?case by simp
next
  case (2 s f bs)
  have "x \<noteq> a" using "2.prems" span_nonneg [of bs] uint_ge_0 [of s] by (simp, linarith)
  moreover have "x < a + 12 + uint s \<or> a + 12 + uint s + span bs \<le> x"
    using "2.prems" uint_ge_0 [of s] by (simp add: add.assoc, linarith)
  ultimately show ?case using "2.IH" by (auto split: option.splits)
qed

lemma live_append: "live a (xs @ ys) = live a xs \<union> live (a + span xs) ys"
  by (induction xs arbitrary: a rule: span.induct) (auto simp: add.assoc)

lemma live_bounds: "(p, s) \<in> live a bs \<Longrightarrow> a + 12 \<le> p \<and> p + uint s \<le> a + span bs"
proof (induction bs arbitrary: a rule: span.induct)
  case 1
  then show ?case by simp
next
  case (2 s' f bs)
  show ?case
  proof (cases "(p, s) \<in> live (a + 12 + uint s') bs")
    case True
    then show ?thesis using "2.IH" [OF True] uint_ge_0 [of s'] by (simp, linarith)
  next
    case False
    then show ?thesis using "2.prems" span_nonneg [of bs] by (simp split: if_splits)
  qed
qed

lemma live_split:
  "(p, s) \<in> live a bs \<Longrightarrow>
     \<exists>pre post. bs = pre @ (s, False) # post \<and> p = a + span pre + 12"
proof (induction bs arbitrary: a rule: span.induct)
  case 1
  then show ?case by simp
next
  case (2 s' f bs)
  show ?case
  proof (cases "(p, s) \<in> live (a + 12 + uint s') bs")
    case True
    then obtain pre post where "bs = pre @ (s, False) # post" "p = a + 12 + uint s' + span pre + 12"
      using "2.IH" by blast
    then have "(s', f) # bs = ((s', f) # pre) @ (s, False) # post \<and> p = a + span ((s', f) # pre) + 12"
      by simp
    then show ?thesis by blast
  next
    case False
    then have "(s', f) # bs = [] @ (s, False) # bs \<and> p = a + span [] + 12"
      using "2.prems" by (auto split: if_splits)
    then show ?thesis by blast
  qed
qed

lemma live_other_disjoint:
  assumes "(p, s) \<in> live a bs" "(p', s') \<in> live a bs" "(p, s) \<noteq> (p', s')"
  shows "p + uint s < p' \<or> p' + uint s' < p"
proof -
  obtain pre post where bs: "bs = pre @ (s, False) # post" and p: "p = a + span pre + 12"
    using live_split [OF assms(1)] by blast
  have "(p', s') \<in> live a pre \<or> (p', s') \<in> live (a + span pre + 12 + uint s) post"
    using assms(2,3) by (auto simp: bs live_append p)
  then show ?thesis using live_bounds p by fastforce
qed

lemma heap_rep_seg:
  "heap_rep h (pre @ (s, f) # post) \<longleftrightarrow>
     (\<exists>n. seg (headers h) (free_list h) 0 pre (Some (span pre)) \<and>
          headers h (span pre) = Some \<lparr>mb_size = s, mb_next = n, mb_free = f\<rparr> \<and>
          seg (headers h) n (span pre + 12 + uint s) post None) \<and>
     span pre + 12 + uint s + span post = 1048576 \<and>
     aligned pre \<and> uint s mod 4 = 0 \<and> aligned post \<and> 4 \<le> last_size ((s, f) # post)"
  by (auto simp: heap_rep_def seg_append split: option.splits)
     (metis mem_block.surjective old.unit.exhaust)+

section \<open>Operations on a well-formed heap\<close>

text \<open>Splitting a block of size \<open>s\<close> to keep \<open>sz\<close> bytes of it.\<close>

definition carve :: "u32 \<Rightarrow> u32 \<Rightarrow> bool \<Rightarrow> blk list" where
  "carve sz s f =
     (if uint sz + 16 \<le> uint s then [(sz, f), (s - sz - 12, True)] else [(s, f)])"

lemma carve_props:
  assumes "uint sz \<le> uint s" "uint sz mod 4 = 0" "uint s mod 4 = 0"
  shows "span (carve sz s f) = 12 + uint s" and "aligned (carve sz s f)"
proof -
  have *: "uint (s - sz - 12) = uint s - uint sz - 12" if "uint sz + 16 \<le> uint s"
    using that by (simp add: uint_sub_if')
  show "span (carve sz s f) = 12 + uint s" "aligned (carve sz s f)"
    using assms by (auto simp: carve_def * mod_eq_0_iff_dvd)
qed

lemma split_block_rep:
  assumes rep: "heap_rep h (pre @ (s, f) # post)"
    and le: "uint sz \<le> uint s" and al: "uint sz mod 4 = 0"
  shows "\<exists>h'. split_block h (span pre) sz = Some h' \<and>
           heap_rep h' (pre @ carve sz s f @ post) \<and> bytes h' = bytes h \<and> free_list h' = free_list h"
proof -
  from rep obtain n where
    pre: "seg (headers h) (free_list h) 0 pre (Some (span pre))" and
    blk: "headers h (span pre) = Some \<lparr>mb_size = s, mb_next = n, mb_free = f\<rparr>" and
    post: "seg (headers h) n (span pre + 12 + uint s) post None" and
    tot: "span pre + 12 + uint s + span post = 1048576" and
    als: "aligned pre" "uint s mod 4 = 0" "aligned post" "4 \<le> last_size ((s, f) # post)"
    unfolding heap_rep_seg by auto
  have nowrap: "uint (sz + SIZEOF_MEM_BLOCK + ALIGNMENT) = uint sz + 16"
    using le tot span_nonneg [of pre] span_nonneg [of post]
    by (simp add: SIZEOF_MEM_BLOCK_def ALIGNMENT_def uint_plus_if')
  show ?thesis
  proof (cases "uint sz + 16 \<le> uint s")
    case True
    have new: "uint (s - sz - 12) = uint s - uint sz - 12"
      using True by (simp add: uint_sub_if')
    let ?na = "span pre + 12 + uint sz"
    let ?H = "(headers h)(?na \<mapsto> \<lparr>mb_size = s - sz - 12, mb_next = n, mb_free = True\<rparr>,
                span pre \<mapsto> \<lparr>mb_size = sz, mb_next = Some ?na, mb_free = f\<rparr>)"
    let ?h' = "h\<lparr>headers := ?H\<rparr>"
    have "split_block h (span pre) sz = Some ?h'"
      using True nowrap
      by (simp add: split_block_def blk word_le_def SIZEOF_MEM_BLOCK_def Let_def)
    moreover have "seg ?H (free_list h) 0 pre (Some (span pre))"
      using pre uint_ge_0 [of sz] by (simp add: seg_upd)
    moreover have "seg ?H n (span pre + 12 + uint s) post None"
    proof -
      have "span pre < span pre + 12 + uint s" "span pre + 12 + uint sz < span pre + 12 + uint s"
        using uint_ge_0 [of s] True by linarith+
      then show ?thesis using post by (simp add: seg_upd)
    qed
    moreover have "seg ?H (Some ?na) ?na ((s - sz - 12, True) # post) None"
    proof -
      have "24 + (span pre + uint sz) + uint (s - sz - 12) = span pre + 12 + uint s"
        by (simp add: new)
      note end_eq = this
      have "?na \<noteq> span pre" using uint_ge_0 [of sz] by linarith
      then show ?thesis
        using \<open>seg ?H n (span pre + 12 + uint s) post None\<close> by (simp add: end_eq)
    qed
    moreover have "uint (s - sz - 12) mod 4 = 0" unfolding new using al als(2) by presburger
    moreover have "4 \<le> last_size ((s - sz - 12, True) # post)"
      using als(4) True by (simp add: last_size_Cons new split: if_splits)
    ultimately have "split_block h (span pre) sz = Some ?h'"
        and "heap_rep ?h' (pre @ (sz, f) # ((s - sz - 12, True) # post))"
      using tot als al
      by (simp_all add: heap_rep_def seg_append new last_size_Cons [of sz] del: fun_upd_apply)
        (simp add: fun_upd_apply)
    then show ?thesis using True by (simp add: carve_def)
  next
    case False
    then have "split_block h (span pre) sz = Some h"
      using nowrap by (simp add: split_block_def blk word_le_def)
    then show ?thesis using rep False by (simp add: carve_def)
  qed
qed

lemma set_free_rep:
  assumes rep: "heap_rep h (pre @ (s, f) # post)"
  shows "\<exists>h'. set_free h (span pre) g = Some h' \<and> heap_rep h' (pre @ (s, g) # post) \<and>
           bytes h' = bytes h \<and> free_list h' = free_list h"
proof -
  from rep obtain n where
    blk: "headers h (span pre) = Some \<lparr>mb_size = s, mb_next = n, mb_free = f\<rparr>"
    unfolding heap_rep_seg by auto
  moreover have "span pre < span pre + 12 + uint s" using uint_ge_0 [of s] by linarith
  ultimately show ?thesis
    using rep unfolding heap_rep_seg set_free_def by (auto simp: seg_upd last_size_Cons)
qed

text \<open>The first-fit search on block lists: the address of the block it picks.\<close>

fun first_fit :: "u32 \<Rightarrow> int \<Rightarrow> blk list \<Rightarrow> int option" where
  "first_fit sz a [] = None"
| "first_fit sz a ((s, f) # bs) =
     (if f \<and> uint sz \<le> uint s then Some a else first_fit sz (a + 12 + uint s) bs)"

lemma find_free_from_None: "find_free_from H sz None = Some None"
  by (subst find_free_from.simps) simp

lemma find_free_from_Some:
  "H a = Some b \<Longrightarrow> find_free_from H sz (Some a) =
     (if mb_free b \<and> mb_size b \<ge> sz then Some (Some a) else find_free_from H sz (mb_next b))"
  by (subst find_free_from.simps) simp

lemma find_free_from_seg: "seg H p a bs None \<Longrightarrow> find_free_from H sz p = Some (first_fit sz a bs)"
  by (induction sz a bs arbitrary: p rule: first_fit.induct)
     (auto simp: find_free_from_None find_free_from_Some word_le_def split: option.splits)

lemma first_fit_Some:
  "first_fit sz a bs = Some x \<Longrightarrow>
   \<exists>pre s post. bs = pre @ (s, True) # post \<and> x = a + span pre \<and> uint sz \<le> uint s \<and>
     (\<forall>(s', f') \<in> set pre. \<not> (f' \<and> uint sz \<le> uint s'))"
proof (induction sz a bs rule: first_fit.induct)
  case (1 sz a)
  then show ?case by simp
next
  case (2 sz a s f bs)
  show ?case
  proof (cases "f \<and> uint sz \<le> uint s")
    case True
    with "2.prems" show ?thesis by (intro exI [of _ "[]"]) auto
  next
    case False
    with 2 obtain pre s' post where "bs = pre @ (s', True) # post" "x = a + 12 + uint s + span pre"
      "uint sz \<le> uint s'" "\<forall>(s', f') \<in> set pre. \<not> (f' \<and> uint sz \<le> uint s')"
      by auto
    with False show ?thesis by (intro exI [of _ "(s, f) # pre"]) auto
  qed
qed

lemma first_fit_None:
  "first_fit sz a bs = None \<longleftrightarrow> (\<forall>(s, f) \<in> set bs. \<not> (f \<and> uint sz \<le> uint s))"
  by (induction sz a bs rule: first_fit.induct) auto

text \<open>The coalescing pass on block lists.\<close>

fun coalesce :: "blk list \<Rightarrow> blk list" where
  "coalesce ((s1, f1) # (s2, f2) # bs) =
     (if f1 \<and> f2 then coalesce ((s1 + (12 + s2), True) # bs)
      else (s1, f1) # coalesce ((s2, f2) # bs))"
| "coalesce bs = bs"

lemma uint_merged:
  assumes "span ((s1, f1) # (s2, f2) # bs) < 4294967296"
  shows "uint (s1 + (12 + s2)) = uint s1 + 12 + uint s2"
proof -
  have "12 + uint s1 + (12 + uint s2 + span bs) < 4294967296" using assms by simp
  then have "uint s1 + 12 + uint s2 < 4294967296" "12 + uint s2 < 4294967296"
    using span_nonneg [of bs] uint_ge_0 [of s1] by linarith+
  then show ?thesis by (simp add: uint_plus_if')
qed

lemma coalesce_props:
  "span bs < 4294967296 \<Longrightarrow> span (coalesce bs) = span bs \<and> (aligned bs \<longrightarrow> aligned (coalesce bs)) \<and>
     live a (coalesce bs) = live a bs"
proof (induction bs arbitrary: a rule: coalesce.induct)
  case (1 s1 f1 s2 f2 bs)
  note m = uint_merged [OF "1.prems"]
  show ?case
  proof (cases "f1 \<and> f2")
    case True
    moreover have "span ((s1 + (12 + s2), True) # bs) = span ((s1, f1) # (s2, f2) # bs)"
      by (simp add: m)
    moreover have "aligned ((s1, f1) # (s2, f2) # bs) \<longrightarrow> aligned ((s1 + (12 + s2), True) # bs)"
      by (auto simp: m mod_eq_0_iff_dvd)
    moreover have "live a ((s1 + (12 + s2), True) # bs) = live a ((s1, f1) # (s2, f2) # bs)"
      using True by (simp add: m add.assoc)
    ultimately show ?thesis using "1.IH"(1) [of a] "1.prems" by simp
  next
    case False
    have "span ((s2, f2) # bs) < 4294967296" using "1.prems" uint_ge_0 [of s1] by (simp, linarith)
    then show ?thesis using "1.IH"(2) [of "a + 12 + uint s1"] False by auto
  qed
qed auto

lemma coalesce_last:
  "span bs < 4294967296 \<Longrightarrow> 4 \<le> last_size bs \<Longrightarrow> 4 \<le> last_size (coalesce bs)"
proof (induction bs rule: coalesce.induct)
  case (1 s1 f1 s2 f2 bs)
  note m = uint_merged [OF "1.prems"(1)]
  have "span ((s2, f2) # bs) < 4294967296"
    using "1.prems"(1) uint_ge_0 [of s1] by (simp, linarith)
  moreover have "span ((s1 + (12 + s2), True) # bs) < 4294967296"
    using "1.prems"(1) by (simp add: m)
  moreover have "4 \<le> last_size ((s1 + (12 + s2), True) # bs)"
    using "1.prems"(2) uint_ge_0 [of s1] uint_ge_0 [of s2]
    by (auto simp: last_size_Cons m split: if_splits)
  moreover have "coalesce ((s2, f2) # bs) \<noteq> []"
    by (induction "(s2, f2) # bs" arbitrary: s2 f2 bs rule: coalesce.induct) auto
  ultimately show ?case
    using 1 by (auto simp: last_size_Cons)
qed auto

fun no_adjacent_free :: "blk list \<Rightarrow> bool" where
  "no_adjacent_free ((s1, f1) # (s2, f2) # bs) =
     (\<not> (f1 \<and> f2) \<and> no_adjacent_free ((s2, f2) # bs))"
| "no_adjacent_free bs = True"

lemma coalesce_hd: "\<exists>s' bs'. coalesce ((s, f) # bs) = (s', f) # bs'"
  by (induction "(s, f) # bs" arbitrary: s f bs rule: coalesce.induct) auto

lemma coalesce_no_adjacent: "no_adjacent_free (coalesce bs)"
proof (induction bs rule: coalesce.induct)
  case (1 s1 f1 s2 f2 bs)
  then show ?case using coalesce_hd [of s2 f2 bs] by auto
qed auto

lemma coalesce_id: "no_adjacent_free bs \<Longrightarrow> coalesce bs = bs"
  by (induction bs rule: coalesce.induct) auto

lemmas coalesce_cases = coalesce.induct [case_names Two Empty One]

lemma merge_from_seg:
  "seg H (Some a) a bs None \<Longrightarrow> bs \<noteq> [] \<Longrightarrow> span bs < 4294967296 \<Longrightarrow>
     \<exists>H'. merge_from H (Some a) = Some H' \<and> seg H' (Some a) a (coalesce bs) None \<and>
          (\<forall>x < a. H' x = H x)"
proof (induction bs arbitrary: H a rule: coalesce_cases)
  case (Two s1 f1 s2 f2 bs)
  from Two.prems(1) obtain b c where
    b: "H a = Some b" "mb_size b = s1" "mb_free b = f1" "mb_next b = Some (a + 12 + uint s1)" and
    c: "H (a + 12 + uint s1) = Some c" "mb_size c = s2" "mb_free c = f2" and
    tl: "seg H (mb_next c) (a + 12 + uint s1 + 12 + uint s2) bs None"
    by (auto split: option.splits)
  note m = uint_merged [OF Two.prems(3)]
  show ?case
  proof (cases "f1 \<and> f2")
    case True
    let ?H = "H(a \<mapsto> b\<lparr>mb_size := s1 + (12 + s2), mb_next := mb_next c\<rparr>)"
    have "a < a + 12 + uint s1 + 12 + uint s2" by (simp add: add_pos_nonneg add.assoc)
    with tl have "seg ?H (mb_next c) (a + 12 + uint (s1 + (12 + s2))) bs None"
      by (simp add: m seg_upd add.assoc)
    then have "seg ?H (Some a) a ((s1 + (12 + s2), True) # bs) None"
      using b True by simp
    moreover have "merge_from H (Some a) = merge_from ?H (Some a)"
      using b c True by (subst merge_from.simps) (simp add: SIZEOF_MEM_BLOCK_def)
    moreover have "span ((s1 + (12 + s2), True) # bs) < 4294967296"
      using Two.prems(3) by (simp add: m)
    ultimately obtain H' where "merge_from H (Some a) = Some H'"
        "seg H' (Some a) a (coalesce ((s1 + (12 + s2), True) # bs)) None" "\<forall>x < a. H' x = ?H x"
      using Two.IH(1) [OF True, of ?H a] by (metis list.distinct(1))
    then show ?thesis using True by simp
  next
    case False
    have "merge_from H (Some a) = merge_from H (Some (a + 12 + uint s1))"
      using b c False by (subst merge_from.simps) auto
    moreover have "seg H (Some (a + 12 + uint s1)) (a + 12 + uint s1) ((s2, f2) # bs) None"
      using c tl by simp
    moreover have "span ((s2, f2) # bs) < 4294967296"
      using Two.prems(3) uint_ge_0 [of s1] by (simp, linarith)
    ultimately obtain H' where
      H': "merge_from H (Some a) = Some H'"
        "seg H' (Some (a + 12 + uint s1)) (a + 12 + uint s1) (coalesce ((s2, f2) # bs)) None"
        "\<forall>x < a + 12 + uint s1. H' x = H x"
      using Two.IH(2) [OF False] by (metis list.distinct(1))
    moreover have "a < a + 12 + uint s1" using uint_ge_0 [of s1] by linarith
    ultimately show ?thesis using False b by auto
  qed
next
  case (One v)
  then show ?case
    by (cases v) (auto simp: merge_from.simps [of H "Some a"] split: option.splits)
qed auto

section \<open>Refinement: malloc and free on block lists\<close>

lemma and_minus_4: "(x :: u32) AND - 4 = push_bit 2 (drop_bit 2 x)"
proof (rule bit_word_eqI)
  fix n assume n: "n < LENGTH(32)"
  have m: "(- 4 :: u32) = NOT (mask 2)" by (simp add: mask_eq_decr_exp)
  show "bit (x AND - 4) n = bit (push_bit 2 (drop_bit 2 x)) n"
    unfolding m using n
    by (cases "2 \<le> n")
       (simp_all add: bit_and_iff bit_not_iff bit_mask_iff bit_push_bit_iff bit_drop_bit_eq
          del: add_2_eq_Suc add_2_eq_Suc')
qed

lemma uint_and_minus_4: "uint ((x :: u32) AND - 4) = 4 * (uint x div 4)"
proof -
  have b: "4 * (uint x div 4) \<le> uint x" "uint x < 4294967296" using uint_u32_bounds by simp_all
  then have m: "4 * (uint x div 4) mod 4294967296 = 4 * (uint x div 4)"
    by (intro mod_pos_pos_trivial) (auto simp: pos_imp_zdiv_nonneg_iff)
  have "uint (push_bit 2 (drop_bit 2 x)) = take_bit 32 (push_bit 2 (drop_bit 2 (uint x)))"
    by (simp add: unsigned_push_bit_eq unsigned_drop_bit_eq take_bit_eq_mod b(2))
  also have "\<dots> = 4 * (uint x div 4)"
    using m by (simp add: take_bit_eq_mod push_bit_eq_mult drop_bit_eq_div mult.commute)
  finally show ?thesis by (simp add: and_minus_4)
qed

lemma ALIGN_uint: "uint sz \<le> 4294967292 \<Longrightarrow> uint (ALIGN sz) = 4 * ((uint sz + 3) div 4)"
  by (simp add: ALIGN_def ALIGNMENT_def uint_and_minus_4 uint_plus_if')

lemma ALIGN_ge: "uint sz \<le> 4294967292 \<longrightarrow> uint sz \<le> uint (ALIGN sz)"
  by (simp add: ALIGN_uint) presburger

text \<open>
  The size a request is rounded to, in integers: a multiple of four, except that the
  three largest 32-bit sizes wrap to zero.
\<close>

definition rounded :: "u32 \<Rightarrow> int" where
  "rounded n = (if uint n \<le> 4294967292 then 4 * ((uint n + 3) div 4) else 0)"

lemma ALIGN_wrap:
  assumes "4294967292 < uint n"
  shows "ALIGN n = 0"
proof -
  have "uint n \<in> {4294967293, 4294967294, 4294967295}"
    using assms uint_u32_bounds(2) [of n] by auto
  then have "n \<in> {4294967293, 4294967294, 4294967295}"
    by (auto simp flip: word_uint_eq_iff) (metis word_of_int_uint of_int_numeral)+
  then show ?thesis by (auto simp: ALIGN_def ALIGNMENT_def)
qed

lemma ALIGN_rounded: "uint (ALIGN n) = rounded n"
  by (simp add: rounded_def ALIGN_uint ALIGN_wrap)

lemma ALIGN_mod4 [simp]: "uint (ALIGN sz) mod 4 = 0"
  by (simp add: ALIGN_def ALIGNMENT_def uint_and_minus_4)

fun alloc_abs :: "u32 \<Rightarrow> blk list \<Rightarrow> blk list" where
  "alloc_abs sz [] = []"
| "alloc_abs sz ((s, f) # bs) =
     (if f \<and> uint sz \<le> uint s then carve sz s False @ bs else (s, f) # alloc_abs sz bs)"

fun release_abs :: "int \<Rightarrow> int \<Rightarrow> blk list \<Rightarrow> blk list" where
  "release_abs p a [] = []"
| "release_abs p a ((s, f) # bs) =
     (if p = a + 12 then (s, True) # bs else (s, f) # release_abs p (a + 12 + uint s) bs)"

lemma alloc_abs_split:
  "\<forall>(s', f') \<in> set pre. \<not> (f' \<and> uint sz \<le> uint s') \<Longrightarrow> uint sz \<le> uint s \<Longrightarrow>
     alloc_abs sz (pre @ (s, True) # post) = pre @ carve sz s False @ post"
  by (induction pre) auto

lemma alloc_abs_None: "first_fit sz a bs = None \<Longrightarrow> alloc_abs sz bs = bs"
  by (induction sz a bs rule: first_fit.induct) (auto split: if_splits)

lemma release_abs_split:
  "release_abs (a + span pre + 12) a (pre @ (s, f) # post) = pre @ (s, True) # post"
proof (induction pre arbitrary: a)
  case Nil
  then show ?case by simp
next
  case (Cons x pre)
  obtain s' f' where x: "x = (s', f')" by (cases x)
  have "a + (12 + uint s' + span pre) + 12 \<noteq> a + 12"
    using span_nonneg [of pre] uint_ge_0 [of s'] by linarith
  then show ?case using Cons [of "a + 12 + uint s'"] by (simp add: x add.assoc)
qed

lemma carve_Cons: "\<exists>s' rest. \<forall>f. carve sz s f = (s', f) # rest"
  by (auto simp: carve_def)

lemma malloc_refines:
  assumes rep: "heap_rep h bs" and sz: "sz \<noteq> 0"
  shows "\<exists>h'. malloc h sz =
             Some (h', case first_fit (ALIGN sz) 0 bs of None \<Rightarrow> NULL | Some x \<Rightarrow> Ptr (x + 12)) \<and>
           heap_rep h' (alloc_abs (ALIGN sz) bs) \<and> bytes h' = bytes h \<and>
           (first_fit (ALIGN sz) 0 bs = None \<longrightarrow> h' = h)"
proof -
  have ff: "find_free_block h (ALIGN sz) = Some (first_fit (ALIGN sz) 0 bs)"
    using rep by (simp add: find_free_block_def heap_rep_def find_free_from_seg)
  show ?thesis
  proof (cases "first_fit (ALIGN sz) 0 bs")
    case None
    then show ?thesis using sz rep ff by (simp add: malloc_def alloc_abs_None)
  next
    case (Some x)
    then obtain pre s post where bs: "bs = pre @ (s, True) # post" and x: "x = span pre"
      and le: "uint (ALIGN sz) \<le> uint s"
      and nf: "\<forall>(s', f') \<in> set pre. \<not> (f' \<and> uint (ALIGN sz) \<le> uint s')"
      using first_fit_Some [OF Some] by auto
    obtain h1 where h1: "split_block h x (ALIGN sz) = Some h1"
        "heap_rep h1 (pre @ carve (ALIGN sz) s True @ post)" "bytes h1 = bytes h"
      using split_block_rep [of h pre s True post "ALIGN sz"] rep bs le x by auto
    obtain s' rest where carve: "\<And>f. carve (ALIGN sz) s f = (s', f) # rest"
      using carve_Cons by metis
    obtain h2 where h2: "set_free h1 x False = Some h2"
        "heap_rep h2 (pre @ (s', False) # rest @ post)" "bytes h2 = bytes h1"
      using set_free_rep [of h1 pre s' True "rest @ post" False] h1(2) x by (auto simp: carve)
    have "malloc h sz = Some (h2, Ptr (x + 12))"
      using sz ff Some h1(1) h2(1) by (simp add: malloc_def)
    moreover have "alloc_abs (ALIGN sz) bs = pre @ (s', False) # rest @ post"
      unfolding bs using alloc_abs_split [OF nf le, of post] by (simp add: carve)
    ultimately show ?thesis using Some h1(3) h2(2,3) by simp
  qed
qed

lemma free_refines:
  assumes rep: "heap_rep h bs" and own: "(p, s) \<in> live 0 bs"
  shows "\<exists>h'. free h (Ptr p) = Some h' \<and> heap_rep h' (coalesce (release_abs p 0 bs)) \<and>
           bytes h' = bytes h"
proof -
  obtain pre post where bs: "bs = pre @ (s, False) # post" and p: "p = span pre + 12"
    using live_split [OF own] by auto
  obtain h1 where h1: "set_free h (span pre) True = Some h1" "bytes h1 = bytes h"
      "heap_rep h1 (pre @ (s, True) # post)"
    using set_free_rep rep bs by blast
  have rel: "release_abs p 0 bs = pre @ (s, True) # post"
    using release_abs_split [of 0 pre s False post] by (simp add: bs p)
  let ?bs = "release_abs p 0 bs"
  have rep1: "seg (headers h1) (free_list h1) 0 ?bs None" "span ?bs = 1048576" "aligned ?bs"
      "4 \<le> last_size ?bs"
    using h1(3) unfolding heap_rep_def rel by auto
  moreover have "free_list h1 = Some 0" "?bs \<noteq> []"
    using rep1(1) by (cases pre; auto simp: rel)+
  ultimately obtain H' where H': "merge_from (headers h1) (Some 0) = Some H'"
      "seg H' (Some 0) 0 (coalesce ?bs) None"
    using merge_from_seg [of "headers h1" 0 ?bs] by auto
  have "0 \<le> p" "p < 1048576"
  proof -
    have "span pre + (12 + uint s + span post) = 1048576" using rep by (simp add: bs heap_rep_def)
    moreover have "0 < uint s + span post"
    proof (cases post)
      case Nil
      then show ?thesis using rep by (simp add: bs heap_rep_def last_size_Cons)
    next
      case (Cons b bs')
      moreover obtain a g where "b = (a, g)" by (cases b)
      ultimately have "span post = 12 + uint a + span bs'" by simp
      then show ?thesis using span_nonneg [of bs'] uint_ge_0 [of s] uint_ge_0 [of a] by linarith
    qed
    ultimately show "0 \<le> p" "p < 1048576" using span_nonneg [of pre] p by linarith+
  qed
  then have "free h (Ptr p) = Some (h1\<lparr>headers := H'\<rparr>)"
    using h1(1) H'(1) \<open>free_list h1 = Some 0\<close> by (simp add: free_def p merge_free_blocks_def)
  then show ?thesis
    using H'(2) \<open>free_list h1 = Some 0\<close> rep1 h1(2) coalesce_props [of ?bs 0] coalesce_last [of ?bs]
    by (simp add: heap_rep_def)
qed

section \<open>The heap interface\<close>

text \<open>
  The block list of a heap, read off its headers, and the regions the callers
  own: the payloads of the blocks that are not free.
\<close>

partial_function (option) blocks_from ::
  "(int \<Rightarrow> mem_block option) \<Rightarrow> int option \<Rightarrow> blk list option" where
  "blocks_from H current =
     (case current of
        None \<Rightarrow> Some []
      | Some a \<Rightarrow>
          (case H a of
             None \<Rightarrow> None
           | Some b \<Rightarrow>
               Option.bind (blocks_from H (mb_next b)) (\<lambda>bs.
                 Some ((mb_size b, mb_free b) # bs))))"

definition blocks :: "heap \<Rightarrow> blk list" where
  "blocks h = (case blocks_from (headers h) (free_list h) of None \<Rightarrow> [] | Some bs \<Rightarrow> bs)"

definition heap_inv :: "heap \<Rightarrow> bool" where
  "heap_inv h \<longleftrightarrow> heap_rep h (blocks h)"

definition owned :: "heap \<Rightarrow> (int \<times> u32) set" where
  "owned h = live 0 (blocks h)"

lemma blocks_from_None: "blocks_from H None = Some []"
  by (subst blocks_from.simps) simp

lemma blocks_from_Some:
  "H a = Some b \<Longrightarrow>
     blocks_from H (Some a) = map_option ((#) (mb_size b, mb_free b)) (blocks_from H (mb_next b))"
  by (subst blocks_from.simps) (auto simp: map_conv_bind_option comp_def)

lemma blocks_from_seg: "seg H p a bs None \<Longrightarrow> blocks_from H p = Some bs"
  by (induction bs arbitrary: p a rule: span.induct)
     (auto simp: blocks_from_None blocks_from_Some split: option.splits)

lemma heap_rep_blocks: "heap_rep h bs \<Longrightarrow> blocks h = bs \<and> heap_inv h"
  by (auto simp: heap_rep_def heap_inv_def blocks_def blocks_from_seg)

text \<open>A fresh heap is one free block that spans the pool.\<close>

lemma init_rep: "heap_rep (init_memory_manager h) [(1048564, True)]"
  by (simp add: heap_rep_def init_memory_manager_def MEMORY_POOL_SIZE_def SIZEOF_MEM_BLOCK_def
      last_size_Cons)

lemma live_alloc:
  assumes ff: "first_fit sz 0 bs = Some x" and al: "aligned bs" "uint sz mod 4 = 0"
  shows "\<exists>s. uint sz \<le> uint s \<and> uint s < uint sz + 16 \<and> x mod 4 = 0 \<and>
           (x + 12, s) \<notin> live 0 bs \<and> live 0 (alloc_abs sz bs) = insert (x + 12, s) (live 0 bs)"
proof -
  obtain pre s post where bs: "bs = pre @ (s, True) # post" and x: "x = span pre"
      and le: "uint sz \<le> uint s" and nf: "\<forall>(s', f') \<in> set pre. \<not> (f' \<and> uint sz \<le> uint s')"
    using first_fit_Some [OF ff] by auto
  have new: "uint (s - sz - 12) = uint s - uint sz - 12" if "uint sz + 16 \<le> uint s"
    using that by (simp add: uint_sub_if')
  let ?s = "if uint sz + 16 \<le> uint s then sz else s"
  have "live 0 (alloc_abs sz bs) = insert (x + 12, ?s) (live 0 bs)"
    unfolding bs alloc_abs_split [OF nf le] using new
    by (auto simp: live_append carve_def x algebra_simps)
  moreover have "(x + 12, ?s) \<notin> live 0 bs"
  proof
    assume "(x + 12, ?s) \<in> live 0 bs"
    then consider "(x + 12, ?s) \<in> live 0 pre" | "(x + 12, ?s) \<in> live (x + 12 + uint s) post"
      by (auto simp: bs live_append x)
    then show False
    proof cases
      case 1
      then show False using live_bounds [OF 1] x uint_ge_0 [of ?s] by linarith
    next
      case 2
      then show False using live_bounds [OF 2] uint_ge_0 [of s] by linarith
    qed
  qed
  moreover have "x mod 4 = 0" using al(1) span_mod4 by (simp add: bs x)
  ultimately show ?thesis using le by (intro exI [of _ ?s]) auto
qed

lemma live_release:
  assumes "(p, s) \<in> live 0 bs"
  shows "live 0 (release_abs p 0 bs) = live 0 bs - {(p, s)}"
proof -
  obtain pre post where bs: "bs = pre @ (s, False) # post" and p: "p = span pre + 12"
    using live_split [OF assms] by auto
  have "(p, s) \<notin> live 0 pre" "(p, s) \<notin> live (span pre + 12 + uint s) post"
    using live_bounds [of p s 0 pre] live_bounds [of p s "span pre + 12 + uint s" post]
      uint_ge_0 [of s] p by force+
  then show ?thesis
    using release_abs_split [of 0 pre s False post] by (auto simp: bs p live_append)
qed

text \<open>
  The contract the clients of the heap rely on: every call returns, an
  allocation hands out a fresh region that overlaps no other region in use, and
  releasing a region takes exactly that region out of use.
\<close>

locale allocator =
  fixes inv :: "'h \<Rightarrow> bool"
    and alloc :: "'h \<Rightarrow> u32 \<Rightarrow> ('h \<times> ptr) option"
    and release :: "'h \<Rightarrow> ptr \<Rightarrow> 'h option"
    and regions :: "'h \<Rightarrow> (int \<times> u32) set"
  assumes alloc_returns: "inv h \<Longrightarrow> \<exists>h' p. alloc h n = Some (h', p) \<and> inv h'"
    and alloc_null: "inv h \<Longrightarrow> alloc h n = Some (h', NULL) \<Longrightarrow> h' = h"
    and alloc_ptr: "inv h \<Longrightarrow> alloc h n = Some (h', Ptr p) \<Longrightarrow>
      \<exists>s. (uint n \<le> 4294967292 \<longrightarrow> uint n \<le> uint s) \<and> (p, s) \<notin> regions h \<and>
          regions h' = insert (p, s) (regions h)"
    and release_region: "inv h \<Longrightarrow> (p, s) \<in> regions h \<Longrightarrow>
      \<exists>h'. release h (Ptr p) = Some h' \<and> inv h' \<and> regions h' = regions h - {(p, s)}"
    and release_null: "release h NULL = Some h"
    and regions_disjoint: "inv h \<Longrightarrow> (p, s) \<in> regions h \<Longrightarrow> (p', s') \<in> regions h \<Longrightarrow>
      (p, s) \<noteq> (p', s') \<Longrightarrow> p + uint s < p' \<or> p' + uint s' < p"
begin

lemma region_unique:
  assumes "inv h" "(p, s) \<in> regions h" "(p, s') \<in> regions h"
  shows "s = s'"
proof (rule ccontr)
  assume "s \<noteq> s'"
  then have "p + uint s < p \<or> p + uint s' < p" using regions_disjoint assms by blast
  then show False using uint_ge_0 [of s] uint_ge_0 [of s'] by linarith
qed

lemma alloc_inv: "inv h \<Longrightarrow> alloc h n = Some (h', p) \<Longrightarrow> inv h'"
  using alloc_returns [of h n] by auto

text \<open>Giving back what was just handed out restores the regions in use.\<close>

lemma alloc_release:
  assumes "inv h" "alloc h n = Some (h1, p)"
  shows "\<exists>h2. release h1 p = Some h2 \<and> inv h2 \<and> regions h2 = regions h"
proof (cases p)
  case NULL
  then show ?thesis using assms alloc_null release_null by auto
next
  case (Ptr x)
  then obtain s where "(x, s) \<notin> regions h" "regions h1 = insert (x, s) (regions h)"
    using assms alloc_ptr by blast
  then show ?thesis using release_region [of h1 x s] alloc_inv [OF assms] Ptr by auto
qed

end

definition malloc_post :: "heap \<Rightarrow> u32 \<Rightarrow> heap \<Rightarrow> ptr \<Rightarrow> bool" where
  "malloc_post h n h' p \<longleftrightarrow>
     heap_inv h' \<and> bytes h' = bytes h \<and>
     (case p of
        NULL \<Rightarrow> h' = h \<and> (n = 0 \<or> (\<forall>(s, f) \<in> set (blocks h). f \<longrightarrow> uint s < uint (ALIGN n)))
      | Ptr x \<Rightarrow> n \<noteq> 0 \<and> \<not> (\<forall>(s, f) \<in> set (blocks h). f \<longrightarrow> uint s < uint (ALIGN n)) \<and>
          x mod 4 = 0 \<and> 12 \<le> x \<and>
          (\<exists>s. uint (ALIGN n) \<le> uint s \<and> uint s < uint (ALIGN n) + 16 \<and> x + uint s \<le> 1048576 \<and>
               (x, s) \<notin> owned h \<and> owned h' = insert (x, s) (owned h)))"

lemma malloc_spec:
  assumes "heap_inv h"
  shows "\<exists>h' p. malloc h n = Some (h', p) \<and> malloc_post h n h' p"
proof (cases "n = 0")
  case True
  then show ?thesis using assms by (simp add: malloc_def malloc_post_def)
next
  case False
  let ?ff = "first_fit (ALIGN n) 0 (blocks h)"
  have rep: "heap_rep h (blocks h)" using assms by (simp add: heap_inv_def)
  obtain h' where h': "malloc h n = Some (h', case ?ff of None \<Rightarrow> NULL | Some x \<Rightarrow> Ptr (x + 12))"
      "heap_rep h' (alloc_abs (ALIGN n) (blocks h))" "bytes h' = bytes h" "?ff = None \<longrightarrow> h' = h"
    using malloc_refines [OF rep False] by (elim exE conjE) (rule that)
  note bl = heap_rep_blocks [OF h'(2)]
  show ?thesis
  proof (cases ?ff)
    case None
    then have "\<forall>(s, f) \<in> set (blocks h). f \<longrightarrow> uint s < uint (ALIGN n)"
      by (auto simp: first_fit_None not_le)
    then have "malloc_post h n h' NULL" using h'(3,4) bl None by (simp add: malloc_post_def)
    then show ?thesis using h'(1) None by auto
  next
    case (Some x)
    have "\<not> (\<forall>(s, f) \<in> set (blocks h). f \<longrightarrow> uint s < uint (ALIGN n))"
      using Some first_fit_None [of "ALIGN n" 0 "blocks h"] by (auto simp: not_le)
    moreover obtain s where s: "uint (ALIGN n) \<le> uint s" "uint s < uint (ALIGN n) + 16" "x mod 4 = 0"
        "(x + 12, s) \<notin> owned h" "owned h' = insert (x + 12, s) (owned h)"
      using live_alloc [OF Some] rep bl by (auto simp: owned_def heap_rep_def)
    moreover have "12 \<le> x + 12" "x + 12 + uint s \<le> 1048576"
      using live_bounds [of "x + 12" s 0 "blocks h'"] s(5) h'(2) bl
      by (simp_all add: owned_def heap_rep_def)
    moreover have "(x + 12) mod 4 = 0" using s(3) by presburger
    ultimately have "malloc_post h n h' (Ptr (x + 12))"
      using h'(3) bl False by (auto simp: malloc_post_def)
    then show ?thesis using h'(1) Some by auto
  qed
qed

lemma malloc_post_of: "heap_inv h \<Longrightarrow> malloc h n = Some (h', p) \<Longrightarrow> malloc_post h n h' p"
  using malloc_spec [of h n] by auto

lemma free_spec:
  assumes "heap_inv h" "(p, s) \<in> owned h"
  obtains h' where "free h (Ptr p) = Some h'" "heap_inv h'" "bytes h' = bytes h"
    "owned h' = owned h - {(p, s)}" "blocks h' = coalesce (release_abs p 0 (blocks h))"
proof -
  have rep: "heap_rep h (blocks h)" using assms by (simp add: heap_inv_def)
  have own: "(p, s) \<in> live 0 (blocks h)" using assms(2) by (simp add: owned_def)
  obtain h' where h': "free h (Ptr p) = Some h'" "bytes h' = bytes h"
      "heap_rep h' (coalesce (release_abs p 0 (blocks h)))"
    using free_refines [OF rep own] by blast
  have "span (release_abs p 0 (blocks h)) = 1048576"
    using rep live_split [OF own] release_abs_split [of 0 _ s False] by (auto simp: heap_rep_def)
  then have "owned h' = owned h - {(p, s)}"
    using heap_rep_blocks [OF h'(3)] coalesce_props [of "release_abs p 0 (blocks h)" 0]
      live_release [OF own] by (simp add: owned_def)
  then show ?thesis using that h' heap_rep_blocks [OF h'(3)] by blast
qed

interpretation kheap: allocator heap_inv malloc free owned
proof
  fix h n assume "heap_inv h"
  then show "\<exists>h' p. malloc h n = Some (h', p) \<and> heap_inv h'"
    using malloc_spec [of h n] by (auto simp: malloc_post_def)
next
  fix h n h' assume "heap_inv h" "malloc h n = Some (h', NULL)"
  then show "h' = h" using malloc_post_of [of h n h' NULL] by (simp add: malloc_post_def)
next
  fix h n h' p assume "heap_inv h" "malloc h n = Some (h', Ptr p)"
  then obtain s where "uint (ALIGN n) \<le> uint s" "(p, s) \<notin> owned h" "owned h' = insert (p, s) (owned h)"
    using malloc_post_of [of h n h' "Ptr p"] by (auto simp: malloc_post_def)
  moreover note ALIGN_ge [of n]
  ultimately show "\<exists>s. (uint n \<le> 4294967292 \<longrightarrow> uint n \<le> uint s) \<and> (p, s) \<notin> owned h \<and>
          owned h' = insert (p, s) (owned h)"
    by (intro exI [of _ s]) auto
next
  fix h p s assume "heap_inv h" "(p, s) \<in> owned h"
  then show "\<exists>h'. free h (Ptr p) = Some h' \<and> heap_inv h' \<and> owned h' = owned h - {(p, s)}"
    by (rule free_spec) blast
next
  fix h show "free h NULL = Some h" by (simp add: free_def)
next
  fix h p s p' s' assume "(p, s) \<in> owned h" "(p', s') \<in> owned h" "(p, s) \<noteq> (p', s')"
  then show "p + uint s < p' \<or> p' + uint s' < p"
    unfolding owned_def by (rule live_other_disjoint)
qed

section \<open>Properties of malloc and free\<close>

lemma coalesce_carved:
  assumes "uint sz + 16 \<le> uint s"
  shows "no_adjacent_free (pre @ (s, True) # post) \<Longrightarrow>
    coalesce (pre @ (sz, True) # (s - sz - 12, True) # post) = pre @ (s, True) # post"
proof (induction pre rule: no_adjacent_free.induct [case_names Two Empty One])
  case (Two s1 f1 s2 f2 bs)
  then show ?case by auto
next
  case Empty
  have "sz + (12 + (s - sz - 12)) = s" by simp
  then show ?case using Empty coalesce_id by simp
next
  case (One v)
  have "sz + (12 + (s - sz - 12)) = s" by simp
  then show ?case using One coalesce_id by (cases v) simp
qed

text \<open>
  C1: In a well-formed heap malloc always returns, for every size, and writes no payload
  byte. The size is rounded up to a multiple of four; the three largest sizes wrap and are
  rounded to zero. It returns NULL exactly when the size is zero or no free block
  is as large as the rounded size, and then the heap is unchanged. Otherwise the
  pointer is 4-byte aligned, the region lies inside the pool past a header, is at least
  as large as the rounded size (so as the requested one, unless that wrapped) and less
  than 16 bytes larger, was not in use, is disjoint from every region in use
  before, and is the only one added.
\<close>
theorem malloc_correct:
  assumes "heap_inv h"
  shows "\<exists>h' p. malloc h n = Some (h', p) \<and> heap_inv h' \<and> bytes h' = bytes h \<and>
    (p = NULL \<longleftrightarrow> n = 0 \<or> (\<forall>(s, f) \<in> set (blocks h). f \<longrightarrow> uint s < rounded n)) \<and>
    (p = NULL \<longrightarrow> h' = h) \<and>
    (\<forall>x. p = Ptr x \<longrightarrow>
       (\<exists>s. rounded n \<le> uint s \<and> uint s < rounded n + 16 \<and> (uint n \<le> 4294967292 \<longrightarrow> uint n \<le> uint s) \<and>
            x mod 4 = 0 \<and> 12 \<le> x \<and> x + uint s \<le> 1048576 \<and>
            owned h' = insert (x, s) (owned h) \<and> (x, s) \<notin> owned h \<and>
            (\<forall>(y, t) \<in> owned h. x + uint s \<le> y \<or> y + uint t \<le> x)))"
proof -
  obtain h' p where m: "malloc h n = Some (h', p)" and post: "malloc_post h n h' p"
    using malloc_spec [OF assms(1)] by blast
  show ?thesis
  proof (cases p)
    case NULL
    then show ?thesis using m post by (auto simp: malloc_post_def ALIGN_rounded)
  next
    case (Ptr x)
    then obtain s where s: "uint (ALIGN n) \<le> uint s" "x mod 4 = 0" "12 \<le> x" "x + uint s \<le> 1048576"
        "(x, s) \<notin> owned h" "owned h' = insert (x, s) (owned h)" "uint s < uint (ALIGN n) + 16"
      using post by (auto simp: malloc_post_def)
    have "heap_inv h'" using post by (simp add: malloc_post_def)
    then have "\<forall>(y, t) \<in> owned h. x + uint s \<le> y \<or> y + uint t \<le> x"
      using kheap.regions_disjoint [of h' x s] s(5,6) by fastforce
    then show ?thesis
      using m post Ptr s ALIGN_ge [of n] by (fastforce simp: malloc_post_def ALIGN_rounded)
  qed
qed

text \<open>
  C2: Freeing a region that is in use always returns, takes exactly that region
  out of use, leaves every payload byte as it was and leaves no two neighbouring
  free blocks.
\<close>
theorem free_correct:
  assumes "heap_inv h" and "(p, s) \<in> owned h"
  shows "\<exists>h'. free h (Ptr p) = Some h' \<and> heap_inv h' \<and> owned h' = owned h - {(p, s)} \<and>
           bytes h' = bytes h \<and> no_adjacent_free (blocks h')"
  by (rule free_spec [OF assms]) (auto simp: coalesce_no_adjacent)

text \<open>
  C18: Freeing what malloc just returned gives back the block list malloc started
  from, when that list had no two neighbouring free blocks.
\<close>
theorem malloc_free_restores:
  assumes inv: "heap_inv h" and naf: "no_adjacent_free (blocks h)"
    and m: "malloc h n = Some (h1, Ptr p)" and f: "free h1 (Ptr p) = Some h2"
  shows "blocks h2 = blocks h"
proof -
  have rep: "heap_rep h (blocks h)" and n: "n \<noteq> 0"
    using inv m by (auto simp: heap_inv_def malloc_def)
  let ?ff = "first_fit (ALIGN n) 0 (blocks h)"
  obtain x where x: "?ff = Some x" "p = x + 12" and b1: "blocks h1 = alloc_abs (ALIGN n) (blocks h)"
    using malloc_refines [OF rep n] m heap_rep_blocks by (auto split: option.splits)
  obtain pre s post where bs: "blocks h = pre @ (s, True) # post" and xs: "x = span pre"
      and le: "uint (ALIGN n) \<le> uint s"
      and nf: "\<forall>(s', f') \<in> set pre. \<not> (f' \<and> uint (ALIGN n) \<le> uint s')"
    using first_fit_Some [OF x(1)] by auto
  have b1': "blocks h1 = pre @ carve (ALIGN n) s False @ post"
    using alloc_abs_split [OF nf le] by (simp add: b1 bs)
  obtain s' rest where c: "\<And>g. carve (ALIGN n) s g = (s', g) # rest" using carve_Cons by metis
  have "(p, s') \<in> owned h1" by (simp add: owned_def b1' c live_append x xs)
  moreover have "heap_inv h1" using kheap.alloc_inv inv m by blast
  ultimately have "blocks h2 = coalesce (release_abs p 0 (blocks h1))"
    using free_spec [of h1 p s'] f by (metis option.inject)
  also have "release_abs p 0 (blocks h1) = pre @ carve (ALIGN n) s True @ post"
    using release_abs_split [of 0 pre s' False "rest @ post"] by (simp add: b1' c x xs)
  also have "coalesce \<dots> = blocks h"
    using coalesce_carved [of "ALIGN n" s pre post] naf coalesce_id by (auto simp: carve_def bs)
  finally show ?thesis .
qed

section \<open>Properties of realloc, calloc and the usage report\<close>

lemma copy_bytes_disjoint:
  "d + int n \<le> s \<or> s + int n \<le> d \<Longrightarrow>
     copy_bytes m d s n = (\<lambda>a. if d \<le> a \<and> a < d + int n then m (s + (a - d)) else m a)"
proof (induction n arbitrary: m d s)
  case 0
  show ?case by (rule ext) auto
next
  case (Suc n)
  have "copy_bytes m d s (Suc n) =
      (\<lambda>a. if d + 1 \<le> a \<and> a < d + 1 + int n then (m(d := m s)) (s + 1 + (a - (d + 1)))
           else (m(d := m s)) a)"
  proof -
    have "d + 1 + int n \<le> s + 1 \<or> s + 1 + int n \<le> d + 1" using Suc.prems by auto
    then show ?thesis unfolding copy_bytes.simps by (rule Suc.IH)
  qed
  also have "\<dots> = (\<lambda>a. if d \<le> a \<and> a < d + int (Suc n) then m (s + (a - d)) else m a)"
    using Suc.prems by (intro ext) auto
  finally show ?case .
qed

lemma set_bytes_eq:
  "set_bytes m p c n = (\<lambda>a. if p \<le> a \<and> a < p + int n then c else m a)"
  by (induction n arbitrary: m p) (auto simp: fun_eq_iff)

lemma owned_header:
  assumes "heap_inv h" "(p, s) \<in> owned h"
  obtains pre post n where "blocks h = pre @ (s, False) # post" "p = span pre + 12"
    "headers h (p - 12) = Some \<lparr>mb_size = s, mb_next = n, mb_free = False\<rparr>" "uint s mod 4 = 0"
proof -
  have "(p, s) \<in> live 0 (blocks h)" using assms(2) by (simp add: owned_def)
  then obtain pre post where b: "blocks h = pre @ (s, False) # post" "p = span pre + 12"
    using live_split by fastforce
  moreover have "heap_rep h (pre @ (s, False) # post)" using assms(1) b by (simp add: heap_inv_def)
  ultimately show ?thesis using that unfolding heap_rep_seg by auto
qed

lemma ALIGN_le:
  fixes n s :: u32
  assumes "uint n \<le> uint s" "uint s mod 4 = 0" shows "uint (ALIGN n) \<le> uint s"
proof -
  have "uint s \<le> 4294967292" using assms(2) uint_u32_bounds(2) [of s] by presburger
  then show ?thesis using assms by (simp add: ALIGN_uint) presburger
qed

lemma heap_inv_bytes [simp]:
  "heap_inv (h\<lparr>bytes := m\<rparr>) = heap_inv h" "owned (h\<lparr>bytes := m\<rparr>) = owned h"
  "blocks (h\<lparr>bytes := m\<rparr>) = blocks h"
  by (simp_all add: heap_inv_def owned_def blocks_def heap_rep_def)

text \<open>Shrinking in place.\<close>

lemma realloc_shrink:
  assumes inv: "heap_inv h" and own: "(p, s) \<in> owned h" and n: "n \<noteq> 0" "uint n \<le> uint s"
  shows "\<exists>h' s'. realloc h (Ptr p) n = Some (h', Ptr p) \<and> heap_inv h' \<and> uint n \<le> uint s' \<and>
           owned h' = insert (p, s') (owned h - {(p, s)}) \<and> bytes h' = bytes h"
proof -
  obtain pre post nx where b: "blocks h = pre @ (s, False) # post" "p = span pre + 12"
      "headers h (p - 12) = Some \<lparr>mb_size = s, mb_next = nx, mb_free = False\<rparr>" "uint s mod 4 = 0"
    using owned_header [OF inv own] .
  have rep: "heap_rep h (pre @ (s, False) # post)" using inv b(1) by (simp add: heap_inv_def)
  obtain h' where h': "split_block h (span pre) (ALIGN n) = Some h'" "bytes h' = bytes h"
      "heap_rep h' (pre @ carve (ALIGN n) s False @ post)"
    using split_block_rep [OF rep ALIGN_le [OF n(2) b(4)] ALIGN_mod4] by auto
  have "realloc h (Ptr p) n = Some (h', Ptr p)"
    using n b h'(1) by (simp add: realloc_def word_le_def)
  moreover obtain s' where s': "uint n \<le> uint s'" "owned h' = insert (p, s') (owned h - {(p, s)})"
  proof -
    let ?A = "ALIGN n"
    have new: "uint (s - ?A - 12) = uint s - uint ?A - 12" if "uint ?A + 16 \<le> uint s"
      using that by (simp add: uint_sub_if')
    let ?s = "if uint ?A + 16 \<le> uint s then ?A else s"
    have ge: "uint n \<le> uint ?A" using ALIGN_ge [of n] n(2) b(4) uint_u32_bounds(2) [of s] by presburger
    have out: "(p, s) \<notin> live 0 pre" "(p, s) \<notin> live (span pre + 12 + uint s) post"
      using live_bounds [of p s 0 pre] live_bounds [of p s "span pre + 12 + uint s" post]
        uint_ge_0 [of s] b(2) by force+
    have "owned h' = insert (p, ?s) (owned h - {(p, s)})"
      using heap_rep_blocks [OF h'(3)] out new
      by (auto simp: owned_def b live_append carve_def algebra_simps)
    then show ?thesis using that [of ?s] ge n(2) by simp
  qed
  ultimately show ?thesis using h' heap_rep_blocks [OF h'(3)] by blast
qed

text \<open>Moving to a larger block.\<close>

lemma realloc_move:
  assumes inv: "heap_inv h" and own: "(p, s) \<in> owned h" and n: "uint s < uint n" "uint n \<le> 4294967292"
    and m: "malloc h n = Some (h1, Ptr x)"
  shows "\<exists>h' s'. realloc h (Ptr p) n = Some (h', Ptr x) \<and> heap_inv h' \<and>
           uint (ALIGN n) \<le> uint s' \<and> owned h' = insert (x, s') (owned h - {(p, s)}) \<and>
           bytes h' = copy_bytes (bytes h) x p (unat s) \<and>
           (x, s') \<notin> owned h \<and> (\<forall>(y, t) \<in> owned h. x + uint s' \<le> y \<or> y + uint t \<le> x)"
proof -
  obtain s' where post: "heap_inv h1" "bytes h1 = bytes h" and s': "uint (ALIGN n) \<le> uint s'"
      "(x, s') \<notin> owned h" "owned h1 = insert (x, s') (owned h)"
    using malloc_post_of [OF inv m] by (auto simp: malloc_post_def)
  have own1: "(p, s) \<in> owned h1" using own s'(3) by simp
  obtain nx where hd: "headers h (p - 12) = Some \<lparr>mb_size = s, mb_next = nx, mb_free = False\<rparr>"
    using owned_header [OF inv own] by metis
  obtain nx1 where hd1: "headers h1 (p - 12) = Some \<lparr>mb_size = s, mb_next = nx1, mb_free = False\<rparr>"
    using owned_header [OF post(1) own1] by metis
  moreover obtain nx2 where "headers h1 (x - 12) = Some \<lparr>mb_size = s', mb_next = nx2, mb_free = False\<rparr>"
    using owned_header [OF post(1), of x s'] s'(3) by (metis insertI1)
  moreover have "s \<le> s'" using s'(1) n ALIGN_ge [of n] by (simp add: word_le_def)
  ultimately have cp: "memcpy h1 x p s = Some (h1\<lparr>bytes := copy_bytes (bytes h) x p (unat s)\<rparr>)"
    using post(2) by (simp add: memcpy_def within_block_def)
  obtain h3 where h3: "free (h1\<lparr>bytes := copy_bytes (bytes h) x p (unat s)\<rparr>) (Ptr p) = Some h3" "heap_inv h3"
      "bytes h3 = copy_bytes (bytes h) x p (unat s)" "owned h3 = owned h1 - {(p, s)}"
    using free_spec [of "h1\<lparr>bytes := copy_bytes (bytes h) x p (unat s)\<rparr>" p s] post own1 by auto
  have "n \<noteq> 0" "\<not> n \<le> s" "s < n"
    using n uint_ge_0 [of s] by (auto simp: word_le_def word_less_def)
  then have "realloc h (Ptr p) n = Some (h3, Ptr x)"
    using m hd hd1 cp h3(1) by (simp add: realloc_def Let_def)
  moreover have "owned h3 = insert (x, s') (owned h - {(p, s)})"
    using h3(4) s'(2,3) own by auto
  moreover have "\<forall>(y, t) \<in> owned h. x + uint s' \<le> y \<or> y + uint t \<le> x"
    using kheap.regions_disjoint [OF post(1), of x s'] s'(2,3) by fastforce
  ultimately show ?thesis using h3(2,3) s' by blast
qed

text \<open>A size of the usual range: in place, moved, or refused.\<close>

lemma realloc_sized:
  assumes inv: "heap_inv h" and own: "(p, s) \<in> owned h"
    and n: "n \<noteq> 0" "uint n \<le> 4294967292"
  shows "realloc h (Ptr p) n = Some (h, NULL) \<and> uint s < uint n \<and> (\<forall>(t, f) \<in> set (blocks h). f \<longrightarrow> uint t < rounded n) \<or>
    (\<exists>h' x s'. realloc h (Ptr p) n = Some (h', Ptr x) \<and> heap_inv h' \<and> uint n \<le> uint s' \<and>
       owned h' = insert (x, s') (owned h - {(p, s)}) \<and>
       (\<forall>i. 0 \<le> i \<and> i < min (uint s) (uint n) \<longrightarrow> bytes h' (x + i) = bytes h (p + i)) \<and>
       (\<forall>(y, t) \<in> owned h - {(p, s)}. \<forall>i. 0 \<le> i \<and> i < uint t \<longrightarrow>
          bytes h' (y + i) = bytes h (y + i)))"
proof (cases "uint n \<le> uint s")
  case True
  then show ?thesis using realloc_shrink [OF inv own n(1)] by fastforce
next
  case False
  obtain h1 q where m: "malloc h n = Some (h1, q)" using malloc_spec [OF inv] by blast
  show ?thesis
  proof (cases q)
    case NULL
    obtain nx where "headers h (p - 12) = Some \<lparr>mb_size = s, mb_next = nx, mb_free = False\<rparr>"
      using owned_header [OF inv own] by metis
    moreover have "h1 = h" using kheap.alloc_null inv m NULL by blast
    ultimately have "realloc h (Ptr p) n = Some (h, NULL)"
      using m NULL n(1) False by (simp add: realloc_def word_le_def)
    moreover have "\<forall>(t, f) \<in> set (blocks h). f \<longrightarrow> uint t < rounded n"
      using malloc_post_of [OF inv m] NULL n(1) by (simp add: malloc_post_def ALIGN_rounded)
    ultimately show ?thesis using False by auto
  next
    case (Ptr x)
    obtain h' s' where h': "realloc h (Ptr p) n = Some (h', Ptr x)" "heap_inv h'"
        "uint (ALIGN n) \<le> uint s'" "owned h' = insert (x, s') (owned h - {(p, s)})"
        "bytes h' = copy_bytes (bytes h) x p (unat s)"
        and disj: "\<forall>(y, t) \<in> owned h. x + uint s' \<le> y \<or> y + uint t \<le> x"
      using realloc_move [OF inv own _ n(2) m [unfolded Ptr]] False by auto
    have ns: "uint n \<le> uint s'" using h'(3) ALIGN_ge [of n] n(2) by linarith
    have "x + uint s' \<le> p \<or> p + uint s \<le> x" using disj own by blast
    then have "x + uint s \<le> p \<or> p + uint s \<le> x" using False ns by linarith
    then have cp: "bytes h' = (\<lambda>a. if x \<le> a \<and> a < x + uint s then bytes h (p + (a - x)) else bytes h a)"
      using h'(5) copy_bytes_disjoint [of x "unat s" p "bytes h"] by simp
    have "\<forall>(y, t) \<in> owned h - {(p, s)}. \<forall>i. 0 \<le> i \<and> i < uint t \<longrightarrow> bytes h' (y + i) = bytes h (y + i)"
      using disj False ns by (fastforce simp: cp)
    moreover have "\<forall>i. 0 \<le> i \<and> i < min (uint s) (uint n) \<longrightarrow> bytes h' (x + i) = bytes h (p + i)"
      by (simp add: cp)
    ultimately show ?thesis using h'(1,2,4) ns by (intro disjI2 exI [of _ h'] exI [of _ x] exI [of _ s']) blast
  qed
qed

text \<open>The three largest sizes wrap: the new block is tiny, and the copy leaves it.\<close>

lemma realloc_wraps:
  assumes inv: "heap_inv h" and own: "(p, s) \<in> owned h" and n: "4294967292 < uint n" and s: "16 \<le> uint s"
  shows "realloc h (Ptr p) n = (if \<forall>(t, f) \<in> set (blocks h). \<not> f then Some (h, NULL) else None)"
proof -
  obtain h1 q where m: "malloc h n = Some (h1, q)" and post: "malloc_post h n h1 q" using malloc_spec [OF inv] by blast
  have r: "rounded n = 0" using n by (simp add: rounded_def)
  obtain nx where hd: "headers h (p - 12) = Some \<lparr>mb_size = s, mb_next = nx, mb_free = False\<rparr>"
    using owned_header [OF inv own] by metis
  have "p + uint s \<le> 1048576" "12 \<le> p"
    using live_bounds [of p s 0 "blocks h"] own inv by (simp_all add: owned_def heap_inv_def heap_rep_def)
  then have "uint s < uint n" using n by linarith
  then have lt: "n \<noteq> 0" "\<not> n \<le> s" "s < n" using n by (auto simp: word_le_def word_less_def)
  show ?thesis
  proof (cases q)
    case NULL
    then have "h1 = h" "\<forall>(t, f) \<in> set (blocks h). \<not> f"
      using post lt(1) r uint_ge_0 by (fastforce simp: malloc_post_def ALIGN_rounded not_less [symmetric])+
    then show ?thesis using m NULL hd lt by (simp add: realloc_def)
  next
    case (Ptr x)
    have inv1: "heap_inv h1" using post by (simp add: malloc_post_def)
    obtain s' where s': "uint s' < 16" "owned h1 = insert (x, s') (owned h)" and free: "\<not> (\<forall>(t, f) \<in> set (blocks h). \<not> f)"
      using post Ptr r by (auto simp: malloc_post_def ALIGN_rounded)
    obtain nx1 where "headers h1 (p - 12) = Some \<lparr>mb_size = s, mb_next = nx1, mb_free = False\<rparr>"
      using owned_header [OF inv1, of p s] own s'(2) by (metis insertCI)
    moreover obtain nx2 where "headers h1 (x - 12) = Some \<lparr>mb_size = s', mb_next = nx2, mb_free = False\<rparr>"
      using owned_header [OF inv1, of x s'] s'(2) by (metis insertI1)
    moreover have "\<not> s \<le> s'" using s s'(1) by (simp add: word_le_def)
    ultimately have "realloc h (Ptr p) n = None"
      using m Ptr hd lt by (simp add: realloc_def memcpy_def within_block_def Let_def)
    then show ?thesis by (simp only: if_not_P [OF free])
  qed
qed

text \<open>
  C8: realloc of a region in use, for every size. To zero it is free, with the result NULL. To a size
  up to 2^32 - 4 it always returns: it fails and leaves the heap unchanged only if the region is
  too small and no free block is large enough, and otherwise gives a region of at least
  the requested size that replaces the old one, whose first bytes, up to the smaller
  of the two sizes, are those of the old region; no byte of another region in
  use changes. For the three larger sizes, which wrap, it copies a region of 16 bytes
  or more past the end of the new one, unless no block is free.
\<close>
theorem realloc_preserves:
  assumes "heap_inv h" and "(p, s) \<in> owned h"
  shows "(n = 0 \<longrightarrow> (\<exists>h'. realloc h (Ptr p) n = Some (h', NULL) \<and> heap_inv h' \<and> owned h' = owned h - {(p, s)} \<and> bytes h' = bytes h)) \<and>
    (n \<noteq> 0 \<and> uint n \<le> 4294967292 \<longrightarrow>
       realloc h (Ptr p) n = Some (h, NULL) \<and> uint s < uint n \<and> (\<forall>(t, f) \<in> set (blocks h). f \<longrightarrow> uint t < rounded n) \<or>
       (\<exists>h' x s'. realloc h (Ptr p) n = Some (h', Ptr x) \<and> heap_inv h' \<and> uint n \<le> uint s' \<and>
          owned h' = insert (x, s') (owned h - {(p, s)}) \<and>
          (\<forall>i. 0 \<le> i \<and> i < min (uint s) (uint n) \<longrightarrow> bytes h' (x + i) = bytes h (p + i)) \<and>
          (\<forall>(y, t) \<in> owned h - {(p, s)}. \<forall>i. 0 \<le> i \<and> i < uint t \<longrightarrow>
             bytes h' (y + i) = bytes h (y + i)))) \<and>
    (4294967292 < uint n \<and> 16 \<le> uint s \<longrightarrow>
       realloc h (Ptr p) n = (if \<forall>(t, f) \<in> set (blocks h). \<not> f then Some (h, NULL) else None))"
proof (intro conjI impI)
  assume "n = 0"
  moreover obtain h' where "free h (Ptr p) = Some h'" "heap_inv h'" "bytes h' = bytes h" "owned h' = owned h - {(p, s)}"
    by (rule free_spec [OF assms])
  ultimately show "\<exists>h'. realloc h (Ptr p) n = Some (h', NULL) \<and> heap_inv h' \<and> owned h' = owned h - {(p, s)} \<and> bytes h' = bytes h"
    by (simp add: realloc_def)
next
  assume "n \<noteq> 0 \<and> uint n \<le> 4294967292"
  then show "realloc h (Ptr p) n = Some (h, NULL) \<and> uint s < uint n \<and> (\<forall>(t, f) \<in> set (blocks h). f \<longrightarrow> uint t < rounded n) \<or>
       (\<exists>h' x s'. realloc h (Ptr p) n = Some (h', Ptr x) \<and> heap_inv h' \<and> uint n \<le> uint s' \<and>
          owned h' = insert (x, s') (owned h - {(p, s)}) \<and>
          (\<forall>i. 0 \<le> i \<and> i < min (uint s) (uint n) \<longrightarrow> bytes h' (x + i) = bytes h (p + i)) \<and>
          (\<forall>(y, t) \<in> owned h - {(p, s)}. \<forall>i. 0 \<le> i \<and> i < uint t \<longrightarrow>
             bytes h' (y + i) = bytes h (y + i)))"
    by (elim conjE) (rule realloc_sized [OF assms])
next
  assume "4294967292 < uint n \<and> 16 \<le> uint s"
  then show "realloc h (Ptr p) n = (if \<forall>(t, f) \<in> set (blocks h). \<not> f then Some (h, NULL) else None)"
    by (elim conjE) (rule realloc_wraps [OF assms])
qed

text \<open>
  calloc whose (32-bit) product is not within three bytes of the address
  space either returns NULL and leaves the heap unchanged, or returns a fresh
  region whose first \<open>nmemb * size\<close> bytes are zero; all other bytes keep their
  values.
\<close>
theorem calloc_zeroes:
  assumes inv: "heap_inv h" and n: "uint (nmemb * sz) \<le> 4294967292"
  shows "calloc h nmemb sz = Some (h, NULL) \<or>
    (\<exists>h' x s. calloc h nmemb sz = Some (h', Ptr x) \<and> heap_inv h' \<and> uint (nmemb * sz) \<le> uint s \<and>
       (x, s) \<notin> owned h \<and> owned h' = insert (x, s) (owned h) \<and>
       (\<forall>a. bytes h' a = (if x \<le> a \<and> a < x + uint (nmemb * sz) then 0 else bytes h a)))"
proof -
  obtain h1 q where m: "malloc h (nmemb * sz) = Some (h1, q)"
    and post: "malloc_post h (nmemb * sz) h1 q"
    using malloc_spec [OF inv] by blast
  show ?thesis
  proof (cases q)
    case NULL
    then show ?thesis using m post by (simp add: calloc_def malloc_post_def)
  next
    case (Ptr x)
    then obtain s where s: "uint (ALIGN (nmemb * sz)) \<le> uint s" "(x, s) \<notin> owned h"
        "owned h1 = insert (x, s) (owned h)" and h1: "heap_inv h1" "bytes h1 = bytes h"
      using post by (auto simp: malloc_post_def)
    obtain nx where "headers h1 (x - 12) = Some \<lparr>mb_size = s, mb_next = nx, mb_free = False\<rparr>"
      using owned_header [OF h1(1), of x s] s(3) by (metis insertI1)
    moreover have "nmemb * sz \<le> s" using s(1) ALIGN_ge [of "nmemb * sz"] n by (simp add: word_le_def)
    ultimately have "calloc h nmemb sz = Some (h1\<lparr>bytes := set_bytes (bytes h1) x 0 (unat (nmemb * sz))\<rparr>, Ptr x)"
      using m Ptr by (simp add: calloc_def memset_def within_block_def)
    then show ?thesis
      using s h1 ALIGN_ge [of "nmemb * sz"] n
      by (intro disjI2 exI [of _ "h1\<lparr>bytes := set_bytes (bytes h1) x 0 (unat (nmemb * sz))\<rparr>"] exI [of _ x] exI [of _ s])
         (simp add: set_bytes_eq)
  qed
qed

fun used_abs :: "blk list \<Rightarrow> int" where
  "used_abs [] = 0"
| "used_abs ((s, f) # bs) = (if f then 0 else 12 + uint s) + used_abs bs"

lemma used_abs_bounds: "0 \<le> used_abs bs \<and> used_abs bs \<le> span bs"
  by (induction bs rule: used_abs.induct) (auto intro: add_increasing)

lemma used_from_None: "used_from H u None = Some u"
  by (subst used_from.simps) simp

lemma used_from_Some:
  "H a = Some b \<Longrightarrow> used_from H u (Some a) =
     used_from H (if \<not> mb_free b then u + (SIZEOF_MEM_BLOCK + mb_size b) else u) (mb_next b)"
  by (subst used_from.simps) simp

lemma used_from_seg:
  "seg H p a bs None \<Longrightarrow> uint u + span bs < 4294967296 \<Longrightarrow>
     \<exists>v. used_from H u p = Some v \<and> uint v = uint u + used_abs bs"
proof (induction bs arbitrary: p a u rule: span.induct)
  case 1
  then show ?case by (simp add: used_from_None)
next
  case (2 s f bs)
  then obtain b where b: "p = Some a" "H a = Some b" "mb_size b = s" "mb_free b = f"
    and tl: "seg H (mb_next b) (a + 12 + uint s) bs None"
    by (auto split: option.splits)
  let ?u = "if \<not> f then u + (12 + s) else u"
  have bound: "uint u + (12 + uint s + span bs) < 4294967296" using "2.prems"(2) by simp
  have "12 + uint s < 4294967296" "uint u + (12 + uint s) < 4294967296"
    using bound span_nonneg [of bs] uint_ge_0 [of u] by linarith+
  then have u: "uint ?u = uint u + (if f then 0 else 12 + uint s)" by (simp add: uint_plus_if')
  moreover have "uint ?u + span bs < 4294967296"
  proof -
    have "(if f then 0 else 12 + uint s) \<le> 12 + uint s" by simp
    then show ?thesis using bound unfolding u by linarith
  qed
  ultimately obtain v where "used_from H ?u (mb_next b) = Some v" "uint v = uint ?u + used_abs bs"
    using "2.IH" [OF tl] by blast
  then show ?case using b u by (cases f) (auto simp: used_from_Some SIZEOF_MEM_BLOCK_def)
qed

text \<open>
  The usage report of a well-formed heap returns, its 32-bit arithmetic does
  not wrap, and it is the rounded-down percentage of the pool that allocated
  blocks and their headers occupy, hence at most 100.
\<close>
theorem usage_percent_exact:
  assumes "heap_inv h"
  shows "\<exists>r. get_memory_usage_percent h = Some r \<and>
           uint r = used_abs (blocks h) * 100 div 1048576 \<and> uint r \<le> 100"
proof -
  have rep: "heap_rep h (blocks h)" using assms by (simp add: heap_inv_def)
  then obtain v where v: "used_from (headers h) 0 (free_list h) = Some v"
      "uint v = used_abs (blocks h)"
    using used_from_seg [of "headers h" "free_list h" 0 "blocks h" 0] by (auto simp: heap_rep_def)
  have b: "0 \<le> uint v" "uint v \<le> 1048576"
    using v(2) used_abs_bounds [of "blocks h"] rep by (auto simp: heap_rep_def)
  then have "uint (v * 100) = uint v * 100" by (simp add: uint_word_ariths)
  then have "uint (v * 100 div MEMORY_POOL_SIZE) = uint v * 100 div 1048576"
    by (simp add: uint_div_distrib)
  then show ?thesis using v b by (auto simp: get_memory_usage_percent_def)
qed

section \<open>Wrap-around and witnesses\<close>

definition boot_heap :: heap where
  "boot_heap = init_memory_manager \<lparr>headers = (\<lambda>_. None), bytes = (\<lambda>_. 0), free_list = None\<rparr>"

lemma boot_heap_rep: "heap_rep boot_heap [(1048564, True)]"
  by (simp add: boot_heap_def init_rep)

lemmas boot_heap_facts = heap_rep_blocks [OF boot_heap_rep, THEN conjunct1]
  heap_rep_blocks [OF boot_heap_rep, THEN conjunct2]

text \<open>
  The rounding in malloc wraps: a request for one of the three largest
  32-bit sizes is rounded to zero, so on the heap as initialised malloc returns
  a pointer (not NULL) to a block whose payload is empty.
\<close>
theorem malloc_wraps_to_empty_block:
  assumes "4294967293 \<le> uint n"
  shows "\<exists>h'. malloc boot_heap n = Some (h', Ptr 12) \<and> blocks h' = [(0, False), (1048552, True)]"
proof -
  have "ALIGN n = 0" "n \<noteq> 0" using ALIGN_wrap [of n] assms by auto
  then show ?thesis
    using malloc_refines [OF boot_heap_rep, of n] heap_rep_blocks by (auto simp: carve_def)
qed

theorem malloc_wraps_witness:
  "\<exists>h'. malloc boot_heap 4294967295 = Some (h', Ptr 12) \<and> blocks h' = [(0, False), (1048552, True)]"
  by (rule malloc_wraps_to_empty_block) simp

lemma boot_malloc:
  "\<exists>h1. malloc boot_heap 100 = Some (h1, Ptr 12) \<and> heap_inv h1 \<and>
     blocks h1 = [(100, False), (1048452, True)] \<and> owned h1 = {(12, 100)}"
proof -
  have "ALIGN 100 = 100" by (simp add: ALIGN_def ALIGNMENT_def)
  then obtain h1 where h1: "malloc boot_heap 100 = Some (h1, Ptr 12)"
      "heap_rep h1 [(100, False), (1048452, True)]"
    using malloc_refines [OF boot_heap_rep, of 100] by (auto simp: carve_def SIZEOF_MEM_BLOCK_def)
  then show ?thesis using heap_rep_blocks [OF h1(2)] by (simp add: owned_def)
qed

definition heap100 :: heap where
  "heap100 = (case malloc boot_heap 100 of None \<Rightarrow> boot_heap | Some (h1, _) \<Rightarrow> h1)"

lemma heap100_facts:
  "malloc boot_heap 100 = Some (heap100, Ptr 12)" "heap_inv heap100"
  "blocks heap100 = [(100, False), (1048452, True)]" "owned heap100 = {(12, 100)}"
proof -
  obtain h1 where h1: "malloc boot_heap 100 = Some (h1, Ptr 12)" "heap_inv h1"
      "blocks h1 = [(100, False), (1048452, True)]" "owned h1 = {(12, 100)}"
    using boot_malloc by (elim exE conjE)
  then have "heap100 = h1" by (simp add: heap100_def)
  with h1 show "malloc boot_heap 100 = Some (heap100, Ptr 12)" "heap_inv heap100"
    "blocks heap100 = [(100, False), (1048452, True)]" "owned heap100 = {(12, 100)}" by simp_all
qed

theorem malloc_correct_witness:
  "heap_inv boot_heap \<and>
   (\<exists>h' x s. malloc boot_heap 100 = Some (h', Ptr x) \<and> 100 \<le> uint s \<and> owned h' = insert (x, s) (owned boot_heap))"
proof -
  have "rounded 100 = 100" by (simp add: rounded_def)
  then have "\<not> (100 = (0 :: u32) \<or> (\<forall>(s, f) \<in> set (blocks boot_heap). f \<longrightarrow> uint s < rounded 100))"
    by (simp add: boot_heap_facts)
  then obtain h' p where m: "malloc boot_heap 100 = Some (h', p)" and p: "p \<noteq> NULL" and
      x: "\<And>x. p = Ptr x \<Longrightarrow> \<exists>s. rounded (100 :: u32) \<le> uint s \<and> owned h' = insert (x, s) (owned boot_heap)"
    using malloc_correct [OF boot_heap_facts(2), of 100] by (elim exE conjE) (simp, blast)
  obtain x where "p = Ptr x" using p by (cases p) simp_all
  then show ?thesis using boot_heap_facts(2) m x [of x] \<open>rounded 100 = 100\<close> by simp
qed

theorem free_correct_witness:
  "heap_inv heap100 \<and> (12, 100) \<in> owned heap100 \<and>
   (\<exists>h'. free heap100 (Ptr 12) = Some h' \<and> heap_inv h' \<and> owned h' = {})"
  using free_correct [of heap100 12 100] heap100_facts by auto

theorem malloc_free_restores_witness:
  "\<exists>h2. free heap100 (Ptr 12) = Some h2 \<and> blocks h2 = blocks boot_heap"
proof -
  obtain h2 where "free heap100 (Ptr 12) = Some h2"
    by (rule free_spec [of heap100 12 100]) (simp_all add: heap100_facts)
  then show ?thesis
    using malloc_free_restores [of boot_heap 100 heap100 12 h2] heap100_facts(1) boot_heap_facts by simp
qed

theorem realloc_preserves_witness:
  "\<exists>h' x s'. realloc heap100 (Ptr 12) 40 = Some (h', Ptr x) \<and> 40 \<le> uint s' \<and>
     owned h' = {(x, s')} \<and> (\<forall>i. 0 \<le> i \<and> i < 40 \<longrightarrow> bytes h' (x + i) = bytes heap100 (12 + i))"
proof -
  have "realloc heap100 (Ptr 12) 40 \<noteq> Some (heap100, NULL)"
    using realloc_shrink [of heap100 12 100 40] heap100_facts by auto
  moreover have "(40 :: u32) \<noteq> 0 \<and> uint (40 :: u32) \<le> 4294967292" "heap_inv heap100" "(12, 100) \<in> owned heap100"
    using heap100_facts by simp_all
  note realloc_preserves [OF this(2,3), of 40, THEN conjunct2, THEN conjunct1, THEN mp, OF this(1)]
  ultimately have "\<exists>h' x s'. realloc heap100 (Ptr 12) 40 = Some (h', Ptr x) \<and> heap_inv h' \<and> uint (40 :: u32) \<le> uint s' \<and>
      owned h' = insert (x, s') (owned heap100 - {(12, 100)}) \<and>
      (\<forall>i. 0 \<le> i \<and> i < min (uint (100 :: u32)) (uint (40 :: u32)) \<longrightarrow> bytes h' (x + i) = bytes heap100 (12 + i)) \<and>
      (\<forall>(y, t) \<in> owned heap100 - {(12, 100)}. \<forall>i. 0 \<le> i \<and> i < uint t \<longrightarrow> bytes h' (y + i) = bytes heap100 (y + i))"
    by (simp only: False_implies_equals simp_thms)
  then show ?thesis unfolding heap100_facts(4) by (elim exE conjE) (intro exI conjI, assumption, simp_all)
qed

theorem calloc_zeroes_witness:
  "calloc boot_heap 10 10 = Some (boot_heap, NULL) \<or>
   (\<exists>h' x s. calloc boot_heap 10 10 = Some (h', Ptr x) \<and> heap_inv h' \<and> 100 \<le> uint s \<and>
      (x, s) \<notin> owned boot_heap \<and> owned h' = insert (x, s) (owned boot_heap) \<and>
      (\<forall>a. bytes h' a = (if x \<le> a \<and> a < x + 100 then 0 else bytes boot_heap a)))"
proof -
  have n: "uint ((10 :: u32) * 10) = 100" by simp
  have "uint ((10 :: u32) * 10) \<le> 4294967292" by simp
  then show ?thesis
    using calloc_zeroes [of boot_heap 10 10, OF boot_heap_facts(2)] unfolding n by simp
qed

theorem usage_percent_witness:
  "\<exists>r. get_memory_usage_percent heap100 = Some r \<and> uint r = 0"
  using usage_percent_exact [of heap100] heap100_facts by auto

end
