(* ===== verification/Sched.thy ===== *)
theory Sched
  imports Heap_Alloc
begin

text \<open>
  The cooperative scheduler of \<^verbatim>\<open>src/scheduler.c\<close>. A task's stack is a heap block
  whose top is prepared so that the switch code (\<^verbatim>\<open>popa\<close>, \<^verbatim>\<open>ret\<close>) enters the task
  function. The context switch \<^verbatim>\<open>task_yield_asm(save_to, load_esp)\<close> stores the
  running task's stack pointer through its first argument and continues on its
  second; the model takes the stored value as an argument and returns the loaded
  one. Task functions and stack pointers are 32-bit addresses; \<open>base\<close> is the
  address of \<^verbatim>\<open>memory_pool\<close>.
\<close>

section \<open>State and operations\<close>

definition MAX_TASKS :: int where "MAX_TASKS = 8"

record task =
  func :: u32
  esp :: u32

record sched =
  task_list :: "task list"
  task_count :: int
  current_task :: int
  sheap :: heap

definition sched_zero :: "heap \<Rightarrow> sched" where
  "sched_zero h = \<lparr>task_list = replicate (nat MAX_TASKS) \<lparr>func = 0, esp = 0\<rparr>,
                   task_count = 0, current_task = -1, sheap = h\<rparr>"

text \<open>A store through a \<^verbatim>\<open>uint32_t *\<close>: four bytes, least significant first.\<close>

definition store32 :: "int \<Rightarrow> u32 \<Rightarrow> (int \<Rightarrow> u8) \<Rightarrow> int \<Rightarrow> u8" where
  "store32 a w m = m(a := ucast w, a + 1 := ucast (drop_bit 8 w),
                     a + 2 := ucast (drop_bit 16 w), a + 3 := ucast (drop_bit 24 w))"

definition load32 :: "int \<Rightarrow> (int \<Rightarrow> u8) \<Rightarrow> u32" where
  "load32 a m = ucast (m a) OR push_bit 8 (ucast (m (a + 1))) OR
                push_bit 16 (ucast (m (a + 2))) OR push_bit 24 (ucast (m (a + 3)))"

definition stack_frame :: "int \<Rightarrow> u32 \<Rightarrow> (int \<Rightarrow> u8) \<Rightarrow> int \<Rightarrow> u8" where
  "stack_frame sp f m =
     store32 (sp + 32) f (fold (\<lambda>i. store32 (sp + 4 * i) 0) [0, 1, 2, 3, 4, 5, 6, 7] m)"

definition add_task :: "u32 \<Rightarrow> u32 \<Rightarrow> sched \<Rightarrow> sched option" where
  "add_task base task_func s =
     (if task_count s < MAX_TASKS then
        (case malloc (sheap s) 1024 of
           None \<Rightarrow> None
         | Some (h, NULL) \<Rightarrow> Some (s\<lparr>sheap := h\<rparr>)
         | Some (h, Ptr stack) \<Rightarrow>
             let sp = stack + 1024 - 36 in
             Some (s\<lparr>task_list := (task_list s)[nat (task_count s) :=
                        \<lparr>func = task_func, esp = base + of_int sp\<rparr>],
                     sheap := h\<lparr>bytes := stack_frame sp task_func (bytes h)\<rparr>,
                     task_count := task_count s + 1\<rparr>))
      else Some s)"

definition task_current :: "sched \<Rightarrow> int" where
  "task_current s = current_task s"

definition task_yield :: "u32 \<Rightarrow> sched \<Rightarrow> sched \<times> u32 option" where
  "task_yield saved_esp s =
     (if task_count s \<le> 0 then (s, None)
      else
        let cur = (if current_task s < 0 then 0 else current_task s);
            next = (cur + 1) mod task_count s;
            load_esp = esp (task_list s ! nat next)
        in (s\<lparr>current_task := next,
              task_list := (task_list s)[nat cur := (task_list s ! nat cur)\<lparr>esp := saved_esp\<rparr>]\<rparr>,
            Some load_esp))"

definition run_scheduler :: "sched \<Rightarrow> sched \<times> u32 option" where
  "run_scheduler s =
     (if task_count s \<le> 0 then (s, None)
      else (s\<lparr>current_task := 0\<rparr>, Some (esp (task_list s ! 0))))"

text \<open>The PlayStation 2 build: the next task's function is called (0 is the NULL function pointer).\<close>

definition task_yield_ps2 :: "sched \<Rightarrow> sched \<times> u32 option" where
  "task_yield_ps2 s =
     (if task_count s \<le> 0 then (s, None)
      else
        let cur = (if current_task s < 0 then 0 else current_task s);
            next = (cur + 1) mod task_count s;
            f = func (task_list s ! nat next)
        in (s\<lparr>current_task := next\<rparr>, if f \<noteq> 0 then Some f else None))"

definition run_scheduler_ps2 :: "sched \<Rightarrow> u32 option" where
  "run_scheduler_ps2 s =
     (if task_count s > 0 \<and> func (task_list s ! 0) \<noteq> 0 then Some (func (task_list s ! 0)) else None)"

text \<open>A run of yields: the stack pointer each yielding task had, and what each switch loads.\<close>

fun yields :: "u32 list \<Rightarrow> sched \<Rightarrow> sched \<times> u32 option list" where
  "yields [] s = (s, [])"
| "yields (e # es) s =
     (let (s1, l) = task_yield e s; (s2, ls) = yields es s1 in (s2, l # ls))"

section \<open>Invariant\<close>

definition sched_inv :: "sched \<Rightarrow> bool" where
  "sched_inv s \<longleftrightarrow> length (task_list s) = 8 \<and> 0 \<le> task_count s \<and> task_count s \<le> 8 \<and>
     -1 \<le> current_task s \<and> (0 \<le> current_task s \<longrightarrow> current_task s < task_count s) \<and> heap_inv (sheap s)"

lemma sched_inv_zero: "heap_inv h \<Longrightarrow> sched_inv (sched_zero h)"
  by (simp add: sched_inv_def sched_zero_def MAX_TASKS_def)

lemma sched_inv_yield [inv_intro]: "sched_inv s \<Longrightarrow> sched_inv (fst (task_yield e s))"
proof (cases "task_count s \<le> 0")
  case False
  then have "0 \<le> x mod task_count s" "x mod task_count s < task_count s" for x by simp_all
  moreover have "- 1 \<le> x mod task_count s" for x
    using False pos_mod_sign [of "task_count s" x] by linarith
  ultimately show "sched_inv s \<Longrightarrow> ?thesis"
    using False by (auto simp: sched_inv_def task_yield_def Let_def)
qed (simp add: task_yield_def)

lemma load_store32 [simp]: "load32 a (store32 a w m) = w"
proof -
  have "bit (load32 a (store32 a w m)) n = bit w n" if "n < 32" for n
  proof -
    consider "n < 8" | "8 \<le> n \<and> n < 16" | "16 \<le> n \<and> n < 24" | "24 \<le> n" by linarith
    then show ?thesis
      using that by cases (auto simp: load32_def store32_def bit_simps)
  qed
  then show ?thesis by (intro bit_word_eqI) simp
qed

lemma store32_other: "x < a \<or> a + 3 < x \<Longrightarrow> store32 a w m x = m x"
  by (auto simp: store32_def)

lemma load_store32_other: "b + 3 < a \<or> a + 3 < b \<Longrightarrow> load32 b (store32 a w m) = load32 b m"
  by (auto simp: load32_def store32_other)

lemma stack_frame_zero: "sp \<le> x \<Longrightarrow> x < sp + 32 \<Longrightarrow> stack_frame sp f m x = 0"
proof -
  assume x: "sp \<le> x" "x < sp + 32"
  have "x - sp \<in> {0..<32}" using x by simp
  also have "{0..<32} = set [0..31 :: int]" by auto
  finally have "x - sp \<in> set [0..31]" .
  then show ?thesis
    by (simp add: upto.simps stack_frame_def store32_def) (elim disjE; simp add: diff_eq_eq)
qed

lemma stack_frame_other: "x < sp \<or> sp + 36 \<le> x \<Longrightarrow> stack_frame sp f m x = m x"
  by (auto simp: stack_frame_def store32_def)

text \<open>
  add_task always returns. When the table is full or the stack cannot be
  allocated nothing changes; otherwise the task takes the next table entry with
  a stack of its own, and the switch code started from the recorded stack pointer
  restores eight zero registers and returns into the task function: the 32 bytes
  at the stack pointer are zero and the word above them is the function. The
  prepared frame lies inside the allocated block and no other byte of the heap
  changes.
\<close>
theorem add_task_frame:
  assumes "sched_inv s"
  shows "\<exists>s'. add_task base f s = Some s' \<and> sched_inv s' \<and>
    (s' = s \<or>
     (\<exists>p n. task_count s < 8 \<and> task_count s' = task_count s + 1 \<and>
        (p, n) \<notin> owned (sheap s) \<and> owned (sheap s') = insert (p, n) (owned (sheap s)) \<and>
        task_list s' = (task_list s)[nat (task_count s) := \<lparr>func = f, esp = base + of_int (p + 988)\<rparr>] \<and>
        p + 1024 \<le> p + uint n \<and>
        (\<forall>x. p + 988 \<le> x \<and> x < p + 1020 \<longrightarrow> bytes (sheap s') x = 0) \<and>
        load32 (p + 1020) (bytes (sheap s')) = f \<and>
        (\<forall>x. x < p + 988 \<or> p + 1024 \<le> x \<longrightarrow> bytes (sheap s') x = bytes (sheap s) x)))"
proof (cases "task_count s < 8")
  case False
  then show ?thesis using assms by (simp add: add_task_def MAX_TASKS_def)
next
  case True
  obtain h q where m: "malloc (sheap s) 1024 = Some (h, q)" and post: "malloc_post (sheap s) 1024 h q"
    using malloc_spec assms unfolding sched_inv_def by blast
  show ?thesis
  proof (cases q)
    case NULL
    then have "h = sheap s" using post by (simp add: malloc_post_def)
    then show ?thesis using True NULL m assms by (simp add: add_task_def MAX_TASKS_def)
  next
    case (Ptr p)
    then obtain n where n: "uint (ALIGN 1024) \<le> uint n" "(p, n) \<notin> owned (sheap s)"
        "owned h = insert (p, n) (owned (sheap s))" "heap_inv h" "bytes h = bytes (sheap s)"
      using post by (auto simp: malloc_post_def)
    let ?m = "stack_frame (p + 988) f (bytes h)"
    let ?s = "s\<lparr>task_list := (task_list s)[nat (task_count s) := \<lparr>func = f, esp = base + of_int (p + 988)\<rparr>],
                sheap := h\<lparr>bytes := ?m\<rparr>, task_count := task_count s + 1\<rparr>"
    have eq: "add_task base f s = Some ?s"
      using True m Ptr by (simp add: add_task_def MAX_TASKS_def Let_def algebra_simps)
    have inv: "sched_inv ?s" using assms True n by (auto simp: sched_inv_def)
    have own: "owned (h\<lparr>bytes := ?m\<rparr>) = owned h" by (simp add: owned_def blocks_def)
    have "load32 (p + 988 + 32) ?m = f" unfolding stack_frame_def by (rule load_store32)
    then have ld: "load32 (p + 1020) ?m = f" by (simp add: add.commute)
    have "1024 \<le> uint n" using n(1) by (simp add: ALIGN_uint)
    then have "p + 1024 \<le> p + uint n" by simp
    with eq inv own ld n True stack_frame_zero [of "p + 988" _ f "bytes h"]
      stack_frame_other [of _ "p + 988" f "bytes h"]
    show ?thesis by (intro exI [of _ ?s] conjI disjI2 exI [of _ p] exI [of _ n]) auto
  qed
qed

section \<open>Round robin\<close>

lemma wrap_next:
  assumes "0 \<le> (c :: int)" "c < n" "0 \<le> j" "j < n"
  shows "(c + 1 + j) mod n = c \<longleftrightarrow> j + 1 = n"
proof (cases "c + 1 + j < n")
  case True
  then show ?thesis using assms by (simp add: mod_pos_pos_trivial)
next
  case False
  have "(c + 1 + j) mod n = (c + 1 + j - n) mod n" by simp
  also have "\<dots> = c + 1 + j - n" using False assms by (intro mod_pos_pos_trivial) auto
  finally show ?thesis by linarith
qed

lemma yields_Cons:
  "yields (e # es) s =
     (fst (yields es (fst (task_yield e s))), snd (task_yield e s) # snd (yields es (fst (task_yield e s))))"
  by (simp add: Let_def split: prod.splits)

lemma yields_length: "length (snd (yields es s)) = length es"
  by (induction es s rule: yields.induct) (auto simp: Let_def split: prod.splits)

lemma yield_step:
  assumes "sched_inv s" "0 \<le> current_task s"
  shows "task_yield e s =
    (s\<lparr>current_task := (current_task s + 1) mod task_count s,
       task_list := (task_list s)[nat (current_task s) := (task_list s ! nat (current_task s))\<lparr>esp := e\<rparr>]\<rparr>,
     Some (esp (task_list s ! nat ((current_task s + 1) mod task_count s))))"
  using assms by (simp add: task_yield_def sched_inv_def Let_def)

lemma yields_current:
  assumes "sched_inv s" "0 \<le> current_task s"
  shows "current_task (fst (yields es s)) = (current_task s + int (length es)) mod task_count s \<and>
         task_count (fst (yields es s)) = task_count s"
  using assms
proof (induction es arbitrary: s)
  case Nil
  then show ?case by (simp add: sched_inv_def)
next
  case (Cons e es)
  have "sched_inv (fst (task_yield e s))" by (rule sched_inv_yield) (rule Cons.prems)
  moreover have "0 \<le> current_task (fst (task_yield e s))" "0 < task_count s"
    using Cons.prems by (auto simp: yield_step sched_inv_def)
  ultimately show ?case
    using Cons.IH [of "fst (task_yield e s)"] Cons.prems
    by (simp del: yields.simps add: yields_Cons yield_step) (simp add: mod_simps algebra_simps)
qed

text \<open>
  C12: With two or more tasks the scheduler is a faithful round robin. After any
  number of yields the current task is the one that many places further on, and
  every switch resumes the next task exactly where it left off: it loads the stack
  pointer that task saved at its own last yield, or its initial one if it has not
  run yet.
\<close>
theorem round_robin_resumes:
  assumes "sched_inv s" "2 \<le> task_count s" "0 \<le> current_task s"
  shows "current_task (fst (yields es s)) = (current_task s + int (length es)) mod task_count s \<and>
    (\<forall>j < length es. snd (yields es s) ! j =
      Some (if int j + 1 < task_count s
            then esp (task_list s ! nat ((current_task s + 1 + int j) mod task_count s))
            else es ! (j + 1 - nat (task_count s))))"
proof -
  have "snd (yields es s) ! j =
      Some (if int j + 1 < task_count s
            then esp (task_list s ! nat ((current_task s + 1 + int j) mod task_count s))
            else es ! (j + 1 - nat (task_count s)))" if "j < length es" for j
    using assms that
  proof (induction es arbitrary: s j)
    case Nil
    then show ?case by simp
  next
    case (Cons e es)
    let ?s = "fst (task_yield e s)" and ?n = "task_count s" and ?c = "current_task s"
    note st = yield_step [OF Cons.prems(1,3), of e]
    have len: "length (task_list s) = 8" "0 \<le> ?c" "?c < ?n" "?n \<le> 8"
      using Cons.prems by (auto simp: sched_inv_def)
    have split: "snd (yields (e # es) s) = snd (task_yield e s) # snd (yields es ?s)"
      by (simp add: yields_Cons del: yields.simps)
    show ?case
    proof (cases j)
      case 0
      then show ?thesis using Cons.prems(2) by (simp only: split) (simp add: st)
    next
      case (Suc k)
      have inv: "sched_inv ?s" by (rule sched_inv_yield) (rule Cons.prems)
      have n: "task_count ?s = ?n" "current_task ?s = (?c + 1) mod ?n" by (simp_all add: st)
      have IH: "snd (yields es ?s) ! k =
          Some (if int k + 1 < ?n
            then esp (task_list ?s ! nat (((?c + 1) mod ?n + 1 + int k) mod ?n))
            else es ! (k + 1 - nat ?n))"
        using Cons.IH [OF inv, of k] Cons.prems Suc n by simp
      have m: "((?c + 1) mod ?n + 1 + int k) mod ?n = (?c + 1 + int j) mod ?n"
        using Suc mod_add_left_eq [of "?c + 1" ?n "1 + int k"] by (simp add: algebra_simps)
      have bound: "0 \<le> (?c + 1 + int j) mod ?n" "(?c + 1 + int j) mod ?n < ?n"
        using Cons.prems(2) by simp_all
      have tl: "esp (task_list ?s ! nat ((?c + 1 + int j) mod ?n)) =
          (if int j + 1 = ?n then e else esp (task_list s ! nat ((?c + 1 + int j) mod ?n)))"
        if "int j < ?n"
        using wrap_next [OF len(2,3) _ that] bound len by (auto simp: st nth_list_update nat_eq_iff)
      show ?thesis
        using IH Suc unfolding split m using tl by (auto simp: nth_Cons' nat_eq_iff Suc_diff_le)
    qed
  qed
  then show ?thesis using yields_current [OF assms(1,3)] by blast
qed

text \<open>
  With a single task a yield does not resume it where it was: the switch loads
  the stack pointer that was recorded before this yield, because task_yield reads
  the table entry before the switch code overwrites it.
\<close>
theorem single_task_yield_stale:
  assumes "sched_inv s" "task_count s = 1"
  shows "\<exists>s'. task_yield e s = (s', Some (esp (task_list s ! 0))) \<and> esp (task_list s' ! 0) = e"
  using assms by (auto simp: task_yield_def sched_inv_def Let_def)

section \<open>Witnesses\<close>

definition demo_sched :: "int \<Rightarrow> sched" where
  "demo_sched n = \<lparr>task_list = \<lparr>func = 0x1000, esp = 0x500\<rparr> # \<lparr>func = 0x2000, esp = 0x600\<rparr> #
      replicate 6 \<lparr>func = 0, esp = 0\<rparr>, task_count = n, current_task = 0, sheap = boot_heap\<rparr>"

lemma demo_sched_inv: "n \<in> {1..8} \<Longrightarrow> sched_inv (demo_sched n)"
  using boot_heap_facts(2) by (simp add: sched_inv_def demo_sched_def)

theorem add_task_frame_witness:
  "\<exists>s'. add_task 0x100000 0x1234 (sched_zero boot_heap) = Some s' \<and> sched_inv s'"
  using add_task_frame [OF sched_inv_zero [OF boot_heap_facts(2)], of "0x100000" "0x1234"] by blast

theorem round_robin_witness:
  "snd (yields [0x4F0, 0x5E0] (demo_sched 2)) = [Some 0x600, Some 0x4F0]"
proof -
  have c: "sched_inv (demo_sched 2)" "2 \<le> task_count (demo_sched 2)" "0 \<le> current_task (demo_sched 2)"
    by (simp_all add: demo_sched_inv) (simp_all add: demo_sched_def)
  have "length (snd (yields [0x4F0, 0x5E0] (demo_sched 2))) = 2" by (simp only: yields_length) simp
  moreover have "snd (yields [0x4F0, 0x5E0] (demo_sched 2)) ! 0 = Some 0x600"
    using round_robin_resumes [OF c, of "[0x4F0, 0x5E0]"] by (simp del: yields.simps) (simp add: demo_sched_def)
  moreover have "snd (yields [0x4F0, 0x5E0] (demo_sched 2)) ! 1 = Some 0x4F0"
    using round_robin_resumes [OF c, of "[0x4F0, 0x5E0]"] by (simp del: yields.simps) (simp add: demo_sched_def)
  ultimately show ?thesis
    by (intro nth_equalityI) (auto simp: less_Suc_eq numeral_2_eq_2 simp del: yields.simps)
qed

theorem single_task_witness:
  "snd (task_yield 0x4F0 (demo_sched 1)) = Some 0x500"
  using single_task_yield_stale [of "demo_sched 1" "0x4F0"] demo_sched_inv [of 1]
  by (auto simp: demo_sched_def)

end
