(* ===== verification/Console.thy ===== *)
theory Console
  imports Asmos_Prelude
begin

text \<open>
  The text console of the x86 kernel (\<^verbatim>\<open>src/kernel.c\<close>, with the assembly output
  routine \<^verbatim>\<open>boot/arch_x86/vga_text.asm\<close> that \<^verbatim>\<open>kprintf\<close> uses for \<^verbatim>\<open>%s\<close>): the VGA text
  buffer, the cursor, the character and string output functions, the boot
  splash, the formatted output \<^verbatim>\<open>kprintf\<close> and the scanner \<^verbatim>\<open>ksscanf\<close>.

  The buffer is the list of its 2000 cells; a write outside it, like every
  other access outside an object, is \<open>None\<close>. The cursor is never negative, so
  it is a pair of natural numbers. The lemmas refine the console to an
  unbounded list of lines of which the screen shows the last 25.
\<close>

unbundle bit_operations_syntax

section \<open>The screen\<close>

definition VGA_WIDTH :: nat where "VGA_WIDTH = 80"
definition VGA_HEIGHT :: nat where "VGA_HEIGHT = 25"
definition DEFAULT_COLOR :: u8 where "DEFAULT_COLOR = 0x07"

record console =
  vga_buffer :: "u16 list"
  cursor_row :: nat
  cursor_col :: nat

text \<open>
  \<open>((uint16_t)color << 8) | c\<close> with a signed \<^verbatim>\<open>char\<close>: a character above 0x7F is sign
  extended before the OR.
\<close>

definition cell :: "u8 \<Rightarrow> char \<Rightarrow> u16" where
  "cell color c = push_bit 8 (ucast color) OR scast (of_char c :: u8)"

definition blank :: u16 where
  "blank = cell DEFAULT_COLOR CHR '' ''"

definition vga_set :: "nat \<Rightarrow> u16 \<Rightarrow> console \<Rightarrow> console option" where
  "vga_set i v con =
     (if i < length (vga_buffer con) then Some (con\<lparr>vga_buffer := (vga_buffer con)[i := v]\<rparr>) else None)"

definition next_line :: "console \<Rightarrow> console" where
  "next_line con = con\<lparr>cursor_row := cursor_row con + 1, cursor_col := 0\<rparr>"

definition advance :: "console \<Rightarrow> console" where
  "advance con =
     (let con1 = con\<lparr>cursor_col := cursor_col con + 1\<rparr>
      in if cursor_col con1 \<ge> VGA_WIDTH then next_line con1 else con1)"

definition place :: "u16 \<Rightarrow> console \<Rightarrow> console option" where
  "place v con = map_option advance (vga_set (cursor_row con * VGA_WIDTH + cursor_col con) v con)"

definition scroll :: "console \<Rightarrow> console" where
  "scroll con =
     (if cursor_row con \<ge> VGA_HEIGHT then
        (let b1 = fold (\<lambda>row b. fold (\<lambda>col b. b[(row - 1) * VGA_WIDTH + col := b ! (row * VGA_WIDTH + col)])
                          [0..<VGA_WIDTH] b) [1..<VGA_HEIGHT] (vga_buffer con);
             b2 = fold (\<lambda>col b. b[(VGA_HEIGHT - 1) * VGA_WIDTH + col := blank]) [0..<VGA_WIDTH] b1
         in con\<lparr>vga_buffer := b2, cursor_row := VGA_HEIGHT - 1\<rparr>)
      else con)"

definition kprint_char :: "char \<Rightarrow> console \<Rightarrow> console option" where
  "kprint_char c con =
     map_option scroll
       (if c = CHR 0x0A then Some (next_line con) else place (cell DEFAULT_COLOR c) con)"

definition kprint :: "string \<Rightarrow> console \<Rightarrow> console option" where
  "kprint str = each kprint_char (cstr str)"

definition kprint_char_color :: "u8 \<Rightarrow> char \<Rightarrow> console \<Rightarrow> console option" where
  "kprint_char_color color c con =
     map_option scroll
       (if c = CHR 0x0A then Some (next_line con) else place (cell color c) con)"

definition kprint_color :: "string \<Rightarrow> u8 \<Rightarrow> console \<Rightarrow> console option" where
  "kprint_color str color = each (kprint_char_color color) (cstr str)"

definition clear_screen :: "console \<Rightarrow> console" where
  "clear_screen con =
     con\<lparr>vga_buffer := fold (\<lambda>i b. b[i := blank]) [0..<VGA_WIDTH * VGA_HEIGHT] (vga_buffer con),
         cursor_row := 0, cursor_col := 0\<rparr>"

definition putchar :: "char \<Rightarrow> console \<Rightarrow> console option" where
  "putchar c con =
     map_option scroll
       (if c = CHR 0x0A then Some (next_line con) else place (cell DEFAULT_COLOR c) con)"

section \<open>The assembly output routine\<close>

text \<open>
  \<^verbatim>\<open>vga_putchar\<close> builds the cell from \<^verbatim>\<open>al\<close> and the attribute without sign extension,
  handles backspace, and scrolls with \<^verbatim>\<open>rep movsw\<close> (one ascending run over 24 rows).
\<close>

definition asm_scroll :: "console \<Rightarrow> console" where
  "asm_scroll con =
     (if cursor_row con < VGA_HEIGHT then con
      else let b1 = fold (\<lambda>i b. b[0 + i := b ! (0 + VGA_WIDTH + i)]) [0..<VGA_WIDTH * (VGA_HEIGHT - 1)] (vga_buffer con);
               b2 = fold (\<lambda>i b. b[(VGA_HEIGHT - 1) * VGA_WIDTH + i := 0x0720]) [0..<VGA_WIDTH] b1
           in con\<lparr>vga_buffer := b2, cursor_row := VGA_HEIGHT - 1\<rparr>)"

definition asm_cell :: "char \<Rightarrow> u16" where
  "asm_cell c = push_bit 8 0x07 OR ucast (of_char c :: u8)"

definition vga_putchar :: "char \<Rightarrow> console \<Rightarrow> console option" where
  "vga_putchar c con =
     (if c = CHR 0x0A then Some (asm_scroll (next_line con))
      else if c = CHR 0x08 then
        (if cursor_col con = 0 then Some con
         else let con1 = con\<lparr>cursor_col := cursor_col con - 1\<rparr>
              in vga_set (cursor_row con1 * VGA_WIDTH + cursor_col con1) 0x0720 con1)
      else map_option asm_scroll (place (asm_cell c) con))"

definition print_string :: "string \<Rightarrow> console \<Rightarrow> console option" where
  "print_string str = each vga_putchar (cstr str)"

section \<open>Numbers and formatted output\<close>

fun digits_loop :: "nat \<Rightarrow> string" where
  "digits_loop value = (if value = 0 then [] else char_of (48 + value mod 10) # digits_loop (value div 10))"

declare digits_loop.simps [simp del]

text \<open>
  The characters \<^verbatim>\<open>print_decimal\<close> passes to \<^verbatim>\<open>putchar\<close>. Negating the least 32-bit
  integer overflows, which C leaves undefined.
\<close>

definition decimal_chars :: "int \<Rightarrow> string option" where
  "decimal_chars value =
     (if value = 0 then Some ''0''
      else if value = - (2 ^ 31) then None
      else Some ((if value < 0 then ''-'' else []) @ rev (digits_loop (nat \<bar>value\<bar>))))"

definition print_decimal :: "int \<Rightarrow> console \<Rightarrow> console option" where
  "print_decimal value con = Option.bind (decimal_chars value) (\<lambda>s. each putchar s con)"

definition hex_chars :: "u32 \<Rightarrow> string" where
  "hex_chars value =
     ''0x'' @ map (\<lambda>i. ''0123456789ABCDEF'' ! unat (drop_bit i value AND 0xF)) [28, 24, 20, 16, 12, 8, 4, 0]"

definition print_hex :: "u32 \<Rightarrow> console \<Rightarrow> console option" where
  "print_hex value con = each putchar (hex_chars value) con"

text \<open>
  The variable arguments of \<^verbatim>\<open>kprintf\<close>. Taking a missing argument, or one of the
  other type, is undefined; so is running past the terminator of a format that
  ends in \<^verbatim>\<open>%\<close>. Directives other than the five of the source print a question mark
  and take no argument.
\<close>

datatype karg = StrArg string | IntArg u32

definition kprintf_arg :: "char \<Rightarrow> karg list \<Rightarrow> console \<Rightarrow> (karg list \<times> console) option" where
  "kprintf_arg d args con =
     (if d = CHR ''s'' then
        (case args of StrArg str # rest \<Rightarrow> map_option (Pair rest) (print_string str con) | _ \<Rightarrow> None)
      else if d = CHR ''c'' then
        (case args of IntArg v # rest \<Rightarrow> map_option (Pair rest) (putchar (char_of (unat (ucast v :: u8))) con) | _ \<Rightarrow> None)
      else if d = CHR ''d'' then
        (case args of IntArg v # rest \<Rightarrow> map_option (Pair rest) (print_decimal (sint v) con) | _ \<Rightarrow> None)
      else if d = CHR ''x'' then
        (case args of IntArg v # rest \<Rightarrow> map_option (Pair rest) (print_hex v con) | _ \<Rightarrow> None)
      else if d = CHR ''%'' then map_option (Pair args) (putchar CHR ''%'' con)
      else map_option (Pair args) (putchar CHR ''?'' con))"

fun kprintf :: "string \<Rightarrow> karg list \<Rightarrow> console \<Rightarrow> console option" where
  "kprintf [] args con = Some con"
| "kprintf [c] args con =
     (if c = NUL then Some con else if c = CHR ''%'' then None else putchar c con)"
| "kprintf (c # d # f) args con =
     (if c = NUL then Some con
      else if c = CHR ''%'' then
        (if d = NUL then None
         else case kprintf_arg d args con of None \<Rightarrow> None | Some (args', con') \<Rightarrow> kprintf f args' con')
      else case putchar c con of None \<Rightarrow> None | Some con' \<Rightarrow> kprintf (d # f) args con')"

section \<open>Comparison and scanning\<close>

fun ksstrcmp :: "string \<Rightarrow> string \<Rightarrow> int" where
  "ksstrcmp (a # s1) (b # s2) =
     (if a \<noteq> NUL \<and> a = b then ksstrcmp s1 s2 else int (of_char a) - int (of_char b))"
| "ksstrcmp [] (b # s2) = - int (of_char b)"
| "ksstrcmp (a # s1) [] = int (of_char a)"
| "ksstrcmp [] [] = 0"

text \<open>
  The scanner gives the list of values stored through its pointer arguments (its
  result is their number); an \<^verbatim>\<open>int\<close> that overflows while it is read is undefined,
  like a format that ends in \<^verbatim>\<open>%\<close>.
\<close>

datatype scan_val = IntVal int | CharVal char | StrVal string

definition is_dec :: "char \<Rightarrow> bool" where
  "is_dec c \<longleftrightarrow> 48 \<le> (of_char c :: nat) \<and> (of_char c :: nat) \<le> 57"

fun scan_dec :: "string \<Rightarrow> int \<Rightarrow> (int \<times> string) option" where
  "scan_dec [] val = Some (val, [])"
| "scan_dec (c # s) val =
     (if is_dec c then
        (let v = val * 10 + (int (of_char c) - 48)
         in if v < 2 ^ 31 then scan_dec s v else None)
      else Some (val, c # s))"

definition hex_value :: "char \<Rightarrow> int option" where
  "hex_value c =
     (let n = int (of_char c)
      in if 48 \<le> n \<and> n \<le> 57 then Some (n - 48)
         else if 97 \<le> n \<and> n \<le> 102 then Some (n - 97 + 10)
         else if 65 \<le> n \<and> n \<le> 70 then Some (n - 65 + 10)
         else None)"

fun scan_hex :: "string \<Rightarrow> int \<Rightarrow> (int \<times> string) option" where
  "scan_hex [] val = Some (val, [])"
| "scan_hex (c # s) val =
     (case hex_value c of
        None \<Rightarrow> Some (val, c # s)
      | Some d \<Rightarrow> (let v = val * 16 + d in if v < 2 ^ 31 then scan_hex s v else None))"

definition scan_directive :: "char \<Rightarrow> char \<Rightarrow> string \<Rightarrow> (scan_val list \<times> string) option" where
  "scan_directive d c cs =
     (if d = CHR ''d'' then
        (let neg = c = CHR ''-''
         in map_option (\<lambda>(v, s). ([IntVal (if neg then - v else v)], s)) (scan_dec (if neg then cs else c # cs) 0))
      else if d = CHR ''x'' then map_option (\<lambda>(v, s). ([IntVal v], s)) (scan_hex (c # cs) 0)
      else if d = CHR ''c'' then Some ([CharVal c], cs)
      else if d = CHR ''s'' then
        (let stop = (\<lambda>x. x \<noteq> CHR '' '' \<and> x \<noteq> CHR 0x0A)
         in Some ([StrVal (takeWhile stop (c # cs))], dropWhile stop (c # cs)))
      else Some ([], c # cs))"

fun ksscanf_loop :: "string \<Rightarrow> string \<Rightarrow> scan_val list option" where
  "ksscanf_loop str [] = Some []"
| "ksscanf_loop [] (f # fs) = Some []"
| "ksscanf_loop (c # cs) [f] = (if f = CHR ''%'' then None else Some [])"
| "ksscanf_loop (c # cs) (f # d # fs) =
     (if f = CHR ''%'' then
        (case scan_directive d c cs of
           None \<Rightarrow> None
         | Some (vs, s) \<Rightarrow> map_option (\<lambda>r. vs @ r) (ksscanf_loop s fs))
      else if f = c then ksscanf_loop cs (d # fs)
      else Some [])"

definition ksscanf :: "string \<Rightarrow> string \<Rightarrow> scan_val list option" where
  "ksscanf str format = ksscanf_loop (cstr str) (cstr format)"

section \<open>The boot splash\<close>

record ps2_info =
  total_memory :: u32
  ps2_detected :: bool

definition box_cell :: "u8 \<Rightarrow> u16 \<Rightarrow> u16" where
  "box_cell color glyph = push_bit 8 (ucast color) OR glyph"

definition draw_box :: "nat \<Rightarrow> nat \<Rightarrow> nat \<Rightarrow> nat \<Rightarrow> u8 \<Rightarrow> console \<Rightarrow> console option" where
  "draw_box x y w h color con =
     each (\<lambda>(i, v). vga_set i (box_cell color v))
       (concat (map (\<lambda>i. [(y * VGA_WIDTH + i, 0x2500), ((y + h - 1) * VGA_WIDTH + i, 0x2500)]) [x + 1..<x + w - 1]) @
        concat (map (\<lambda>i. [(i * VGA_WIDTH + x, 0x2502), (i * VGA_WIDTH + x + w - 1, 0x2502)]) [y + 1..<y + h - 1]) @
        [(y * VGA_WIDTH + x, 0x250C), (y * VGA_WIDTH + x + w - 1, 0x2510),
         ((y + h - 1) * VGA_WIDTH + x, 0x2514), ((y + h - 1) * VGA_WIDTH + x + w - 1, 0x2518)]) con"

definition print_at :: "nat \<Rightarrow> nat \<Rightarrow> string \<Rightarrow> console \<Rightarrow> console option" where
  "print_at x y str con =
     each (\<lambda>(idx, c). vga_set idx (cell DEFAULT_COLOR c)) (enumerate (y * VGA_WIDTH + x) (cstr str)) con"

definition draw_progress_bar :: "nat \<Rightarrow> nat \<Rightarrow> nat \<Rightarrow> nat \<Rightarrow> console \<Rightarrow> console option" where
  "draw_progress_bar x y width percent con =
     (let filled = (width * percent) div 100
      in each (\<lambda>i. vga_set (y * VGA_WIDTH + x + i)
                (if i < filled then cell 0x2A CHR ''#'' else cell DEFAULT_COLOR CHR ''-'')) [0..<width] con)"

definition fill_screen :: "console \<Rightarrow> console option" where
  "fill_screen con = each (\<lambda>i. vga_set i blank) [0..<VGA_WIDTH * VGA_HEIGHT] con"

definition splash_steps :: "ps2_info \<Rightarrow> (console \<Rightarrow> console option) list" where
  "splash_steps info =
        [fill_screen,
         draw_box 5 3 70 20 0x1F,
         print_at 25 4 ''PS2 x86 Operating System v2.0'',
         print_at 20 5 ''Enhanced Edition for PlayStation 2'',
         print_at 15 7 ''System Information:''] @
        (if ps2_detected info
         then [print_at 15 8 ''PS2 Hardware: DETECTED'',
               kprintf ''Memory: %u MB available'' [IntArg (total_memory info)]]
         else [print_at 15 8 ''PS2 Hardware: NOT DETECTED (Compatibility Mode)'']) @
        [print_at 15 10 ''Initializing system components...'',
         print_at 15 11 ''Loading memory manager...'',
         draw_progress_bar 15 12 40 0] @
        map (draw_progress_bar 15 12 40) [0, 20, 40, 60, 80, 100] @
        [print_at 15 13 ''Memory manager initialized'',
         print_at 15 14 ''Loading FAT12 filesystem...'',
         draw_progress_bar 15 15 40 0] @
        map (draw_progress_bar 15 15 40) [0, 25, 50, 75, 100] @
        [print_at 15 16 ''Filesystem initialized'',
         print_at 15 17 ''Loading task scheduler...'',
         draw_progress_bar 15 18 40 0] @
        map (draw_progress_bar 15 18 40) [0, 33, 66, 99] @
        [print_at 15 19 ''Scheduler initialized'',
         print_at 15 20 ''Starting enhanced shell...'']"

definition show_enhanced_boot_splash :: "ps2_info \<Rightarrow> console \<Rightarrow> console option" where
  "show_enhanced_boot_splash info con =
     (case each (\<lambda>f. f) (splash_steps info @ [fill_screen]) con of
        None \<Rightarrow> None
      | Some con1 \<Rightarrow> Some (con1\<lparr>cursor_row := 0, cursor_col := 0\<rparr>))"

section \<open>Output as data\<close>

text \<open>
  The other components print through this interface. Their definitions give the
  list of the calls they make, and \<open>emit\<close> runs one call on the console.
\<close>

datatype kout =
    Kprint string
  | KprintColor string u8
  | KprintChar char
  | Kprintf string "karg list"
  | ClearScreen

primrec emit :: "kout \<Rightarrow> console \<Rightarrow> console option" where
  "emit (Kprint s) = kprint s"
| "emit (KprintColor s color) = kprint_color s color"
| "emit (KprintChar c) = kprint_char c"
| "emit (Kprintf f args) = kprintf f args"
| "emit ClearScreen = (\<lambda>con. Some (clear_screen con))"

section \<open>Refinement to a list of lines\<close>

text \<open>
  The abstract console: the lines written so far, the last one being the line
  the cursor is on. The screen shows the last 25 of them.
\<close>

type_synonym screen_lines = "u16 list list"

definition lines_ok :: "screen_lines \<Rightarrow> bool" where
  "lines_ok ls \<longleftrightarrow> ls \<noteq> [] \<and> list_all (\<lambda>l. length l \<le> 80) ls \<and> length (last ls) < 80"

definition add_cell :: "u16 \<Rightarrow> screen_lines \<Rightarrow> screen_lines" where
  "add_cell v ls =
     (let l = last ls @ [v]
      in if length l = 80 then butlast ls @ [l, []] else butlast ls @ [l])"

definition type_char :: "u8 \<times> char \<Rightarrow> screen_lines \<Rightarrow> screen_lines" where
  "type_char = (\<lambda>(color, c) ls. if c = CHR 0x0A then ls @ [[]] else add_cell (cell color c) ls)"

definition pad_line :: "u16 list \<Rightarrow> u16 list" where
  "pad_line l = l @ replicate (80 - length l) blank"

definition window :: "screen_lines \<Rightarrow> screen_lines" where
  "window ls = drop (length ls - 25) ls"

definition picture :: "screen_lines \<Rightarrow> u16 list" where
  "picture w = concat (map pad_line w) @ replicate (80 * (25 - length w)) blank"

definition display :: "screen_lines \<Rightarrow> console" where
  "display ls = \<lparr>vga_buffer = picture (window ls), cursor_row = length (window ls) - 1,
                 cursor_col = length (last ls)\<rparr>"

lemmas console_defs = VGA_WIDTH_def VGA_HEIGHT_def

lemma scroll_buffer:
  assumes "length b = 2000" "n < 25"
  shows "fold (\<lambda>row b. fold (\<lambda>col b. b[(row - 1) * VGA_WIDTH + col := b ! (row * VGA_WIDTH + col)])
            [0..<VGA_WIDTH] b) [1..<Suc n] b = take (80 * n) (drop 80 b) @ drop (80 * n) b"
  using assms(2)
proof (induction n)
  case (Suc n)
  let ?b = "take (80 * n) (drop 80 b) @ drop (80 * n) b"
  have len: "length ?b = 2000" using Suc.prems assms by simp
  have "fold (\<lambda>col b. b[n * 80 + col := b ! (Suc n * 80 + col)]) [0..<80] ?b =
        fold (\<lambda>i b. b[80 * n + i := b ! (80 * n + 80 + i)]) [0..<80] ?b"
    by (simp add: algebra_simps)
  also have "\<dots> = take (80 * n) ?b @ take 80 (drop (80 * n + 80) ?b) @ drop (80 * n + 80) ?b"
    using len Suc.prems by (intro fold_copy_down) auto
  also have "\<dots> = take (80 * Suc n) (drop 80 b) @ drop (80 * Suc n) b"
    using Suc.prems assms take_add [of "80 * n" 80 "drop 80 b"] by (simp add: add.commute)
  finally show ?case using Suc by (simp add: console_defs)
qed simp

lemma scroll_eq:
  assumes "length (vga_buffer con) = 2000" "cursor_row con \<ge> 25"
  shows "scroll con = con\<lparr>vga_buffer := drop 80 (vga_buffer con) @ replicate 80 blank, cursor_row := 24\<rparr>"
proof -
  let ?b = "vga_buffer con"
  have b1: "fold (\<lambda>row b. fold (\<lambda>col b. b[(row - 1) * VGA_WIDTH + col := b ! (row * VGA_WIDTH + col)])
              [0..<VGA_WIDTH] b) [1..<VGA_HEIGHT] ?b = take 1920 (drop 80 ?b) @ drop 1920 ?b"
    using scroll_buffer [OF assms(1), of 24, simplified] by (simp add: VGA_HEIGHT_def numeral_eq_Suc)
  have "fold (\<lambda>col b. b[1920 + col := blank]) [0..<80] (take 1920 (drop 80 ?b) @ drop 1920 ?b) =
        drop 80 ?b @ replicate 80 blank"
    using assms(1) by (subst fold_fill) auto
  with b1 assms show ?thesis by (simp add: scroll_def console_defs Let_def)
qed

lemma scroll_id: "cursor_row con < 25 \<Longrightarrow> scroll con = con"
  by (simp add: scroll_def console_defs)

lemma asm_scroll_eq:
  assumes "length (vga_buffer con) = 2000"
  shows "asm_scroll con = scroll con"
proof (cases "cursor_row con < 25")
  case False
  let ?b = "vga_buffer con"
  have bl: "blank = 0x0720" by (simp add: blank_def cell_def DEFAULT_COLOR_def)
  have "fold (\<lambda>i b. b[0 + i := b ! (0 + 80 + i)]) [0..<1920] ?b = take 1920 (drop 80 ?b) @ drop 1920 ?b"
    using assms by (subst fold_copy_down) auto
  moreover have "fold (\<lambda>i b. b[1920 + i := 0x0720]) [0..<80] (take 1920 (drop 80 ?b) @ drop 1920 ?b) =
        drop 80 ?b @ replicate 80 0x0720"
    using assms by (subst fold_fill) auto
  ultimately show ?thesis using False assms
    by (simp add: asm_scroll_def scroll_eq console_defs Let_def bl)
qed (simp add: asm_scroll_def scroll_id console_defs)

lemma pad_line_length: "length l \<le> 80 \<Longrightarrow> length (pad_line l) = 80"
  by (simp add: pad_line_def)

lemma pad_lines_length: "list_all (\<lambda>l. length l \<le> 80) w \<Longrightarrow> length (concat (map pad_line w)) = 80 * length w"
  by (induction w) (auto simp: pad_line_length)

lemma window_facts:
  assumes "lines_ok ls"
  shows "window ls \<noteq> []" "list_all (\<lambda>l. length l \<le> 80) (window ls)" "last (window ls) = last ls"
    "length (window ls) \<le> 25"
proof -
  have "\<not> length ls \<le> length ls - 25" using assms by (cases ls) (auto simp: lines_ok_def)
  then show "window ls \<noteq> []" "list_all (\<lambda>l. length l \<le> 80) (window ls)" "last (window ls) = last ls"
    "length (window ls) \<le> 25"
    using assms by (auto simp: lines_ok_def window_def list_all_iff dest: in_set_dropD)
qed

lemma window_short:
  "list_all (\<lambda>l. length l \<le> 80) ls \<Longrightarrow> list_all (\<lambda>l. length l \<le> 80) (window ls)" "length (window ls) \<le> 25"
  by (auto simp: window_def list_all_iff dest: in_set_dropD)

lemma picture_length: "list_all (\<lambda>l. length l \<le> 80) ls \<Longrightarrow> length (picture (window ls)) = 2000"
  using window_short [of ls] by (simp add: picture_def pad_lines_length)

lemma window_snoc: "window (ls @ [l]) = (if length (window ls) < 25 then window ls else tl (window ls)) @ [l]"
proof (cases "length ls < 25")
  case False
  then have "Suc (length ls) - 25 = Suc (length ls - 25)" by simp
  then show ?thesis using False by (simp add: window_def drop_Suc tl_drop)
qed (simp add: window_def)

lemma lines_split:
  assumes "lines_ok ls"
  obtains w l where "window ls = w @ [l]" "length l < 80" "l = last ls" "list_all (\<lambda>l. length l \<le> 80) w"
    "length w < 25" "butlast ls @ [l] = ls"
proof
  have ne: "window ls \<noteq> []" using window_facts [OF assms] by blast
  show "window ls = butlast (window ls) @ [last ls]" using window_facts [OF assms] by (metis append_butlast_last_id)
  show "length (last ls) < 80" "last ls = last ls" using assms by (auto simp: lines_ok_def)
  show "list_all (\<lambda>l. length l \<le> 80) (butlast (window ls))"
    using window_facts(2) [OF assms] by (auto simp: list_all_iff dest: in_set_butlastD)
  show "length (butlast (window ls)) < 25" using window_facts [OF assms] ne by (cases "window ls" rule: rev_cases) auto
  show "butlast ls @ [last ls] = ls" using assms by (simp add: lines_ok_def)
qed

lemma new_line_display:
  assumes "lines_ok (ls @ [[]])" "list_all (\<lambda>l. length l \<le> 80) ls" "ls \<noteq> []"
  shows "scroll \<lparr>vga_buffer = picture (window ls), cursor_row = length (window ls), cursor_col = 0\<rparr> = display (ls @ [[]])"
proof -
  have len: "length (picture (window ls)) = 2000"
    using assms(2) by (rule picture_length)
  have p0: "pad_line [] = replicate 80 blank" by (simp add: pad_line_def)
  show ?thesis
  proof (cases "length (window ls) < 25")
    case True
    have "80 * (25 - length (window ls)) = 80 + 80 * (24 - length (window ls))" using True by simp
    then have "picture (window ls @ [[]]) = picture (window ls)"
      by (simp add: picture_def p0 replicate_add)
    with True show ?thesis by (simp add: scroll_id display_def window_snoc)
  next
    case False
    then have n: "length (window ls) = 25" by (simp add: window_def)
    then obtain l w where w: "window ls = l # w" by (cases "window ls") auto
    have "l \<in> set ls" using w by (metis list.set_intros(1) in_set_dropD window_def)
    then have "length l \<le> 80" using assms(2) by (simp add: list_all_iff)
    then have d: "drop 80 (picture (window ls)) = concat (map pad_line w)"
      using n w by (simp add: picture_def pad_line_length)
    from n w have "length w = 24" by simp
    then have "picture (w @ [[]]) = concat (map pad_line w) @ replicate 80 blank" by (simp add: picture_def p0)
    then show ?thesis using n w len d \<open>length w = 24\<close> by (simp add: scroll_eq display_def window_snoc)
  qed
qed

lemma picture_set:
  assumes "list_all (\<lambda>l. length l \<le> 80) w" "length l < 80"
  shows "(picture (w @ [l]))[length w * 80 + length l := v] = picture (w @ [l @ [v]])"
proof -
  have "replicate (80 - length l) blank = blank # replicate (80 - Suc (length l)) blank"
    using assms(2) by (simp add: Suc_diff_Suc [symmetric])
  then have "(pad_line l)[length l := v] = pad_line (l @ [v])"
    by (simp add: pad_line_def list_update_append)
  then show ?thesis using assms pad_lines_length [OF assms(1)]
    by (simp add: picture_def list_update_append pad_line_length algebra_simps)
qed

lemma lines_ok_type:
  assumes "lines_ok ls"
  shows "lines_ok (ls @ [[]])" "lines_ok (add_cell v ls)"
  using assms
  by (auto simp: lines_ok_def add_cell_def Let_def list_all_iff dest: in_set_butlastD)

lemma place_display:
  assumes "lines_ok ls"
  shows "map_option scroll (place v (display ls)) = Some (display (add_cell v ls))"
proof -
  obtain w l where w: "window ls = w @ [l]" "length l < 80" "l = last ls"
      "list_all (\<lambda>l. length l \<le> 80) w" "length w < 25" "butlast ls @ [l] = ls"
    by (rule lines_split [OF assms])
  have len: "length (picture (w @ [l])) = 2000"
    using picture_length [of ls] assms w by (simp add: lines_ok_def)
  let ?ls = "butlast ls @ [l @ [v]]"
  have win: "window ?ls = w @ [l @ [v]]"
  proof -
    have "window (butlast ls @ [x]) = take (length w) (window ls) @ [x]" for x
      using w(1) w(6) window_snoc [of "butlast ls" l] window_snoc [of "butlast ls" x]
      by (metis append_eq_append_conv append_eq_conv_conj length_append_singleton nat.inject)
    then show ?thesis using w by simp
  qed
  have set: "vga_set (length w * 80 + length l) v (display ls) =
      Some \<lparr>vga_buffer = picture (window ?ls), cursor_row = length w, cursor_col = length l\<rparr>"
    using w(1,2,5) len picture_set [OF w(4,2), of v] by (simp add: vga_set_def display_def win flip: w(3))
  have all: "list_all (\<lambda>l. length l \<le> 80) ?ls"
    using w(2) assms by (auto simp: lines_ok_def list_all_iff dest: in_set_butlastD)
  have pl: "place v (display ls) = map_option advance (vga_set (length w * 80 + length l) v (display ls))"
    using w by (simp add: place_def display_def console_defs)
  show ?thesis
  proof (cases "length l = 79")
    case True
    then have ac: "add_cell v ls = ?ls @ [[]]" using w by (simp add: add_cell_def)
    have ok: "lines_ok (?ls @ [[]])" using lines_ok_type(2) [OF assms, of v] by (simp add: ac)
    have "scroll \<lparr>vga_buffer = picture (window ?ls), cursor_row = length (window ?ls), cursor_col = 0\<rparr> = display (?ls @ [[]])"
      by (rule new_line_display [OF ok all]) simp
    then show ?thesis unfolding pl set ac using True by (simp add: advance_def next_line_def console_defs win)
  next
    case False
    then have ac: "add_cell v ls = ?ls" using w by (simp add: add_cell_def)
    show ?thesis unfolding pl set ac using False w(2,5)
      by (simp add: advance_def console_defs scroll_id display_def win)
  qed
qed

lemma output_display:
  assumes "lines_ok ls"
  shows "kprint_char_color color c (display ls) = Some (display (type_char (color, c) ls))"
    "kprint_char c (display ls) = Some (display (type_char (DEFAULT_COLOR, c) ls))"
    "putchar c (display ls) = Some (display (type_char (DEFAULT_COLOR, c) ls))"
proof -
  have nl: "scroll (next_line (display ls)) = display (ls @ [[]])"
    using new_line_display [OF lines_ok_type(1) [OF assms]] assms window_facts [OF assms]
    by (simp add: lines_ok_def next_line_def display_def)
  show "kprint_char_color color c (display ls) = Some (display (type_char (color, c) ls))"
    "kprint_char c (display ls) = Some (display (type_char (DEFAULT_COLOR, c) ls))"
    "putchar c (display ls) = Some (display (type_char (DEFAULT_COLOR, c) ls))"
    using place_display [OF assms]
    by (auto simp: kprint_char_color_def kprint_char_def putchar_def type_char_def nl)
qed

lemma lines_ok_type_char [inv_intro]: "lines_ok ls \<Longrightarrow> lines_ok (type_char p ls)"
  by (cases p) (simp add: type_char_def lines_ok_type)

lemma clear_display:
  assumes "length (vga_buffer con) = 2000"
  shows "clear_screen con = display [[]]"
proof -
  have "fold (\<lambda>i b. b[0 + i := blank]) [0..<2000] (vga_buffer con) = replicate 2000 blank"
    using assms by (subst fold_fill) auto
  then show ?thesis
    by (simp add: clear_screen_def display_def window_def picture_def pad_line_def console_defs replicate_add [symmetric])
qed

section \<open>No output leaves the screen\<close>

definition con_ok :: "console \<Rightarrow> bool" where
  "con_ok con \<longleftrightarrow> length (vga_buffer con) = 2000 \<and> cursor_row con < 25 \<and> cursor_col con < 80"

definition safe :: "(console \<Rightarrow> console option) \<Rightarrow> bool" where
  "safe f \<longleftrightarrow> (\<forall>con. con_ok con \<longrightarrow> (\<exists>con'. f con = Some con' \<and> con_ok con'))"

lemma safeI [intro?]: "(\<And>con. con_ok con \<Longrightarrow> \<exists>con'. f con = Some con' \<and> con_ok con') \<Longrightarrow> safe f"
  by (simp add: safe_def)

lemma safeD: "safe f \<Longrightarrow> con_ok con \<Longrightarrow> \<exists>con'. f con = Some con' \<and> con_ok con'"
  by (simp add: safe_def)

lemma safe_each: "(\<And>x. x \<in> set xs \<Longrightarrow> safe (f x)) \<Longrightarrow> safe (each f xs)"
proof (rule safeI)
  fix con
  assume "\<And>x. x \<in> set xs \<Longrightarrow> safe (f x)" "con_ok con"
  then show "\<exists>con'. each f xs con = Some con' \<and> con_ok con'"
    by (induction xs arbitrary: con) (auto dest!: safeD split: option.splits, force dest: safeD)
qed

lemma scroll_length [simp]: "length (vga_buffer (scroll con)) = length (vga_buffer con)"
proof -
  have inner: "length (fold (\<lambda>col b. b[p col := q col b]) cs b) = length b"
    for p :: "nat \<Rightarrow> nat" and q :: "nat \<Rightarrow> u16 list \<Rightarrow> u16" and cs b
    by (induction cs arbitrary: b) auto
  have "length (fold (\<lambda>row b. fold (\<lambda>col b. b[p row col := q row col b]) cs b) rs b) = length b"
    for p :: "nat \<Rightarrow> nat \<Rightarrow> nat" and q :: "nat \<Rightarrow> nat \<Rightarrow> u16 list \<Rightarrow> u16" and cs rs b
    by (induction rs arbitrary: b) (auto simp: inner)
  then show ?thesis by (simp add: scroll_def Let_def inner)
qed

lemma scroll_cursor [simp]: "cursor_col (scroll con) = cursor_col con" "cursor_row (scroll con) = min 24 (cursor_row con)"
  by (auto simp: scroll_def Let_def console_defs)

lemma place_ok:
  assumes "con_ok con"
  shows "\<exists>con'. place v con = Some con' \<and> length (vga_buffer con') = 2000 \<and> cursor_col con' < 80"
proof -
  have "cursor_row con * 80 + cursor_col con < 2000" using assms by (simp add: con_ok_def)
  with assms show ?thesis
    by (auto simp: place_def vga_set_def advance_def next_line_def console_defs Let_def con_ok_def)
qed

lemma safe_chars [inv_intro]: "safe (kprint_char c)" "safe (kprint_char_color color c)" "safe (putchar c)"
proof -
  have *: "safe (\<lambda>con. map_option scroll (if c = CHR 0x0A then Some (next_line con) else place (cell k c) con))" for k
  proof
    fix con
    assume ok: "con_ok con"
    then obtain con' where "place (cell k c) con = Some con'" "length (vga_buffer con') = 2000" "cursor_col con' < 80"
      using place_ok by blast
    with ok show "\<exists>con'. map_option scroll (if c = CHR 0x0A then Some (next_line con) else place (cell k c) con) = Some con' \<and> con_ok con'"
      by (auto simp: next_line_def con_ok_def min_def)
  qed
  show "safe (kprint_char c)" "safe (kprint_char_color color c)" "safe (putchar c)"
    using * by (simp_all add: kprint_char_def [abs_def] kprint_char_color_def [abs_def] putchar_def [abs_def])
qed

lemma safe_vga_putchar [inv_intro]: "safe (vga_putchar c)"
proof
  fix con
  assume ok: "con_ok con"
  then obtain con' where p: "place (asm_cell c) con = Some con'" "length (vga_buffer con') = 2000" "cursor_col con' < 80"
    using place_ok by blast
  have "cursor_row con * 80 + (cursor_col con - 1) < 2000" using ok unfolding con_ok_def by linarith
  with ok p show "\<exists>con'. vga_putchar c con = Some con' \<and> con_ok con'"
    by (auto simp: vga_putchar_def next_line_def con_ok_def min_def asm_scroll_eq vga_set_def console_defs)
qed

lemma safe_strings [inv_intro]: "safe (kprint s)" "safe (kprint_color s color)" "safe (print_string s)"
  by (auto simp: kprint_def kprint_color_def print_string_def intro!: safe_each inv_intro)

lemma safe_putchars: "safe (each putchar s)"
  by (intro safe_each inv_intro)

lemma safe_clear [inv_intro]: "safe (\<lambda>con. Some (clear_screen con))"
  by (rule safeI) (auto simp: clear_display con_ok_def display_def picture_length lines_ok_def window_def picture_def pad_line_def)

text \<open>The text a format stands for, and the formats that are well typed for their arguments.\<close>

definition arg_text :: "char \<Rightarrow> karg list \<Rightarrow> (string \<times> karg list) option" where
  "arg_text d args =
     (if d = CHR ''s'' then (case args of StrArg str # rest \<Rightarrow> Some (cstr str, rest) | _ \<Rightarrow> None)
      else if d = CHR ''c'' then
        (case args of IntArg v # rest \<Rightarrow> Some ([char_of (unat (ucast v :: u8))], rest) | _ \<Rightarrow> None)
      else if d = CHR ''d'' then
        (case args of IntArg v # rest \<Rightarrow> map_option (\<lambda>t. (t, rest)) (decimal_chars (sint v)) | _ \<Rightarrow> None)
      else if d = CHR ''x'' then (case args of IntArg v # rest \<Rightarrow> Some (hex_chars v, rest) | _ \<Rightarrow> None)
      else if d = CHR ''%'' then Some (''%'', args)
      else Some (''?'', args))"

fun format_text :: "string \<Rightarrow> karg list \<Rightarrow> string option" where
  "format_text [] args = Some []"
| "format_text [c] args = (if c = NUL then Some [] else if c = CHR ''%'' then None else Some [c])"
| "format_text (c # d # f) args =
     (if c = NUL then Some []
      else if c = CHR ''%'' then
        (if d = NUL then None
         else case arg_text d args of
           None \<Rightarrow> None
         | Some (t, args') \<Rightarrow> map_option (\<lambda>r. t @ r) (format_text f args'))
      else map_option (\<lambda>r. c # r) (format_text (d # f) args))"

lemma kprintf_arg_text:
  "kprintf_arg d args con =
     (if d = CHR ''s'' then
        (case args of StrArg str # rest \<Rightarrow> map_option (Pair rest) (each vga_putchar (cstr str) con) | _ \<Rightarrow> None)
      else case arg_text d args of
        None \<Rightarrow> None
      | Some (t, rest) \<Rightarrow> map_option (Pair rest) (each putchar t con))"
  by (auto simp: kprintf_arg_def arg_text_def print_string_def print_decimal_def print_hex_def
      split: list.splits karg.splits option.splits)

lemma safe_kprintf:
  assumes "format_text f args = Some t" "con_ok con"
  shows "\<exists>con'. kprintf f args con = Some con' \<and> con_ok con'"
  using assms
proof (induction f args arbitrary: t con rule: format_text.induct)
  case (2 c args)
  then show ?case using safeD [OF safe_chars(3)] by (auto split: if_splits)
next
  case (3 c d f args)
  show ?case
  proof (cases "c = CHR ''%''")
    case True
    with 3(3) obtain u args' r where u: "d \<noteq> NUL" "arg_text d args = Some (u, args')" "format_text f args' = Some r"
      by (auto split: if_splits option.splits)
    have "\<exists>con'. kprintf_arg d args con = Some (args', con') \<and> con_ok con'"
    proof (cases "d = CHR ''s''")
      case True
      with u obtain str where a: "args = StrArg str # args'" by (auto simp: arg_text_def split: list.splits karg.splits)
      obtain con' where "print_string str con = Some con'" "con_ok con'"
        using safeD [OF safe_strings(3) 3(4)] by blast
      then show ?thesis using a True by (simp add: kprintf_arg_def)
    next
      case False
      obtain con' where "each putchar u con = Some con'" "con_ok con'"
        using safeD [OF safe_putchars 3(4)] by blast
      then show ?thesis using u False by (simp add: kprintf_arg_text)
    qed
    then obtain con' where c': "kprintf_arg d args con = Some (args', con')" "con_ok con'" by blast
    have "\<exists>con''. kprintf f args' con' = Some con'' \<and> con_ok con''"
      using 3(1) [of "(u, args')" u args'] True u c' by simp
    then show ?thesis using True u c' by simp
  next
    case False
    obtain con' where "putchar c con = Some con'" "con_ok con'" using safeD [OF safe_chars(3) 3(4)] by blast
    then show ?thesis using 3(2,3,4) False by (auto split: if_splits)
  qed
qed simp

definition plain :: "char \<Rightarrow> bool" where
  "plain c \<longleftrightarrow> of_char c < (128 :: nat) \<and> c \<noteq> CHR 0x08"

lemma asm_cell_eq: "plain c \<Longrightarrow> asm_cell c = cell DEFAULT_COLOR c"
proof -
  assume "plain c"
  then have n7: "\<not> bit (of_char c :: u8) 7"
    by (cases c) (auto simp: plain_def of_char_def bit_simps)
  have "(scast (of_char c :: u8) :: u16) = ucast (of_char c :: u8)"
  proof (rule bit_word_eqI)
    fix n
    show "bit (scast (of_char c :: u8) :: u16) n = bit (ucast (of_char c :: u8) :: u16) n" if "n < LENGTH(16)"
      using n7 that by (cases "n < 7"; cases "n = 7") (auto simp: bit_simps min_def dest: bit_imp_le_length)
  qed
  then show ?thesis by (simp add: asm_cell_def cell_def DEFAULT_COLOR_def)
qed

lemma vga_putchar_eq:
  assumes "con_ok con" "plain c"
  shows "vga_putchar c con = putchar c con"
proof -
  obtain con' where p: "place (asm_cell c) con = Some con'" "length (vga_buffer con') = 2000"
    using place_ok [OF assms(1)] by blast
  have "length (vga_buffer (next_line con)) = 2000" using assms by (simp add: next_line_def con_ok_def)
  with p assms show ?thesis
    by (simp add: vga_putchar_def putchar_def plain_def asm_scroll_eq asm_cell_eq [OF assms(2), symmetric])
qed

text \<open>
  C39: The assembly routine \<^verbatim>\<open>vga_putchar\<close> behind \<^verbatim>\<open>print_string\<close> and the C function \<^verbatim>\<open>putchar\<close>
  compute the same console for every 7-bit character except backspace, on every
  console with the cursor on the screen: one ascending block move scrolls like the
  nested copy loops, and zero and sign extension agree below 0x80.
\<close>

theorem asm_putchar_equiv: "con_ok con \<Longrightarrow> plain c \<Longrightarrow> vga_putchar c con = putchar c con"
  by (rule vga_putchar_eq)

theorem asm_putchar_witness: "vga_putchar CHR ''A'' (display [[]]) = putchar CHR ''A'' (display [[]])"
  by (rule asm_putchar_equiv)
     (simp_all add: plain_def con_ok_def display_def window_def picture_def pad_line_def)

section \<open>What the screen shows\<close>

lemma each_display:
  assumes "lines_ok ls"
  shows "each kprint_char s (display ls) = Some (display (fold type_char (map (Pair DEFAULT_COLOR) s) ls))"
    "each putchar s (display ls) = Some (display (fold type_char (map (Pair DEFAULT_COLOR) s) ls))"
    "each (kprint_char_color color) s (display ls) = Some (display (fold type_char (map (Pair color) s) ls))"
    "lines_ok (fold type_char ps ls)"
proof -
  have f: "fold type_char (map (Pair k) s) ls = fold (\<lambda>c. type_char (k, c)) s ls" for k
    by (simp add: fold_map comp_def)
  show "each kprint_char s (display ls) = Some (display (fold type_char (map (Pair DEFAULT_COLOR) s) ls))"
    "each putchar s (display ls) = Some (display (fold type_char (map (Pair DEFAULT_COLOR) s) ls))"
    "each (kprint_char_color color) s (display ls) = Some (display (fold type_char (map (Pair color) s) ls))"
    unfolding f using assms
    by (auto intro!: each_refines [where I = lines_ok and P = "\<lambda>_. True", THEN conjunct1]
        simp: output_display lines_ok_type_char)
  show "lines_ok (fold type_char ps ls)"
    using assms by (induction ps arbitrary: ls) (auto simp: lines_ok_type_char)
qed

lemma display_ok: "lines_ok ls \<Longrightarrow> con_ok (display ls)"
  using window_facts [of ls] picture_length [of ls]
  by (auto simp: con_ok_def display_def lines_ok_def)

lemma vga_putchar_display:
  assumes "lines_ok ls" "list_all plain s"
  shows "each vga_putchar s (display ls) = Some (display (fold type_char (map (Pair DEFAULT_COLOR) s) ls))"
proof -
  have "vga_putchar c (display a) = Some (display (type_char (DEFAULT_COLOR, c) a)) \<and> lines_ok (type_char (DEFAULT_COLOR, c) a)"
    if "lines_ok a" "plain c" for a c
    using that by (simp add: vga_putchar_eq display_ok output_display lines_ok_type_char)
  then have "each vga_putchar s (display ls) = Some (display (fold (\<lambda>c. type_char (DEFAULT_COLOR, c)) s ls))"
    using assms by (intro each_refines [where I = lines_ok and P = plain, THEN conjunct1]) (auto simp: list_all_iff)
  then show ?thesis by (simp add: fold_map comp_def)
qed
fun plain_arg :: "karg \<Rightarrow> bool" where
  "plain_arg (StrArg s) = list_all plain (cstr s)"
| "plain_arg (IntArg v) = True"

lemma arg_text_plain: "arg_text d args = Some (t, rest) \<Longrightarrow> list_all plain_arg args \<Longrightarrow> list_all plain_arg rest"
  by (auto simp: arg_text_def split: if_splits list.splits karg.splits)

lemma kprintf_arg_display:
  assumes "lines_ok ls" "arg_text d args = Some (t, rest)" "list_all plain_arg args"
  shows "kprintf_arg d args (display ls) = Some (rest, display (fold type_char (map (Pair DEFAULT_COLOR) t) ls))"
proof (cases "d = CHR ''s''")
  case True
  with assms(2) obtain str where a: "args = StrArg str # rest" "t = cstr str"
    by (auto simp: arg_text_def split: list.splits karg.splits)
  then have "each vga_putchar (cstr str) (display ls) = Some (display (fold type_char (map (Pair DEFAULT_COLOR) t) ls))"
    using vga_putchar_display [OF assms(1), of "cstr str"] assms(3) by simp
  then show ?thesis using a True by (simp add: kprintf_arg_text)
next
  case False
  then show ?thesis using assms by (simp add: kprintf_arg_text each_display)
qed

lemma kprintf_display:
  assumes "lines_ok ls" "format_text f args = Some t" "list_all plain_arg args"
  shows "kprintf f args (display ls) = Some (display (fold type_char (map (Pair DEFAULT_COLOR) t) ls))"
  using assms
proof (induction f args arbitrary: t ls rule: format_text.induct)
  case (2 c args)
  then show ?case by (auto simp: output_display split: if_splits)
next
  case (3 c d f args)
  show ?case
  proof (cases "c = CHR ''%''")
    case True
    with 3(4) obtain u args' r where u: "d \<noteq> NUL" "arg_text d args = Some (u, args')" "format_text f args' = Some r" "t = u @ r"
      by (auto split: if_splits option.splits)
    let ?ls = "fold type_char (map (Pair DEFAULT_COLOR) u) ls"
    have "kprintf f args' (display ?ls) = Some (display (fold type_char (map (Pair DEFAULT_COLOR) r) ?ls))"
      using 3(1) [of "(u, args')" u args' ?ls r] True u 3(3,5) arg_text_plain [OF u(2)] each_display(4) by simp
    then show ?thesis using True u kprintf_arg_display [OF 3(3) u(2) 3(5)] by simp
  next
    case False
    then show ?thesis
      using 3(2) [OF _ _, of "type_char (DEFAULT_COLOR, c) ls" "tl t"] 3(3,4,5)
      by (auto simp: output_display lines_ok_type_char split: if_splits)
  qed
qed simp

text \<open>One call of the output interface on the list of lines, and when it is defined.\<close>

fun type_out :: "kout \<Rightarrow> screen_lines \<Rightarrow> screen_lines" where
  "type_out (Kprint s) ls = fold type_char (map (Pair DEFAULT_COLOR) (cstr s)) ls"
| "type_out (KprintColor s color) ls = fold type_char (map (Pair color) (cstr s)) ls"
| "type_out (KprintChar c) ls = type_char (DEFAULT_COLOR, c) ls"
| "type_out (Kprintf f args) ls = fold type_char (map (Pair DEFAULT_COLOR) (the (format_text f args))) ls"
| "type_out ClearScreen ls = [[]]"

fun out_ok :: "kout \<Rightarrow> bool" where
  "out_ok (Kprintf f args) = (format_text f args \<noteq> None \<and> list_all plain_arg args)"
| "out_ok _ = True"

lemma emit_display:
  assumes "lines_ok ls" "out_ok k"
  shows "emit k (display ls) = Some (display (type_out k ls)) \<and> lines_ok (type_out k ls)"
proof (cases k)
  case ClearScreen
  have "length (vga_buffer (display ls)) = 2000" using display_ok [OF assms(1)] by (simp add: con_ok_def)
  then show ?thesis using ClearScreen by (simp add: clear_display lines_ok_def)
qed (use assms in \<open>auto simp: kprint_def kprint_color_def each_display output_display lines_ok_type_char kprintf_display\<close>)

text \<open>
  C9: Every sequence of well-typed output calls from a console that shows the last 25
  lines of a text runs without a fault and shows the last 25 lines of the text
  with the output appended (characters wrapped after 80 columns, newlines and
  colours respected, \<^verbatim>\<open>clear_screen\<close> starting a new text), the cursor at its end.
\<close>

theorem console_shows_last_lines:
  assumes "lines_ok ls" "list_all out_ok outs"
  shows "each emit outs (display ls) = Some (display (fold type_out outs ls)) \<and> lines_ok (fold type_out outs ls)"
  using assms by (intro each_refines [where I = lines_ok and P = out_ok]) (auto simp: emit_display list_all_iff)

theorem console_shows_witness:
  "each emit [ClearScreen, Kprintf ''%s=%d%%'' [StrArg ''cpu'', IntArg 0xFFFFFFFB]] (display [[1]]) =
     Some (display [map (cell DEFAULT_COLOR) ''cpu=-5%''])"
  using console_shows_last_lines [of "[[1]]" "[ClearScreen, Kprintf ''%s=%d%%'' [StrArg ''cpu'', IntArg 0xFFFFFFFB]]"]
  by (simp add: lines_ok_def arg_text_def cstr_Cons decimal_chars_def digits_loop.simps plain_def type_char_def add_cell_def char_of_def bit_0)

section \<open>Reading back what was printed\<close>

lemma digits_loop_dec: "c \<in> set (digits_loop n) \<Longrightarrow> is_dec c"
proof (induction n rule: digits_loop.induct)
  case (1 v)
  then show ?case
    by (subst (asm) digits_loop.simps) (auto simp: is_dec_def of_char_of split: if_splits)
qed

lemma is_dec_not: "is_dec c \<Longrightarrow> c \<noteq> CHR ''-'' \<and> c \<noteq> NUL"
  by (auto simp: is_dec_def)

lemma scan_digits:
  "val \<ge> 0 \<Longrightarrow> val * 10 ^ length (digits_loop n) + int n < 2 ^ 31 \<Longrightarrow>
   scan_dec (rev (digits_loop n) @ s) val = scan_dec s (val * 10 ^ length (digits_loop n) + int n)"
proof (induction n arbitrary: s val rule: digits_loop.induct)
  case (1 n)
  show ?case
  proof (cases "n = 0")
    case True
    then show ?thesis by (simp add: digits_loop.simps)
  next
    case False
    let ?m = "n div 10" and ?c = "char_of (48 + n mod 10) :: char"
    let ?v = "val * 10 ^ length (digits_loop ?m) + int ?m"
    have d: "digits_loop n = ?c # digits_loop ?m" using False by (subst digits_loop.simps) simp
    have c: "of_char ?c = 48 + n mod 10" by (simp add: of_char_of)
    have n: "int n = 10 * int ?m + int (n mod 10)" using mult_div_mod_eq [of 10 "int n"] by (simp add: zdiv_int zmod_int)
    have v: "?v * 10 + int (n mod 10) = val * 10 ^ length (digits_loop n) + int n"
      using n by (simp add: d algebra_simps)
    have "?v \<ge> 0" using 1(2) by simp
    have key: "q < 2 ^ 31" if "0 \<le> q" "0 \<le> r" "q * 10 + r = t" "t < 2 ^ 31" for q r t :: int
      using that by simp
    have "?v < 2 ^ 31" by (rule key [OF \<open>?v \<ge> 0\<close> _ v 1(3)]) simp
    then have "scan_dec (rev (digits_loop ?m) @ ?c # s) val = scan_dec (?c # s) ?v"
      using 1(1) [OF False 1(2), of "?c # s"] by simp
    also have "\<dots> = scan_dec s (?v * 10 + int (n mod 10))"
      using v 1(3) digits_loop_dec [of ?c n] by (simp add: d c)
    finally show ?thesis unfolding v by (simp add: d)
  qed
qed

lemma digits_nonempty: "0 < n \<Longrightarrow> digits_loop n \<noteq> []"
  by (subst digits_loop.simps) simp

lemma scan_printed:
  assumes "\<bar>v\<bar> < 2 ^ 31"
  shows "\<exists>t. decimal_chars v = Some t \<and> ksscanf t ''%d'' = Some [IntVal v]"
proof (cases "v = 0")
  case True
  then show ?thesis by (simp add: decimal_chars_def ksscanf_def cstr_Cons scan_directive_def is_dec_def)
next
  case False
  let ?ds = "rev (digits_loop (nat \<bar>v\<bar>))"
  obtain c cs where d: "?ds = c # cs" using digits_nonempty [of "nat \<bar>v\<bar>"] False by (cases ?ds) auto
  have "c \<in> set (digits_loop (nat \<bar>v\<bar>))" using d by (metis list.set_intros(1) set_rev)
  then have c: "c \<noteq> CHR ''-''" using digits_loop_dec is_dec_not by blast
  have "NUL \<notin> set (digits_loop (nat \<bar>v\<bar>))" using digits_loop_dec is_dec_not by blast
  then have nul: "cstr ?ds = ?ds" by (intro cstr_id) simp
  have s: "scan_dec ?ds 0 = Some (\<bar>v\<bar>, [])"
    using scan_digits [of 0 "nat \<bar>v\<bar>" "[]"] assms by simp
  show ?thesis
  proof (cases "v < 0")
    case True
    then show ?thesis using False assms s nul
      by (auto simp: decimal_chars_def ksscanf_def cstr_Cons scan_directive_def)
  next
    case False
    then show ?thesis using assms s nul c d \<open>v \<noteq> 0\<close>
      by (auto simp: decimal_chars_def ksscanf_def cstr_Cons scan_directive_def)
  qed
qed

text \<open>
  C29: Every 32-bit integer except the least one is printed by \<^verbatim>\<open>print_decimal\<close> as a text
  that \<^verbatim>\<open>ksscanf\<close> reads back with \<^verbatim>\<open>%d\<close> as the same integer.
\<close>

theorem decimal_print_scan:
  assumes "w \<noteq> (0x80000000 :: u32)" "lines_ok ls"
  shows "\<exists>t. print_decimal (sint w) (display ls) = Some (display (fold type_char (map (Pair DEFAULT_COLOR) t) ls)) \<and>
     ksscanf t ''%d'' = Some [IntVal (sint w)]"
proof -
  have "sint w \<noteq> - (2 ^ 31)"
  proof
    assume "sint w = - (2 ^ 31)"
    then have "(word_of_int (sint w) :: u32) = word_of_int (- (2 ^ 31))" by simp
    then have "w = 0x80000000" by simp
    with assms show False by simp
  qed
  moreover have "- (2 ^ 31) \<le> sint w" "sint w < 2 ^ 31" using sint_ge [of w] sint_lt [of w] by simp_all
  ultimately have "\<bar>sint w\<bar> < 2 ^ 31" by linarith
  then show ?thesis using scan_printed [of "sint w"] each_display(2) [OF assms(2)]
    by (auto simp: print_decimal_def)
qed

theorem decimal_print_scan_witness:
  "\<exists>t. print_decimal (sint (0xFFFFFFF9 :: u32)) (display [[]]) = Some (display (fold type_char (map (Pair DEFAULT_COLOR) t) [[]])) \<and>
     ksscanf t ''%d'' = Some [IntVal (sint (0xFFFFFFF9 :: u32))]"
  by (rule decimal_print_scan) (simp_all add: lines_ok_def)

lemma of_char_zero [simp]: "of_char c = (0 :: nat) \<longleftrightarrow> c = NUL"
  using of_char_eq_iff [of c NUL, where 'a = nat] by simp

lemma ksstrcmp_eq: "ksstrcmp s1 s2 = 0 \<longleftrightarrow> cstr s1 = cstr s2"
proof (induction s1 s2 rule: ksstrcmp.induct [case_names both left right none])
  case (both a s1 b s2)
  then show ?case by (cases "a = b") (auto simp: cstr_Cons)
qed (auto simp: cstr_Cons)

section \<open>The splash stays on the screen\<close>

lemma safe_vga_set: "i < 2000 \<Longrightarrow> safe (vga_set i v)"
  by (rule safeI) (auto simp: vga_set_def con_ok_def)

lemma safe_draw_box: "x + w \<le> 80 \<Longrightarrow> y + h \<le> 25 \<Longrightarrow> 0 < w \<Longrightarrow> 0 < h \<Longrightarrow> safe (draw_box x y w h color)"
  unfolding draw_box_def [abs_def] eta_contract_eq
  by (intro safe_each) (auto simp: console_defs intro!: safe_vga_set)

lemma safe_print_at: "y * 80 + x + length (cstr s) \<le> 2000 \<Longrightarrow> safe (print_at x y s)"
  unfolding print_at_def [abs_def] eta_contract_eq
  by (intro safe_each) (auto simp: console_defs in_set_enumerate_eq intro!: safe_vga_set)

lemma safe_progress: "y * 80 + x + width \<le> 2000 \<Longrightarrow> safe (draw_progress_bar x y width percent)"
  unfolding draw_progress_bar_def [abs_def] Let_def
  by (intro safe_each) (auto simp: console_defs intro!: safe_vga_set)

lemma each_blank:
  assumes "length (vga_buffer con) = 2000" "k \<le> 2000"
  shows "each (\<lambda>i. vga_set i blank) [0..<k] con =
    Some (con\<lparr>vga_buffer := replicate k blank @ drop k (vga_buffer con)\<rparr>)"
  using assms(2)
proof (induction k)
  case (Suc k)
  then have "drop k (vga_buffer con) = vga_buffer con ! k # drop (Suc k) (vga_buffer con)"
    using assms(1) by (intro Cons_nth_drop_Suc [symmetric]) simp
  with Suc assms(1) show ?case
    by (simp add: each_append vga_set_def list_update_append replicate_append_same [symmetric])
qed simp

lemma safe_fill: "safe (each (\<lambda>i. vga_set i blank) [0..<2000])"
  by (intro safe_each safe_vga_set) simp

lemma safe_memory_line: "safe (kprintf ''Memory: %u MB available'' [IntArg m])"
proof
  fix con
  assume "con_ok con"
  moreover have "format_text ''Memory: %u MB available'' [IntArg m] = Some ''Memory: ? MB available''"
    by (simp add: arg_text_def)
  ultimately show "\<exists>con'. kprintf ''Memory: %u MB available'' [IntArg m] con = Some con' \<and> con_ok con'"
    using safe_kprintf by blast
qed

text \<open>
  From every console with the cursor on the screen the boot splash is drawn
  without a write outside the text buffer and leaves the cleared screen with the
  cursor in the upper left corner.
\<close>

theorem splash_leaves_clear_screen:
  assumes "con_ok con"
  shows "show_enhanced_boot_splash info con = Some (display [[]])"
proof -
  have "safe (each (\<lambda>f. f) (splash_steps info))"
  proof (rule safe_each)
    fix f
    assume "f \<in> set (splash_steps info)"
    then show "safe f"
      by (auto simp: splash_steps_def cstr_Cons fill_screen_def [abs_def] console_defs safe_fill
          intro!: safe_draw_box safe_print_at safe_progress safe_memory_line split: if_splits)
  qed
  then obtain con1 where c: "each (\<lambda>f. f) (splash_steps info) con = Some con1" "con_ok con1"
    using assms by (blast dest: safeD)
  then have len: "length (vga_buffer con1) = 2000" by (simp add: con_ok_def)
  have "clear_screen con1 = display [[]]" using len by (rule clear_display)
  moreover have "fold (\<lambda>i b. b[0 + i := blank]) [0..<2000] (vga_buffer con1) = replicate 2000 blank"
    using len by (subst fold_fill) auto
  ultimately show ?thesis
    using c each_blank [OF len, of 2000] len
    by (simp add: show_enhanced_boot_splash_def each_append fill_screen_def console_defs clear_screen_def)
qed

theorem splash_witness:
  "show_enhanced_boot_splash \<lparr>total_memory = 32, ps2_detected = True\<rparr> (display [[]]) = Some (display [[]])"
  by (rule splash_leaves_clear_screen) (simp add: display_ok lines_ok_def)

end
