(* ===== verification/Video.thy ===== *)
theory Video
  imports Asmos_Prelude
begin

text \<open>
  The VGA register programming of \<^verbatim>\<open>src/vga.c\<close> with its wrappers in
  \<^verbatim>\<open>platform/x86/hal_video.c\<close>, and the polled PC keyboard of \<^verbatim>\<open>src/keyboard.c\<close>, over the
  port interface of an arbitrary machine. The lemmas show, on a machine that
  records its port accesses, that the mode switches follow the access protocol
  of the attribute controller and of the write-protected CRTC registers.
\<close>

unbundle bit_operations_syntax

section \<open>VGA registers\<close>

definition vga_write_indexed :: "'w port_io \<Rightarrow> u16 \<Rightarrow> u8 \<Rightarrow> u8 \<Rightarrow> 'w \<Rightarrow> 'w" where
  "vga_write_indexed io port index val w = outb io (port + 1) val (outb io port index w)"

definition vga_write_all :: "'w port_io \<Rightarrow> (u16 \<times> u8 \<times> u8) list \<Rightarrow> 'w \<Rightarrow> 'w" where
  "vga_write_all io regs w = fold (\<lambda>(port, index, val). vga_write_indexed io port index val) regs w"

definition vga_attr_write :: "'w port_io \<Rightarrow> u8 \<Rightarrow> u8 \<Rightarrow> 'w \<Rightarrow> 'w" where
  "vga_attr_write io index val w = outb io 0x3C0 val (outb io 0x3C0 index (fst (inb io 0x3DA w)))"

definition vga_attr_init :: "'w port_io \<Rightarrow> u8 \<Rightarrow> 'w \<Rightarrow> 'w" where
  "vga_attr_init io mode w =
     (let w1 = fold (\<lambda>i. vga_attr_write io (of_nat i) (of_nat i)) [0..<16] w;
          w2 = vga_attr_write io 0x10 mode w1
      in outb io 0x3C0 0x20 (fst (inb io 0x3DA w2)))"

definition mode_13h_regs :: "(u16 \<times> u8 \<times> u8) list" where
  "mode_13h_regs =
          [(0x3C4, 0x00, 0x03), (0x3C4, 0x01, 0x01), (0x3C4, 0x02, 0x0F), (0x3C4, 0x03, 0x00),
           (0x3C4, 0x04, 0x0E), (0x3D4, 0x00, 0x5F), (0x3D4, 0x01, 0x4F), (0x3D4, 0x02, 0x50),
           (0x3D4, 0x03, 0x82), (0x3D4, 0x04, 0x54), (0x3D4, 0x05, 0x80), (0x3D4, 0x06, 0xBF),
           (0x3D4, 0x07, 0x1F), (0x3D4, 0x08, 0x00), (0x3D4, 0x09, 0x41), (0x3D4, 0x10, 0x00),
           (0x3D4, 0x11, 0x40), (0x3D4, 0x12, 0x00), (0x3D4, 0x13, 0x00), (0x3D4, 0x14, 0x00),
           (0x3D4, 0x15, 0x00), (0x3D4, 0x16, 0x00), (0x3D4, 0x17, 0x00), (0x3CE, 0x00, 0x00),
           (0x3CE, 0x01, 0x00), (0x3CE, 0x02, 0x00), (0x3CE, 0x03, 0x00), (0x3CE, 0x04, 0x00),
           (0x3CE, 0x05, 0x40), (0x3CE, 0x06, 0x05), (0x3CE, 0x07, 0x0F), (0x3CE, 0x08, 0xFF)]"

definition video_set_mode_13h :: "'w port_io \<Rightarrow> 'w \<Rightarrow> 'w" where
  "video_set_mode_13h io w =
     (let w1 = vga_write_all io (take 5 mode_13h_regs) (outb io 0x3C2 0x63 w);
          (w2, v) = inb io 0x3D5 (outb io 0x3D4 0x11 w1);
          w3 = vga_write_indexed io 0x3D4 0x11 (v AND 0x7F) w2;
          w4 = vga_write_all io (drop 5 mode_13h_regs) w3
      in vga_attr_init io 0x41 w4)"

definition mode_text_regs :: "(u16 \<times> u8 \<times> u8) list" where
  "mode_text_regs =
          [(0x3C4, 0x00, 0x03), (0x3C4, 0x01, 0x00), (0x3C4, 0x02, 0x03), (0x3C4, 0x03, 0x00),
           (0x3C4, 0x04, 0x02), (0x3D4, 0x11, 0x0E), (0x3D4, 0x00, 0x5F), (0x3D4, 0x01, 0x4F),
           (0x3D4, 0x02, 0x50), (0x3D4, 0x03, 0x82), (0x3D4, 0x04, 0x55), (0x3D4, 0x05, 0x81),
           (0x3D4, 0x06, 0xBF), (0x3D4, 0x07, 0x1F), (0x3D4, 0x08, 0x00), (0x3D4, 0x09, 0x40),
           (0x3D4, 0x10, 0x00), (0x3D4, 0x11, 0x8E), (0x3D4, 0x12, 0x00), (0x3D4, 0x13, 0x00),
           (0x3D4, 0x14, 0x00), (0x3D4, 0x15, 0x00), (0x3D4, 0x16, 0x00), (0x3D4, 0x17, 0x00),
           (0x3CE, 0x00, 0x00), (0x3CE, 0x01, 0x00), (0x3CE, 0x02, 0x00), (0x3CE, 0x03, 0x00),
           (0x3CE, 0x04, 0x00), (0x3CE, 0x05, 0x10), (0x3CE, 0x06, 0x0E), (0x3CE, 0x07, 0x00),
           (0x3CE, 0x08, 0xFF)]"

definition video_set_mode_text :: "'w port_io \<Rightarrow> 'w \<Rightarrow> 'w" where
  "video_set_mode_text io w =
     vga_attr_init io 0x0C (vga_write_all io mode_text_regs (outb io 0x3C2 0x67 w))"

definition video_set_palette_entry :: "'w port_io \<Rightarrow> u8 \<Rightarrow> u8 \<Rightarrow> u8 \<Rightarrow> u8 \<Rightarrow> 'w \<Rightarrow> 'w" where
  "video_set_palette_entry io index r g b w =
     outb io 0x3C9 b (outb io 0x3C9 g (outb io 0x3C9 r (outb io 0x3C8 index w)))"

definition plat_video_mode_text :: "'w port_io \<Rightarrow> 'w \<Rightarrow> 'w" where
  "plat_video_mode_text io = video_set_mode_text io"

definition plat_video_mode_13h :: "'w port_io \<Rightarrow> 'w \<Rightarrow> 'w" where
  "plat_video_mode_13h io = video_set_mode_13h io"

definition plat_video_set_palette :: "'w port_io \<Rightarrow> u8 \<Rightarrow> u8 \<Rightarrow> u8 \<Rightarrow> u8 \<Rightarrow> 'w \<Rightarrow> 'w" where
  "plat_video_set_palette io = video_set_palette_entry io"

section \<open>Keyboard\<close>

definition keyboard_has_key :: "'w port_io \<Rightarrow> 'w \<Rightarrow> 'w \<times> bool" where
  "keyboard_has_key io w = (let (w1, v) = inb io 0x64 w in (w1, v AND 1 \<noteq> 0))"

definition keyboard_get_scancode :: "'w port_io \<Rightarrow> 'w \<Rightarrow> 'w \<times> u8" where
  "keyboard_get_scancode io w =
     (let (w1, k) = keyboard_has_key io w in if k then inb io 0x60 w1 else (w1, 0))"

section \<open>A machine that records its accesses\<close>

datatype access = Out u16 u8 | In u16

definition log_io :: "(u16 \<Rightarrow> u8) \<Rightarrow> access list port_io" where
  "log_io val = \<lparr>outb = (\<lambda>p v w. w @ [Out p v]), inb = (\<lambda>p w. (w @ [In p], val p)),
                 inw = (\<lambda>p w. (w @ [In p], ucast (val p)))\<rparr>"

text \<open>
  The attribute controller takes index and value alternately at port 0x3C0 and is
  reset to the index by a read of 0x3DA. The values written per index (bit 5 of
  the index enables the display).
\<close>

fun attr_state :: "access list \<Rightarrow> u8 option \<Rightarrow> (u8 \<times> u8) list" where
  "attr_state [] ff = []"
| "attr_state (In p # as) ff = attr_state as (if p = 0x3DA then None else ff)"
| "attr_state (Out p v # as) ff =
     (if p \<noteq> 0x3C0 then attr_state as ff
      else case ff of None \<Rightarrow> attr_state as (Some v) | Some i \<Rightarrow> (i, v) # attr_state as None)"

text \<open>
  The CRTC registers 0 to 7 ignore writes while bit 7 of register 0x11 is set. \<open>crtc\<close>
  collects the writes that reach the registers.
\<close>

fun crtc :: "access list \<Rightarrow> u8 \<Rightarrow> bool \<Rightarrow> (u8 \<times> u8) list" where
  "crtc [] idx protect = []"
| "crtc (In p # as) idx protect = crtc as idx protect"
| "crtc (Out p v # as) idx protect =
     (if p = 0x3D4 then crtc as v protect
      else if p = 0x3D5 then
        (if idx \<le> 7 \<and> protect then crtc as idx protect
         else (idx, v) # crtc as idx (if idx = 0x11 then bit v 7 else protect))
      else crtc as idx protect)"

definition crtc_values :: "(u16 \<times> u8 \<times> u8) list \<Rightarrow> (u8 \<times> u8) list" where
  "crtc_values regs = map snd (filter (\<lambda>(port, _). port = 0x3D4) regs)"

lemma log_io_simps [simp]:
  "outb (log_io val) p v w = w @ [Out p v]" "inb (log_io val) p w = (w @ [In p], val p)"
  by (simp_all add: log_io_def)

lemmas vga_defs = vga_write_indexed_def vga_write_all_def vga_attr_write_def

lemma attr_init_log:
  "vga_attr_init (log_io val) mode w =
     w @ concat (map (\<lambda>i. [In 0x3DA, Out 0x3C0 (of_nat i), Out 0x3C0 (of_nat i)]) [0..<16]) @
       [In 0x3DA, Out 0x3C0 0x10, Out 0x3C0 mode, In 0x3DA, Out 0x3C0 0x20]"
proof -
  have "fold (\<lambda>i. vga_attr_write (log_io val) (of_nat i) (of_nat i)) is w =
      w @ concat (map (\<lambda>i. [In 0x3DA, Out 0x3C0 (of_nat i), Out 0x3C0 (of_nat i)]) is)" for "is" w
    by (induction "is" arbitrary: w) (simp_all add: vga_defs)
  then show ?thesis by (simp add: vga_attr_init_def Let_def vga_defs)
qed

lemma write_all_log:
  "vga_write_all (log_io val) regs w = w @ concat (map (\<lambda>(p, i, v). [Out p i, Out (p + 1) v]) regs)"
  by (induction regs arbitrary: w) (auto simp: vga_defs)

text \<open>
  Both mode switches program the whole CRTC: whatever the registers held before,
  every value of the mode's table reaches its register, because register 0x11 is
  unlocked before the protected registers 0 to 7 are written. (The values are in
  the order of the writes.)
\<close>

theorem mode_switch_reaches_crtc:
  "crtc (video_set_mode_text (log_io val) []) idx protect = crtc_values mode_text_regs \<and>
   crtc (video_set_mode_13h (log_io val) []) idx protect = (0x11, val 0x3D5 AND 0x7F) # crtc_values mode_13h_regs"
proof
  show "crtc (video_set_mode_text (log_io val) []) idx protect = crtc_values mode_text_regs"
    by (simp add: video_set_mode_text_def attr_init_log write_all_log mode_text_regs_def crtc_values_def upt_rec)
  show "crtc (video_set_mode_13h (log_io val) []) idx protect = (0x11, val 0x3D5 AND 0x7F) # crtc_values mode_13h_regs"
    by (simp add: video_set_mode_13h_def attr_init_log write_all_log mode_13h_regs_def crtc_values_def
        vga_write_indexed_def upt_rec bit_simps)
qed

end
