(* ===== verification/Graphics.thy ===== *)
theory Graphics
  imports Console Video
begin

text \<open>
  The mode 13h graphics of \<^verbatim>\<open>src/graphics.c\<close> with its font \<^verbatim>\<open>src/font_8x8.c\<close>: palette,
  drawing primitives on the 320x200 frame buffer, and the bouncing-rectangles
  demo. Coordinates are the unsigned 32-bit integers of the source; the frame
  buffer is the list of its 64000 bytes. The lemmas give the set of pixels each
  primitive writes, the exactness of the line algorithm, and the bounds of the
  demo.
\<close>

unbundle bit_operations_syntax

section \<open>Font\<close>

text \<open>The first 32 rows of the table are the blank control characters.\<close>

definition font_8x8 :: "u8 list list" where
  "font_8x8 = replicate 32 [0, 0, 0, 0, 0, 0, 0, 0] @
     [[0, 0, 0, 0, 0, 0, 0, 0], [0x18, 0x18, 0x18, 0x18, 0x18, 0, 0x18, 0],
      [0x36, 0x36, 0x36, 0, 0, 0, 0, 0], [0x36, 0x36, 0x7F, 0x36, 0x7F, 0x36, 0x36, 0],
      [0x0C, 0x3E, 0x03, 0x1E, 0x30, 0x1F, 0x0C, 0], [0x63, 0x33, 0x18, 0x0C, 0x66, 0x63, 0, 0],
      [0x1C, 0x36, 0x1C, 0x6E, 0x3B, 0x33, 0x6E, 0], [0x0C, 0x0C, 0x06, 0, 0, 0, 0, 0],
      [0x18, 0x0C, 0x06, 0x06, 0x06, 0x0C, 0x18, 0], [0x06, 0x0C, 0x18, 0x18, 0x18, 0x0C, 0x06, 0],
      [0, 0x66, 0x3C, 0xFF, 0x3C, 0x66, 0, 0], [0, 0x0C, 0x0C, 0x3F, 0x0C, 0x0C, 0, 0],
      [0, 0, 0, 0, 0x0C, 0x0C, 0x06, 0], [0, 0, 0, 0x3F, 0, 0, 0, 0],
      [0, 0, 0, 0, 0, 0x0C, 0x0C, 0], [0x60, 0x30, 0x18, 0x0C, 0x06, 0x03, 0x01, 0],
      [0x3E, 0x63, 0x73, 0x6B, 0x67, 0x63, 0x3E, 0], [0x0C, 0x1C, 0x0C, 0x0C, 0x0C, 0x0C, 0x3F, 0],
      [0x1E, 0x33, 0x30, 0x1C, 0x06, 0x33, 0x3F, 0], [0x1E, 0x33, 0x30, 0x1C, 0x30, 0x33, 0x1E, 0],
      [0x38, 0x3C, 0x36, 0x33, 0x7F, 0x30, 0x30, 0], [0x3F, 0x03, 0x1F, 0x30, 0x30, 0x33, 0x1E, 0],
      [0x1C, 0x06, 0x03, 0x1F, 0x33, 0x33, 0x1E, 0], [0x3F, 0x33, 0x30, 0x18, 0x0C, 0x0C, 0x0C, 0],
      [0x1E, 0x33, 0x33, 0x1E, 0x33, 0x33, 0x1E, 0], [0x1E, 0x33, 0x33, 0x3E, 0x30, 0x18, 0x0E, 0],
      [0, 0x0C, 0x0C, 0, 0x0C, 0x0C, 0, 0], [0, 0x0C, 0x0C, 0, 0x0C, 0x0C, 0x06, 0],
      [0x18, 0x0C, 0x06, 0x03, 0x06, 0x0C, 0x18, 0], [0, 0, 0x3F, 0, 0x3F, 0, 0, 0],
      [0x06, 0x0C, 0x18, 0x30, 0x18, 0x0C, 0x06, 0], [0x1E, 0x33, 0x30, 0x18, 0x0C, 0, 0x0C, 0],
      [0x3E, 0x63, 0x7B, 0x7B, 0x7B, 0x03, 0x1E, 0], [0x0C, 0x1E, 0x33, 0x33, 0x3F, 0x33, 0x33, 0],
      [0x3F, 0x66, 0x66, 0x3E, 0x66, 0x66, 0x3F, 0], [0x3C, 0x66, 0x03, 0x03, 0x03, 0x66, 0x3C, 0],
      [0x1F, 0x36, 0x66, 0x66, 0x66, 0x36, 0x1F, 0], [0x7F, 0x46, 0x16, 0x1E, 0x16, 0x46, 0x7F, 0],
      [0x7F, 0x46, 0x16, 0x1E, 0x16, 0x06, 0x0F, 0], [0x3C, 0x66, 0x03, 0x03, 0x73, 0x66, 0x7C, 0],
      [0x33, 0x33, 0x33, 0x3F, 0x33, 0x33, 0x33, 0], [0x1E, 0x0C, 0x0C, 0x0C, 0x0C, 0x0C, 0x1E, 0],
      [0x78, 0x30, 0x30, 0x30, 0x33, 0x33, 0x1E, 0], [0x67, 0x66, 0x36, 0x1E, 0x36, 0x66, 0x67, 0],
      [0x0F, 0x06, 0x06, 0x06, 0x46, 0x66, 0x7F, 0], [0x63, 0x77, 0x7F, 0x6B, 0x63, 0x63, 0x63, 0],
      [0x63, 0x67, 0x6F, 0x7B, 0x73, 0x63, 0x63, 0], [0x1C, 0x36, 0x63, 0x63, 0x63, 0x36, 0x1C, 0],
      [0x3F, 0x66, 0x66, 0x3E, 0x06, 0x06, 0x0F, 0], [0x1E, 0x33, 0x33, 0x33, 0x3B, 0x1E, 0x38, 0],
      [0x3F, 0x66, 0x66, 0x3E, 0x36, 0x66, 0x67, 0], [0x1E, 0x33, 0x07, 0x0E, 0x38, 0x33, 0x1E, 0],
      [0x3F, 0x2D, 0x0C, 0x0C, 0x0C, 0x0C, 0x1E, 0], [0x33, 0x33, 0x33, 0x33, 0x33, 0x33, 0x1E, 0],
      [0x33, 0x33, 0x33, 0x33, 0x33, 0x1E, 0x0C, 0], [0x63, 0x63, 0x63, 0x6B, 0x7F, 0x77, 0x63, 0],
      [0x63, 0x63, 0x36, 0x1C, 0x1C, 0x36, 0x63, 0], [0x33, 0x33, 0x33, 0x1E, 0x0C, 0x0C, 0x1E, 0],
      [0x7F, 0x63, 0x31, 0x18, 0x4C, 0x66, 0x7F, 0], [0x1E, 0x06, 0x06, 0x06, 0x06, 0x06, 0x1E, 0],
      [0x03, 0x06, 0x0C, 0x18, 0x30, 0x60, 0x40, 0], [0x1E, 0x18, 0x18, 0x18, 0x18, 0x18, 0x1E, 0],
      [0x08, 0x1C, 0x36, 0x63, 0, 0, 0, 0], [0, 0, 0, 0, 0, 0, 0x7F, 0],
      [0x0C, 0x0C, 0x18, 0, 0, 0, 0, 0], [0, 0, 0x1E, 0x30, 0x3E, 0x33, 0x6E, 0],
      [0x07, 0x06, 0x1E, 0x36, 0x66, 0x36, 0x1E, 0], [0, 0, 0x1E, 0x33, 0x03, 0x33, 0x1E, 0],
      [0x38, 0x30, 0x30, 0x3E, 0x33, 0x33, 0x6E, 0], [0, 0, 0x1E, 0x33, 0x3F, 0x03, 0x1E, 0],
      [0x1C, 0x36, 0x06, 0x0F, 0x06, 0x06, 0x0F, 0], [0, 0, 0x6E, 0x33, 0x33, 0x3E, 0x30, 0x1F],
      [0x07, 0x06, 0x36, 0x6E, 0x66, 0x66, 0x67, 0], [0x0C, 0, 0x0E, 0x0C, 0x0C, 0x0C, 0x1E, 0],
      [0x30, 0, 0x38, 0x30, 0x30, 0x33, 0x33, 0x1E], [0x07, 0x06, 0x66, 0x36, 0x1E, 0x36, 0x67, 0],
      [0x0E, 0x0C, 0x0C, 0x0C, 0x0C, 0x0C, 0x1E, 0], [0, 0, 0x37, 0x7F, 0x6B, 0x6B, 0x63, 0],
      [0, 0, 0x1F, 0x33, 0x33, 0x33, 0x33, 0], [0, 0, 0x1E, 0x33, 0x33, 0x33, 0x1E, 0],
      [0, 0, 0x1B, 0x36, 0x36, 0x1E, 0x06, 0x0F], [0, 0, 0x6E, 0x33, 0x33, 0x3E, 0x30, 0x78],
      [0, 0, 0x1B, 0x36, 0x36, 0x06, 0x0F, 0], [0, 0, 0x3E, 0x03, 0x1E, 0x30, 0x1F, 0],
      [0x08, 0x0C, 0x3E, 0x0C, 0x0C, 0x2C, 0x18, 0], [0, 0, 0x33, 0x33, 0x33, 0x33, 0x6E, 0],
      [0, 0, 0x33, 0x33, 0x33, 0x1E, 0x0C, 0], [0, 0, 0x63, 0x6B, 0x6B, 0x7F, 0x36, 0],
      [0, 0, 0x63, 0x36, 0x1C, 0x36, 0x63, 0], [0, 0, 0x33, 0x33, 0x33, 0x3E, 0x30, 0x1F],
      [0, 0, 0x3F, 0x19, 0x0C, 0x26, 0x3F, 0], [0x38, 0x0C, 0x0C, 0x07, 0x0C, 0x0C, 0x38, 0],
      [0x18, 0x18, 0x18, 0x18, 0x18, 0x18, 0x18, 0], [0x07, 0x0C, 0x0C, 0x38, 0x0C, 0x0C, 0x07, 0],
      [0x6E, 0x3B, 0, 0, 0, 0, 0, 0], [0, 0, 0, 0, 0, 0, 0, 0]]"

section \<open>Palette and pixels\<close>

definition VIDEO_WIDTH :: u32 where "VIDEO_WIDTH = 320"
definition VIDEO_HEIGHT :: u32 where "VIDEO_HEIGHT = 200"

definition palette_16 :: "(u8 \<times> u8 \<times> u8 \<times> u8) list" where
  "palette_16 =
     [(0, 0, 0, 0), (1, 63, 0, 0), (2, 0, 63, 0), (3, 0, 0, 63),
      (4, 63, 63, 0), (5, 0, 63, 63), (6, 63, 0, 63), (7, 63, 63, 63)] @
     map (\<lambda>i. let v = (i - 8) * 8; v = (if v > 63 then 63 else v)
              in (of_nat i, of_nat v, of_nat v, of_nat v)) [8..<16]"

definition set_palette_16 :: "'w port_io \<Rightarrow> 'w \<Rightarrow> 'w" where
  "set_palette_16 io w = fold (\<lambda>(i, r, g, b). video_set_palette_entry io i r g b) palette_16 w"

definition init_graphics_hw :: "'w port_io \<Rightarrow> 'w \<Rightarrow> 'w" where
  "init_graphics_hw io = set_palette_16 io"

definition graphics_set_palette :: "'w port_io \<Rightarrow> 'w \<Rightarrow> 'w" where
  "graphics_set_palette io = set_palette_16 io"

definition color_to_palette :: "u32 \<Rightarrow> u8" where
  "color_to_palette rgb =
     (if rgb = 0x000000 then 0 else if rgb = 0xFF0000 then 1 else if rgb = 0x00FF00 then 2
      else if rgb = 0x0000FF then 3 else if rgb = 0xFFFF00 then 4 else if rgb = 0x00FFFF then 5
      else if rgb = 0xFF00FF then 6 else if rgb = 0xFFFFFF then 7
      else
        (let r = drop_bit 16 rgb AND 0xFF; g = drop_bit 8 rgb AND 0xFF; b = rgb AND 0xFF;
             lum = (r + g + b) div 3
         in ucast (8 + (lum * 7) div 255)))"

type_synonym framebuffer = "u8 list"

definition set_pixel :: "u32 \<Rightarrow> u32 \<Rightarrow> u32 \<Rightarrow> framebuffer \<Rightarrow> framebuffer" where
  "set_pixel x y color fb =
     (if x \<ge> VIDEO_WIDTH \<or> y \<ge> VIDEO_HEIGHT then fb
      else fb[unat (y * VIDEO_WIDTH + x) := color_to_palette color])"

section \<open>Drawing primitives\<close>

text \<open>The values of an unsigned counter in \<^verbatim>\<open>for (i = a; i < b; i++)\<close>.\<close>

function u32_range :: "u32 \<Rightarrow> u32 \<Rightarrow> u32 list" where
  "u32_range a b = (if a < b then a # u32_range (a + 1) b else [])"
  by pat_completeness auto
termination
proof (relation "measure (\<lambda>(a, b). unat b - unat a)")
  fix a b :: u32
  assume "a < b"
  then have "unat (a + 1) = Suc (unat a)" "unat a < unat b"
    using unat_u32_bound [of b] by (simp_all add: unat_word_ariths word_less_nat_alt)
  then show "((a + 1, b), a, b) \<in> measure (\<lambda>(a, b). unat b - unat a)" by simp
qed simp

declare u32_range.simps [simp del]

definition clear_graphics_screen :: "framebuffer \<Rightarrow> framebuffer" where
  "clear_graphics_screen fb =
     fold (\<lambda>y. fold (\<lambda>x. set_pixel x y 0x000000) (u32_range 0 VIDEO_WIDTH)) (u32_range 0 VIDEO_HEIGHT) fb"

definition draw_rectangle :: "u32 \<Rightarrow> u32 \<Rightarrow> u32 \<Rightarrow> u32 \<Rightarrow> u32 \<Rightarrow> framebuffer \<Rightarrow> framebuffer" where
  "draw_rectangle x y width height color fb =
     fold (\<lambda>py. fold (\<lambda>px. set_pixel px py color) (u32_range x (x + width))) (u32_range y (y + height)) fb"

text \<open>
  The counters of \<^verbatim>\<open>draw_circle\<close> are signed but compared with unsigned bounds: the range
  starts at the wrapped difference, and a bound of all ones never ends the loop.
\<close>

definition draw_circle :: "u32 \<Rightarrow> u32 \<Rightarrow> u32 \<Rightarrow> u32 \<Rightarrow> framebuffer \<Rightarrow> framebuffer option" where
  "draw_circle x y radius color fb =
     (if y + radius = - 1 \<or> (x + radius = - 1 \<and> y - radius \<le> y + radius) then None
      else Some (fold (\<lambda>py. fold (\<lambda>px fb. if (px - x) * (px - x) + (py - y) * (py - y) \<le> radius * radius
                                        then set_pixel px py color fb else fb)
                        (u32_range (x - radius) (x + radius + 1))) (u32_range (y - radius) (y + radius + 1)) fb))"

text \<open>
  The two loops of \<^verbatim>\<open>draw_line\<close>, giving the pixels in the order they are set. The
  loop ends when the driving coordinate reaches its target; a loop that never
  gets there is \<open>None\<close>.
\<close>

partial_function (option) line_loop_x ::
  "int \<Rightarrow> int \<Rightarrow> int \<Rightarrow> int \<Rightarrow> int \<Rightarrow> int \<Rightarrow> int \<Rightarrow> int \<Rightarrow> (int \<times> int) list option" where
  "line_loop_x ax ay sx sy x2 err x y =
     (if x = x2 then Some [(x, y)]
      else let err1 = err - ay;
               (y2, err2) = (if err1 < 0 then (y + sy, err1 + ax) else (y, err1))
           in Option.bind (line_loop_x ax ay sx sy x2 err2 (x + sx) y2) (\<lambda>ps. Some ((x, y) # ps)))"

partial_function (option) line_loop_y ::
  "int \<Rightarrow> int \<Rightarrow> int \<Rightarrow> int \<Rightarrow> int \<Rightarrow> int \<Rightarrow> int \<Rightarrow> int \<Rightarrow> (int \<times> int) list option" where
  "line_loop_y ax ay sx sy y2 err x y =
     (if y = y2 then Some [(x, y)]
      else let err1 = err - ax;
               (x2, err2) = (if err1 < 0 then (x + sx, err1 + ay) else (x, err1))
           in Option.bind (line_loop_y ax ay sx sy y2 err2 x2 (y + sy)) (\<lambda>ps. Some ((x, y) # ps)))"

definition line_pixels :: "u32 \<Rightarrow> u32 \<Rightarrow> u32 \<Rightarrow> u32 \<Rightarrow> (int \<times> int) list option" where
  "line_pixels x1 y1 x2 y2 =
     (let dx = sint (x2 - x1); dy = sint (y2 - y1);
          ax = (if dx < 0 then - dx else dx); ay = (if dy < 0 then - dy else dy);
          sx = (if dx < 0 then - 1 else 1); sy = (if dy < 0 then - 1 else 1)
      in if ax > ay then line_loop_x ax ay sx sy (sint x2) (ax div 2) (sint x1) (sint y1)
         else line_loop_y ax ay sx sy (sint y2) (ay div 2) (sint x1) (sint y1))"

definition draw_line :: "u32 \<Rightarrow> u32 \<Rightarrow> u32 \<Rightarrow> u32 \<Rightarrow> u32 \<Rightarrow> framebuffer \<Rightarrow> framebuffer option" where
  "draw_line x1 y1 x2 y2 color fb =
     map_option (\<lambda>ps. fold (\<lambda>(x, y). set_pixel (word_of_int x) (word_of_int y) color) ps fb) (line_pixels x1 y1 x2 y2)"

definition glyph_row :: "char \<Rightarrow> nat \<Rightarrow> u8" where
  "glyph_row c py = font_8x8 ! unat ((of_char c :: u8) AND 0x7F) ! py"

definition draw_char :: "u32 \<Rightarrow> u32 \<Rightarrow> char \<Rightarrow> u32 \<Rightarrow> framebuffer \<Rightarrow> framebuffer" where
  "draw_char x y c color fb =
     fold (\<lambda>py. fold (\<lambda>px fb. if glyph_row c py AND drop_bit px 0x80 \<noteq> 0
                              then set_pixel (x + of_nat px) (y + of_nat py) color fb else fb) [0..<8]) [0..<8] fb"

definition draw_text :: "u32 \<Rightarrow> u32 \<Rightarrow> string \<Rightarrow> u32 \<Rightarrow> framebuffer \<Rightarrow> framebuffer" where
  "draw_text x y str color fb =
     fold (\<lambda>(i, c). draw_char (x + of_nat (i * 8)) y c color) (enumerate 0 (cstr str)) fb"

fun itos_loop :: "nat \<Rightarrow> string" where
  "itos_loop num = (if num > 0 then char_of (48 + num mod 10) # itos_loop (num div 10) else [])"

declare itos_loop.simps [simp del]

definition swap_ends :: "nat \<Rightarrow> string \<Rightarrow> string" where
  "swap_ends j buffer =
     (let i = length buffer; temp = buffer ! j in buffer[j := buffer ! (i - 1 - j), i - 1 - j := temp])"

text \<open>\<^verbatim>\<open>int_to_string\<close> gives the string its buffer then holds (at most ten digits and the terminator).\<close>

definition int_to_string :: "u32 \<Rightarrow> string" where
  "int_to_string num =
     (if num = 0 then ''0''
      else let buffer = itos_loop (unat num)
           in fold swap_ends [0..<length buffer div 2] buffer)"

definition draw_number :: "u32 \<Rightarrow> u32 \<Rightarrow> u32 \<Rightarrow> u32 \<Rightarrow> framebuffer \<Rightarrow> framebuffer" where
  "draw_number x y number color fb = draw_text x y (int_to_string number) color fb"

section \<open>Drawing as data\<close>

text \<open>The games give the list of the primitives they call; \<open>paint\<close> runs one of them.\<close>

datatype draw =
    ClearGraphics
  | Rect u32 u32 u32 u32 u32
  | Text u32 u32 string u32
  | Number u32 u32 u32 u32

primrec paint :: "draw \<Rightarrow> framebuffer \<Rightarrow> framebuffer" where
  "paint ClearGraphics = clear_graphics_screen"
| "paint (Rect x y w h color) = draw_rectangle x y w h color"
| "paint (Text x y s color) = draw_text x y s color"
| "paint (Number x y n color) = draw_number x y n color"

section \<open>The demo\<close>

record demo_object =
  obj_x :: u32
  obj_y :: u32
  obj_width :: u32
  obj_height :: u32
  obj_color :: u32
  velocity_x :: u32
  velocity_y :: u32

record demo =
  objects :: "demo_object list"
  demo_running :: bool

definition demo_object_init :: "nat \<Rightarrow> demo_object" where
  "demo_object_init i =
     \<lparr>obj_x = 40 + of_nat (i * 25), obj_y = 40 + of_nat (i * 15),
      obj_width = 12 + of_nat (i * 2), obj_height = 12 + of_nat (i * 2),
      obj_color = 0xFF0000 + of_nat (i * 0x001100),
      velocity_x = 1 + (of_nat i AND 1), velocity_y = 1 + (drop_bit 1 (of_nat i) AND 1)\<rparr>"

definition init_graphics_demo :: "'w port_io \<Rightarrow> 'w \<Rightarrow> demo \<times> 'w \<times> kout list" where
  "init_graphics_demo io w =
     (\<lparr>objects = map demo_object_init [0..<5], demo_running = True\<rparr>, init_graphics_hw io w,
      [Kprint ''Initializing Graphics Demo System...\<newline>'', Kprint ''Graphics demo system initialized!\<newline>''])"

definition bounce :: "u32 \<Rightarrow> u32 \<Rightarrow> u32 \<Rightarrow> u32 \<Rightarrow> u32" where
  "bounce pos limit sz v = (if pos \<le> 0 \<or> pos \<ge> limit - sz then - v else v)"

definition demo_move :: "demo_object \<Rightarrow> demo_object" where
  "demo_move ob =
     (let x = obj_x ob + velocity_x ob; y = obj_y ob + velocity_y ob
      in ob\<lparr>obj_x := x, obj_y := y,
            velocity_x := bounce x VIDEO_WIDTH (obj_width ob) (velocity_x ob),
            velocity_y := bounce y VIDEO_HEIGHT (obj_height ob) (velocity_y ob)\<rparr>)"

definition draw_object :: "demo_object \<Rightarrow> framebuffer \<Rightarrow> framebuffer" where
  "draw_object ob = draw_rectangle (obj_x ob) (obj_y ob) (obj_width ob) (obj_height ob) (obj_color ob)"

definition demo_frame :: "u32 \<Rightarrow> demo_object list \<Rightarrow> framebuffer \<Rightarrow> demo_object list \<times> framebuffer" where
  "demo_frame frame_count obs fb =
     (let obs1 = map demo_move obs;
          fb1 = fold draw_object obs1 (clear_graphics_screen fb)
      in (obs1, fold paint [Text 5 5 ''Graphics Demo'' 0xFFFFFF, Text 5 15 ''Frame:'' 0xFFFFFF,
                            Number 50 15 frame_count 0xFFFFFF] fb1))"

definition check_key_press :: "'w port_io \<Rightarrow> 'w \<Rightarrow> 'w \<times> bool" where
  "check_key_press io = keyboard_has_key io"

text \<open>The frame loop runs while the demo is on and fewer than 2000 frames are drawn: \<open>left\<close> counts down.\<close>

fun demo_loop :: "'w port_io \<Rightarrow> nat \<Rightarrow> demo \<Rightarrow> framebuffer \<Rightarrow> 'w \<Rightarrow> demo \<times> framebuffer \<times> 'w" where
  "demo_loop io 0 d fb w = (d, fb, w)"
| "demo_loop io (Suc left) d fb w =
     (if \<not> demo_running d then (d, fb, w)
      else let (obs, fb1) = demo_frame (of_nat (2000 - Suc left)) (objects d) fb;
               (w1, key) = check_key_press io w
           in demo_loop io left (d\<lparr>objects := obs, demo_running := (if key then False else demo_running d)\<rparr>) fb1 w1)"

definition run_graphics_demo ::
  "'w port_io \<Rightarrow> demo \<Rightarrow> framebuffer \<Rightarrow> 'w \<Rightarrow> (demo \<times> framebuffer \<times> 'w) \<times> kout list" where
  "run_graphics_demo io d fb w =
     (if \<not> demo_running d then ((d, fb, w), [Kprint ''Graphics demo not initialized!\<newline>''])
      else (demo_loop io 2000 d fb w,
            [Kprint ''Running Graphics Demo - press any key to stop\<newline>'', Kprint ''Graphics demo completed!\<newline>'']))"

definition stop_graphics_demo :: "demo \<Rightarrow> demo \<times> kout list" where
  "stop_graphics_demo d = (d\<lparr>demo_running := False\<rparr>, [Kprint ''Graphics demo stopped\<newline>''])"

section \<open>Numbers as text\<close>

lemma swap_loop:
  "k \<le> length b div 2 \<Longrightarrow>
   length (fold swap_ends [0..<k] b) = length b \<and>
   (\<forall>i < length b. fold swap_ends [0..<k] b ! i =
      (if i < k \<or> length b - 1 - i < k then b ! (length b - 1 - i) else b ! i))"
proof (induction k)
  case (Suc k)
  let ?b = "fold swap_ends [0..<k] b"
  have len: "length ?b = length b" and
    nth: "\<And>i. i < length b \<Longrightarrow> ?b ! i = (if i < k \<or> length b - 1 - i < k then b ! (length b - 1 - i) else b ! i)"
    using Suc by simp_all
  have k: "k < length b - 1 - k" "length b - 1 - k < length b" using Suc.prems by linarith+
  have step: "fold swap_ends [0..<Suc k] b = ?b[k := ?b ! (length b - 1 - k), length b - 1 - k := ?b ! k]"
    by (simp add: swap_ends_def Let_def len)
  have ends: "?b ! (length b - 1 - k) = b ! (length b - 1 - k)" "?b ! k = b ! k"
    using nth [of "length b - 1 - k"] nth [of k] k by auto
  have "fold swap_ends [0..<Suc k] b ! i =
      (if i < Suc k \<or> length b - 1 - i < Suc k then b ! (length b - 1 - i) else b ! i)" if i: "i < length b" for i
  proof -
    consider "i = k" | "i = length b - 1 - k" | "i \<noteq> k" "i \<noteq> length b - 1 - k" by blast
    then show ?thesis
    proof cases
      case 1
      then show ?thesis unfolding step using k len ends by (simp add: nth_list_update)
    next
      case 2
      then have "length b - 1 - i = k" using k by simp
      then show ?thesis unfolding step using k len ends 2 by (simp add: nth_list_update)
    next
      case 3
      then have "i < Suc k \<longleftrightarrow> i < k" "length b - 1 - i < Suc k \<longleftrightarrow> length b - 1 - i < k"
        using i k by linarith+
      then show ?thesis unfolding step using 3 nth [OF i] by (simp add: nth_list_update)
    qed
  qed
  then show ?case unfolding step by (simp add: len)
qed simp

lemma swap_all: "fold swap_ends [0..<length b div 2] b = rev b"
proof (rule nth_equalityI)
  show "length (fold swap_ends [0..<length b div 2] b) = length (rev b)" using swap_loop [of "length b div 2" b] by simp
next
  fix i
  assume "i < length (fold swap_ends [0..<length b div 2] b)"
  then have i: "i < length b" using swap_loop [of "length b div 2" b] by simp
  have "i < length b div 2 \<or> length b - 1 - i < length b div 2 \<or> i = length b - 1 - i" using i by linarith
  then show "fold swap_ends [0..<length b div 2] b ! i = rev b ! i"
    using swap_loop [of "length b div 2" b] i by (auto simp: rev_nth)
qed

lemma itos_digits: "itos_loop n = digits_loop n"
  by (induction n rule: itos_loop.induct) (subst itos_loop.simps, subst digits_loop.simps, simp)

text \<open>
  The two conversions of the kernel agree: for every number below 2^31 the string
  \<^verbatim>\<open>int_to_string\<close> builds by reversing its buffer in place is the one \<^verbatim>\<open>print_decimal\<close>
  prints, and above that it is still the decimal representation, of at most ten
  digits (the buffer has sixteen bytes).
\<close>

theorem int_to_string_decimal:
  "length (int_to_string num) \<le> 10 \<and>
   (num < 0x80000000 \<longrightarrow> decimal_chars (uint num) = Some (int_to_string num)) \<and>
   (num \<noteq> 0 \<longrightarrow> int_to_string num = rev (digits_loop (unat num)))"
proof -
  have len: "length (digits_loop n) \<le> k" if "n < 10 ^ k" for n k
    using that
  proof (induction n arbitrary: k rule: digits_loop.induct)
    case (1 n)
    show ?case
    proof (cases "n = 0")
      case False
      then obtain j where k: "k = Suc j" using 1(2) by (cases k) auto
      have "n div 10 < 10 ^ j" using 1(2) k by (simp add: less_mult_imp_div_less mult.commute)
      then show ?thesis using 1(1) [OF False] False k by (subst digits_loop.simps) simp
    qed (subst digits_loop.simps, simp)
  qed
  have rev: "num \<noteq> 0 \<Longrightarrow> int_to_string num = rev (digits_loop (unat num))"
    by (simp add: int_to_string_def Let_def itos_digits swap_all)
  have "length (int_to_string num) \<le> 10"
    using len [of "unat num" 10] unat_u32_bound [of num] rev by (cases "num = 0") (auto simp: int_to_string_def)
  moreover have "decimal_chars (uint num) = Some (int_to_string num)" if "num < 0x80000000"
  proof (cases "num = 0")
    case True
    then show ?thesis by (simp add: decimal_chars_def int_to_string_def)
  next
    case False
    then have "uint num \<noteq> 0" by (simp add: uint_0_iff)
    moreover have "uint num \<noteq> - 2147483648" using uint_ge_0 [of num] by linarith
    ultimately show ?thesis using rev [OF False] by (simp add: decimal_chars_def nat_uint_eq)
  qed
  ultimately show ?thesis using rev by blast
qed

theorem int_to_string_witness: "decimal_chars (uint (2024 :: u32)) = Some (int_to_string 2024)"
  using int_to_string_decimal [of 2024] by (simp add: word_less_nat_alt)

section \<open>Rectangles\<close>

lemma range_set: "set (u32_range a b) = {p. a \<le> p \<and> p < b}"
proof (induction a b rule: u32_range.induct)
  case (1 a b)
  show ?case
  proof (cases "a < b")
    case True
    then have s: "unat (a + 1) = Suc (unat a)"
      using unat_u32_bound [of b] by (simp add: unat_word_ariths word_less_nat_alt)
    have "p = a \<or> a + 1 \<le> p \<longleftrightarrow> a \<le> p" for p
      by (auto simp: word_le_nat_alt s word_unat_eq_iff)
    then show ?thesis using 1 True by (subst u32_range.simps) auto
  qed (subst u32_range.simps, auto)
qed

lemma set_pixel_length [simp]: "length (set_pixel x y color fb) = length fb"
  by (simp add: set_pixel_def)

lemma pixel_index:
  assumes "x < VIDEO_WIDTH" "y < VIDEO_HEIGHT"
  shows "unat (y * VIDEO_WIDTH + x) = unat y * 320 + unat x"
  using assms by (simp add: word_less_nat_alt VIDEO_WIDTH_def VIDEO_HEIGHT_def unat_word_ariths)

definition pixel :: "framebuffer \<Rightarrow> u32 \<Rightarrow> u32 \<Rightarrow> u8" where
  "pixel fb x y = fb ! (unat y * 320 + unat x)"

lemma pixel_set:
  assumes "length fb = 64000" "x < VIDEO_WIDTH" "y < VIDEO_HEIGHT"
  shows "pixel (set_pixel px py color fb) x y = (if px = x \<and> py = y then color_to_palette color else pixel fb x y)"
proof (cases "px < VIDEO_WIDTH \<and> py < VIDEO_HEIGHT")
  case True
  have "unat py * 320 + unat px = unat y * 320 + unat x \<longleftrightarrow> px = x \<and> py = y"
    using True assms row_major_inj [of "unat py" 320 "unat px" "unat y" "unat x"]
    by (auto simp: word_less_nat_alt VIDEO_WIDTH_def VIDEO_HEIGHT_def word_unat_eq_iff)
  moreover have "unat y * 320 + unat x < 64000"
    using assms by (simp add: word_less_nat_alt VIDEO_WIDTH_def VIDEO_HEIGHT_def)
  moreover have "\<not> (px \<ge> VIDEO_WIDTH \<or> py \<ge> VIDEO_HEIGHT)" using True by (simp add: not_le)
  ultimately show ?thesis using True assms
    by (simp add: pixel_def set_pixel_def pixel_index nth_list_update)
next
  case False
  then show ?thesis using assms by (auto simp: set_pixel_def not_le [symmetric])
qed

text \<open>A loop of pixel writes in one colour, over any list of coordinates.\<close>

lemma pixels_set:
  assumes "length fb = 64000" "x < VIDEO_WIDTH" "y < VIDEO_HEIGHT"
  shows "length (fold (\<lambda>(px, py). set_pixel px py color) ps fb) = 64000"
    "pixel (fold (\<lambda>(px, py). set_pixel px py color) ps fb) x y =
       (if (x, y) \<in> set ps then color_to_palette color else pixel fb x y)"
proof -
  show "length (fold (\<lambda>(px, py). set_pixel px py color) ps fb) = 64000"
    using assms(1) by (induction ps arbitrary: fb) auto
  show "pixel (fold (\<lambda>(px, py). set_pixel px py color) ps fb) x y =
       (if (x, y) \<in> set ps then color_to_palette color else pixel fb x y)"
    using assms by (induction ps arbitrary: fb) (auto simp: pixel_set split: if_splits)
qed

lemma draw_rectangle_pixels:
  "draw_rectangle x y width height color fb =
     fold (\<lambda>(px, py). set_pixel px py color)
       (concat (map (\<lambda>py. map (\<lambda>px. (px, py)) (u32_range x (x + width))) (u32_range y (y + height)))) fb"
proof -
  have "fold (\<lambda>py. fold (\<lambda>px. set_pixel px py color) xs) ys fb =
      fold (\<lambda>(px, py). set_pixel px py color) (concat (map (\<lambda>py. map (\<lambda>px. (px, py)) xs) ys)) fb" for xs ys
    by (induction ys arbitrary: fb) (simp_all add: fold_map comp_def)
  then show ?thesis by (simp add: draw_rectangle_def)
qed

text \<open>
  \<^verbatim>\<open>draw_rectangle\<close> always returns and sets exactly the visible pixels of the
  half-open intervals \<open>[x, x + width)\<close> and \<open>[y, y + height)\<close> to the palette index of the
  colour. The interval ends wrap at 32 bits, so a rectangle whose start was
  negative before the conversion to unsigned is not drawn at all.
\<close>

theorem draw_rectangle_exact:
  assumes "length fb = 64000" "px < VIDEO_WIDTH" "py < VIDEO_HEIGHT"
  shows "pixel (draw_rectangle x y width height color fb) px py =
     (if x \<le> px \<and> px < x + width \<and> y \<le> py \<and> py < y + height then color_to_palette color else pixel fb px py)"
  unfolding draw_rectangle_pixels pixels_set(2) [OF assms] by (auto simp: range_set)

theorem draw_rectangle_witness:
  "pixel (draw_rectangle 10 20 4 4 0xFF0000 (replicate 64000 0)) 13 23 = 1 \<and>
   pixel (draw_rectangle 10 20 4 4 0xFF0000 (replicate 64000 0)) 14 23 = 0 \<and>
   pixel (draw_rectangle 10 (- 3) 4 8 0xFF0000 (replicate 64000 0)) 10 2 = 0"
proof -
  have p0: "pixel (replicate 64000 0) x y = 0" if "x < VIDEO_WIDTH" "y < VIDEO_HEIGHT" for x y
    using that by (simp add: pixel_def word_less_nat_alt VIDEO_WIDTH_def VIDEO_HEIGHT_def)
  have b: "13 < VIDEO_WIDTH" "14 < VIDEO_WIDTH" "10 < VIDEO_WIDTH" "23 < VIDEO_HEIGHT" "2 < VIDEO_HEIGHT"
    by (simp_all add: VIDEO_WIDTH_def VIDEO_HEIGHT_def)
  have l: "length (replicate 64000 (0 :: u8)) = 64000" by simp
  show ?thesis
    using b p0 draw_rectangle_exact [OF l, where px = 13 and py = 23 and x = 10 and y = 20 and width = 4 and height = 4 and color = "0xFF0000"]
      draw_rectangle_exact [OF l, where px = 14 and py = 23 and x = 10 and y = 20 and width = 4 and height = 4 and color = "0xFF0000"]
      draw_rectangle_exact [OF l, where px = 10 and py = 2 and x = 10 and y = "- 3" and width = 4 and height = 8 and color = "0xFF0000"]
    by (simp add: color_to_palette_def)
qed

lemma clear_graphics_pixel:
  assumes "length fb = 64000" "px < VIDEO_WIDTH" "py < VIDEO_HEIGHT"
  shows "pixel (clear_graphics_screen fb) px py = 0"
proof -
  have "clear_graphics_screen fb = draw_rectangle 0 0 VIDEO_WIDTH VIDEO_HEIGHT 0 fb"
    by (simp add: clear_graphics_screen_def draw_rectangle_def)
  then show ?thesis unfolding draw_rectangle_pixels
    using assms by (auto simp: pixels_set(2) [OF assms] range_set color_to_palette_def image_iff)
qed

section \<open>Lines\<close>

text \<open>
  Both loops of \<^verbatim>\<open>draw_line\<close> have one shape: \<open>u\<close> is the driving coordinate with extent
  \<open>a\<close>, \<open>v\<close> the other one with extent \<open>b \<le> a\<close>.
\<close>

lemma line_loop:
  fixes L :: "int \<Rightarrow> int \<Rightarrow> int \<Rightarrow> (int \<times> int) list option"
  assumes rec: "\<And>err u v. L err u v =
      (if u = us + su * a then Some [P u v]
       else let err1 = err - b; (v2, err2) = (if err1 < 0 then (v + sv, err1 + a) else (v, err1))
            in Option.bind (L err2 (u + su) v2) (\<lambda>ps. Some (P u v # ps)))"
    and b: "0 \<le> b" "b \<le> a" and su: "su \<noteq> 0"
    and "a = k + int m" "err = a div 2 - k * b + a * n" "0 \<le> err" "err < a \<or> a = 0" "0 \<le> k"
  shows "\<exists>ps. L err (us + su * k) (vs + sv * n) = Some ps \<and> length ps = Suc m \<and>
     (\<forall>j \<le> m. \<exists>i. ps ! j = P (us + su * (k + int j)) (vs + sv * i) \<and>
        0 \<le> a div 2 - (k + int j) * b + a * i \<and> (a div 2 - (k + int j) * b + a * i < a \<or> a = 0))"
  using assms(5-9)
proof (induction m arbitrary: k n err)
  case 0
  then have "L err (us + su * k) (vs + sv * n) = Some [P (us + su * k) (vs + sv * n)]" by (subst rec) simp
  then show ?case using 0 by (auto intro!: exI [of _ n])
next
  case (Suc m)
  have ne: "us + su * k \<noteq> us + su * a" using Suc.prems(1) su by simp
  let ?n = "if err - b < 0 then n + 1 else n" and ?err = "if err - b < 0 then err - b + a else err - b"
  have step: "L err (us + su * k) (vs + sv * n) =
      Option.bind (L ?err (us + su * (k + 1)) (vs + sv * ?n)) (\<lambda>ps. Some (P (us + su * k) (vs + sv * n) # ps))"
    using ne by (subst rec) (simp add: Let_def algebra_simps)
  have apos: "a > 0" using Suc.prems b by (cases "a = 0") auto
  have "\<exists>ps. L ?err (us + su * (k + 1)) (vs + sv * ?n) = Some ps \<and> length ps = Suc m \<and>
     (\<forall>j \<le> m. \<exists>i. ps ! j = P (us + su * (k + 1 + int j)) (vs + sv * i) \<and>
        0 \<le> a div 2 - (k + 1 + int j) * b + a * i \<and> (a div 2 - (k + 1 + int j) * b + a * i < a \<or> a = 0))"
    using Suc.prems b apos by (intro Suc.IH) (auto simp: algebra_simps)
  then obtain ps where ps: "L ?err (us + su * (k + 1)) (vs + sv * ?n) = Some ps" "length ps = Suc m"
      and all: "\<And>j. j \<le> m \<Longrightarrow> \<exists>i. ps ! j = P (us + su * (k + 1 + int j)) (vs + sv * i) \<and>
        0 \<le> a div 2 - (k + 1 + int j) * b + a * i \<and> (a div 2 - (k + 1 + int j) * b + a * i < a \<or> a = 0)"
    by blast
  have "\<exists>i. (P (us + su * k) (vs + sv * n) # ps) ! j = P (us + su * (k + int j)) (vs + sv * i) \<and>
        0 \<le> a div 2 - (k + int j) * b + a * i \<and> (a div 2 - (k + int j) * b + a * i < a \<or> a = 0)" if "j \<le> Suc m" for j
  proof (cases j)
    case 0
    then show ?thesis using Suc.prems by (auto intro!: exI [of _ n])
  next
    case (Suc i)
    then show ?thesis using all [of i] that by (simp add: algebra_simps)
  qed
  then show ?case using ps by (intro exI [of _ "P (us + su * k) (vs + sv * n) # ps"]) (simp add: step)
qed

text \<open>The distance of a pixel from the ideal line, and the position of the last pixel.\<close>

lemma line_offset:
  fixes a b k i :: int
  assumes "0 \<le> b" "b \<le> a" "0 \<le> k" "k \<le> a" "0 \<le> a div 2 - k * b + a * i" "a div 2 - k * b + a * i < a \<or> a = 0"
    and a: "0 < a"
  shows "0 \<le> i" "i \<le> k" "\<bar>2 * (k * b - a * i)\<bar> \<le> a" "k = a \<Longrightarrow> i = b"
proof -
  have lt: "a div 2 - k * b + a * i < a" using assms by linarith
  have kb: "k * b \<le> k * a" "0 \<le> k * b" using assms by (simp_all add: mult_left_mono)
  have "a * (i + 1) > 0" using assms(5) kb a by (simp add: algebra_simps)
  then show "0 \<le> i" using a by (simp add: zero_less_mult_iff)
  have "a * i < a * (k + 1)" using lt kb a by (simp add: algebra_simps)
  then show "i \<le> k" using a by simp
  have "\<bar>2 * (p - q)\<bar> \<le> a" if "0 \<le> a div 2 - p + q" "a div 2 - p + q < a" for p q
    using that by presburger
  then show "\<bar>2 * (k * b - a * i)\<bar> \<le> a" using assms(5) lt by blast
  show "i = b" if "k = a"
  proof -
    have "a * (i - b) < a" "a * (i - b) > - a" using assms(5) lt that a by (simp_all add: algebra_simps)
    then have "a * (i - b) < a * 1" "a * (- 1) < a * (i - b)" by simp_all
    then have "i - b < 1" "- 1 < i - b" using a by (simp_all only: mult_less_cancel_left_pos)
    then show ?thesis by linarith
  qed
qed

definition line_ok :: "int \<Rightarrow> int \<Rightarrow> int \<Rightarrow> int \<Rightarrow> (int \<times> int) list \<Rightarrow> bool" where
  "line_ok x1 y1 x2 y2 ps \<longleftrightarrow>
     length ps = Suc (nat (max \<bar>x2 - x1\<bar> \<bar>y2 - y1\<bar>)) \<and> hd ps = (x1, y1) \<and> last ps = (x2, y2) \<and>
     list_all (\<lambda>j. let (x, y) = ps ! j
        in max \<bar>x - x1\<bar> \<bar>y - y1\<bar> = int j \<and>
           \<bar>2 * ((x - x1) * (y2 - y1) - (y - y1) * (x2 - x1))\<bar> \<le> max \<bar>x2 - x1\<bar> \<bar>y2 - y1\<bar>) [0..<length ps]"

lemma abs_unit: "s = 1 \<or> s = - 1 \<Longrightarrow> \<bar>s * t\<bar> = \<bar>t\<bar>" for s t :: int
  by auto

lemma line_loop_ok:
  fixes L :: "int \<Rightarrow> int \<Rightarrow> int \<Rightarrow> (int \<times> int) list option"
  assumes rec: "\<And>err u v. L err u v =
      (if u = us + su * a then Some [P u v]
       else let err1 = err - b; (v2, err2) = (if err1 < 0 then (v + sv, err1 + a) else (v, err1))
            in Option.bind (L err2 (u + su) v2) (\<lambda>ps. Some (P u v # ps)))"
    and b: "0 \<le> b" "b \<le> a" and s: "su = 1 \<or> su = - 1" "sv = 1 \<or> sv = - 1"
  shows "\<exists>ps. L (a div 2) us vs = Some ps \<and> length ps = Suc (nat a) \<and> hd ps = P us vs \<and>
    last ps = P (us + su * a) (vs + sv * b) \<and>
    (\<forall>j \<le> nat a. \<exists>i. ps ! j = P (us + su * int j) (vs + sv * i) \<and> 0 \<le> i \<and> i \<le> int j \<and> \<bar>2 * (int j * b - a * i)\<bar> \<le> a)"
proof -
  have "\<exists>ps. L (a div 2) (us + su * 0) (vs + sv * 0) = Some ps \<and> length ps = Suc (nat a) \<and>
     (\<forall>j \<le> nat a. \<exists>i. ps ! j = P (us + su * (0 + int j)) (vs + sv * i) \<and>
        0 \<le> a div 2 - (0 + int j) * b + a * i \<and> (a div 2 - (0 + int j) * b + a * i < a \<or> a = 0))"
    by (rule line_loop [OF rec]) (use b s in auto)
  then obtain ps where ps: "L (a div 2) us vs = Some ps" "length ps = Suc (nat a)"
      and all: "\<And>j. j \<le> nat a \<Longrightarrow> \<exists>i. ps ! j = P (us + su * int j) (vs + sv * i) \<and>
        0 \<le> a div 2 - int j * b + a * i \<and> (a div 2 - int j * b + a * i < a \<or> a = 0)" by auto
  have all': "\<exists>i. ps ! j = P (us + su * int j) (vs + sv * i) \<and> 0 \<le> i \<and> i \<le> int j \<and> \<bar>2 * (int j * b - a * i)\<bar> \<le> a \<and>
      (j = nat a \<longrightarrow> i = b)" if j: "j \<le> nat a" for j
  proof (cases "a = 0")
    case True
    then have "L (a div 2) us vs = Some [P us vs]" by (subst rec) simp
    then show ?thesis using True j b ps by (auto intro!: exI [of _ 0])
  next
    case False
    then have a: "0 < a" using b by simp
    obtain i where i: "ps ! j = P (us + su * int j) (vs + sv * i)" "0 \<le> a div 2 - int j * b + a * i"
        "a div 2 - int j * b + a * i < a \<or> a = 0"
      using all [OF j] by blast
    have ja: "0 \<le> int j" "int j \<le> a" using j a by auto
    show ?thesis using i line_offset [OF b ja i(2,3) a] a by (intro exI [of _ i]) auto
  qed
  have ne: "ps \<noteq> []" using ps by auto
  have "hd ps = P us vs" using all' [of 0] ps ne by (auto simp: hd_conv_nth)
  moreover have "last ps = P (us + su * a) (vs + sv * b)"
    using all' [of "nat a"] ps ne b by (auto simp: last_conv_nth)
  ultimately show ?thesis using ps all' by blast
qed

lemma line_ok_x:
  assumes "length ps = Suc (nat a)" "hd ps = (x1, y1)" "last ps = (x1 + sx * a, y1 + sy * b)"
    and all: "\<And>j. j \<le> nat a \<Longrightarrow> \<exists>i. ps ! j = (x1 + sx * int j, y1 + sy * i) \<and> 0 \<le> i \<and> i \<le> int j \<and> \<bar>2 * (int j * b - a * i)\<bar> \<le> a"
    and "0 \<le> b" "b \<le> a" and s: "sx = 1 \<or> sx = - 1" "sy = 1 \<or> sy = - 1"
  shows "line_ok x1 y1 (x1 + sx * a) (y1 + sy * b) ps"
proof -
  have m: "max \<bar>x1 + sx * a - x1\<bar> \<bar>y1 + sy * b - y1\<bar> = a" using assms s by (auto simp: abs_unit)
  have step: "let (x, y) = ps ! j in max \<bar>x - x1\<bar> \<bar>y - y1\<bar> = int j \<and>
      \<bar>2 * ((x - x1) * (y1 + sy * b - y1) - (y - y1) * (x1 + sx * a - x1))\<bar> \<le> a" if jl: "j < length ps" for j
  proof -
    obtain i where i: "ps ! j = (x1 + sx * int j, y1 + sy * i)" "0 \<le> i" "i \<le> int j" "\<bar>2 * (int j * b - a * i)\<bar> \<le> a"
      using all [of j] jl assms(1) by (auto simp: less_Suc_eq_le)
    have "2 * (sx * int j * (sy * b) - sy * i * (sx * a)) = sx * (sy * (2 * (int j * b - a * i)))"
      by (simp add: algebra_simps)
    then have "\<bar>2 * (sx * int j * (sy * b) - sy * i * (sx * a))\<bar> = \<bar>2 * (int j * b - a * i)\<bar>"
      using s by (simp only: abs_unit)
    then show ?thesis using i s by (auto simp: abs_unit)
  qed
  show ?thesis unfolding line_ok_def m list_all_iff
  proof (intro conjI ballI)
    fix j
    assume "j \<in> set [0..<length ps]"
    then have "j < length ps" by simp
    then show "let (x, y) = ps ! j in max \<bar>x - x1\<bar> \<bar>y - y1\<bar> = int j \<and>
      \<bar>2 * ((x - x1) * (y1 + sy * b - y1) - (y - y1) * (x1 + sx * a - x1))\<bar> \<le> a" by (rule step)
  qed (use assms in auto)
qed

lemma line_ok_swap:
  assumes ok: "line_ok y1 x1 y2 x2 (map prod.swap ps)" and ne: "ps \<noteq> []"
  shows "line_ok x1 y1 x2 y2 ps"
proof -
  have ab: "\<bar>2 * ((y - y1) * (x2 - x1) - (x - x1) * (y2 - y1))\<bar> = \<bar>2 * ((x - x1) * (y2 - y1) - (y - y1) * (x2 - x1))\<bar>"
    for x y by (simp add: abs_mult abs_minus_commute)
  have h: "hd ps = (x1, y1)" "last ps = (x2, y2)"
    using ok ne by (auto simp: line_ok_def hd_map last_map prod.swap_def prod_eq_iff)
  have l: "length ps = Suc (nat (max \<bar>x2 - x1\<bar> \<bar>y2 - y1\<bar>))"
    using ok by (simp add: line_ok_def max.commute)
  have step: "let (x, y) = ps ! j in max \<bar>x - x1\<bar> \<bar>y - y1\<bar> = int j \<and>
      \<bar>2 * ((x - x1) * (y2 - y1) - (y - y1) * (x2 - x1))\<bar> \<le> max \<bar>x2 - x1\<bar> \<bar>y2 - y1\<bar>" if jl: "j < length ps" for j
  proof -
    obtain x y where p: "ps ! j = (x, y)" by (cases "ps ! j")
    have q: "map prod.swap ps ! j = (y, x)" using jl p by simp
    have "j \<in> set [0..<length (map prod.swap ps)]" using jl by simp
    then have "let (x, y) = map prod.swap ps ! j in max \<bar>x - y1\<bar> \<bar>y - x1\<bar> = int j \<and>
      \<bar>2 * ((x - y1) * (x2 - x1) - (y - x1) * (y2 - y1))\<bar> \<le> max \<bar>y2 - y1\<bar> \<bar>x2 - x1\<bar>"
      using ok unfolding line_ok_def list_all_iff by blast
    then have m: "max \<bar>y - y1\<bar> \<bar>x - x1\<bar> = int j"
        "\<bar>2 * ((y - y1) * (x2 - x1) - (x - x1) * (y2 - y1))\<bar> \<le> max \<bar>y2 - y1\<bar> \<bar>x2 - x1\<bar>"
      unfolding q by simp_all
    have "max \<bar>x - x1\<bar> \<bar>y - y1\<bar> = int j" using m(1) by (subst max.commute)
    moreover have "\<bar>2 * ((x - x1) * (y2 - y1) - (y - y1) * (x2 - x1))\<bar> \<le> max \<bar>x2 - x1\<bar> \<bar>y2 - y1\<bar>"
      using m(2) unfolding ab by (subst max.commute)
    ultimately show ?thesis unfolding p by simp
  qed
  have "\<forall>j\<in>set [0..<length ps]. let (x, y) = ps ! j in max \<bar>x - x1\<bar> \<bar>y - y1\<bar> = int j \<and>
      \<bar>2 * ((x - x1) * (y2 - y1) - (y - y1) * (x2 - x1))\<bar> \<le> max \<bar>x2 - x1\<bar> \<bar>y2 - y1\<bar>"
  proof
    fix j
    assume "j \<in> set [0..<length ps]"
    then have "j < length ps" by simp
    then show "let (x, y) = ps ! j in max \<bar>x - x1\<bar> \<bar>y - y1\<bar> = int j \<and>
      \<bar>2 * ((x - x1) * (y2 - y1) - (y - y1) * (x2 - x1))\<bar> \<le> max \<bar>x2 - x1\<bar> \<bar>y2 - y1\<bar>" by (rule step)
  qed
  then show ?thesis using h l unfolding line_ok_def list_all_iff by blast
qed

lemma line_x_ok:
  assumes "0 \<le> ay" "ay \<le> ax" "sx = 1 \<or> sx = - 1" "sy = 1 \<or> sy = - 1"
  shows "\<exists>ps. line_loop_x ax ay sx sy (x1 + sx * ax) (ax div 2) x1 y1 = Some ps \<and>
     line_ok x1 y1 (x1 + sx * ax) (y1 + sy * ay) ps"
proof -
  note rec = line_loop_x.simps [of ax ay sx sy "x1 + sx * ax"]
  obtain ps where ps: "line_loop_x ax ay sx sy (x1 + sx * ax) (ax div 2) x1 y1 = Some ps" "length ps = Suc (nat ax)"
    "hd ps = (x1, y1)" "last ps = (x1 + sx * ax, y1 + sy * ay)"
    "\<And>j. j \<le> nat ax \<Longrightarrow> \<exists>i. ps ! j = (x1 + sx * int j, y1 + sy * i) \<and> 0 \<le> i \<and> i \<le> int j \<and> \<bar>2 * (int j * ay - ax * i)\<bar> \<le> ax"
    using line_loop_ok [where P = Pair and vs = y1, OF rec assms] by blast
  show ?thesis using ps(1) line_ok_x [OF ps(2-5) assms] by blast
qed

lemma line_y_ok:
  assumes "0 \<le> ax" "ax \<le> ay" "sy = 1 \<or> sy = - 1" "sx = 1 \<or> sx = - 1"
  shows "\<exists>ps. line_loop_y ax ay sx sy (y1 + sy * ay) (ay div 2) x1 y1 = Some ps \<and>
     line_ok x1 y1 (x1 + sx * ax) (y1 + sy * ay) ps"
proof -
  let ?L = "\<lambda>err u v. line_loop_y ax ay sx sy (y1 + sy * ay) err v u"
  have rec: "?L err u v = (if u = y1 + sy * ay then Some [(\<lambda>u v. (v, u)) u v]
       else let err1 = err - ax; (v2, err2) = (if err1 < 0 then (v + sx, err1 + ay) else (v, err1))
            in Option.bind (?L err2 (u + sy) v2) (\<lambda>ps. Some ((\<lambda>u v. (v, u)) u v # ps)))" for err u v
    by (rule line_loop_y.simps)
  obtain ps where ps: "?L (ay div 2) y1 x1 = Some ps" "length ps = Suc (nat ay)"
    "hd ps = (x1, y1)" "last ps = (x1 + sx * ax, y1 + sy * ay)"
    and all: "\<And>j. j \<le> nat ay \<Longrightarrow> \<exists>i. ps ! j = (x1 + sx * i, y1 + sy * int j) \<and> 0 \<le> i \<and> i \<le> int j \<and> \<bar>2 * (int j * ax - ay * i)\<bar> \<le> ay"
    using line_loop_ok [where L = ?L and P = "\<lambda>u v. (v, u)" and vs = x1, OF rec assms] by blast
  have ne: "ps \<noteq> []" using ps(2) by auto
  have "line_ok y1 x1 (y1 + sy * ay) (x1 + sx * ax) (map prod.swap ps)"
  proof (rule line_ok_x [OF _ _ _ _ assms])
    fix j
    assume j: "j \<le> nat ay"
    then have "map prod.swap ps ! j = prod.swap (ps ! j)" using ps(2) by simp
    then show "\<exists>i. map prod.swap ps ! j = (y1 + sy * int j, x1 + sx * i) \<and> 0 \<le> i \<and> i \<le> int j \<and> \<bar>2 * (int j * ax - ay * i)\<bar> \<le> ay"
      using all [OF j] by auto
  qed (use ps ne in \<open>auto simp: hd_map last_map\<close>)
  then show ?thesis using ps(1) line_ok_swap [OF _ ne] by blast
qed

lemma sint_word_of_int: "- (2 ^ 31) \<le> v \<Longrightarrow> v < 2 ^ 31 \<Longrightarrow> sint (word_of_int v :: u32) = v"
  by (simp add: signed_of_int signed_take_bit_int_eq_self)

text \<open>
  C30: For coordinates below 2^30 \<^verbatim>\<open>draw_line\<close> returns. The pixels it sets start at the
  first end point, end exactly at the second one, advance by one along the longer
  axis, and never leave the ideal line by more than half a pixel.
\<close>

theorem draw_line_exact:
  assumes "x1 < 0x40000000" "y1 < 0x40000000" "x2 < 0x40000000" "y2 < 0x40000000"
  shows "\<exists>ps. line_pixels x1 y1 x2 y2 = Some ps \<and> line_ok (uint x1) (uint y1) (uint x2) (uint y2) ps \<and>
     draw_line x1 y1 x2 y2 color fb =
       Some (fold (\<lambda>(x, y). set_pixel (word_of_int x) (word_of_int y) color) ps fb)"
proof -
  have small: "0 \<le> uint x \<and> uint x < 2 ^ 30" if "x < 0x40000000" for x :: u32
    using that by (simp add: word_less_def)
  note sm = small [OF assms(1)] small [OF assms(2)] small [OF assms(3)] small [OF assms(4)]
  have s: "sint x = uint x" if "0 \<le> uint x \<and> uint x < 2 ^ 30" for x :: u32
    using sint_word_of_int [of "uint x"] that by simp
  have d: "sint (x - y) = uint x - uint y" if "0 \<le> uint x \<and> uint x < 2 ^ 30" "0 \<le> uint y \<and> uint y < 2 ^ 30" for x y :: u32
  proof -
    have "uint x < 1073741824" "uint y < 1073741824" using that by simp_all
    then have "- 2147483648 \<le> uint x - uint y" "uint x - uint y < 2147483648"
      using uint_ge_0 [of x] uint_ge_0 [of y] by linarith+
    then show ?thesis using sint_word_of_int [of "uint x - uint y"] by simp
  qed
  let ?dx = "uint x2 - uint x1" and ?dy = "uint y2 - uint y1"
  let ?sx = "if ?dx < 0 then - 1 else 1 :: int" and ?sy = "if ?dy < 0 then - 1 else 1 :: int"
  let ?ax = "if ?dx < 0 then - ?dx else ?dx" and ?ay = "if ?dy < 0 then - ?dy else ?dy"
  have e: "uint x2 = uint x1 + ?sx * ?ax" "uint y2 = uint y1 + ?sy * ?ay" by auto
  have u: "?sx = 1 \<or> ?sx = - 1" "?sy = 1 \<or> ?sy = - 1" by auto
  have "line_pixels x1 y1 x2 y2 =
      (if ?ax > ?ay then line_loop_x ?ax ?ay ?sx ?sy (uint x2) (?ax div 2) (uint x1) (uint y1)
       else line_loop_y ?ax ?ay ?sx ?sy (uint y2) (?ay div 2) (uint x1) (uint y1))"
    using s [OF sm(1)] s [OF sm(2)] s [OF sm(3)] s [OF sm(4)] d [OF sm(3,1)] d [OF sm(4,2)]
    unfolding line_pixels_def Let_def by (simp only:)
  moreover have "\<exists>ps. line_loop_x ?ax ?ay ?sx ?sy (uint x2) (?ax div 2) (uint x1) (uint y1) = Some ps \<and>
      line_ok (uint x1) (uint y1) (uint x2) (uint y2) ps" if "?ax > ?ay"
    using line_x_ok [of ?ay ?ax ?sx ?sy "uint x1" "uint y1"] e that u by (simp only: order.strict_implies_order) auto
  moreover have "\<exists>ps. line_loop_y ?ax ?ay ?sx ?sy (uint y2) (?ay div 2) (uint x1) (uint y1) = Some ps \<and>
      line_ok (uint x1) (uint y1) (uint x2) (uint y2) ps" if "\<not> ?ax > ?ay"
    using line_y_ok [of ?ax ?ay ?sy ?sx "uint y1" "uint x1"] e that u by (simp only: not_less) auto
  ultimately have "\<exists>ps. line_pixels x1 y1 x2 y2 = Some ps \<and> line_ok (uint x1) (uint y1) (uint x2) (uint y2) ps"
    by presburger
  then show ?thesis by (auto simp: draw_line_def)
qed

theorem draw_line_witness:
  "\<exists>ps. line_pixels 2 7 0 1 = Some ps \<and> line_ok 2 7 0 1 ps \<and>
     draw_line 2 7 0 1 0xFFFFFF [] = Some (fold (\<lambda>(x, y). set_pixel (word_of_int x) (word_of_int y) 0xFFFFFF) ps [])"
  using draw_line_exact [of 2 7 0 1 "0xFFFFFF" "[]"] by simp

section \<open>Glyphs\<close>

lemma circle_bounds:
  fixes y r :: u32
  assumes "y < r" "unat y + unat r < 2 ^ 31"
  shows "\<not> y - r < y + r + 1" "y + r \<noteq> - 1"
proof -
  have "int (unat y + unat r) < int (2 ^ 31)" using assms(2) by (simp only: of_nat_less_iff)
  then have "uint y + uint r < 2147483648" by simp
  moreover have "uint y < uint r" using assms(1) by (simp add: word_less_def)
  ultimately have b: "uint y < uint r" "0 \<le> uint y" "uint y + uint r < 2147483648" by simp_all
  have s: "uint (y + r) = uint y + uint r"
    using b by (simp add: uint_plus_if')
  then have s1: "uint (y + r + 1) = uint y + uint r + 1"
    using b by (simp add: uint_plus_if')
  have "uint (y - r) = uint y - uint r + 4294967296"
    using b by (simp add: uint_sub_if')
  then show "\<not> y - r < y + r + 1" using b by (simp only: word_less_def s1)
  show "y + r \<noteq> - 1"
  proof
    assume "y + r = - 1"
    then have "y + r + 1 = 0" by simp
    then have "uint (y + r + 1) = 0" by simp
    then show False using s1 b by linarith
  qed
qed

text \<open>A circle that reaches over the upper edge of the screen is not drawn at all.\<close>

lemma draw_circle_clipped:
  assumes "y < radius" "unat y + unat radius < 2 ^ 31" "x + radius \<noteq> - 1"
  shows "draw_circle x y radius color fb = Some fb"
proof -
  note c = circle_bounds [OF assms(1,2)]
  show ?thesis using c assms(3) by (simp add: draw_circle_def u32_range.simps [of "y - radius"])
qed

text \<open>
  The rows of the table have their leftmost pixel in bit 0, but \<^verbatim>\<open>draw_char\<close> tests the
  bits from bit 7 down: the stem of the letter L, columns 1 and 2 of its glyph, is
  drawn in columns 5 and 6.
\<close>

definition drawn_columns :: "char \<Rightarrow> nat \<Rightarrow> nat list" where
  "drawn_columns c py = filter (\<lambda>px. glyph_row c py AND drop_bit px 0x80 \<noteq> 0) [0..<8]"

lemma letter_L_mirrored: "drawn_columns CHR ''L'' 2 = [5, 6]" "drawn_columns CHR ''L'' 6 = [1, 2, 3, 4, 5, 6, 7]"
proof -
  have n: "unat ((of_char CHR ''L'' :: u8) AND 0x7F) = 76" by simp
  have "font_8x8 ! 76 = [0x0F, 0x06, 0x06, 0x06, 0x46, 0x66, 0x7F, 0]"
    by (simp add: font_8x8_def nth_append)
  then show "drawn_columns CHR ''L'' 2 = [5, 6]" "drawn_columns CHR ''L'' 6 = [1, 2, 3, 4, 5, 6, 7]"
    by (simp_all add: drawn_columns_def glyph_row_def n upt_rec del: of_char_Char)
qed

end
