(* ===== verification/Game_History.thy ===== *)
theory Game_History
  imports Console
begin

text \<open>
  The play history of \<^verbatim>\<open>src/game_history.c\<close>: a table of at most 64 games with play
  time and launch counts, and the session that is being played. The lemmas show
  that a session is recorded under its game and no other, and that the report
  functions print without a fault.
\<close>

unbundle bit_operations_syntax

section \<open>State and operations\<close>

definition GAME_HISTORY_MAX_ENTRIES :: nat where "GAME_HISTORY_MAX_ENTRIES = 64"
definition GAME_NAME_LEN :: nat where "GAME_NAME_LEN = 32"

record game_history_entry =
  he_game_index :: int
  he_name :: string
  playtime_sec :: u32
  last_played :: string
  launch_count :: u32
  he_session_id :: u32

record history =
  entries :: "game_history_entry list"
  entry_count :: nat
  current_session_game :: int
  session_start_tick :: u32
  system_tick :: u32
  last_session_id :: u32

definition game_history_tick :: "history \<Rightarrow> history" where
  "game_history_tick h = h\<lparr>system_tick := system_tick h + 1\<rparr>"

definition game_history_get_tick :: "history \<Rightarrow> u32" where
  "game_history_get_tick h = system_tick h"

definition format_date :: "history \<Rightarrow> string" where
  "format_date h =
     [CHR ''S'', CHR ''e'', CHR ''s'', CHR '' '',
      char_of (48 + unat ((last_session_id h div 10) mod 10)), char_of (48 + unat (last_session_id h mod 10))]"

definition empty_entry :: game_history_entry where
  "empty_entry = \<lparr>he_game_index = - 1, he_name = [], playtime_sec = 0, last_played = [], launch_count = 0, he_session_id = 0\<rparr>"

definition game_history_init :: history where
  "game_history_init =
     \<lparr>entries = replicate GAME_HISTORY_MAX_ENTRIES empty_entry, entry_count = 0, current_session_game = - 1,
      session_start_tick = 0, system_tick = 0, last_session_id = 0\<rparr>"

definition game_history_session_start :: "int \<Rightarrow> string \<Rightarrow> history \<Rightarrow> history" where
  "game_history_session_start game_index name h =
     h\<lparr>current_session_game := game_index, session_start_tick := system_tick h\<rparr>"

definition find_game :: "int \<Rightarrow> history \<Rightarrow> nat option" where
  "find_game game_index h = find (\<lambda>i. he_game_index (entries h ! i) = game_index) [0..<entry_count h]"

definition record_session :: "int \<Rightarrow> string \<Rightarrow> u32 \<Rightarrow> history \<Rightarrow> history" where
  "record_session game_index name elapsed h =
     (case find_game game_index h of
        Some i \<Rightarrow>
          (let e = entries h ! i
           in h\<lparr>entries := (entries h)[i := e\<lparr>playtime_sec := playtime_sec e + elapsed,
                launch_count := launch_count e + 1, he_session_id := last_session_id h,
                last_played := format_date h\<rparr>]\<rparr>)
      | None \<Rightarrow>
          if entry_count h \<ge> GAME_HISTORY_MAX_ENTRIES then h
          else h\<lparr>entries := (entries h)[entry_count h :=
                 \<lparr>he_game_index = game_index, he_name = str_copy GAME_NAME_LEN name, playtime_sec = elapsed,
                  last_played = format_date h, launch_count = 1, he_session_id = last_session_id h\<rparr>],
               entry_count := entry_count h + 1\<rparr>)"

definition game_history_session_end :: "int \<Rightarrow> string \<Rightarrow> history \<Rightarrow> history" where
  "game_history_session_end game_index name h =
     (let elapsed = system_tick h - session_start_tick h
      in record_session game_index name (if elapsed < 1 then 1 else elapsed)
           (h\<lparr>last_session_id := last_session_id h + 1, current_session_game := - 1\<rparr>))"

definition game_history_get_entry :: "int \<Rightarrow> history \<Rightarrow> game_history_entry option" where
  "game_history_get_entry game_index h = map_option (\<lambda>i. entries h ! i) (find_game game_index h)"

section \<open>Reports\<close>

definition rule_line :: kout where
  "rule_line = Kprint ''  ----------------------------------------\<newline>\<newline>''"

definition game_history_print_history :: "history \<Rightarrow> kout list" where
  "game_history_print_history h =
     [Kprint ''\<newline>  '', KprintColor '' games history '' 0x2A,
      KprintColor '' --------------------------------\<newline>'' 0x08] @
     (if entry_count h = 0 then
        [Kprint ''  No games played yet. Use '', KprintColor ''game <n>'' 0x0B, Kprint '' to play.\<newline>'', rule_line]
      else map (\<lambda>e. Kprintf ''  %-12s  last: %-8s  playtime: %u ticks  launches: %u\<newline>''
             [StrArg (he_name e), StrArg (last_played e), IntArg (playtime_sec e), IntArg (launch_count e)])
             (take (entry_count h) (entries h)) @ [rule_line])"

definition most_played :: "game_history_entry list \<Rightarrow> nat \<Rightarrow> nat" where
  "most_played es n = fold (\<lambda>i m. if playtime_sec (es ! i) > playtime_sec (es ! m) then i else m) [0..<n] 0"

definition game_history_print_stats :: "history \<Rightarrow> kout list" where
  "game_history_print_stats h =
     [Kprint ''\<newline>  '', KprintColor '' games stats '' 0x2A,
      KprintColor '' ----------------------------------\<newline>'' 0x08] @
     (if entry_count h = 0 then [Kprint ''  No games played yet.\<newline>'', rule_line]
      else let es = take (entry_count h) (entries h);
               total_playtime = sum_list (map playtime_sec es);
               total_launches = sum_list (map launch_count es);
               m = entries h ! most_played (entries h) (entry_count h)
           in [Kprintf ''  Total playtime:  %u ticks\<newline>'' [IntArg total_playtime],
               Kprintf ''  Total launches: %u\<newline>'' [IntArg total_launches],
               Kprintf ''  Most played:    %s (%u ticks)\<newline>'' [StrArg (he_name m), IntArg (playtime_sec m)],
               rule_line])"

definition last_index :: "game_history_entry list \<Rightarrow> nat \<Rightarrow> nat" where
  "last_index es n = fold (\<lambda>i m. if he_session_id (es ! i) > he_session_id (es ! m) then i else m) [1..<n] 0"

definition game_history_print_last :: "history \<Rightarrow> kout list" where
  "game_history_print_last h =
     [Kprint ''\<newline>  '', KprintColor '' games last '' 0x2A,
      KprintColor '' -------------------------------------\<newline>'' 0x08] @
     (if entry_count h = 0 then [Kprint ''  No games played yet.\<newline>'', rule_line]
      else let e = entries h ! last_index (entries h) (entry_count h)
           in [Kprintf ''  Last played: %s\<newline>'' [StrArg (he_name e)],
               Kprintf ''  Session:     %s  |  playtime: %u ticks  |  launches: %u\<newline>''
                 [StrArg (last_played e), IntArg (playtime_sec e), IntArg (launch_count e)],
               rule_line])"

section \<open>Sessions are recorded under their game\<close>

definition history_ok :: "history \<Rightarrow> bool" where
  "history_ok h \<longleftrightarrow> length (entries h) = 64 \<and> entry_count h \<le> 64 \<and>
     distinct (map he_game_index (take (entry_count h) (entries h)))"

lemma history_init_ok [inv_intro]: "history_ok game_history_init"
  by (simp add: history_ok_def game_history_init_def GAME_HISTORY_MAX_ENTRIES_def)

lemma find_game_Some:
  "find_game g h = Some i \<Longrightarrow> i < entry_count h \<and> he_game_index (entries h ! i) = g"
  by (auto simp: find_game_def find_Some_iff)

lemma find_game_None:
  "find_game g h = None \<longleftrightarrow> (\<forall>i < entry_count h. he_game_index (entries h ! i) \<noteq> g)"
  by (auto simp: find_game_def find_None_iff)

lemma find_game_unique:
  assumes "history_ok h" "i < entry_count h" "he_game_index (entries h ! i) = g"
  shows "find_game g h = Some i"
proof (cases "find_game g h")
  case None
  then show ?thesis using assms by (simp add: find_game_None)
next
  case (Some j)
  then have j: "j < entry_count h" "he_game_index (entries h ! j) = g" using find_game_Some by blast+
  have "map he_game_index (take (entry_count h) (entries h)) ! j = map he_game_index (take (entry_count h) (entries h)) ! i"
    using assms j by (simp add: history_ok_def)
  then have "j = i" using assms j by (subst (asm) nth_eq_iff_index_eq) (simp_all add: history_ok_def)
  then show ?thesis using Some by simp
qed

lemma get_entry_update:
  assumes "history_ok h" "i < entry_count h" "he_game_index e = he_game_index (entries h ! i)"
    "entries h' = (entries h)[i := e]" "entry_count h' = entry_count h"
  shows "history_ok h' \<and> game_history_get_entry g h' =
     (if g = he_game_index e then Some e else game_history_get_entry g h)"
proof -
  have same: "map he_game_index (entries h') = map he_game_index (entries h)"
    using assms by (simp add: map_update list_update_same_conv history_ok_def)
  have idx: "he_game_index (entries h' ! j) = he_game_index (entries h ! j)" if "j < 64" for j
    using same that assms(1) by (metis history_ok_def length_map nth_map)
  have ok: "history_ok h'" using assms(1,4,5) same by (simp add: history_ok_def take_map [symmetric])
  have find: "find_game g h' = find_game g h"
    unfolding find_game_def assms(5) by (rule find_cong) (use idx assms(1) in \<open>auto simp: history_ok_def\<close>)
  show ?thesis
  proof (cases "g = he_game_index e")
    case True
    then show ?thesis using ok find find_game_unique [OF assms(1,2)] assms
      by (simp add: game_history_get_entry_def history_ok_def)
  next
    case False
    have "entries h' ! j = entries h ! j" if "find_game g h = Some j" for j
      using that False find_game_Some [OF that] assms(3,4) by (cases "j = i") auto
    then show ?thesis using ok find False by (simp add: game_history_get_entry_def cong: map_option_cong)
  qed
qed

lemma get_entry_append:
  assumes "history_ok h" "entry_count h < 64" "find_game (he_game_index e) h = None"
    "entries h' = (entries h)[entry_count h := e]" "entry_count h' = entry_count h + 1"
  shows "history_ok h' \<and> game_history_get_entry g h' =
     (if g = he_game_index e then Some e else game_history_get_entry g h)"
proof -
  let ?n = "entry_count h"
  have t: "take (Suc ?n) (entries h') = take ?n (entries h) @ [e]"
    using assms by (simp add: history_ok_def take_Suc_conv_app_nth)
  have new: "he_game_index e \<notin> he_game_index ` set (take ?n (entries h))"
    using assms(1,2,3) unfolding find_game_None by (fastforce simp: in_set_conv_nth history_ok_def)
  have ok: "history_ok h'" using assms t new by (simp add: history_ok_def)
  have nth: "entries h' ! j = entries h ! j" if "j < ?n" for j using that assms(4) by simp
  have "find_game g h' = (case find_game g h of Some j \<Rightarrow> Some j | None \<Rightarrow> if g = he_game_index e then Some ?n else None)"
  proof (cases "find_game g h")
    case None
    then have n: "\<forall>i < ?n. he_game_index (entries h' ! i) \<noteq> g" by (simp add: find_game_None nth)
    have e: "entries h' ! ?n = e" using assms by (simp add: history_ok_def)
    show ?thesis
    proof (cases "g = he_game_index e")
      case True
      then show ?thesis using None e find_game_unique [OF ok, of ?n g] assms(5) by simp
    next
      case False
      have "find_game g h' = None" unfolding find_game_None using n e False assms(5) by (auto simp: less_Suc_eq)
      then show ?thesis using None False by simp
    qed
  next
    case (Some j)
    then show ?thesis using find_game_unique [OF ok, of j g] find_game_Some [OF Some] nth assms(5) by simp
  qed
  moreover have "find_game (he_game_index e) h = None" by fact
  ultimately show ?thesis using ok nth find_game_Some [of g h] assms
    by (auto simp: game_history_get_entry_def history_ok_def split: option.splits)
qed

lemma ticks: "(game_history_tick ^^ n) h = h\<lparr>system_tick := system_tick h + of_nat n\<rparr>"
  by (induction n) (simp_all add: game_history_tick_def algebra_simps)

lemma session_end_id: "last_session_id (game_history_session_end g name h) = last_session_id h + 1"
  by (simp add: game_history_session_end_def record_session_def Let_def split: option.split)

lemma record_session_lookup:
  assumes ok: "history_ok h"
  shows "history_ok (record_session g name el h) \<and> format_date (record_session g name el h) = format_date h \<and>
    (\<forall>k. k \<noteq> g \<longrightarrow> game_history_get_entry k (record_session g name el h) = game_history_get_entry k h) \<and>
    game_history_get_entry g (record_session g name el h) =
      (case game_history_get_entry g h of
         Some e \<Rightarrow> Some (e\<lparr>playtime_sec := playtime_sec e + el, launch_count := launch_count e + 1,
                        he_session_id := last_session_id h, last_played := format_date h\<rparr>)
       | None \<Rightarrow> if entry_count h = 64 then None
           else Some \<lparr>he_game_index = g, he_name = str_copy 32 name, playtime_sec = el,
                 last_played = format_date h, launch_count = 1, he_session_id = last_session_id h\<rparr>)"
proof (cases "find_game g h")
  case (Some i)
  let ?e = "(entries h ! i)\<lparr>playtime_sec := playtime_sec (entries h ! i) + el,
         launch_count := launch_count (entries h ! i) + 1, he_session_id := last_session_id h, last_played := format_date h\<rparr>"
  have i: "i < entry_count h" "he_game_index (entries h ! i) = g" using find_game_Some [OF Some] by auto
  have eq: "record_session g name el h = h\<lparr>entries := (entries h)[i := ?e]\<rparr>"
    by (simp add: record_session_def Some Let_def)
  have "history_ok (record_session g name el h) \<and>
      game_history_get_entry k (record_session g name el h) = (if k = he_game_index ?e then Some ?e else game_history_get_entry k h)" for k
    by (rule get_entry_update [OF ok i(1)]) (simp_all add: eq)
  moreover have "game_history_get_entry g h = Some (entries h ! i)" using Some by (simp add: game_history_get_entry_def)
  moreover have "format_date (record_session g name el h) = format_date h" by (simp add: eq format_date_def)
  ultimately show ?thesis using i by simp
next
  case None
  let ?e = "\<lparr>he_game_index = g, he_name = str_copy 32 name,
           playtime_sec = el, last_played = format_date h, launch_count = 1, he_session_id = last_session_id h\<rparr>"
  have none: "game_history_get_entry g h = None" using None by (simp add: game_history_get_entry_def)
  have c: "entry_count h \<le> 64" using ok by (simp add: history_ok_def)
  show ?thesis
  proof (cases "entry_count h = 64")
    case True
    then have "record_session g name el h = h" by (simp add: record_session_def None GAME_HISTORY_MAX_ENTRIES_def)
    then show ?thesis using True none ok by simp
  next
    case False
    then have lt: "entry_count h < 64" using c by simp
    have eq: "record_session g name el h = h\<lparr>entries := (entries h)[entry_count h := ?e], entry_count := entry_count h + 1\<rparr>"
      using lt by (simp add: record_session_def None GAME_HISTORY_MAX_ENTRIES_def GAME_NAME_LEN_def)
    have "history_ok (record_session g name el h) \<and>
        game_history_get_entry k (record_session g name el h) = (if k = he_game_index ?e then Some ?e else game_history_get_entry k h)" for k
      by (rule get_entry_append [OF ok lt]) (simp_all add: eq None)
    moreover have "format_date (record_session g name el h) = format_date h" by (simp add: eq format_date_def)
    ultimately show ?thesis using False none by simp
  qed
qed

text \<open>The history while a session of \<open>n\<close> ticks is recorded; the lookups do not depend on the clock.\<close>

definition session_over :: "int \<Rightarrow> string \<Rightarrow> nat \<Rightarrow> history \<Rightarrow> history" where
  "session_over g name n h = game_history_session_end g name ((game_history_tick ^^ n) (game_history_session_start g name h))"

definition elapsed_ticks :: "nat \<Rightarrow> u32" where
  "elapsed_ticks n = (if (of_nat n :: u32) < 1 then 1 else of_nat n)"

lemma session_over_record:
  "session_over g name n h = record_session g name (elapsed_ticks n)
     (h\<lparr>session_start_tick := system_tick h, system_tick := system_tick h + of_nat n,
        last_session_id := last_session_id h + 1, current_session_game := - 1\<rparr>)"
  unfolding session_over_def game_history_session_end_def game_history_session_start_def ticks Let_def elapsed_ticks_def
  by (rule arg_cong2 [where f = "record_session g name"]) simp_all

lemma clock_irrelevant:
  "history_ok (h\<lparr>session_start_tick := a, system_tick := b, last_session_id := c, current_session_game := d\<rparr>) = history_ok h"
  "game_history_get_entry k (h\<lparr>session_start_tick := a, system_tick := b, last_session_id := c, current_session_game := d\<rparr>) = game_history_get_entry k h"
  "entry_count (h\<lparr>session_start_tick := a, system_tick := b, last_session_id := c, current_session_game := d\<rparr>) = entry_count h"
  "last_session_id (h\<lparr>session_start_tick := a, system_tick := b, last_session_id := c, current_session_game := d\<rparr>) = c"
  by (simp_all add: history_ok_def game_history_get_entry_def find_game_def)

text \<open>
  A session of fewer than 2^32 ticks of game \<open>g\<close> is recorded under that game and no
  other: its entry gains the elapsed ticks (at least one) and one launch, a game
  without an entry gets one with its name cut to 31 characters as long as the
  table of 64 has room, and every other game keeps its entry. At most one entry
  per game exists afterwards.
\<close>

theorem session_recorded:
  assumes "history_ok h" "n < 2 ^ 32"
    "h' = game_history_session_end g name ((game_history_tick ^^ n) (game_history_session_start g name h))"
  shows "history_ok h' \<and>
    (\<forall>k. k \<noteq> g \<longrightarrow> game_history_get_entry k h' = game_history_get_entry k h) \<and>
    game_history_get_entry g h' =
     (case game_history_get_entry g h of
       Some e \<Rightarrow> Some (e\<lparr>playtime_sec := playtime_sec e + of_nat (max 1 n), launch_count := launch_count e + 1,
                 he_session_id := last_session_id h + 1, last_played := format_date h'\<rparr>)
     | None \<Rightarrow> if entry_count h = 64 then None
          else Some \<lparr>he_game_index = g, he_name = str_copy 32 name, playtime_sec = of_nat (max 1 n),
                 last_played = format_date h', launch_count = 1, he_session_id = last_session_id h + 1\<rparr>)"
proof -
  let ?h2 = "h\<lparr>session_start_tick := system_tick h, system_tick := system_tick h + of_nat n,
        last_session_id := last_session_id h + 1, current_session_game := - 1\<rparr>"
  have el: "elapsed_ticks n = of_nat (max 1 n)"
  proof (cases "n = 0")
    case False
    then have "(of_nat n :: u32) \<noteq> 0" using assms(2) by (simp add: word_of_nat_eq_0_iff nat_dvd_not_less)
    then show ?thesis using False by (simp add: elapsed_ticks_def max_def word_less_nat_alt unsigned_eq_0_iff)
  qed (simp add: elapsed_ticks_def)
  have h': "h' = record_session g name (of_nat (max 1 n)) ?h2"
    unfolding assms(3) session_over_def [symmetric] session_over_record el ..
  have ok: "history_ok ?h2" using assms(1) by (simp add: clock_irrelevant)
  note r = record_session_lookup [OF ok, of g name "of_nat (max 1 n)", folded h', unfolded clock_irrelevant]
  then have fd: "format_date ?h2 = format_date h'" by simp
  show ?thesis using r unfolding fd by blast
qed

theorem session_recorded_witness:
  "game_history_get_entry 2 (game_history_session_end 2 ''Tetris''
     ((game_history_tick ^^ 7) (game_history_session_start 2 ''Tetris'' game_history_init))) =
   Some \<lparr>he_game_index = 2, he_name = ''Tetris'', playtime_sec = 7, last_played = ''Ses 01'', launch_count = 1, he_session_id = 1\<rparr>"
proof -
  have g: "game_history_get_entry 2 game_history_init = None"
    by (simp add: game_history_init_def game_history_get_entry_def find_game_def)
  have f: "last_session_id h = 1 \<Longrightarrow> format_date h = ''Ses 01''" for h
    by (simp add: format_date_def char_of_def bit_0)
  let ?h = "game_history_session_end 2 ''Tetris'' ((game_history_tick ^^ 7) (game_history_session_start 2 ''Tetris'' game_history_init))"
  have "last_session_id ?h = last_session_id game_history_init + 1"
    unfolding session_end_id ticks by (simp add: game_history_session_start_def)
  then have "format_date ?h = ''Ses 01''" by (intro f) (simp add: game_history_init_def)
  then show ?thesis
    using session_recorded [OF history_init_ok, of 7 ?h 2 "''Tetris''"] g
    by (simp add: game_history_init_def)
qed

section \<open>Reports do not fault\<close>

lemma reports_ok:
  assumes "list_all (\<lambda>e. list_all plain (cstr (he_name e)) \<and> list_all plain (cstr (last_played e))) (entries h)"
    "length (entries h) = 64" "entry_count h \<le> 64"
  shows "list_all out_ok (game_history_print_history h)"
proof -
  have "format_text ''  %-12s  last: %-8s  playtime: %u ticks  launches: %u\<newline>'' args =
      Some ''  ?12s  last: ?8s  playtime: ? ticks  launches: ?\<newline>''" for args
    by (simp add: arg_text_def)
  then show ?thesis using assms
    by (auto simp: game_history_print_history_def list_all_iff rule_line_def dest!: in_set_takeD)
qed

end
