(* ===== verification/Game_Loop.thy ===== *)
theory Game_Loop
  imports Graphics Game_History
begin

text \<open>
  The loop that the five games of \<^verbatim>\<open>src/game.c\<close> share: drain the keyboard, advance the
  game and the play clock by one tick, draw, until the game is over; then the
  closing screen that waits for a key. A loop that never ends (a keyboard that
  never falls silent, a game that is never left) is \<open>None\<close>. Delay loops have no
  effect on the state and are left out.
\<close>

unbundle bit_operations_syntax

definition SCAN_UP :: u8 where "SCAN_UP = 0x48"
definition SCAN_DOWN :: u8 where "SCAN_DOWN = 0x50"
definition SCAN_LEFT :: u8 where "SCAN_LEFT = 0x4B"
definition SCAN_RIGHT :: u8 where "SCAN_RIGHT = 0x4D"
definition SCAN_SPACE :: u8 where "SCAN_SPACE = 0x39"
definition SCAN_ESC :: u8 where "SCAN_ESC = 0x01"

text \<open>Key releases are skipped; the handler's second result leaves the draining loop (Escape).\<close>

partial_function (option) poll_keys ::
  "'w port_io \<Rightarrow> (u8 \<Rightarrow> 's \<Rightarrow> 's \<times> bool) \<Rightarrow> 's \<Rightarrow> 'w \<Rightarrow> ('s \<times> 'w) option" where
  "poll_keys io key s w =
     (let (w1, sc) = keyboard_get_scancode io w
      in if sc = 0 then Some (s, w1)
         else if sc AND 0x80 \<noteq> 0 then poll_keys io key s w1
         else let (s1, stop) = key sc s
              in if stop then Some (s1, w1) else poll_keys io key s1 w1)"

partial_function (option) frames ::
  "'w port_io \<Rightarrow> ('s \<Rightarrow> bool) \<Rightarrow> (u8 \<Rightarrow> 's \<Rightarrow> 's \<times> bool) \<Rightarrow> ('s \<Rightarrow> 's) \<Rightarrow> ('s \<Rightarrow> draw list) \<Rightarrow>
   's \<Rightarrow> history \<Rightarrow> framebuffer \<Rightarrow> 'w \<Rightarrow> ('s \<times> history \<times> framebuffer \<times> 'w) option" where
  "frames io over key tick draws s h fb w =
     (if over s then Some (s, h, fb, w)
      else Option.bind (poll_keys io key s w)
        (\<lambda>(s1, w1). let s2 = tick s1
                   in frames io over key tick draws s2 (game_history_tick h) (fold paint (draws s2) fb) w1))"

partial_function (option) wait_key :: "'w port_io \<Rightarrow> 'w \<Rightarrow> 'w option" where
  "wait_key io w = (let (w1, k) = keyboard_has_key io w in if k then Some w1 else wait_key io w1)"

partial_function (option) flush_keys :: "'w port_io \<Rightarrow> 'w \<Rightarrow> 'w option" where
  "flush_keys io w = (let (w1, sc) = keyboard_get_scancode io w in if sc \<noteq> 0 then flush_keys io w1 else Some w1)"

definition game_run ::
  "'w port_io \<Rightarrow> ('s \<Rightarrow> bool) \<Rightarrow> (u8 \<Rightarrow> 's \<Rightarrow> 's \<times> bool) \<Rightarrow> ('s \<Rightarrow> 's) \<Rightarrow> ('s \<Rightarrow> draw list) \<Rightarrow> ('s \<Rightarrow> draw list) \<Rightarrow>
   's \<Rightarrow> history \<Rightarrow> framebuffer \<Rightarrow> 'w \<Rightarrow> ('s \<times> history \<times> framebuffer \<times> 'w) option" where
  "game_run io over key tick draws closing s h fb w =
     Option.bind (frames io over key tick draws s h fb w)
       (\<lambda>(s1, h1, fb1, w1). Option.bind (wait_key io w1)
          (\<lambda>w2. Option.bind (flush_keys io w2)
             (\<lambda>w3. Some (s1, h1, fold paint (closing s1) fb1, w3))))"

section \<open>Invariants of a game\<close>

text \<open>
  What a game promises: an invariant that the key handler and the tick keep. The
  loop then keeps it, whatever keys arrive, and ends only in a state that is over.
\<close>

locale game =
  fixes ok :: "'s \<Rightarrow> bool" and over :: "'s \<Rightarrow> bool" and key :: "u8 \<Rightarrow> 's \<Rightarrow> 's \<times> bool" and tick :: "'s \<Rightarrow> 's"
  assumes key_ok: "ok s \<Longrightarrow> ok (fst (key sc s))"
    and tick_ok: "ok s \<Longrightarrow> ok (tick s)"
begin

lemma poll_ok:
  assumes "poll_keys io key s w = Some r" "ok s"
  shows "ok (fst r)"
proof -
  have "poll_keys io k s w = Some r \<Longrightarrow> k = key \<longrightarrow> ok s \<longrightarrow> ok (fst r)" for k
  proof (rule poll_keys.raw_induct [where P = "\<lambda>io k s w r. k = key \<longrightarrow> ok s \<longrightarrow> ok (fst r)"])
    fix poll :: "'a port_io \<Rightarrow> (u8 \<Rightarrow> 's \<Rightarrow> 's \<times> bool) \<Rightarrow> 's \<Rightarrow> 'a \<Rightarrow> ('s \<times> 'a) option" and io k s w r
    assume IH: "\<And>io k s w r. poll io k s w = Some r \<Longrightarrow> k = key \<longrightarrow> ok s \<longrightarrow> ok (fst r)"
      and step: "(let (w1, sc) = keyboard_get_scancode io w
        in if sc = 0 then Some (s, w1) else if sc AND 0x80 \<noteq> 0 then poll io k s w1
           else let (s1, stop) = k sc s in if stop then Some (s1, w1) else poll io k s1 w1) = Some r"
    show "k = key \<longrightarrow> ok s \<longrightarrow> ok (fst r)"
    proof (intro impI)
      assume k: "k = key" and ok: "ok s"
      obtain w1 sc where g: "keyboard_get_scancode io w = (w1, sc)" by fastforce
      obtain s1 stop where q: "key sc s = (s1, stop)" by fastforce
      have "ok s1" using key_ok [OF ok, of sc] q by simp
      then show "ok (fst r)" using step g q k ok IH by (auto split: if_splits)
    qed
  qed
  then show ?thesis using assms by blast
qed

text \<open>The loop returns only a state that is over and satisfies the invariant.\<close>

lemma frames_ok:
  assumes "frames io over key tick draws s h fb w = Some r" "ok s"
  shows "ok (fst r) \<and> over (fst r)"
proof -
  have "frames io ov k t draws s h fb w = Some r \<Longrightarrow> ov = over \<and> k = key \<and> t = tick \<longrightarrow> ok s \<longrightarrow> ok (fst r) \<and> over (fst r)" for ov k t
  proof (rule frames.raw_induct [where P = "\<lambda>io ov k t draws s h fb w r. ov = over \<and> k = key \<and> t = tick \<longrightarrow> ok s \<longrightarrow> ok (fst r) \<and> over (fst r)"])
    fix fr :: "'a port_io \<Rightarrow> ('s \<Rightarrow> bool) \<Rightarrow> (u8 \<Rightarrow> 's \<Rightarrow> 's \<times> bool) \<Rightarrow> ('s \<Rightarrow> 's) \<Rightarrow> ('s \<Rightarrow> draw list) \<Rightarrow>
       's \<Rightarrow> history \<Rightarrow> framebuffer \<Rightarrow> 'a \<Rightarrow> ('s \<times> history \<times> framebuffer \<times> 'a) option" and io ov k t draws s h fb w r
    assume IH: "\<And>io ov k t draws s h fb w r. fr io ov k t draws s h fb w = Some r \<Longrightarrow>
        ov = over \<and> k = key \<and> t = tick \<longrightarrow> ok s \<longrightarrow> ok (fst r) \<and> over (fst r)"
      and step: "(if ov s then Some (s, h, fb, w)
        else Option.bind (poll_keys io k s w)
          (\<lambda>(s1, w1). let s2 = t s1 in fr io ov k t draws s2 (game_history_tick h) (fold paint (draws s2) fb) w1)) = Some r"
    show "ov = over \<and> k = key \<and> t = tick \<longrightarrow> ok s \<longrightarrow> ok (fst r) \<and> over (fst r)"
    proof (intro impI)
      assume eq: "ov = over \<and> k = key \<and> t = tick" and ok: "ok s"
      show "ok (fst r) \<and> over (fst r)"
      proof (cases "over s")
        case True
        then show ?thesis using step eq ok by auto
      next
        case False
        then obtain s1 w1 where p: "poll_keys io key s w = Some (s1, w1)"
            "fr io over key tick draws (tick s1) (game_history_tick h) (fold paint (draws (tick s1)) fb) w1 = Some r"
          using step eq by (auto simp: Let_def bind_eq_Some_conv)
        have "ok (tick s1)" using tick_ok poll_ok [OF p(1) ok] by simp
        then show ?thesis using IH [OF p(2)] by simp
      qed
    qed
  qed
  then show ?thesis using assms by blast
qed

lemma run_ok:
  assumes "game_run io over key tick draws closing s h fb w = Some (s', h', fb', w')" "ok s"
  shows "ok s' \<and> over s'"
  using assms frames_ok by (fastforce simp: game_run_def bind_eq_Some_conv)

end

section \<open>Games that nobody plays\<close>

text \<open>
  On a machine whose keyboard stays silent until a key ends the closing screen,
  a game that is over after \<open>k\<close> ticks returns with exactly these ticks played.
\<close>

lemma frames_idle:
  assumes idle: "\<And>w. keyboard_get_scancode io w = (w, 0)"
    and "\<forall>i < k. \<not> over ((tick ^^ i) s)" "over ((tick ^^ k) s)"
  shows "\<exists>fb'. frames io over key tick draws s h fb w = Some ((tick ^^ k) s, (game_history_tick ^^ k) h, fb', w)"
  using assms(2,3)
proof (induction k arbitrary: s h fb)
  case 0
  then show ?case by (subst frames.simps) auto
next
  case (Suc k)
  have "\<not> over s" using Suc.prems(1) by (auto dest: spec [of _ 0])
  moreover have "poll_keys io key s w = Some (s, w)" by (subst poll_keys.simps) (simp add: idle)
  moreover have "\<exists>fb'. frames io over key tick draws (tick s) (game_history_tick h) (fold paint (draws (tick s)) fb) w =
      Some ((tick ^^ k) (tick s), (game_history_tick ^^ k) (game_history_tick h), fb', w)"
  proof (rule Suc.IH)
    show "\<forall>i < k. \<not> over ((tick ^^ i) (tick s))" using Suc.prems(1) by (metis Suc_less_eq funpow_swap1 funpow.simps(2) comp_apply)
    show "over ((tick ^^ k) (tick s))" using Suc.prems(2) by (simp add: funpow_swap1)
  qed
  ultimately show ?case by (subst frames.simps) (simp add: Let_def funpow_swap1)
qed

end
