(* ===== verification/Snake.thy ===== *)
theory Snake
  imports Game_Loop
begin

text \<open>
  The snake game of \<^verbatim>\<open>src/game.c\<close> on its 16x10 grid: the body in two arrays of 64
  coordinates, food placement, one tick, drawing and the run loop. The lemmas
  show that the body stays a self-avoiding path inside the walls, and that the
  food lands on a free cell.
\<close>

unbundle bit_operations_syntax

definition SNAKE_GRID_W :: int where "SNAKE_GRID_W = 16"
definition SNAKE_GRID_H :: int where "SNAKE_GRID_H = 10"
definition SNAKE_CELL :: int where "SNAKE_CELL = 20"
definition SNAKE_MAX_LEN :: nat where "SNAKE_MAX_LEN = 64"
definition SNAKE_UP :: nat where "SNAKE_UP = 0"
definition SNAKE_RIGHT :: nat where "SNAKE_RIGHT = 1"
definition SNAKE_DOWN :: nat where "SNAKE_DOWN = 2"
definition SNAKE_LEFT :: nat where "SNAKE_LEFT = 3"

record snake =
  snake_seg_x :: "int list"
  snake_seg_y :: "int list"
  snake_len :: nat
  snake_dir :: nat
  snake_next_dir :: nat
  snake_food_x :: int
  snake_food_y :: int
  snake_game_over :: bool
  snake_score :: nat

definition snake_dx :: "int list" where "snake_dx = [0, 1, 0, - 1]"
definition snake_dy :: "int list" where "snake_dy = [- 1, 0, 1, 0]"

definition snake_hits :: "snake \<Rightarrow> int \<Rightarrow> int \<Rightarrow> bool" where
  "snake_hits s x y = list_ex (\<lambda>i. snake_seg_x s ! i = x \<and> snake_seg_y s ! i = y) [0..<snake_len s]"

definition food_try :: "snake \<Rightarrow> nat \<Rightarrow> int \<times> int" where
  "food_try s n =
     (let x = 1 + (int (snake_score s) * 7 + int n) mod (SNAKE_GRID_W - 2);
          y = 1 + (int (snake_score s) * 11 + int n * 3) mod (SNAKE_GRID_H - 2)
      in (if snake_hits s x y then - 1 else x, y))"

function food_loop :: "snake \<Rightarrow> nat \<Rightarrow> int \<times> int" where
  "food_loop s n =
     (let (x, y) = food_try s n
      in if x \<le> 0 \<and> n + 1 < 200 then food_loop s (n + 1) else (x, y))"
  by pat_completeness auto
termination
  by (relation "measure (\<lambda>(s, n). 200 - n)") auto

declare food_loop.simps [simp del]

definition snake_place_food :: "snake \<Rightarrow> snake" where
  "snake_place_food s =
     (let (x, y) = food_loop s 0; (x, y) = (if x \<le> 0 then (1, 1) else (x, y))
      in s\<lparr>snake_food_x := x, snake_food_y := y\<rparr>)"

definition snake_init :: "snake \<Rightarrow> snake" where
  "snake_init s =
     snake_place_food
       (s\<lparr>snake_len := 3, snake_dir := SNAKE_RIGHT, snake_next_dir := SNAKE_RIGHT, snake_score := 0,
          snake_game_over := False,
          snake_seg_x := (snake_seg_x s)[0 := 8, 1 := 7, 2 := 6],
          snake_seg_y := (snake_seg_y s)[0 := 5, 1 := 5, 2 := 5]\<rparr>)"

definition shift :: "nat \<Rightarrow> int list \<Rightarrow> int list" where
  "shift n seg = fold (\<lambda>i b. b[i := b ! (i - 1)]) (rev [1..<n + 1]) seg"

definition snake_advance :: "int \<Rightarrow> int \<Rightarrow> snake \<Rightarrow> snake" where
  "snake_advance hx hy s =
     s\<lparr>snake_seg_x := (shift (snake_len s) (snake_seg_x s))[0 := hx],
       snake_seg_y := (shift (snake_len s) (snake_seg_y s))[0 := hy]\<rparr>"

definition snake_eat :: "snake \<Rightarrow> snake" where
  "snake_eat s =
     (let s1 = (if snake_len s < SNAKE_MAX_LEN - 1 then s\<lparr>snake_len := snake_len s + 1\<rparr> else s)
      in snake_place_food (s1\<lparr>snake_score := snake_score s1 + 1\<rparr>))"

definition snake_turn :: "snake \<Rightarrow> snake" where
  "snake_turn s =
     (let opp = (snake_dir s + 2) mod 4
      in if snake_next_dir s \<noteq> opp then s\<lparr>snake_dir := snake_next_dir s\<rparr> else s)"

definition snake_tick :: "snake \<Rightarrow> snake" where
  "snake_tick s0 =
     (let s = snake_turn s0;
          hx = snake_seg_x s ! 0 + snake_dx ! snake_dir s;
          hy = snake_seg_y s ! 0 + snake_dy ! snake_dir s
      in if hx \<le> 0 \<or> hx \<ge> SNAKE_GRID_W - 1 \<or> hy \<le> 0 \<or> hy \<ge> SNAKE_GRID_H - 1
         then s\<lparr>snake_game_over := True\<rparr>
         else if snake_hits s hx hy then s\<lparr>snake_game_over := True\<rparr>
         else let s1 = snake_advance hx hy s
              in if hx = snake_food_x s1 \<and> hy = snake_food_y s1 then snake_eat s1 else s1)"

definition snake_draw :: "snake \<Rightarrow> draw list" where
  "snake_draw s =
     [ClearGraphics] @
     map (\<lambda>i. Rect (word_of_int (snake_seg_x s ! i * SNAKE_CELL + 1)) (word_of_int (snake_seg_y s ! i * SNAKE_CELL + 1))
              (word_of_int (SNAKE_CELL - 2)) (word_of_int (SNAKE_CELL - 2)) (if i = 0 then 0x00FF00 else 0x00AA00))
       [0..<snake_len s] @
     [Rect (word_of_int (snake_food_x s * SNAKE_CELL + 1)) (word_of_int (snake_food_y s * SNAKE_CELL + 1))
        (word_of_int (SNAKE_CELL - 2)) (word_of_int (SNAKE_CELL - 2)) 0xFF0000,
      Text 5 2 ''Snake'' 0xFFFFFF, Text 5 12 ''Score:'' 0xFFFFFF, Number 50 12 (of_nat (snake_score s)) 0xFFFFFF]"

definition snake_key :: "u8 \<Rightarrow> snake \<Rightarrow> snake \<times> bool" where
  "snake_key sc s =
     (if sc = SCAN_UP then (s\<lparr>snake_next_dir := SNAKE_UP\<rparr>, False)
      else if sc = SCAN_DOWN then (s\<lparr>snake_next_dir := SNAKE_DOWN\<rparr>, False)
      else if sc = SCAN_LEFT then (s\<lparr>snake_next_dir := SNAKE_LEFT\<rparr>, False)
      else if sc = SCAN_RIGHT then (s\<lparr>snake_next_dir := SNAKE_RIGHT\<rparr>, False)
      else (s, False))"

definition snake_closing :: "snake \<Rightarrow> draw list" where
  "snake_closing s =
     snake_draw s @
     [Text 80 90 ''Game Over'' 0xFFFFFF, Text 60 105 ''Score:'' 0xFFFFFF,
      Number 110 105 (of_nat (snake_score s)) 0xFFFFFF, Text 50 125 ''Press any key'' 0xAAAAAA]"

definition snake_run ::
  "'w port_io \<Rightarrow> snake \<Rightarrow> history \<Rightarrow> framebuffer \<Rightarrow> 'w \<Rightarrow> (snake \<times> history \<times> framebuffer \<times> 'w) option" where
  "snake_run io = game_run io snake_game_over snake_key snake_tick
     (\<lambda>s. if snake_game_over s then [] else snake_draw s) snake_closing"

section \<open>The body is a self-avoiding path\<close>

type_synonym point = "int \<times> int"

definition body :: "snake \<Rightarrow> point list" where
  "body s = zip (take (snake_len s) (snake_seg_x s)) (take (snake_len s) (snake_seg_y s))"

definition inside :: "point \<Rightarrow> bool" where
  "inside p \<longleftrightarrow> 0 < fst p \<and> fst p < 15 \<and> 0 < snd p \<and> snd p < 9"

definition adjacent :: "point \<Rightarrow> point \<Rightarrow> bool" where
  "adjacent p q \<longleftrightarrow> \<bar>fst p - fst q\<bar> + \<bar>snd p - snd q\<bar> = 1"

definition snake_ok :: "snake \<Rightarrow> bool" where
  "snake_ok s \<longleftrightarrow>
     length (snake_seg_x s) = 64 \<and> length (snake_seg_y s) = 64 \<and> 3 \<le> snake_len s \<and> snake_len s \<le> 63 \<and>
     snake_dir s < 4 \<and> snake_next_dir s < 4 \<and> distinct (body s) \<and> list_all inside (body s) \<and>
     successively adjacent (body s) \<and>
     inside (snake_food_x s, snake_food_y s)"

lemma shift_eq: "n < length seg \<Longrightarrow> shift n seg = seg ! 0 # take n seg @ drop (n + 1) seg"
proof (induction n arbitrary: seg)
  case 0
  then show ?case by (cases seg) (auto simp: shift_def)
next
  case (Suc n)
  have "shift (Suc n) seg = shift n (seg[Suc n := seg ! n])" by (simp add: shift_def)
  also have "\<dots> = seg ! 0 # take n seg @ drop (n + 1) (seg[Suc n := seg ! n])" using Suc by simp
  also have "drop (n + 1) (seg[Suc n := seg ! n]) = seg ! n # drop (Suc n + 1) seg"
    using Suc.prems by (subst Cons_nth_drop_Suc [symmetric]) simp_all
  finally show ?case using Suc.prems by (simp add: take_Suc_conv_app_nth)
qed

lemma body_length: "snake_ok s \<Longrightarrow> length (body s) = snake_len s"
  by (simp add: snake_ok_def body_def)

lemma body_nonempty: "snake_ok s \<Longrightarrow> body s \<noteq> []"
  using body_length [of s] by (auto simp: snake_ok_def)

lemma body_hd: "snake_ok s \<Longrightarrow> hd (body s) = (snake_seg_x s ! 0, snake_seg_y s ! 0)"
  using body_nonempty [of s] by (simp add: body_def snake_ok_def hd_conv_nth)

lemma hits_body:
  assumes "snake_ok s"
  shows "snake_hits s x y \<longleftrightarrow> (x, y) \<in> set (body s)"
proof -
  have "body s = map (\<lambda>i. (snake_seg_x s ! i, snake_seg_y s ! i)) [0..<snake_len s]"
    using assms by (intro nth_equalityI) (auto simp: body_def snake_ok_def)
  then show ?thesis by (auto simp: snake_hits_def list_ex_iff)
qed

lemma advance_arrays:
  assumes "snake_ok s"
  shows "snake_seg_x (snake_advance hx hy s) = hx # take (snake_len s) (snake_seg_x s) @ drop (snake_len s + 1) (snake_seg_x s)"
    "snake_seg_y (snake_advance hx hy s) = hy # take (snake_len s) (snake_seg_y s) @ drop (snake_len s + 1) (snake_seg_y s)"
  using assms by (simp_all add: snake_advance_def shift_eq snake_ok_def)

lemma advance_body:
  assumes "snake_ok s"
  shows "body (snake_advance hx hy s) = (hx, hy) # butlast (body s)"
    "body ((snake_advance hx hy s)\<lparr>snake_len := snake_len s + 1\<rparr>) = (hx, hy) # body s"
proof -
  have n: "0 < snake_len s" "snake_len s \<le> 63" "length (snake_seg_x s) = 64" "length (snake_seg_y s) = 64"
    using assms by (auto simp: snake_ok_def)
  obtain m where m: "snake_len s = Suc m" using n by (cases "snake_len s") auto
  have l: "snake_len (snake_advance hx hy s) = snake_len s" by (simp add: snake_advance_def)
  show "body (snake_advance hx hy s) = (hx, hy) # butlast (body s)"
    using n butlast_take [of "Suc m" "zip (snake_seg_x s) (snake_seg_y s)"]
    by (simp add: body_def l advance_arrays [OF assms] m take_zip)
  show "body ((snake_advance hx hy s)\<lparr>snake_len := snake_len s + 1\<rparr>) = (hx, hy) # body s"
    using n by (simp add: body_def advance_arrays [OF assms])
qed

lemma adjacent_head: "d < 4 \<Longrightarrow> adjacent (x + snake_dx ! d, y + snake_dy ! d) (x, y)"
  by (auto simp: adjacent_def snake_dx_def snake_dy_def less_Suc_eq numeral_eq_Suc)

lemma food_inside: "fst (food_loop s n) \<le> 0 \<or> inside (food_loop s n)"
proof (induction s n rule: food_loop.induct)
  case (1 s n)
  have "fst (food_try s n) \<le> 0 \<or> inside (food_try s n)"
    by (auto simp: food_try_def Let_def inside_def SNAKE_GRID_W_def SNAKE_GRID_H_def)
  moreover have "food_loop s n = (if fst (food_try s n) \<le> 0 \<and> n + 1 < 200 then food_loop s (n + 1) else food_try s n)"
    by (subst food_loop.simps) (auto simp: Let_def split: prod.splits)
  ultimately show ?case using 1 by (cases "food_try s n") auto
qed

lemma place_food_frame:
  "snake_seg_x (snake_place_food s) = snake_seg_x s" "snake_seg_y (snake_place_food s) = snake_seg_y s"
  "snake_len (snake_place_food s) = snake_len s" "snake_dir (snake_place_food s) = snake_dir s"
  "snake_next_dir (snake_place_food s) = snake_next_dir s" "snake_score (snake_place_food s) = snake_score s"
  "snake_game_over (snake_place_food s) = snake_game_over s" "body (snake_place_food s) = body s"
  by (simp_all add: snake_place_food_def Let_def body_def split: prod.splits)

lemma place_food_inside: "inside (snake_food_x (snake_place_food s), snake_food_y (snake_place_food s))"
  using food_inside [of s 0] by (auto simp: snake_place_food_def Let_def inside_def split: prod.splits if_splits)

lemma path_Cons:
  assumes "successively adjacent b" "b \<noteq> []" "adjacent p (hd b)"
  shows "successively adjacent (p # b)" "successively adjacent (p # butlast b)"
proof -
  show *: "successively adjacent (p # b)" using assms by (cases b) (auto simp: successively_Cons)
  have "p # b = (p # butlast b) @ [last b]" using assms(2) by simp
  then show "successively adjacent (p # butlast b)" using * by (metis successively_append_iff)
qed

lemma snake_okI:
  assumes "length (snake_seg_x s) = 64" "length (snake_seg_y s) = 64" "3 \<le> snake_len s" "snake_len s \<le> 63"
    "snake_dir s < 4" "snake_next_dir s < 4" "distinct (body s)" "list_all inside (body s)"
    "successively adjacent (body s)" "inside (snake_food_x s, snake_food_y s)"
  shows "snake_ok s"
  using assms by (simp add: snake_ok_def)

lemma turn_ok:
  assumes "snake_ok s"
  shows "snake_ok (snake_turn s)" "body (snake_turn s) = body s" "snake_len (snake_turn s) = snake_len s"
    "snake_score (snake_turn s) = snake_score s" "snake_game_over (snake_turn s) = snake_game_over s"
    "snake_food_x (snake_turn s) = snake_food_x s" "snake_food_y (snake_turn s) = snake_food_y s"
  using assms by (simp_all add: snake_turn_def Let_def snake_ok_def body_def)

text \<open>
  The direction of a tick, the cell it leads to, and the move of the head onto that cell:
  the specification by compass points that the tick is compared with.
\<close>

definition opposite :: "nat \<Rightarrow> nat \<Rightarrow> bool" where
  "opposite d e \<longleftrightarrow> {d, e} = {SNAKE_UP, SNAKE_DOWN} \<or> {d, e} = {SNAKE_LEFT, SNAKE_RIGHT}"

definition heading :: "snake \<Rightarrow> nat" where
  "heading s = (if opposite (snake_dir s) (snake_next_dir s) then snake_dir s else snake_next_dir s)"

definition step_to :: "nat \<Rightarrow> point \<Rightarrow> point" where
  "step_to d p =
     (if d = SNAKE_UP then (fst p, snd p - 1) else if d = SNAKE_DOWN then (fst p, snd p + 1)
      else if d = SNAKE_LEFT then (fst p - 1, snd p) else (fst p + 1, snd p))"

definition snake_moves :: "point \<Rightarrow> snake \<Rightarrow> snake \<Rightarrow> bool" where
  "snake_moves p s s' \<longleftrightarrow>
     inside p \<and> p \<notin> set (body s) \<and>
     (let food = p = (snake_food_x s, snake_food_y s)
      in body s' = p # (if food \<and> snake_len s < 63 then body s else butlast (body s)) \<and>
         snake_score s' = snake_score s + (if food then 1 else 0) \<and>
         (\<not> food \<longrightarrow> snake_food_x s' = snake_food_x s \<and> snake_food_y s' = snake_food_y s))"

lemma advance_ok:
  assumes "snake_ok s" "inside (hx, hy)" "adjacent (hx, hy) (hd (body s))" "(hx, hy) \<notin> set (body s)"
    "s1 = snake_advance hx hy s" "s' = (if hx = snake_food_x s1 \<and> hy = snake_food_y s1 then snake_eat s1 else s1)"
  shows "snake_ok s' \<and> snake_game_over s' = snake_game_over s \<and> snake_dir s' = snake_dir s \<and> snake_moves (hx, hy) s s'"
proof -
  note b = advance_body [OF assms(1), of hx hy]
  have frame: "snake_len s1 = snake_len s" "snake_dir s1 = snake_dir s" "snake_next_dir s1 = snake_next_dir s"
      "snake_food_x s1 = snake_food_x s" "snake_food_y s1 = snake_food_y s" "snake_score s1 = snake_score s"
      "snake_game_over s1 = snake_game_over s" "length (snake_seg_x s1) = 64" "length (snake_seg_y s1) = 64"
    using assms(1) advance_arrays [OF assms(1), of hx hy] by (simp_all add: assms(5) snake_ok_def) (simp_all add: snake_advance_def)
  have old: "distinct (body s)" "list_all inside (body s)" "successively adjacent (body s)" "body s \<noteq> []"
    using assms(1) body_nonempty by (auto simp: snake_ok_def)
  have p: "distinct ((hx, hy) # butlast (body s))" "list_all inside ((hx, hy) # butlast (body s))"
      "distinct ((hx, hy) # body s)" "list_all inside ((hx, hy) # body s)"
    using old assms(2,4) by (auto simp: list_all_iff distinct_butlast dest: in_set_butlastD)
  note path = path_Cons [OF old(3,4) assms(3)]
  have ok1: "snake_ok s1"
    using assms(1) frame p path b by (intro snake_okI) (simp_all add: assms(5) snake_ok_def)
  show ?thesis
  proof (cases "hx = snake_food_x s \<and> hy = snake_food_y s")
    case False
    then have "s' = s1" using assms(6) frame by auto
    then show ?thesis using ok1 False frame assms b by (auto simp: snake_moves_def Let_def)
  next
    case True
    then have s': "s' = snake_eat s1" using assms(6) frame by auto
    have bd: "body s' = (hx, hy) # (if snake_len s < 63 then body s else butlast (body s))"
      using b by (simp add: s' snake_eat_def Let_def place_food_frame SNAKE_MAX_LEN_def frame(1))
        (simp add: assms(5) body_def)
    have fr: "snake_score s' = snake_score s + 1" "snake_game_over s' = snake_game_over s"
        "snake_len s' = (if snake_len s < 63 then snake_len s + 1 else snake_len s)"
        "length (snake_seg_x s') = 64" "length (snake_seg_y s') = 64" "snake_dir s' = snake_dir s" "snake_next_dir s' = snake_next_dir s"
      by (simp_all add: s' snake_eat_def Let_def place_food_frame frame SNAKE_MAX_LEN_def)
    have "inside (snake_food_x s', snake_food_y s')"
      by (simp add: s' snake_eat_def Let_def place_food_inside)
    then have "snake_ok s'"
      using assms(1) fr bd p path by (intro snake_okI) (auto simp: snake_ok_def)
    then show ?thesis using fr bd assms True by (auto simp: snake_moves_def Let_def)
  qed
qed

lemma turn_heading:
  assumes "snake_ok s"
  shows "snake_dir (snake_turn s) = heading s"
    "(snake_seg_x (snake_turn s) ! 0 + snake_dx ! snake_dir (snake_turn s), snake_seg_y (snake_turn s) ! 0 + snake_dy ! snake_dir (snake_turn s)) =
     step_to (heading s) (hd (body s))"
proof -
  have d: "snake_dir s \<in> {0, 1, 2, 3}" "snake_next_dir s \<in> {0, 1, 2, 3}" using assms by (auto simp: snake_ok_def)
  then show h: "snake_dir (snake_turn s) = heading s"
    by (auto simp: snake_turn_def heading_def opposite_def Let_def doubleton_eq_iff SNAKE_UP_def SNAKE_DOWN_def SNAKE_LEFT_def SNAKE_RIGHT_def)
  have "heading s \<in> {0, 1, 2, 3}" using d by (auto simp: heading_def)
  moreover have "snake_seg_x (snake_turn s) = snake_seg_x s" "snake_seg_y (snake_turn s) = snake_seg_y s"
    by (simp_all add: snake_turn_def Let_def)
  ultimately show "(snake_seg_x (snake_turn s) ! 0 + snake_dx ! snake_dir (snake_turn s), snake_seg_y (snake_turn s) ! 0 + snake_dy ! snake_dir (snake_turn s)) =
     step_to (heading s) (hd (body s))"
    unfolding h body_hd [OF assms]
    by (auto simp: step_to_def snake_dx_def snake_dy_def SNAKE_UP_def SNAKE_DOWN_def SNAKE_LEFT_def)
qed

lemma tick_path:
  assumes "snake_ok s"
  shows "snake_ok (snake_tick s) \<and> snake_dir (snake_tick s) = heading s \<and>
     (if inside (step_to (heading s) (hd (body s))) \<and> step_to (heading s) (hd (body s)) \<notin> set (body s)
      then snake_game_over (snake_tick s) = snake_game_over s \<and> snake_moves (step_to (heading s) (hd (body s))) s (snake_tick s)
      else snake_game_over (snake_tick s) \<and> body (snake_tick s) = body s \<and> snake_score (snake_tick s) = snake_score s)"
proof -
  let ?s = "snake_turn s"
  obtain hx hy where p: "step_to (heading s) (hd (body s)) = (hx, hy)" by fastforce
  note h = turn_heading [OF assms, unfolded p prod.inject]
  note t = turn_ok [OF assms]
  have tick: "snake_tick s = (if \<not> inside (hx, hy) \<or> snake_hits ?s hx hy then ?s\<lparr>snake_game_over := True\<rparr>
      else let s1 = snake_advance hx hy ?s in if hx = snake_food_x s1 \<and> hy = snake_food_y s1 then snake_eat s1 else s1)"
    using h(2) by (auto simp: snake_tick_def Let_def inside_def SNAKE_GRID_W_def SNAKE_GRID_H_def)
  have adj: "adjacent (hx, hy) (hd (body ?s))"
    using adjacent_head [of "snake_dir ?s" "snake_seg_x ?s ! 0" "snake_seg_y ?s ! 0"] t(1) h(2)
    by (simp add: body_hd [OF t(1)] snake_ok_def)
  show ?thesis
  proof (cases "inside (hx, hy) \<and> (hx, hy) \<notin> set (body s)")
    case False
    then have "snake_tick s = ?s\<lparr>snake_game_over := True\<rparr>" using tick hits_body [OF t(1)] t(2) by auto
    then show ?thesis using False t h(1) p by (auto simp: snake_ok_def body_def)
  next
    case True
    then have free: "(hx, hy) \<notin> set (body ?s)" using t(2) by simp
    define s1 where "s1 = snake_advance hx hy ?s"
    have "snake_tick s = (if hx = snake_food_x s1 \<and> hy = snake_food_y s1 then snake_eat s1 else s1)"
      using True tick hits_body [OF t(1)] free by (simp add: s1_def Let_def)
    then have "snake_ok (snake_tick s) \<and> snake_game_over (snake_tick s) = snake_game_over ?s \<and> snake_dir (snake_tick s) = snake_dir ?s \<and>
        snake_moves (hx, hy) ?s (snake_tick s)"
      using advance_ok [OF t(1) _ adj free s1_def] True by blast
    then show ?thesis using True t h(1) p by (simp add: snake_moves_def Let_def)
  qed
qed

text \<open>
  C21: One tick of the snake game, in any well-formed state. The snake takes the direction
  asked for, unless that is the opposite of its own, and looks at the next cell that
  way. If the cell is a wall or part of the body, the game is over and the body stays
  where it was. Otherwise the head moves onto it and the tail follows; on the food
  the body grows by one cell (up to 63) and the score by one. The body stays a
  self-avoiding path of 3 to 63 cells inside the walls.
\<close>

theorem snake_tick_path:
  assumes "snake_ok s"
  shows "snake_ok (snake_tick s) \<and> snake_dir (snake_tick s) = heading s \<and>
     (let p = step_to (heading s) (hd (body s))
      in if inside p \<and> p \<notin> set (body s)
         then snake_game_over (snake_tick s) = snake_game_over s \<and> snake_moves p s (snake_tick s)
         else snake_game_over (snake_tick s) \<and> body (snake_tick s) = body s \<and> snake_score (snake_tick s) = snake_score s)"
  unfolding Let_def by (rule tick_path [OF assms])

lemma len3: "length l = Suc (Suc (Suc n)) \<Longrightarrow> \<exists>a b c r. l = a # b # c # r \<and> length r = n"
  by (auto simp: length_Suc_conv)

lemma snake_init_ok:
  assumes "length (snake_seg_x s) = 64" "length (snake_seg_y s) = 64"
  shows "snake_ok (snake_init s)" "\<not> snake_game_over (snake_init s)" "body (snake_init s) = [(8, 5), (7, 5), (6, 5)]"
proof -
  obtain x0 x1 x2 xs where x: "snake_seg_x s = x0 # x1 # x2 # xs" "length xs = 61"
    using len3 [of "snake_seg_x s" 61] assms(1) by auto
  obtain y0 y1 y2 ys where y: "snake_seg_y s = y0 # y1 # y2 # ys" "length ys = 61"
    using len3 [of "snake_seg_y s" 61] assms(2) by auto
  show b: "body (snake_init s) = [(8, 5), (7, 5), (6, 5)]"
    by (simp add: snake_init_def place_food_frame x y) (simp add: body_def x y)
  have "inside (snake_food_x (snake_init s), snake_food_y (snake_init s))"
    by (simp add: snake_init_def place_food_inside)
  then show "snake_ok (snake_init s)"
    by (intro snake_okI) (simp_all add: b inside_def adjacent_def, simp_all add: snake_init_def place_food_frame x y SNAKE_RIGHT_def)
  show "\<not> snake_game_over (snake_init s)" by (simp add: snake_init_def place_food_frame)
qed

definition fresh_snake :: snake where
  "fresh_snake = snake_init \<lparr>snake_seg_x = replicate 64 0, snake_seg_y = replicate 64 0, snake_len = 0, snake_dir = 0,
     snake_next_dir = 0, snake_food_x = 0, snake_food_y = 0, snake_game_over = False, snake_score = 0\<rparr>"

theorem snake_tick_path_witness:
  "snake_ok (snake_tick fresh_snake) \<and> \<not> snake_game_over (snake_tick fresh_snake) \<and> hd (body (snake_tick fresh_snake)) = (9, 5)"
proof -
  have ok: "snake_ok fresh_snake" "\<not> snake_game_over fresh_snake" "body fresh_snake = [(8, 5), (7, 5), (6, 5)]"
    by (simp_all add: fresh_snake_def snake_init_ok)
  have "snake_dir fresh_snake = SNAKE_RIGHT" "snake_next_dir fresh_snake = SNAKE_RIGHT"
    by (simp_all add: fresh_snake_def snake_init_def place_food_frame)
  then have "step_to (heading fresh_snake) (hd (body fresh_snake)) = (9, 5)"
    by (simp add: ok(3) heading_def opposite_def step_to_def doubleton_eq_iff SNAKE_UP_def SNAKE_DOWN_def SNAKE_LEFT_def SNAKE_RIGHT_def)
  then show ?thesis
    using snake_tick_path [OF ok(1)] ok(2,3) by (simp add: Let_def inside_def snake_moves_def)
qed

section \<open>Food\<close>

text \<open>The first 56 cells tried are pairwise different.\<close>

definition food_cell :: "snake \<Rightarrow> nat \<Rightarrow> point" where
  "food_cell s n = (1 + (int (snake_score s) * 7 + int n) mod 14, 1 + (int (snake_score s) * 11 + int n * 3) mod 8)"

lemma food_cell_inj: "inj_on (food_cell s) {..<56}"
proof (rule inj_onI)
  fix n m
  assume "n \<in> {..<56}" "m \<in> {..<56}" and e: "food_cell s n = food_cell s m"
  then have b: "int n < 56" "int m < 56" by auto
  have "(int (snake_score s) * 7 + int n) mod 14 = (int (snake_score s) * 7 + int m) mod 14"
    using e by (simp add: food_cell_def)
  then have "14 dvd (int n - int m)" by (simp add: mod_eq_dvd_iff)
  then obtain a where a: "int n - int m = 14 * a" by (rule dvdE)
  have "(int (snake_score s) * 11 + int n * 3) mod 8 = (int (snake_score s) * 11 + int m * 3) mod 8"
    using e by (simp add: food_cell_def)
  then have "8 dvd (int n * 3 - int m * 3)" by (simp add: mod_eq_dvd_iff)
  then obtain c where "int n * 3 - int m * 3 = 8 * c" by (rule dvdE)
  then have "21 * a = 4 * c" using a by linarith
  moreover have "- 4 < a" "a < 4" using a b by linarith+
  ultimately have "a = 0" by presburger
  then have "int n - int m = 0" using a by simp
  then show "n = m" by simp
qed

lemma food_try_cell: "food_try s n = (if snake_hits s (fst (food_cell s n)) (snd (food_cell s n)) then - 1 else fst (food_cell s n), snd (food_cell s n))"
  by (simp add: food_try_def food_cell_def Let_def SNAKE_GRID_W_def SNAKE_GRID_H_def)

lemma food_loop_finds:
  assumes "n \<le> m" "m < 200" "\<not> snake_hits s (fst (food_cell s m)) (snd (food_cell s m))"
  shows "\<not> snake_hits s (fst (food_loop s n)) (snd (food_loop s n)) \<and> 0 < fst (food_loop s n)"
  using assms(1)
proof (induction rule: inc_induct)
  case base
  have "0 < fst (food_cell s m)" by (simp add: food_cell_def)
  then have "food_loop s m = food_cell s m" using assms(3) by (subst food_loop.simps) (auto simp: food_try_cell split: prod.splits)
  then show ?case using assms(3) \<open>0 < fst (food_cell s m)\<close> by simp
next
  case (step k)
  have pos: "0 < fst (food_cell s k)" by (simp add: food_cell_def)
  show ?case
  proof (cases "snake_hits s (fst (food_cell s k)) (snd (food_cell s k))")
    case True
    then have "food_loop s k = food_loop s (Suc k)"
      using step(2) assms(2) by (subst food_loop.simps) (simp add: food_try_cell)
    then show ?thesis using step(3) by simp
  next
    case False
    then have "food_loop s k = food_cell s k"
      using pos by (subst food_loop.simps) (auto simp: food_try_cell split: prod.splits)
    then show ?thesis using False pos by simp
  qed
qed

text \<open>
  As long as the snake has fewer than 56 cells, \<^verbatim>\<open>snake_place_food\<close> puts the food on a
  cell inside the walls that the snake does not cover: the search visits 56
  different cells before it repeats, and it is allowed 200 attempts.
\<close>

theorem snake_food_free:
  assumes "snake_ok s" "snake_len s < 56"
  shows "(snake_food_x (snake_place_food s), snake_food_y (snake_place_food s)) \<notin> set (body s) \<and>
     inside (snake_food_x (snake_place_food s), snake_food_y (snake_place_food s))"
proof -
  have "\<exists>m < 56. food_cell s m \<notin> set (body s)"
  proof (rule ccontr)
    assume "\<not> ?thesis"
    then have "food_cell s ` {..<56} \<subseteq> set (body s)" by auto
    then have "card (food_cell s ` {..<56}) \<le> card (set (body s))" by (rule card_mono [rotated]) simp
    moreover have "card (food_cell s ` {..<56}) = 56" using food_cell_inj [of s] by (simp add: card_image)
    moreover have "card (set (body s)) \<le> snake_len s" using card_length [of "body s"] body_length [OF assms(1)] by simp
    ultimately show False using assms(2) by simp
  qed
  then obtain m where m: "m < 56" "\<not> snake_hits s (fst (food_cell s m)) (snd (food_cell s m))"
    using hits_body [OF assms(1)] by auto
  obtain x y where f: "food_loop s 0 = (x, y)" by fastforce
  have "\<not> snake_hits s x y \<and> 0 < x" using food_loop_finds [of 0 m s] m f by simp
  then show ?thesis using f place_food_inside [of s] hits_body [OF assms(1)]
    by (simp add: snake_place_food_def)
qed

theorem snake_food_free_witness:
  "(snake_food_x (snake_place_food fresh_snake), snake_food_y (snake_place_food fresh_snake)) \<notin> set (body fresh_snake) \<and>
     inside (snake_food_x (snake_place_food fresh_snake), snake_food_y (snake_place_food fresh_snake))"
  by (rule snake_food_free) (simp_all add: fresh_snake_def snake_init_ok, simp add: snake_init_def place_food_frame)

section \<open>The game loop\<close>

lemma snake_key_ok: "snake_ok s \<Longrightarrow> snake_ok (fst (snake_key sc s))"
  by (auto simp: snake_key_def snake_ok_def body_def SNAKE_UP_def SNAKE_DOWN_def SNAKE_LEFT_def SNAKE_RIGHT_def)

interpretation snake_game: game snake_ok snake_game_over snake_key snake_tick
  by unfold_locales (auto intro: snake_key_ok dest: tick_path)

text \<open>Whatever keys arrive, when the game ends its body is still a self-avoiding path inside the walls.\<close>

lemma snake_run_path:
  assumes "snake_run io (snake_init s) h fb w = Some (s', h', fb', w')"
    "length (snake_seg_x s) = 64" "length (snake_seg_y s) = 64"
  shows "snake_ok s' \<and> snake_game_over s'"
  by (rule snake_game.run_ok [OF assms(1) [unfolded snake_run_def] snake_init_ok(1) [OF assms(2,3)]])

end
