(* ===== verification/Tetris.thy ===== *)
theory Tetris
  imports Game_Loop
begin

text \<open>
  The tetris game of \<^verbatim>\<open>src/game.c\<close>: the 10x20 board (a map from column and row to the
  stored byte, as the code indexes it), the pieces, collision test, locking with
  line removal, keys, ticks and drawing. A write outside the board is a fault
  (\<open>None\<close>). The lemmas show that no fault occurs, and that the removal loop, which
  re-examines a row after every collapse, ends and removes exactly the full rows.
\<close>

unbundle bit_operations_syntax

definition TETRIS_W :: int where "TETRIS_W = 10"
definition TETRIS_H :: int where "TETRIS_H = 20"
definition TETRIS_CELL :: int where "TETRIS_CELL = 7"
definition TETRIS_OX :: int where "TETRIS_OX = 45"
definition TETRIS_OY :: int where "TETRIS_OY = 15"
definition TETRIS_NUM :: int where "TETRIS_NUM = 7"
definition TETRIS_DROP_MAX :: nat where "TETRIS_DROP_MAX = 25"

definition tetris_shapes :: "(int \<times> int) list list list" where
  "tetris_shapes =
     [[[(1, 0), (1, 1), (1, 2), (1, 3)],
       [(0, 1), (1, 1), (2, 1), (3, 1)],
       [(1, 0), (1, 1), (1, 2), (1, 3)],
       [(0, 1), (1, 1), (2, 1), (3, 1)]],
      [[(0, 0), (1, 0), (0, 1), (1, 1)],
       [(0, 0), (1, 0), (0, 1), (1, 1)],
       [(0, 0), (1, 0), (0, 1), (1, 1)],
       [(0, 0), (1, 0), (0, 1), (1, 1)]],
      [[(1, 0), (0, 1), (1, 1), (2, 1)],
       [(0, 0), (0, 1), (1, 1), (0, 2)],
       [(0, 1), (1, 1), (2, 1), (1, 2)],
       [(1, 0), (0, 1), (1, 1), (1, 2)]],
      [[(1, 0), (2, 0), (0, 1), (1, 1)],
       [(0, 0), (0, 1), (1, 1), (1, 2)],
       [(1, 0), (2, 0), (0, 1), (1, 1)],
       [(0, 0), (0, 1), (1, 1), (1, 2)]],
      [[(0, 0), (1, 0), (1, 1), (2, 1)],
       [(1, 0), (0, 1), (1, 1), (0, 2)],
       [(0, 0), (1, 0), (1, 1), (2, 1)],
       [(1, 0), (0, 1), (1, 1), (0, 2)]],
      [[(0, 0), (0, 1), (1, 1), (2, 1)],
       [(1, 0), (1, 1), (0, 2), (1, 2)],
       [(0, 1), (1, 1), (2, 1), (2, 2)],
       [(0, 0), (1, 0), (0, 1), (0, 2)]],
      [[(2, 0), (0, 1), (1, 1), (2, 1)],
       [(0, 0), (1, 0), (0, 1), (0, 2)],
       [(0, 1), (1, 1), (2, 1), (0, 2)],
       [(1, 0), (1, 1), (0, 2), (1, 2)]]]"

definition tetris_colors :: "u32 list" where
  "tetris_colors = [0x00FFFF, 0xFFFF00, 0xFF00FF, 0x00FF00, 0xFF0000, 0x0000FF, 0xFF8800]"

type_synonym board = "nat \<Rightarrow> nat \<Rightarrow> u8"

record tetris =
  tetris_board :: board
  tetris_piece :: nat
  tetris_rot :: nat
  tetris_px :: int
  tetris_py :: int
  tetris_score :: int
  tetris_lines :: int
  tetris_quit :: bool
  tetris_drop_ticks :: nat

definition piece_cells :: "nat \<Rightarrow> nat \<Rightarrow> int \<Rightarrow> int \<Rightarrow> (int \<times> int) list" where
  "piece_cells piece rot px py = map (\<lambda>i. (px + fst (tetris_shapes ! piece ! rot ! i), py + snd (tetris_shapes ! piece ! rot ! i))) [0..<4]"

definition cell_blocked :: "board \<Rightarrow> int \<times> int \<Rightarrow> bool" where
  "cell_blocked b = (\<lambda>(cx, cy). cx < 0 \<or> cx \<ge> TETRIS_W \<or> cy \<ge> TETRIS_H \<or> (cy \<ge> 0 \<and> b (nat cx) (nat cy) \<noteq> 0))"

definition tetris_collide :: "int \<Rightarrow> int \<Rightarrow> nat \<Rightarrow> tetris \<Rightarrow> bool" where
  "tetris_collide dx dy rot t =
     list_ex (\<lambda>(x, y). cell_blocked (tetris_board t) (x + dx, y + dy))
       (piece_cells (tetris_piece t) rot (tetris_px t) (tetris_py t))"

definition set_cell :: "nat \<Rightarrow> nat \<Rightarrow> u8 \<Rightarrow> board \<Rightarrow> board" where
  "set_cell c r v b = b(c := (b c)(r := v))"

definition lock_cell :: "u8 \<Rightarrow> int \<times> int \<Rightarrow> board \<Rightarrow> board option" where
  "lock_cell v = (\<lambda>(cx, cy) b.
     if cy \<ge> 0 \<and> cy < TETRIS_H
     then (if 0 \<le> cx \<and> cx < TETRIS_W then Some (set_cell (nat cx) (nat cy) v b) else None)
     else Some b)"

definition row_full :: "board \<Rightarrow> nat \<Rightarrow> bool" where
  "row_full b row = list_all (\<lambda>c. b c row \<noteq> 0) [0..<10]"

definition collapse :: "nat \<Rightarrow> board \<Rightarrow> board" where
  "collapse row b =
     (let b1 = fold (\<lambda>r b. fold (\<lambda>c b. set_cell c r (b c (r - 1)) b) [0..<10] b) (rev [1..<row + 1]) b
      in fold (\<lambda>c b. set_cell c 0 0 b) [0..<10] b1)"

text \<open>The number of full rows above row \<open>n\<close>, the measure of the removal loop.\<close>

definition full_count :: "board \<Rightarrow> nat \<Rightarrow> nat" where
  "full_count b n = length (filter (row_full b) [0..<n])"

lemma set_cell_apply: "set_cell c r v b c' r' = (if c' = c \<and> r' = r then v else b c' r')"
  by (simp add: set_cell_def)

lemma move_row: "fold (\<lambda>c b. set_cell c r (b c q) b) [0..<n] b c' r' =
    (if c' < n \<and> r' = r then b c' q else b c' r')" if "q \<noteq> r"
  using that by (induction n arbitrary: c' r') (auto simp: set_cell_apply)

lemma clear_row: "fold (\<lambda>c b. set_cell c r v b) [0..<n] b c' r' = (if c' < n \<and> r' = r then v else b c' r')"
  by (induction n) (auto simp: set_cell_apply)

lemma move_rows:
  "fold (\<lambda>r b. fold (\<lambda>c b. set_cell c r (b c (r - 1)) b) [0..<10] b) (rev [1..<row + 1]) b c r =
     (if c < 10 \<and> 1 \<le> r \<and> r \<le> row then b c (r - 1) else b c r)"
proof (induction row arbitrary: b)
  case (Suc row)
  let ?b = "fold (\<lambda>c b. set_cell c (Suc row) (b c row) b) [0..<10] b"
  have b: "?b c r = (if c < 10 \<and> r = Suc row then b c row else b c r)" for c r by (rule move_row) simp
  have "fold (\<lambda>r b. fold (\<lambda>c b. set_cell c r (b c (r - 1)) b) [0..<10] b) (rev [1..<Suc row + 1]) b c r =
      fold (\<lambda>r b. fold (\<lambda>c b. set_cell c r (b c (r - 1)) b) [0..<10] b) (rev [1..<row + 1]) ?b c r"
    by simp
  also have "\<dots> = (if c < 10 \<and> 1 \<le> r \<and> r \<le> row then ?b c (r - 1) else ?b c r)" by (rule Suc.IH)
  also have "\<dots> = (if c < 10 \<and> 1 \<le> r \<and> r \<le> Suc row then b c (r - 1) else b c r)" unfolding b by auto
  finally show ?case .
qed auto

lemma collapse_apply:
  "collapse row b c r = (if c < 10 \<and> r = 0 then 0 else if c < 10 \<and> r \<le> row then b c (r - 1) else b c r)"
  unfolding collapse_def Let_def clear_row move_rows by auto

lemma collapse_full:
  "row_full (collapse row b) r = (if r = 0 then False else if r \<le> row then row_full b (r - 1) else row_full b r)"
  by (auto simp: row_full_def collapse_apply list_all_iff intro: exI [of _ 0])

lemma collapse_count: "row_full b row \<Longrightarrow> full_count b (Suc row) = Suc (full_count (collapse row b) (Suc row))"
proof -
  assume f: "row_full b row"
  have "filter (row_full (collapse row b)) [0..<Suc row] = filter (row_full (collapse row b)) (map Suc [0..<row])"
    by (simp add: collapse_full upt_conv_Cons map_Suc_upt del: upt_Suc)
  also have "\<dots> = map Suc (filter (\<lambda>r. row_full (collapse row b) (Suc r)) [0..<row])" by (simp add: filter_map comp_def)
  also have "filter (\<lambda>r. row_full (collapse row b) (Suc r)) [0..<row] = filter (row_full b) [0..<row]"
    by (rule filter_cong) (auto simp: collapse_full)
  finally show ?thesis using f by (simp add: full_count_def)
qed

function clear_from :: "board \<Rightarrow> nat \<Rightarrow> nat \<Rightarrow> board \<times> nat" where
  "clear_from b 0 cleared = (b, cleared)"
| "clear_from b (Suc row) cleared =
     (if row_full b row then clear_from (collapse row b) (Suc row) (cleared + 1)
      else clear_from b row cleared)"
  by pat_completeness auto
termination
  by (relation "measure (\<lambda>(b, n, c). n + full_count b n)") (auto simp: collapse_count, simp add: full_count_def)

text \<open>
  Score and lines are unbounded here. The code keeps them in a 32-bit int, which is
  not reached by play: a piece adds at most 1600 points, so the score stays positive for over
  a million pieces, and up to there the two remainders agree.
\<close>

definition tetris_spawn :: "nat \<Rightarrow> tetris \<Rightarrow> tetris" where
  "tetris_spawn cleared t =
     (let score = tetris_score t + int cleared * int cleared * 100;
          t1 = t\<lparr>tetris_lines := tetris_lines t + int cleared, tetris_score := score,
                 tetris_piece := nat (score mod TETRIS_NUM), tetris_rot := 0,
                 tetris_px := TETRIS_W div 2 - 2, tetris_py := - 2, tetris_drop_ticks := 0\<rparr>
      in if tetris_collide 0 0 0 t1 then t1\<lparr>tetris_quit := True\<rparr> else t1)"

definition tetris_lock :: "tetris \<Rightarrow> tetris option" where
  "tetris_lock t =
     (case each (lock_cell (of_nat (tetris_piece t + 1)))
             (piece_cells (tetris_piece t) (tetris_rot t) (tetris_px t) (tetris_py t)) (tetris_board t) of
        None \<Rightarrow> None
      | Some b \<Rightarrow> (let (b1, cleared) = clear_from b 20 0 in Some (tetris_spawn cleared (t\<lparr>tetris_board := b1\<rparr>))))"

definition tetris_init :: tetris where
  "tetris_init = \<lparr>tetris_board = (\<lambda>_ _. 0), tetris_piece = 0, tetris_rot = 0, tetris_px = TETRIS_W div 2 - 2,
     tetris_py = - 2, tetris_score = 0, tetris_lines = 0, tetris_quit = False, tetris_drop_ticks = 0\<rparr>"

definition tetris_fall :: "tetris \<Rightarrow> tetris option" where
  "tetris_fall t =
     (if \<not> tetris_collide 0 1 (tetris_rot t) t then Some (t\<lparr>tetris_py := tetris_py t + 1\<rparr>) else tetris_lock t)"

definition tetris_key :: "u8 \<Rightarrow> tetris \<Rightarrow> tetris option \<times> bool" where
  "tetris_key sc t =
     (if sc = SCAN_ESC then (Some (t\<lparr>tetris_quit := True\<rparr>), True)
      else if sc = SCAN_LEFT \<and> \<not> tetris_collide (- 1) 0 (tetris_rot t) t then (Some (t\<lparr>tetris_px := tetris_px t - 1\<rparr>), False)
      else if sc = SCAN_RIGHT \<and> \<not> tetris_collide 1 0 (tetris_rot t) t then (Some (t\<lparr>tetris_px := tetris_px t + 1\<rparr>), False)
      else if sc = SCAN_DOWN then (tetris_fall t, False)
      else if sc = SCAN_UP then
        (let r = (tetris_rot t + 1) mod 4
         in (Some (if \<not> tetris_collide 0 0 r t then t\<lparr>tetris_rot := r\<rparr> else t), False))
      else (Some t, False))"

definition tetris_tick :: "tetris \<Rightarrow> tetris option" where
  "tetris_tick t =
     (let t1 = t\<lparr>tetris_drop_ticks := tetris_drop_ticks t + 1\<rparr>
      in if tetris_drop_ticks t1 \<ge> TETRIS_DROP_MAX then tetris_fall (t1\<lparr>tetris_drop_ticks := 0\<rparr>) else Some t1)"

definition tetris_rect :: "int \<Rightarrow> int \<Rightarrow> u32 \<Rightarrow> draw" where
  "tetris_rect x y c =
     Rect (word_of_int (TETRIS_OX + x * TETRIS_CELL)) (word_of_int (TETRIS_OY + y * TETRIS_CELL))
       (word_of_int (TETRIS_CELL - 1)) (word_of_int (TETRIS_CELL - 1)) c"

definition tetris_draw :: "tetris \<Rightarrow> draw list" where
  "tetris_draw t =
     [ClearGraphics] @
     concat (map (\<lambda>x. concat (map (\<lambda>y.
        if tetris_board t x y = 0 then []
        else [tetris_rect (int x) (int y) (tetris_colors ! unat (tetris_board t x y - 1))]) [0..<20])) [0..<10]) @
     map (\<lambda>(cx, cy). tetris_rect cx cy (tetris_colors ! tetris_piece t))
       (filter (\<lambda>(cx, cy). cy \<ge> 0) (piece_cells (tetris_piece t) (tetris_rot t) (tetris_px t) (tetris_py t))) @
     [Text 5 5 ''Tetris'' 0xFFFFFF, Text 5 15 ''Score:'' 0xAAAAAA, Number 45 15 (word_of_int (tetris_score t)) 0xFFFFFF,
      Text 5 25 ''Lines:'' 0xAAAAAA, Number 45 25 (word_of_int (tetris_lines t)) 0xFFFFFF,
      Text 125 5 ''Arrows move'' 0x666666, Text 125 15 ''Up rotate'' 0x666666, Text 125 25 ''Esc quit'' 0x666666]"

definition tetris_closing :: "tetris \<Rightarrow> draw list" where
  "tetris_closing t =
     tetris_draw t @
     [Text 95 80 ''Game Over'' 0xFFFFFF, Text 80 95 ''Score:'' 0xAAAAAA,
      Number 130 95 (word_of_int (tetris_score t)) 0xFFFFFF, Text 70 120 ''Press any key'' 0xAAAAAA]"

text \<open>The run loop works on \<open>tetris option\<close>: a fault leaves it at once.\<close>

definition tetris_run ::
  "'w port_io \<Rightarrow> tetris option \<Rightarrow> history \<Rightarrow> framebuffer \<Rightarrow> 'w \<Rightarrow> (tetris option \<times> history \<times> framebuffer \<times> 'w) option" where
  "tetris_run io =
     game_run io (\<lambda>o'. case o' of None \<Rightarrow> True | Some t \<Rightarrow> tetris_quit t)
       (\<lambda>sc o'. case o' of None \<Rightarrow> (None, True) | Some t \<Rightarrow> tetris_key sc t)
       (\<lambda>o'. Option.bind o' tetris_tick)
       (\<lambda>o'. case o' of None \<Rightarrow> [] | Some t \<Rightarrow> tetris_draw t)
       (\<lambda>o'. case o' of None \<Rightarrow> [] | Some t \<Rightarrow> tetris_closing t)"

section \<open>Line removal\<close>

definition row :: "board \<Rightarrow> nat \<Rightarrow> u8 list" where
  "row b r = map (\<lambda>c. b c r) [0..<10]"

definition rows :: "board \<Rightarrow> nat \<Rightarrow> u8 list list" where
  "rows b n = map (row b) [0..<n]"

definition full :: "u8 list \<Rightarrow> bool" where
  "full l = list_all (\<lambda>v. v \<noteq> 0) l"

abbreviation empty_row :: "u8 list" where
  "empty_row \<equiv> replicate 10 0"

lemma row_full_row: "row_full b r = full (row b r)"
  by (simp add: row_full_def full_def row_def list_all_iff)

lemma empty_row_open: "\<not> full empty_row"
  by (simp add: full_def list_all_iff)

lemma rows_Suc: "rows b (Suc n) = rows b n @ [row b n]"
  by (simp add: rows_def)

lemma rows_collapse: "rows (collapse n b) (Suc n) = empty_row # rows b n"
proof -
  have "row (collapse n b) 0 = empty_row" by (rule nth_equalityI) (simp_all add: row_def collapse_apply)
  moreover have "row (collapse n b) (Suc r) = row b r" if "r < n" for r
    using that by (simp add: row_def collapse_apply)
  ultimately show ?thesis
    by (simp add: rows_def upt_conv_Cons map_Suc_upt [symmetric] del: upt_Suc)
qed

lemma row_collapse_below: "n < r \<Longrightarrow> row (collapse n b) r = row b r"
  by (simp add: row_def collapse_apply)

lemma clear_from_rows:
  "clear_from b n c = (b', c') \<Longrightarrow>
   rows b' n = replicate (c' - c) empty_row @ filter (\<lambda>l. \<not> full l) (rows b n) \<and>
   c' = c + length (filter full (rows b n)) \<and> (\<forall>r \<ge> n. row b' r = row b r)"
proof (induction b n c arbitrary: b' c' rule: clear_from.induct)
  case (1 b c)
  then show ?case by (simp add: rows_def)
next
  case (2 b n c)
  show ?case
  proof (cases "row_full b n")
    case True
    then have "clear_from (collapse n b) (Suc n) (c + 1) = (b', c')" using 2(3) by simp
    from 2(1) [OF True this] have IH:
      "rows b' (Suc n) = replicate (c' - (c + 1)) empty_row @ filter (\<lambda>l. \<not> full l) (rows (collapse n b) (Suc n))"
      "c' = c + 1 + length (filter full (rows (collapse n b) (Suc n)))"
      "\<forall>r \<ge> Suc n. row b' r = row (collapse n b) r" by auto
    have c: "c' = c + 1 + length (filter full (rows b n))"
      using IH(2) by (simp add: rows_collapse empty_row_open)
    have f: "full (row b n)" using True by (simp add: row_full_row)
    have "replicate (c' - (c + 1)) empty_row @ empty_row # x = replicate (c' - c) empty_row @ x" for x
    proof -
      have "c' - c = Suc (c' - (c + 1))" using c by simp
      then show ?thesis by (simp add: replicate_app_Cons_same)
    qed
    then have "rows b' (Suc n) = replicate (c' - c) empty_row @ filter (\<lambda>l. \<not> full l) (rows b n)"
      using IH(1) by (simp add: rows_collapse empty_row_open)
    then show ?thesis using c f IH(3) by (simp add: rows_Suc row_collapse_below)
  next
    case False
    then have "clear_from b n c = (b', c')" using 2(3) by simp
    from 2(2) [OF False this] show ?thesis using False by (simp add: rows_Suc row_full_row)
  qed
qed

section \<open>Locking a piece\<close>

definition in_bounds :: "nat \<Rightarrow> nat \<Rightarrow> int \<Rightarrow> int \<Rightarrow> bool" where
  "in_bounds piece rot px py = list_all (\<lambda>(cx, cy). 0 \<le> cx \<and> cx < 10 \<and> cy < 20) (piece_cells piece rot px py)"

definition tetris_ok :: "tetris \<Rightarrow> bool" where
  "tetris_ok t \<longleftrightarrow> tetris_piece t < 7 \<and> tetris_rot t < 4 \<and>
     in_bounds (tetris_piece t) (tetris_rot t) (tetris_px t) (tetris_py t) \<and>
     (tetris_quit t \<or> \<not> tetris_collide 0 0 (tetris_rot t) t)"

lemma lock_cells:
  assumes "list_all (\<lambda>(cx, cy). 0 \<le> cx \<and> cx < 10 \<and> cy < 20) cs"
  shows "\<exists>b'. each (lock_cell v) cs b = Some b' \<and>
     (\<forall>c r. b' c r = (if (int c, int r) \<in> set cs then v else b c r))"
  using assms
proof (induction cs arbitrary: b)
  case (Cons p cs)
  obtain cx cy where p: "p = (cx, cy)" by (cases p)
  have cx: "0 \<le> cx" "cx < 10" "cy < 20" using Cons.prems p by auto
  let ?b = "if cy \<ge> 0 then set_cell (nat cx) (nat cy) v b else b"
  have l: "lock_cell v p b = Some ?b" using cx by (auto simp: lock_cell_def p TETRIS_W_def TETRIS_H_def)
  obtain b' where b': "each (lock_cell v) cs ?b = Some b'" "\<forall>c r. b' c r = (if (int c, int r) \<in> set cs then v else ?b c r)"
    using Cons by fastforce
  have "(if (int c, int r) \<in> set cs then v else ?b c r) = (if (int c, int r) \<in> set (p # cs) then v else b c r)" for c r
    using cx by (auto simp: p set_cell_apply)
  then show ?case using l b' by simp
qed simp

lemma not_collide_bounds:
  "\<not> tetris_collide dx dy rot t \<Longrightarrow> in_bounds (tetris_piece t) rot (tetris_px t + dx) (tetris_py t + dy)"
  by (auto simp: tetris_collide_def in_bounds_def piece_cells_def list_all_iff list_ex_iff cell_blocked_def
      TETRIS_W_def TETRIS_H_def algebra_simps)

lemma collide_moved:
  "tetris_collide 0 0 rot (t\<lparr>tetris_px := tetris_px t + dx, tetris_py := tetris_py t + dy, tetris_rot := r\<rparr>) =
     tetris_collide dx dy rot t"
  by (simp add: tetris_collide_def piece_cells_def list_ex_iff algebra_simps)

lemma spawn_bounds: "piece < 7 \<Longrightarrow> in_bounds piece 0 3 (- 2)"
  by (auto simp: less_Suc_eq numeral_eq_Suc in_bounds_def piece_cells_def tetris_shapes_def)

lemma spawn_ok: "tetris_ok (tetris_spawn k t)"
proof -
  let ?piece = "nat ((tetris_score t + int k * int k * 100) mod 7)"
  have "?piece < 7" by (simp add: nat_less_iff)
  then show ?thesis using spawn_bounds [of ?piece]
    by (auto simp: tetris_ok_def tetris_spawn_def Let_def TETRIS_W_def TETRIS_NUM_def tetris_collide_def)
qed

lemma lock_correct:
  assumes "in_bounds (tetris_piece t) (tetris_rot t) (tetris_px t) (tetris_py t)"
  shows "\<exists>b k t'. tetris_lock t = Some t' \<and>
     (\<forall>c r. b c r = (if (int c, int r) \<in> set (piece_cells (tetris_piece t) (tetris_rot t) (tetris_px t) (tetris_py t))
                    then of_nat (tetris_piece t + 1) else tetris_board t c r)) \<and>
     k = length (filter full (rows b 20)) \<and>
     rows (tetris_board t') 20 = replicate k empty_row @ filter (\<lambda>l. \<not> full l) (rows b 20) \<and>
     tetris_lines t' = tetris_lines t + int k \<and> tetris_score t' = tetris_score t + 100 * int k * int k \<and>
     tetris_ok t' \<and> tetris_quit t' = (tetris_quit t \<or> tetris_collide 0 0 0 t')"
proof -
  obtain b where b: "each (lock_cell (of_nat (tetris_piece t + 1)))
        (piece_cells (tetris_piece t) (tetris_rot t) (tetris_px t) (tetris_py t)) (tetris_board t) = Some b"
      "\<forall>c r. b c r = (if (int c, int r) \<in> set (piece_cells (tetris_piece t) (tetris_rot t) (tetris_px t) (tetris_py t))
                    then of_nat (tetris_piece t + 1) else tetris_board t c r)"
    using lock_cells assms unfolding in_bounds_def by blast
  obtain b1 k where c: "clear_from b 20 0 = (b1, k)" by fastforce
  let ?t = "tetris_spawn k (t\<lparr>tetris_board := b1\<rparr>)"
  have l: "tetris_lock t = Some ?t" unfolding tetris_lock_def b(1) by (simp add: c)
  have t: "tetris_board ?t = b1" "tetris_lines ?t = tetris_lines t + int k"
      "tetris_score ?t = tetris_score t + 100 * int k * int k"
      "tetris_quit ?t = (tetris_quit t \<or> tetris_collide 0 0 0 ?t)"
    by (auto simp: tetris_spawn_def Let_def tetris_collide_def)
  show ?thesis using l b(2) t clear_from_rows [OF c] spawn_ok by (intro exI [of _ b] exI [of _ k] exI [of _ ?t]) auto
qed

text \<open>
  C22: Locking a piece that lies inside the walls never writes outside the board. It
  stores the piece's colour in exactly its visible cells, then removes exactly the
  full rows: the other rows keep their order and empty rows fill up at the top. The
  line counter grows by the number \<open>k\<close> of removed rows, the score by \<open>100 k^2\<close>, and the
  next piece starts inside the walls, with the game over exactly when it overlaps
  the board.
\<close>

theorem tetris_lock_correct:
  assumes "in_bounds (tetris_piece t) (tetris_rot t) (tetris_px t) (tetris_py t)"
  shows "\<exists>b k t'. tetris_lock t = Some t' \<and>
     (\<forall>c r. b c r = (if (int c, int r) \<in> set (piece_cells (tetris_piece t) (tetris_rot t) (tetris_px t) (tetris_py t))
                    then of_nat (tetris_piece t + 1) else tetris_board t c r)) \<and>
     k = length (filter full (rows b 20)) \<and>
     rows (tetris_board t') 20 = replicate k empty_row @ filter (\<lambda>l. \<not> full l) (rows b 20) \<and>
     tetris_lines t' = tetris_lines t + int k \<and> tetris_score t' = tetris_score t + 100 * int k * int k \<and>
     tetris_ok t' \<and> tetris_quit t' = (tetris_quit t \<or> tetris_collide 0 0 0 t')"
  using assms by (rule lock_correct)

theorem tetris_lock_witness:
  "\<exists>b k t'. tetris_lock tetris_init = Some t' \<and>
     (\<forall>c r. b c r = (if (int c, int r) \<in> set (piece_cells 0 0 3 (- 2)) then 1 else 0)) \<and>
     k = length (filter full (rows b 20)) \<and>
     rows (tetris_board t') 20 = replicate k empty_row @ filter (\<lambda>l. \<not> full l) (rows b 20) \<and>
     tetris_lines t' = int k \<and> tetris_score t' = 100 * int k * int k \<and>
     tetris_ok t' \<and> tetris_quit t' = tetris_collide 0 0 0 t'"
proof -
  have i: "tetris_piece tetris_init = 0" "tetris_rot tetris_init = 0" "tetris_px tetris_init = 3" "tetris_py tetris_init = - 2"
      "tetris_lines tetris_init = 0" "tetris_score tetris_init = 0" "\<And>c r. tetris_board tetris_init c r = 0"
      "tetris_quit tetris_init = False" "of_nat (0 + 1) = (1 :: u8)"
    by (simp_all add: tetris_init_def TETRIS_W_def)
  have "in_bounds 0 0 3 (- 2)" by (rule spawn_bounds) simp
  then show ?thesis using tetris_lock_correct [of tetris_init, unfolded i] by (simp only: add_0 simp_thms)
qed

section \<open>No fault in any game\<close>

lemma move_ok:
  assumes "tetris_ok t" "\<not> tetris_collide dx dy rot t" "rot < 4"
  shows "tetris_ok (t\<lparr>tetris_px := tetris_px t + dx, tetris_py := tetris_py t + dy, tetris_rot := rot\<rparr>)"
  using assms not_collide_bounds [OF assms(2)] collide_moved [where rot = rot and t = t and dx = dx and dy = dy and r = rot] by (simp add: tetris_ok_def)

lemma fall_ok:
  assumes "tetris_ok t"
  shows "\<exists>t'. tetris_fall t = Some t' \<and> tetris_ok t'"
proof (cases "tetris_collide 0 1 (tetris_rot t) t")
  case True
  then show ?thesis using lock_correct [of t] assms by (auto simp: tetris_fall_def tetris_ok_def)
next
  case False
  then show ?thesis using move_ok [OF assms False] assms by (simp add: tetris_fall_def tetris_ok_def)
qed

lemma tetris_key_ok:
  assumes ok: "tetris_ok t"
  shows "\<exists>t'. fst (tetris_key sc t) = Some t' \<and> tetris_ok t'"
proof -
  have rot: "tetris_rot t < 4" and q: "tetris_ok (t\<lparr>tetris_quit := True\<rparr>)" using ok by (simp_all add: tetris_ok_def)
  have shift: "tetris_ok (t\<lparr>tetris_px := tetris_px t + dx\<rparr>)" if "\<not> tetris_collide dx 0 (tetris_rot t) t" for dx
    using move_ok [OF ok that rot] by simp
  have turn: "tetris_ok (t\<lparr>tetris_rot := r\<rparr>)" if "\<not> tetris_collide 0 0 r t" "r < 4" for r
    using move_ok [OF ok that] by simp
  consider "sc = SCAN_ESC" | "sc = SCAN_LEFT" "\<not> tetris_collide (- 1) 0 (tetris_rot t) t"
    | "sc = SCAN_RIGHT" "\<not> tetris_collide 1 0 (tetris_rot t) t" | "sc = SCAN_DOWN" | "sc = SCAN_UP"
    | "fst (tetris_key sc t) = Some t" unfolding tetris_key_def by fastforce
  then show ?thesis
  proof cases
    case 1
    then show ?thesis using q by (simp add: tetris_key_def)
  next
    case 2
    then show ?thesis using shift [OF 2(2)] by (simp add: tetris_key_def SCAN_ESC_def SCAN_LEFT_def)
  next
    case 3
    then show ?thesis using shift [OF 3(2)] by (simp add: tetris_key_def SCAN_ESC_def SCAN_LEFT_def SCAN_RIGHT_def)
  next
    case 4
    then show ?thesis using fall_ok [OF ok]
      by (simp add: tetris_key_def SCAN_ESC_def SCAN_LEFT_def SCAN_RIGHT_def SCAN_DOWN_def)
  next
    case 5
    then show ?thesis using turn [of "(tetris_rot t + 1) mod 4"] ok
      by (simp add: tetris_key_def SCAN_ESC_def SCAN_LEFT_def SCAN_RIGHT_def SCAN_DOWN_def SCAN_UP_def Let_def)
  next
    case 6
    then show ?thesis using ok by simp
  qed
qed

lemma tetris_tick_ok: "tetris_ok t \<Longrightarrow> \<exists>t'. tetris_tick t = Some t' \<and> tetris_ok t'"
proof -
  assume ok: "tetris_ok t"
  have "tetris_ok (t\<lparr>tetris_drop_ticks := n\<rparr>)" for n using ok by (simp add: tetris_ok_def tetris_collide_def)
  then show ?thesis using fall_ok [of "t\<lparr>tetris_drop_ticks := 0\<rparr>"] by (simp add: tetris_tick_def Let_def)
qed

definition tetris_live :: "tetris option \<Rightarrow> bool" where
  "tetris_live r \<longleftrightarrow> (case r of None \<Rightarrow> False | Some t \<Rightarrow> tetris_ok t)"

interpretation tetris_game: game tetris_live
  "\<lambda>r. case r of None \<Rightarrow> True | Some t \<Rightarrow> tetris_quit t"
  "\<lambda>sc r. case r of None \<Rightarrow> (None, True) | Some t \<Rightarrow> tetris_key sc t" "\<lambda>r. Option.bind r tetris_tick"
proof unfold_locales
  fix r sc
  assume "tetris_live r"
  then obtain t where t: "r = Some t" "tetris_ok t" by (cases r) (auto simp: tetris_live_def)
  then show "tetris_live (fst (case r of None \<Rightarrow> (None, True) | Some t \<Rightarrow> tetris_key sc t))"
    using tetris_key_ok [OF t(2), of sc] by (auto simp: tetris_live_def)
next
  fix r
  assume "tetris_live r"
  then obtain t where t: "r = Some t" "tetris_ok t" by (cases r) (auto simp: tetris_live_def)
  then show "tetris_live (Option.bind r tetris_tick)"
    using tetris_tick_ok [OF t(2)] by (auto simp: tetris_live_def)
qed

lemma tetris_init_live: "tetris_live (Some tetris_init)"
proof -
  have b: "in_bounds 0 0 3 (- 2)" by (rule spawn_bounds) simp
  then have "\<not> list_ex (\<lambda>(x, y). cell_blocked (\<lambda>_ _. 0) (x + 0, y + 0)) (piece_cells 0 0 3 (- 2))"
    by (auto simp: in_bounds_def list_all_iff list_ex_iff cell_blocked_def TETRIS_W_def TETRIS_H_def)
  with b show ?thesis by (simp add: tetris_live_def tetris_ok_def tetris_init_def TETRIS_W_def tetris_collide_def)
qed

text \<open>Whatever keys arrive, a game of tetris ends without a write outside the board.\<close>

lemma tetris_run_safe:
  assumes "tetris_run io (Some tetris_init) h fb w = Some (r, h', fb', w')"
  shows "tetris_live r"
  using tetris_game.run_ok [OF assms [unfolded tetris_run_def] tetris_init_live] by blast

end
