(* ===== verification/Arcade.thy ===== *)
theory Arcade
  imports Game_Loop
begin

text \<open>
  The three smaller games of \<^verbatim>\<open>src/game.c\<close>: pong, space invaders and racing, each with
  its state, initialisation, tick, keys, drawing and run loop. The lemmas bound
  the pong field, relate the invaders' score to the aliens left, and show that the
  racing game's in-place removal loop is a filter.
\<close>

unbundle bit_operations_syntax

section \<open>Pong\<close>

definition PONG_PAD_W :: int where "PONG_PAD_W = 6"
definition PONG_PAD_H :: int where "PONG_PAD_H = 28"
definition PONG_PAD_X_L :: int where "PONG_PAD_X_L = 12"
definition PONG_PAD_X_R :: int where "PONG_PAD_X_R = 320 - 12 - PONG_PAD_W"
definition PONG_BALL_SZ :: int where "PONG_BALL_SZ = 6"
definition PONG_TOP :: int where "PONG_TOP = 25"
definition PONG_BOT :: int where "PONG_BOT = 200 - 5"
definition PONG_SPEED :: int where "PONG_SPEED = 2"

record pong =
  pong_ly :: int
  pong_ry :: int
  pong_bx :: int
  pong_by :: int
  pong_vx :: int
  pong_vy :: int
  pong_score_l :: int
  pong_score_r :: int
  pong_quit :: bool

definition pong_init :: pong where
  "pong_init =
     \<lparr>pong_ly = 200 div 2 - PONG_PAD_H div 2, pong_ry = 200 div 2 - PONG_PAD_H div 2,
      pong_bx = 320 div 2 - PONG_BALL_SZ div 2, pong_by = 200 div 2 - PONG_BALL_SZ div 2,
      pong_vx = PONG_SPEED, pong_vy = 1, pong_score_l = 0, pong_score_r = 0, pong_quit = False\<rparr>"

definition pong_walls :: "pong \<Rightarrow> pong" where
  "pong_walls p =
     (let p1 = (if pong_by p \<le> PONG_TOP then p\<lparr>pong_by := PONG_TOP, pong_vy := - pong_vy p\<rparr> else p)
      in if pong_by p1 + PONG_BALL_SZ \<ge> PONG_BOT
         then p1\<lparr>pong_by := PONG_BOT - PONG_BALL_SZ, pong_vy := - pong_vy p1\<rparr> else p1)"

definition pong_paddles :: "pong \<Rightarrow> pong" where
  "pong_paddles p =
     (let p1 = (if pong_bx p \<le> PONG_PAD_X_L + PONG_PAD_W \<and> pong_by p + PONG_BALL_SZ \<ge> pong_ly p \<and>
                   pong_by p \<le> pong_ly p + PONG_PAD_H
                then p\<lparr>pong_bx := PONG_PAD_X_L + PONG_PAD_W, pong_vx := - pong_vx p\<rparr> else p)
      in if pong_bx p1 + PONG_BALL_SZ \<ge> PONG_PAD_X_R \<and> pong_by p1 + PONG_BALL_SZ \<ge> pong_ry p1 \<and>
            pong_by p1 \<le> pong_ry p1 + PONG_PAD_H
         then p1\<lparr>pong_bx := PONG_PAD_X_R - PONG_BALL_SZ, pong_vx := - pong_vx p1\<rparr> else p1)"

definition pong_serve :: "int \<Rightarrow> pong \<Rightarrow> pong" where
  "pong_serve vx p =
     p\<lparr>pong_bx := 320 div 2 - PONG_BALL_SZ div 2, pong_by := 200 div 2 - PONG_BALL_SZ div 2,
       pong_vx := vx, pong_vy := 1\<rparr>"

definition pong_goals :: "pong \<Rightarrow> pong" where
  "pong_goals p =
     (let p1 = (if pong_bx p < 0 then pong_serve PONG_SPEED (p\<lparr>pong_score_r := pong_score_r p + 1\<rparr>) else p)
      in if pong_bx p1 + PONG_BALL_SZ > 320
         then pong_serve (- PONG_SPEED) (p1\<lparr>pong_score_l := pong_score_l p1 + 1\<rparr>) else p1)"

definition pong_ai :: "pong \<Rightarrow> pong" where
  "pong_ai p =
     (let p1 = (if pong_ry p + PONG_PAD_H div 2 < pong_by p + PONG_BALL_SZ div 2 \<and> pong_ry p + PONG_PAD_H < PONG_BOT - 2
                then p\<lparr>pong_ry := pong_ry p + 2\<rparr> else p)
      in if pong_ry p1 + PONG_PAD_H div 2 > pong_by p1 + PONG_BALL_SZ div 2 \<and> pong_ry p1 > PONG_TOP + 2
         then p1\<lparr>pong_ry := pong_ry p1 - 2\<rparr> else p1)"

definition pong_tick :: "pong \<Rightarrow> pong" where
  "pong_tick p =
     pong_ai (pong_goals (pong_paddles (pong_walls
       (p\<lparr>pong_bx := pong_bx p + pong_vx p, pong_by := pong_by p + pong_vy p\<rparr>))))"

definition pong_draw :: "pong \<Rightarrow> draw list" where
  "pong_draw p =
     [ClearGraphics,
      Rect (word_of_int PONG_PAD_X_L) (word_of_int (pong_ly p)) (word_of_int PONG_PAD_W) (word_of_int PONG_PAD_H) 0xFFFFFF,
      Rect (word_of_int PONG_PAD_X_R) (word_of_int (pong_ry p)) (word_of_int PONG_PAD_W) (word_of_int PONG_PAD_H) 0xFFFFFF,
      Rect (word_of_int (pong_bx p)) (word_of_int (pong_by p)) (word_of_int PONG_BALL_SZ) (word_of_int PONG_BALL_SZ) 0x00FF00,
      Text 5 5 ''Pong'' 0xFFFFFF, Text 80 5 ''L:'' 0xAAAAAA, Number 95 5 (word_of_int (pong_score_l p)) 0xFFFFFF,
      Text 140 5 ''R:'' 0xAAAAAA, Number 155 5 (word_of_int (pong_score_r p)) 0xFFFFFF,
      Text 100 190 ''W/S paddle  Esc quit'' 0x666666]"

definition pong_key :: "u8 \<Rightarrow> pong \<Rightarrow> pong \<times> bool" where
  "pong_key sc p =
     (if sc = SCAN_ESC then (p\<lparr>pong_quit := True\<rparr>, True)
      else if sc = 0x11 \<or> sc = SCAN_UP then
        (if pong_ly p > PONG_TOP + 2 then p\<lparr>pong_ly := pong_ly p - 8\<rparr> else p, False)
      else if sc = 0x1F \<or> sc = SCAN_DOWN then
        (if pong_ly p + PONG_PAD_H < PONG_BOT - 2 then p\<lparr>pong_ly := pong_ly p + 8\<rparr> else p, False)
      else (p, False))"

definition pong_run ::
  "'w port_io \<Rightarrow> pong \<Rightarrow> history \<Rightarrow> framebuffer \<Rightarrow> 'w \<Rightarrow> (pong \<times> history \<times> framebuffer \<times> 'w) option" where
  "pong_run io = game_run io pong_quit pong_key pong_tick pong_draw (\<lambda>_. [Text 100 95 ''Press any key'' 0xAAAAAA])"

section \<open>Space invaders\<close>

definition SI_ALIEN_W :: int where "SI_ALIEN_W = 14"
definition SI_ALIEN_H :: int where "SI_ALIEN_H = 10"
definition SI_ALIEN_OX :: int where "SI_ALIEN_OX = 20"
definition SI_ALIEN_OY :: int where "SI_ALIEN_OY = 20"
definition SI_PLAYER_W :: int where "SI_PLAYER_W = 20"
definition SI_PLAYER_H :: int where "SI_PLAYER_H = 12"
definition SI_BULLET_W :: int where "SI_BULLET_W = 4"
definition SI_BULLET_H :: int where "SI_BULLET_H = 8"
definition SI_BULLET_SPD :: int where "SI_BULLET_SPD = 4"
definition SI_ALIEN_SPD :: int where "SI_ALIEN_SPD = 2"

record invaders =
  si_px :: int
  si_alien_dx :: int
  si_alien_ox :: int
  si_alien_oy :: int
  si_alien_tick :: nat
  si_aliens :: "nat \<Rightarrow> nat \<Rightarrow> u8"
  si_bullet_x :: int
  si_bullet_y :: int
  si_bullet_active :: bool
  si_score :: int
  si_quit :: bool
  si_win :: bool

definition alien_cells :: "(nat \<times> nat) list" where
  "alien_cells = concat (map (\<lambda>c. map (\<lambda>r. (c, r)) [0..<3]) [0..<8])"

definition space_invaders_init :: "invaders \<Rightarrow> invaders" where
  "space_invaders_init s =
     s\<lparr>si_px := 320 div 2 - SI_PLAYER_W div 2, si_alien_dx := SI_ALIEN_SPD, si_alien_ox := 0, si_alien_oy := 0,
       si_alien_tick := 0,
       si_aliens := fold (\<lambda>(c, r) a. a(c := (a c)(r := 1))) alien_cells (si_aliens s),
       si_bullet_active := False, si_score := 0, si_quit := False, si_win := False\<rparr>"

definition si_fire :: "invaders \<Rightarrow> invaders" where
  "si_fire s =
     (if si_bullet_active s then s
      else s\<lparr>si_bullet_x := si_px s + SI_PLAYER_W div 2 - SI_BULLET_W div 2,
             si_bullet_y := 200 - SI_PLAYER_H - SI_BULLET_H, si_bullet_active := True\<rparr>)"

definition alien_x :: "invaders \<Rightarrow> nat \<Rightarrow> int" where
  "alien_x s c = SI_ALIEN_OX + si_alien_ox s + int c * (SI_ALIEN_W + 2)"

definition alien_y :: "invaders \<Rightarrow> nat \<Rightarrow> int" where
  "alien_y s r = SI_ALIEN_OY + si_alien_oy s + int r * (SI_ALIEN_H + 2)"

definition alien_hit :: "invaders \<Rightarrow> int \<Rightarrow> int \<Rightarrow> nat \<times> nat \<Rightarrow> bool" where
  "alien_hit s bx by' = (\<lambda>(c, r). si_aliens s c r \<noteq> 0 \<and>
     bx \<ge> alien_x s c \<and> bx < alien_x s c + SI_ALIEN_W \<and> by' \<ge> alien_y s r \<and> by' < alien_y s r + SI_ALIEN_H)"

definition si_bullet :: "invaders \<Rightarrow> invaders" where
  "si_bullet s =
     (let s1 = s\<lparr>si_bullet_y := si_bullet_y s - SI_BULLET_SPD\<rparr>;
          s2 = (if si_bullet_y s1 < 0 then s1\<lparr>si_bullet_active := False\<rparr> else s1)
      in if si_bullet_active s2 then
           (case find (alien_hit s2 (si_bullet_x s2 + SI_BULLET_W div 2) (si_bullet_y s2 + SI_BULLET_H div 2)) alien_cells of
              None \<Rightarrow> s2
            | Some (c, r) \<Rightarrow> s2\<lparr>si_aliens := (si_aliens s2)(c := (si_aliens s2 c)(r := 0)),
                              si_score := si_score s2 + 10, si_bullet_active := False\<rparr>)
         else s2)"

definition alive :: "invaders \<Rightarrow> nat \<times> nat \<Rightarrow> bool" where
  "alive s = (\<lambda>(c, r). si_aliens s c r \<noteq> 0)"

text \<open>The landing check looks at the lowest alien of the first column that has one, then leaves both loops.\<close>

definition si_landed :: "invaders \<Rightarrow> bool" where
  "si_landed s =
     (case find (alive s) (concat (map (\<lambda>c. map (\<lambda>r. (c, r)) (rev [0..<3])) [0..<8])) of
        None \<Rightarrow> False
      | Some (c, r) \<Rightarrow> alien_y s r + SI_ALIEN_H \<ge> 200 - SI_PLAYER_H - 5)"

definition si_march :: "invaders \<Rightarrow> invaders" where
  "si_march s =
     (let s1 = s\<lparr>si_alien_tick := si_alien_tick s + 1\<rparr>
      in if si_alien_tick s1 \<ge> 25 then
           (let s2 = s1\<lparr>si_alien_tick := 0\<rparr>;
                left_ok = list_all (\<lambda>(c, r). alive s2 (c, r) \<longrightarrow> \<not> alien_x s2 c + si_alien_dx s2 \<le> 0) alien_cells;
                right_ok = list_all (\<lambda>(c, r). alive s2 (c, r) \<longrightarrow> \<not> alien_x s2 c + SI_ALIEN_W + si_alien_dx s2 \<ge> 320) alien_cells
            in if (si_alien_dx s2 < 0 \<and> \<not> left_ok) \<or> (si_alien_dx s2 > 0 \<and> \<not> right_ok) then
                 (let s3 = s2\<lparr>si_alien_dx := - si_alien_dx s2, si_alien_oy := si_alien_oy s2 + 12\<rparr>
                  in if si_landed s3 then s3\<lparr>si_quit := True\<rparr> else s3)
               else s2\<lparr>si_alien_ox := si_alien_ox s2 + si_alien_dx s2\<rparr>)
         else s1)"

definition space_invaders_tick :: "invaders \<Rightarrow> invaders" where
  "space_invaders_tick s =
     (let s1 = si_march (si_bullet s)
      in if list_ex (alive s1) alien_cells then s1 else s1\<lparr>si_win := True, si_quit := True\<rparr>)"

definition space_invaders_draw :: "invaders \<Rightarrow> draw list" where
  "space_invaders_draw s =
     [ClearGraphics] @
     map (\<lambda>(c, r). Rect (word_of_int (alien_x s c)) (word_of_int (alien_y s r))
            (word_of_int SI_ALIEN_W) (word_of_int SI_ALIEN_H) 0x00FF00) (filter (alive s) alien_cells) @
     [Rect (word_of_int (si_px s)) (word_of_int (200 - SI_PLAYER_H)) (word_of_int SI_PLAYER_W) (word_of_int SI_PLAYER_H) 0xFFFFFF] @
     (if si_bullet_active s
      then [Rect (word_of_int (si_bullet_x s)) (word_of_int (si_bullet_y s)) (word_of_int SI_BULLET_W) (word_of_int SI_BULLET_H) 0xFFFF00]
      else []) @
     [Text 5 5 ''Space Invaders'' 0xFFFFFF, Text 5 15 ''Score:'' 0xAAAAAA, Number 45 15 (word_of_int (si_score s)) 0xFFFFFF,
      Text 180 5 ''L/R Space Esc'' 0x666666]"

definition si_key :: "u8 \<Rightarrow> invaders \<Rightarrow> invaders \<times> bool" where
  "si_key sc s =
     (if sc = SCAN_ESC then (s\<lparr>si_quit := True\<rparr>, True)
      else if sc = SCAN_LEFT \<and> si_px s > 5 then (s\<lparr>si_px := si_px s - 8\<rparr>, False)
      else if sc = SCAN_RIGHT \<and> si_px s + SI_PLAYER_W < 320 - 5 then (s\<lparr>si_px := si_px s + 8\<rparr>, False)
      else if sc = SCAN_SPACE then (si_fire s, False)
      else (s, False))"

definition si_closing :: "invaders \<Rightarrow> draw list" where
  "si_closing s =
     space_invaders_draw s @
     [if si_win s then Text 100 90 ''You Win!'' 0x00FF00 else Text 95 90 ''Game Over'' 0xFF0000,
      Text 80 105 ''Score:'' 0xAAAAAA, Number 130 105 (word_of_int (si_score s)) 0xFFFFFF,
      Text 70 125 ''Press any key'' 0xAAAAAA]"

definition space_invaders_run ::
  "'w port_io \<Rightarrow> invaders \<Rightarrow> history \<Rightarrow> framebuffer \<Rightarrow> 'w \<Rightarrow> (invaders \<times> history \<times> framebuffer \<times> 'w) option" where
  "space_invaders_run io = game_run io si_quit si_key space_invaders_tick space_invaders_draw si_closing"

section \<open>Racing\<close>

definition RACE_LANES :: int where "RACE_LANES = 3"
definition RACE_LANE_W :: int where "RACE_LANE_W = 320 div RACE_LANES"
definition RACE_CAR_W :: int where "RACE_CAR_W = 24"
definition RACE_CAR_H :: int where "RACE_CAR_H = 35"
definition RACE_OBST_W :: int where "RACE_OBST_W = 30"
definition RACE_OBST_H :: int where "RACE_OBST_H = 25"
definition RACE_ROAD_Y :: nat where "RACE_ROAD_Y = 30"
definition RACE_SCROLL :: int where "RACE_SCROLL = 3"
definition RACE_OBST_MAX :: nat where "RACE_OBST_MAX = 4"

record racing =
  race_lane :: int
  race_obst_lane :: "int list"
  race_obst_y :: "int list"
  race_obst_n :: nat
  race_score :: int
  race_quit :: bool
  race_tick :: int

definition race_car_center_x :: "racing \<Rightarrow> int" where
  "race_car_center_x s = race_lane s * RACE_LANE_W + RACE_LANE_W div 2"

definition racing_init :: "racing \<Rightarrow> racing" where
  "racing_init s = s\<lparr>race_lane := 1, race_obst_n := 0, race_score := 0, race_quit := False, race_tick := 0\<rparr>"

definition racing_spawn_obstacle :: "racing \<Rightarrow> racing" where
  "racing_spawn_obstacle s =
     (if race_obst_n s \<ge> RACE_OBST_MAX then s
      else s\<lparr>race_obst_lane := (race_obst_lane s)[race_obst_n s := race_tick s mod RACE_LANES],
             race_obst_y := (race_obst_y s)[race_obst_n s := - RACE_OBST_H],
             race_obst_n := race_obst_n s + 1\<rparr>)"

definition remove_at :: "nat \<Rightarrow> nat \<Rightarrow> int list \<Rightarrow> int list" where
  "remove_at i n xs = fold (\<lambda>j b. b[j := b ! (j + 1)]) [i..<n] xs"

function race_scroll :: "nat \<Rightarrow> racing \<Rightarrow> racing" where
  "race_scroll i s =
     (if i < race_obst_n s then
        (let s1 = s\<lparr>race_obst_y := (race_obst_y s)[i := race_obst_y s ! i + RACE_SCROLL]\<rparr>
         in if race_obst_y s1 ! i > 200 then
              (let n = race_obst_n s1 - 1
               in race_scroll i (s1\<lparr>race_score := race_score s1 + 10, race_obst_n := n,
                    race_obst_lane := remove_at i n (race_obst_lane s1), race_obst_y := remove_at i n (race_obst_y s1)\<rparr>))
            else race_scroll (i + 1) s1)
      else s)"
  by pat_completeness auto
termination
  by (relation "measure (\<lambda>(i, s). race_obst_n s - i)") (auto simp: Let_def)

declare race_scroll.simps [simp del]

definition race_crash :: "racing \<Rightarrow> nat \<Rightarrow> bool" where
  "race_crash s i =
     (let car_cx = race_car_center_x s; car_y = 200 - RACE_CAR_H - 15;
          ox = race_obst_lane s ! i * RACE_LANE_W + RACE_LANE_W div 2 - RACE_OBST_W div 2;
          oy = race_obst_y s ! i
      in \<not> (oy + RACE_OBST_H < car_y \<or> oy > car_y + RACE_CAR_H) \<and>
         car_cx + RACE_CAR_W div 2 > ox \<and> car_cx - RACE_CAR_W div 2 < ox + RACE_OBST_W)"

definition racing_tick :: "racing \<Rightarrow> racing" where
  "racing_tick s =
     (let s1 = s\<lparr>race_tick := race_tick s + 1\<rparr>;
          s2 = (if race_tick s1 mod 20 = 0 then racing_spawn_obstacle s1 else s1);
          s3 = race_scroll 0 s2
      in if list_ex (race_crash s3) [0..<race_obst_n s3] then s3\<lparr>race_quit := True\<rparr> else s3)"

definition racing_draw :: "racing \<Rightarrow> draw list" where
  "racing_draw s =
     [ClearGraphics] @
     concat (map (\<lambda>l. map (\<lambda>k. Rect (word_of_int (int l * RACE_LANE_W)) (of_nat (RACE_ROAD_Y + 8 * k)) 4 4 0x444444) [0..<22]) [0..<4]) @
     map (\<lambda>i. Rect (word_of_int (race_obst_lane s ! i * RACE_LANE_W + RACE_LANE_W div 2 - RACE_OBST_W div 2))
                (word_of_int (race_obst_y s ! i)) (word_of_int RACE_OBST_W) (word_of_int RACE_OBST_H) 0xFF0000)
       [0..<race_obst_n s] @
     [Rect (word_of_int (race_car_center_x s - RACE_CAR_W div 2)) (word_of_int (200 - RACE_CAR_H - 15))
        (word_of_int RACE_CAR_W) (word_of_int RACE_CAR_H) 0x0000FF,
      Text 5 5 ''Racing'' 0xFFFFFF, Text 5 15 ''Score:'' 0xAAAAAA, Number 45 15 (word_of_int (race_score s)) 0xFFFFFF,
      Text 200 5 ''L/R dodge Esc quit'' 0x666666]"

definition racing_key :: "u8 \<Rightarrow> racing \<Rightarrow> racing \<times> bool" where
  "racing_key sc s =
     (if sc = SCAN_ESC then (s\<lparr>race_quit := True\<rparr>, True)
      else if sc = SCAN_LEFT \<and> race_lane s > 0 then (s\<lparr>race_lane := race_lane s - 1\<rparr>, False)
      else if sc = SCAN_RIGHT \<and> race_lane s < RACE_LANES - 1 then (s\<lparr>race_lane := race_lane s + 1\<rparr>, False)
      else (s, False))"

definition racing_closing :: "racing \<Rightarrow> draw list" where
  "racing_closing s =
     racing_draw s @
     [Text 95 85 ''Game Over'' 0xFF0000, Text 80 100 ''Score:'' 0xAAAAAA,
      Number 130 100 (word_of_int (race_score s)) 0xFFFFFF, Text 70 120 ''Press any key'' 0xAAAAAA]"

definition racing_run ::
  "'w port_io \<Rightarrow> racing \<Rightarrow> history \<Rightarrow> framebuffer \<Rightarrow> 'w \<Rightarrow> (racing \<times> history \<times> framebuffer \<times> 'w) option" where
  "racing_run io = game_run io race_quit racing_key racing_tick racing_draw racing_closing"

section \<open>The pong field\<close>

lemmas pong_consts = PONG_PAD_W_def PONG_PAD_H_def PONG_PAD_X_L_def PONG_PAD_X_R_def PONG_BALL_SZ_def
  PONG_TOP_def PONG_BOT_def PONG_SPEED_def

definition pong_ok :: "pong \<Rightarrow> bool" where
  "pong_ok p \<longleftrightarrow>
     0 \<le> pong_bx p \<and> pong_bx p \<le> 314 \<and> 25 \<le> pong_by p \<and> pong_by p \<le> 189 \<and>
     \<bar>pong_vx p\<bar> = 2 \<and> \<bar>pong_vy p\<bar> = 1 \<and> 20 \<le> pong_ly p \<and> pong_ly p \<le> 172 \<and> 26 \<le> pong_ry p \<and> pong_ry p \<le> 166"

lemma pong_key_ok: "pong_ok p \<Longrightarrow> pong_ok (fst (pong_key sc p))"
  by (auto simp: pong_ok_def pong_key_def pong_consts)

lemma pong_walls_ok:
  "pong_ok p \<Longrightarrow> p' = pong_walls (p\<lparr>pong_bx := pong_bx p + pong_vx p, pong_by := pong_by p + pong_vy p\<rparr>) \<Longrightarrow>
   pong_ok (p'\<lparr>pong_bx := 0\<rparr>) \<and> - 2 \<le> pong_bx p' \<and> pong_bx p' \<le> 316"
  by (auto simp: pong_ok_def pong_walls_def Let_def pong_consts)

lemma pong_paddles_ok:
  "pong_ok (p\<lparr>pong_bx := 0\<rparr>) \<Longrightarrow> - 2 \<le> pong_bx p \<Longrightarrow> pong_bx p \<le> 316 \<Longrightarrow> p' = pong_paddles p \<Longrightarrow>
   pong_ok (p'\<lparr>pong_bx := 0\<rparr>) \<and> - 2 \<le> pong_bx p' \<and> pong_bx p' \<le> 316"
  by (auto simp: pong_ok_def pong_paddles_def Let_def pong_consts)

lemma pong_goals_ok: "pong_ok (p\<lparr>pong_bx := 0\<rparr>) \<Longrightarrow> pong_ok (pong_goals p)"
  by (auto simp: pong_ok_def pong_goals_def pong_serve_def Let_def pong_consts)

lemma pong_ai_ok: "pong_ok p \<Longrightarrow> pong_ok (pong_ai p)"
  by (auto simp: pong_ok_def pong_ai_def Let_def pong_consts)

lemma pong_tick_ok: "pong_ok p \<Longrightarrow> pong_ok (pong_tick p)"
  unfolding pong_tick_def using pong_walls_ok pong_paddles_ok pong_goals_ok pong_ai_ok by meson

interpretation pong_game: game pong_ok pong_quit pong_key pong_tick
  by unfold_locales (simp_all add: pong_key_ok pong_tick_ok)

lemma pong_run_field:
  assumes "pong_run io pong_init h fb w = Some (p, h', fb', w')"
  shows "pong_ok p"
proof -
  have "pong_ok pong_init" by (simp add: pong_ok_def pong_init_def pong_consts)
  from pong_game.run_ok [OF assms [unfolded pong_run_def] this] show ?thesis ..
qed

section \<open>Score and aliens\<close>

lemma alien_cells_facts: "distinct alien_cells" "length alien_cells = 24" "set alien_cells = {..<8} \<times> {..<3}"
proof -
  show "distinct alien_cells" by code_simp
  show "length alien_cells = 24" by code_simp
  show "set alien_cells = {..<8} \<times> {..<3}" by (auto simp: alien_cells_def)
qed

definition aliens_left :: "invaders \<Rightarrow> nat" where
  "aliens_left s = length (filter (alive s) alien_cells)"

definition invaders_ok :: "invaders \<Rightarrow> bool" where
  "invaders_ok s \<longleftrightarrow> si_score s = 10 * (24 - int (aliens_left s)) \<and> (si_win s \<longrightarrow> aliens_left s = 0 \<and> si_quit s)"

lemma aliens_left_cong: "si_aliens s = si_aliens t \<Longrightarrow> aliens_left s = aliens_left t"
  by (simp add: aliens_left_def alive_def)

lemma kill_one:
  assumes "p \<in> set xs" "P p" "distinct xs" "\<And>q. Q q = (P q \<and> q \<noteq> p)"
  shows "length (filter P xs) = Suc (length (filter Q xs))"
  using assms(1,3)
proof (induction xs)
  case (Cons x xs)
  show ?case
  proof (cases "x = p")
    case True
    then have "filter Q xs = filter P xs" using Cons.prems assms(4) by (intro filter_cong) auto
    then show ?thesis using True assms(2) assms(4) [of p] by (simp del: assms(4))
  next
    case False
    then show ?thesis using Cons assms(4) by auto
  qed
qed simp

lemma si_bullet_score:
  "si_score (si_bullet s) + 10 * int (aliens_left (si_bullet s)) = si_score s + 10 * int (aliens_left s)"
  "si_win (si_bullet s) = si_win s" "si_quit (si_bullet s) = si_quit s" "aliens_left (si_bullet s) \<le> aliens_left s"
proof -
  let ?s = "s\<lparr>si_bullet_y := si_bullet_y s - SI_BULLET_SPD\<rparr>"
  let ?s2 = "if si_bullet_y ?s < 0 then ?s\<lparr>si_bullet_active := False\<rparr> else ?s"
  have a2: "si_aliens ?s2 = si_aliens s" "si_score ?s2 = si_score s" "si_win ?s2 = si_win s" "si_quit ?s2 = si_quit s" by auto
  let ?f = "find (alien_hit ?s2 (si_bullet_x ?s2 + SI_BULLET_W div 2) (si_bullet_y ?s2 + SI_BULLET_H div 2)) alien_cells"
  have "si_score (si_bullet s) + 10 * int (aliens_left (si_bullet s)) = si_score s + 10 * int (aliens_left s) \<and>
      si_win (si_bullet s) = si_win s \<and> si_quit (si_bullet s) = si_quit s \<and> aliens_left (si_bullet s) \<le> aliens_left s"
  proof (cases "si_bullet_active ?s2 \<and> ?f \<noteq> None")
    case True
    then obtain c r where f: "?f = Some (c, r)" by auto
    then have m: "(c, r) \<in> set alien_cells" and h: "alien_hit ?s2 (si_bullet_x ?s2 + SI_BULLET_W div 2) (si_bullet_y ?s2 + SI_BULLET_H div 2) (c, r)"
      using find_Some_iff [THEN iffD1, OF f] by (metis nth_mem, metis)
    let ?s3 = "?s2\<lparr>si_aliens := (si_aliens ?s2)(c := (si_aliens ?s2 c)(r := 0)), si_score := si_score ?s2 + 10, si_bullet_active := False\<rparr>"
    have eq: "si_bullet s = ?s3" unfolding si_bullet_def Let_def using True f by simp
    have "alive s (c, r)" using h a2 by (simp add: alien_hit_def alive_def)
    then have "aliens_left s = Suc (aliens_left ?s3)"
      unfolding aliens_left_def using m alien_cells_facts(1) a2(1) by (intro kill_one [of "(c, r)"]) (auto simp: alive_def split: if_splits)
    then show ?thesis unfolding eq using a2 by simp
  next
    case False
    then have eq: "si_bullet s = ?s2" unfolding si_bullet_def Let_def by (auto split: option.splits)
    have l: "aliens_left ?s2 = aliens_left s" by (rule aliens_left_cong) (rule a2(1))
    show ?thesis unfolding eq l a2 by simp
  qed
  then show "si_score (si_bullet s) + 10 * int (aliens_left (si_bullet s)) = si_score s + 10 * int (aliens_left s)"
    "si_win (si_bullet s) = si_win s" "si_quit (si_bullet s) = si_quit s" "aliens_left (si_bullet s) \<le> aliens_left s" by auto
qed

lemma si_march_frame: "si_aliens (si_march s) = si_aliens s" "si_score (si_march s) = si_score s" "si_win (si_march s) = si_win s"
    "si_quit s \<Longrightarrow> si_quit (si_march s)"
  by (simp_all add: si_march_def Let_def)

lemma none_left: "aliens_left s = 0 \<longleftrightarrow> \<not> list_ex (alive s) alien_cells"
  by (auto simp: aliens_left_def list_ex_iff filter_empty_conv)

lemma si_tick_ok:
  assumes "invaders_ok s"
  shows "invaders_ok (space_invaders_tick s)" "si_win (space_invaders_tick s) \<longleftrightarrow> aliens_left (space_invaders_tick s) = 0"
proof -
  let ?s = "si_march (si_bullet s)"
  have left: "aliens_left ?s = aliens_left (si_bullet s)" by (rule aliens_left_cong) (simp add: si_march_frame)
  have sc: "si_score ?s = 10 * (24 - int (aliens_left ?s))"
    using assms si_bullet_score(1) [of s] by (simp add: invaders_ok_def left si_march_frame)
  have win: "si_win ?s \<longrightarrow> aliens_left ?s = 0 \<and> si_quit ?s"
    using assms si_bullet_score [of s] by (auto simp: invaders_ok_def left si_march_frame)
  have upd: "aliens_left (?s\<lparr>si_win := True, si_quit := True\<rparr>) = aliens_left ?s" by (rule aliens_left_cong) simp
  show "invaders_ok (space_invaders_tick s)"
    using sc win none_left [of ?s] by (auto simp: space_invaders_tick_def Let_def invaders_ok_def upd)
  show "si_win (space_invaders_tick s) \<longleftrightarrow> aliens_left (space_invaders_tick s) = 0"
    using win none_left [of ?s] by (auto simp: space_invaders_tick_def Let_def upd)
qed

lemma si_key_ok: "invaders_ok s \<Longrightarrow> invaders_ok (fst (si_key sc s))"
  by (auto simp: invaders_ok_def si_key_def si_fire_def aliens_left_def alive_def)

interpretation invaders_game: game invaders_ok si_quit si_key space_invaders_tick
  by unfold_locales (simp_all add: si_key_ok si_tick_ok)

lemma invaders_init_ok: "invaders_ok (space_invaders_init s)"
proof -
  have "fold (\<lambda>(c, r) a. a(c := (a c)(r := 1))) xs a c r = (if (c, r) \<in> set xs then 1 else a c r)"
    for xs and a :: "nat \<Rightarrow> nat \<Rightarrow> u8" and c r
    by (induction xs arbitrary: a) (auto split: if_splits)
  then have "filter (alive (space_invaders_init s)) alien_cells = alien_cells"
    by (auto simp: filter_id_conv alive_def space_invaders_init_def)
  then show ?thesis by (simp add: invaders_ok_def aliens_left_def alien_cells_facts space_invaders_init_def)
qed

text \<open>
  C34: In every state of a game of space invaders that follows from its initialisation by
  any sequence of keys and ticks, the score is ten points for each of the 24 aliens
  that has been shot, and after a tick the game is won exactly when no alien is left.
\<close>

theorem invaders_score:
  assumes "s = fold (\<lambda>e s. case e of None \<Rightarrow> space_invaders_tick s | Some sc \<Rightarrow> fst (si_key sc s)) events (space_invaders_init s0)"
  shows "si_score s = 10 * (24 - int (aliens_left s)) \<and>
    (si_win (space_invaders_tick s) \<longleftrightarrow> aliens_left (space_invaders_tick s) = 0)"
proof -
  have "invaders_ok (fold (\<lambda>e s. case e of None \<Rightarrow> space_invaders_tick s | Some sc \<Rightarrow> fst (si_key sc s)) events t)"
    if "invaders_ok t" for t
    using that
    by (induction events arbitrary: t) (auto simp: invaders_game.tick_ok invaders_game.key_ok split: option.split)
  then have "invaders_ok s" using invaders_init_ok assms by simp
  then show ?thesis using si_tick_ok(2) [of s] by (simp add: invaders_ok_def)
qed

definition invaders_zero :: invaders where
  "invaders_zero = \<lparr>si_px = 0, si_alien_dx = 0, si_alien_ox = 0, si_alien_oy = 0, si_alien_tick = 0, si_aliens = (\<lambda>_ _. 0),
     si_bullet_x = 0, si_bullet_y = 0, si_bullet_active = False, si_score = 0, si_quit = False, si_win = False\<rparr>"

theorem invaders_score_witness:
  "si_score (fst (si_key SCAN_SPACE (space_invaders_init invaders_zero))) =
     10 * (24 - int (aliens_left (fst (si_key SCAN_SPACE (space_invaders_init invaders_zero)))))"
  using invaders_score [of _ "[Some SCAN_SPACE]" invaders_zero, OF refl] by simp

section \<open>Obstacles\<close>

lemma remove_at_eq: "i \<le> n \<Longrightarrow> n < length xs \<Longrightarrow> remove_at i n xs = take i xs @ take (n - i) (drop (i + 1) xs) @ drop n xs"
proof -
  assume n: "i \<le> n" "n < length xs"
  have "[i..<n] = map (\<lambda>j. i + j) [0..<n - i]" using n by (simp add: map_add_upt add.commute)
  then have "remove_at i n xs = fold (\<lambda>j b. b[i + j := b ! (i + 1 + j)]) [0..<n - i] xs"
    by (simp add: remove_at_def fold_map comp_def)
  also have "\<dots> = take i xs @ take (n - i) (drop (i + 1) xs) @ drop (i + (n - i)) xs"
    using n by (intro fold_copy_down) simp
  finally show ?thesis using n by simp
qed

lemma remove_take:
  assumes "i < n" "n \<le> length xs"
  shows "take (n - 1) (remove_at i (n - 1) xs) = take i (take n xs) @ drop (i + 1) (take n xs)"
    "length (remove_at i (n - 1) xs) = length xs"
  using assms by (simp_all add: remove_at_eq drop_take)

definition obstacles :: "racing \<Rightarrow> (int \<times> int) list" where
  "obstacles s = zip (take (race_obst_n s) (race_obst_lane s)) (take (race_obst_n s) (race_obst_y s))"

definition scrolled :: "int \<times> int \<Rightarrow> int \<times> int" where
  "scrolled = (\<lambda>(lane, y). (lane, y + RACE_SCROLL))"

definition on_road :: "int \<times> int \<Rightarrow> bool" where
  "on_road = (\<lambda>(lane, y). y \<le> 200)"

definition race_ok :: "racing \<Rightarrow> bool" where
  "race_ok s \<longleftrightarrow> length (race_obst_lane s) = 4 \<and> length (race_obst_y s) = 4 \<and> race_obst_n s \<le> 4 \<and>
     0 \<le> race_lane s \<and> race_lane s < 3 \<and> 0 \<le> race_tick s"

lemma zip_remove:
  assumes "length xs = length ys"
  shows "zip (take i xs @ drop j xs) (take i ys @ drop j ys) = take i (zip xs ys) @ drop j (zip xs ys)"
  using assms by (simp add: zip_append take_zip drop_zip)

lemma race_scroll_from:
  assumes "race_ok s" "i \<le> race_obst_n s"
  shows "obstacles (race_scroll i s) = take i (obstacles s) @ filter on_road (map scrolled (drop i (obstacles s))) \<and>
    race_score (race_scroll i s) = race_score s + 10 * int (length (obstacles s) - length (obstacles (race_scroll i s))) \<and>
    length (obstacles (race_scroll i s)) \<le> length (obstacles s) \<and> race_ok (race_scroll i s)"
  using assms
proof (induction i s rule: race_scroll.induct)
  case (1 i s)
  let ?n = "race_obst_n s" and ?ys = "(race_obst_y s)[i := race_obst_y s ! i + RACE_SCROLL]"
  let ?s1 = "s\<lparr>race_obst_y := ?ys\<rparr>"
  have len: "length (race_obst_lane s) = 4" "length (race_obst_y s) = 4" "?n \<le> 4" using 1(3) by (auto simp: race_ok_def)
  show ?case
  proof (cases "i < ?n")
    case False
    then have "i = ?n" using 1(4) by simp
    then show ?thesis using 1(3) len by (subst (1 2 3 4 5) race_scroll.simps) (simp add: obstacles_def)
  next
    case True
    let ?o = "obstacles s"
    have lo: "length ?o = ?n" using len by (simp add: obstacles_def)
    have nth: "?o ! i = (race_obst_lane s ! i, race_obst_y s ! i)" using True len by (simp add: obstacles_def)
    have o1: "obstacles ?s1 = ?o[i := scrolled (?o ! i)]"
    proof -
      have "(take ?n (race_obst_lane s))[i := race_obst_lane s ! i] = take ?n (race_obst_lane s)"
        using True by (metis list_update_id nth_take)
      then show ?thesis using True len by (simp add: obstacles_def nth scrolled_def take_update_swap update_zip)
    qed
    have dr: "drop i ?o = ?o ! i # drop (Suc i) ?o" using True lo by (simp add: Cons_nth_drop_Suc)
    have ok1: "race_ok ?s1" using 1(3) by (simp add: race_ok_def)
    have yi: "race_obst_y ?s1 ! i = race_obst_y s ! i + RACE_SCROLL" using True len by simp
    show ?thesis
    proof (cases "race_obst_y ?s1 ! i > 200")
      case gone: True
      let ?s2 = "?s1\<lparr>race_score := race_score ?s1 + 10, race_obst_n := race_obst_n ?s1 - 1,
          race_obst_lane := remove_at i (race_obst_n ?s1 - 1) (race_obst_lane ?s1),
          race_obst_y := remove_at i (race_obst_n ?s1 - 1) (race_obst_y ?s1)\<rparr>"
      have eq: "race_scroll i s = race_scroll i ?s2" using True gone by (subst race_scroll.simps) (simp add: Let_def)
      have o2: "obstacles ?s2 = take i ?o @ drop (Suc i) ?o"
      proof -
        have "obstacles ?s2 = zip (take i (take ?n (race_obst_lane s)) @ drop (i + 1) (take ?n (race_obst_lane s)))
            (take i (take ?n ?ys) @ drop (i + 1) (take ?n ?ys))"
          using remove_take(1) [OF True, of "race_obst_lane s"] remove_take(1) [OF True, of ?ys] len
          by (simp add: obstacles_def)
        also have "\<dots> = take i (obstacles ?s1) @ drop (i + 1) (obstacles ?s1)"
          using len by (subst zip_remove) (simp_all add: obstacles_def)
        finally show ?thesis unfolding o1 by simp
      qed
      have ok2: "race_ok ?s2" 
        using ok1 remove_take(2) [OF True, of "race_obst_lane s"] remove_take(2) [OF True, of ?ys] len by (simp add: race_ok_def)
      have "\<not> on_road (scrolled (?o ! i))" using gone yi nth by (simp add: on_road_def scrolled_def)
      moreover have "obstacles (race_scroll i ?s2) = take i (obstacles ?s2) @ filter on_road (map scrolled (drop i (obstacles ?s2))) \<and>
          race_score (race_scroll i ?s2) = race_score ?s2 + 10 * int (length (obstacles ?s2) - length (obstacles (race_scroll i ?s2))) \<and>
          length (obstacles (race_scroll i ?s2)) \<le> length (obstacles ?s2) \<and> race_ok (race_scroll i ?s2)"
        by (rule 1(1) [OF True refl gone refl ok2]) (use True in simp)
      moreover have "length (obstacles ?s2) = ?n - 1" "0 < ?n" using o2 lo True by auto
      ultimately show ?thesis unfolding eq using o2 lo True dr by (auto simp: int_Suc of_nat_diff)
    next
      case stays: False
      have eq: "race_scroll i s = race_scroll (i + 1) ?s1" using True stays by (subst race_scroll.simps) (simp add: Let_def)
      have road: "on_road (scrolled (?o ! i))" using stays yi nth by (simp add: on_road_def scrolled_def)
      have IH: "obstacles (race_scroll (i + 1) ?s1) = take (i + 1) (obstacles ?s1) @ filter on_road (map scrolled (drop (i + 1) (obstacles ?s1))) \<and>
          race_score (race_scroll (i + 1) ?s1) = race_score ?s1 + 10 * int (length (obstacles ?s1) - length (obstacles (race_scroll (i + 1) ?s1))) \<and>
          length (obstacles (race_scroll (i + 1) ?s1)) \<le> length (obstacles ?s1) \<and> race_ok (race_scroll (i + 1) ?s1)"
        by (rule 1(2) [OF True refl stays ok1]) (use True in simp)
      have "take (i + 1) (?o[i := scrolled (?o ! i)]) = take i ?o @ [scrolled (?o ! i)]"
        using True lo by (simp add: take_Suc_conv_app_nth)
      then have ob: "obstacles (race_scroll (i + 1) ?s1) = take i ?o @ filter on_road (map scrolled (drop i ?o))"
        using IH o1 road dr by simp
      have sc: "race_score ?s1 = race_score s" "length (obstacles ?s1) = length ?o" by (simp_all add: o1)
      show ?thesis unfolding eq using ob IH unfolding sc by blast
    qed
  qed
qed

text \<open>
  The racing game's scroll loop, which moves the obstacles in place and closes the gap
  when one leaves the road, ends and computes the filter: every obstacle moves down
  by three, the ones still on the road stay in their order, and each one that left
  is worth ten points.
\<close>

theorem race_scroll_filters:
  assumes "race_ok s"
  shows "obstacles (race_scroll 0 s) = filter on_road (map scrolled (obstacles s)) \<and>
    race_score (race_scroll 0 s) =
      race_score s + 10 * int (length (filter (\<lambda>p. \<not> on_road (scrolled p)) (obstacles s))) \<and>
    race_ok (race_scroll 0 s)"
proof -
  have "length xs - length (filter on_road (map scrolled xs)) = length (filter (\<lambda>p. \<not> on_road (scrolled p)) xs)" for xs
    using sum_length_filter_compl [of "on_road \<circ> scrolled" xs] by (simp add: filter_map comp_def)
  then show ?thesis using race_scroll_from [OF assms, of 0] by simp
qed

theorem race_scroll_witness:
  "obstacles (race_scroll 0 \<lparr>race_lane = 1, race_obst_lane = [0, 1, 2, 0], race_obst_y = [10, 199, 50, 0], race_obst_n = 3,
      race_score = 0, race_quit = False, race_tick = 60\<rparr>) = [(0, 13), (2, 53)]"
  using race_scroll_filters [of "\<lparr>race_lane = 1, race_obst_lane = [0, 1, 2, 0], race_obst_y = [10, 199, 50, 0], race_obst_n = 3,
      race_score = 0, race_quit = False, race_tick = 60\<rparr>"]
  by (simp add: race_ok_def obstacles_def on_road_def scrolled_def RACE_SCROLL_def)

lemma racing_key_ok: "race_ok s \<Longrightarrow> race_ok (fst (racing_key sc s))"
  by (auto simp: race_ok_def racing_key_def RACE_LANES_def)

lemma racing_tick_ok: "race_ok s \<Longrightarrow> race_ok (racing_tick s)"
proof -
  assume ok: "race_ok s"
  let ?s1 = "s\<lparr>race_tick := race_tick s + 1\<rparr>"
  let ?s2 = "if race_tick ?s1 mod 20 = 0 then racing_spawn_obstacle ?s1 else ?s1"
  have "race_ok ?s2" using ok by (auto simp: race_ok_def racing_spawn_obstacle_def RACE_OBST_MAX_def)
  then have "race_ok (race_scroll 0 ?s2)" using race_scroll_from [of ?s2 0] by blast
  then show ?thesis unfolding racing_tick_def Let_def by (auto simp: race_ok_def)
qed

interpretation racing_game: game race_ok race_quit racing_key racing_tick
  by unfold_locales (simp_all add: racing_key_ok racing_tick_ok)

end
