(* ===== verification/Games.thy ===== *)
theory Games
  imports Snake Tetris Arcade
begin

text \<open>
  The game menu of \<^verbatim>\<open>src/game.c\<close>: the table of games, listing, launching and stopping
  them. A launch switches the video mode, runs the game and records the session in
  the play history; the lemmas connect the games with the history.
\<close>

unbundle bit_operations_syntax

record game_info =
  gi_name :: string
  gi_description :: string
  gi_size :: u32
  gi_type :: u32

definition GAME_TYPE_ACTION :: u32 where "GAME_TYPE_ACTION = 1"
definition GAME_TYPE_PUZZLE :: u32 where "GAME_TYPE_PUZZLE = 2"
definition GAME_TYPE_RACING :: u32 where "GAME_TYPE_RACING = 3"
definition GAME_TYPE_RPG :: u32 where "GAME_TYPE_RPG = 4"
definition GAME_TYPE_SHOOTER :: u32 where "GAME_TYPE_SHOOTER = 5"

definition games :: "game_info list" where
  "games =
     [\<lparr>gi_name = ''Snake'', gi_description = ''Classic snake game - eat food and grow longer'', gi_size = 1024, gi_type = GAME_TYPE_PUZZLE\<rparr>,
      \<lparr>gi_name = ''Pong'', gi_description = ''Classic pong game - bounce the ball'', gi_size = 512, gi_type = GAME_TYPE_ACTION\<rparr>,
      \<lparr>gi_name = ''Tetris'', gi_description = ''Classic tetris - arrange falling blocks'', gi_size = 2048, gi_type = GAME_TYPE_PUZZLE\<rparr>,
      \<lparr>gi_name = ''Space Invaders'', gi_description = ''Classic space invaders - shoot aliens'', gi_size = 1536, gi_type = GAME_TYPE_SHOOTER\<rparr>,
      \<lparr>gi_name = ''Racing'', gi_description = ''Simple racing game - avoid obstacles'', gi_size = 1024, gi_type = GAME_TYPE_RACING\<rparr>]"

definition game_count :: nat where "game_count = length games"

record game_system =
  gs_snake :: snake
  gs_pong :: pong
  gs_tetris :: "tetris option"
  gs_invaders :: invaders
  gs_racing :: racing
  current_game :: int
  game_running :: bool
  gs_history :: history
  gs_demo :: demo
  gs_fb :: framebuffer

definition get_game_type_name :: "u32 \<Rightarrow> string" where
  "get_game_type_name t =
     (if t = GAME_TYPE_ACTION then ''Action'' else if t = GAME_TYPE_PUZZLE then ''Puzzle''
      else if t = GAME_TYPE_RACING then ''Racing'' else if t = GAME_TYPE_RPG then ''RPG''
      else if t = GAME_TYPE_SHOOTER then ''Shooter'' else ''Unknown'')"

definition init_game_system :: "'w port_io \<Rightarrow> game_system \<Rightarrow> 'w \<Rightarrow> game_system \<times> 'w \<times> kout list" where
  "init_game_system io g w =
     (let (d, w1, outs) = init_graphics_demo io w
      in (g\<lparr>gs_demo := d\<rparr>, w1,
          [Kprint ''Initializing PS2 Game System...\<newline>''] @ outs @
          [Kprintf ''Game system initialized! %d games available\<newline>'' [IntArg (of_nat game_count)]]))"

definition list_games :: "kout list" where
  "list_games =
     [Kprint ''Available Games:\<newline>'', Kprint ''================\<newline>''] @
     concat (map (\<lambda>i.
       [Kprintf ''%d. %s (%s)\<newline>'' [IntArg (of_nat (i + 1)), StrArg (gi_name (games ! i)), StrArg (gi_description (games ! i))],
        Kprintf ''   Type: %s, Size: %u KB\<newline>'' [StrArg (get_game_type_name (gi_type (games ! i))), IntArg (gi_size (games ! i))]])
       [0..<game_count])"

text \<open>The \<^verbatim>\<open>init_func\<close> and \<^verbatim>\<open>run_func\<close> of the table; every \<^verbatim>\<open>cleanup_func\<close> is empty.\<close>

definition run_game :: "'w port_io \<Rightarrow> nat \<Rightarrow> game_system \<Rightarrow> 'w \<Rightarrow> (game_system \<times> 'w) option" where
  "run_game io i g w =
     (let h = gs_history g; fb = gs_fb g
      in if i = 0 then
           map_option (\<lambda>(s, h', fb', w'). (g\<lparr>gs_snake := s, gs_history := h', gs_fb := fb'\<rparr>, w'))
             (snake_run io (snake_init (gs_snake g)) h fb w)
         else if i = 1 then
           map_option (\<lambda>(s, h', fb', w'). (g\<lparr>gs_pong := s, gs_history := h', gs_fb := fb'\<rparr>, w'))
             (pong_run io pong_init h fb w)
         else if i = 2 then
           map_option (\<lambda>(s, h', fb', w'). (g\<lparr>gs_tetris := s, gs_history := h', gs_fb := fb'\<rparr>, w'))
             (tetris_run io (Some tetris_init) h fb w)
         else if i = 3 then
           map_option (\<lambda>(s, h', fb', w'). (g\<lparr>gs_invaders := s, gs_history := h', gs_fb := fb'\<rparr>, w'))
             (space_invaders_run io (space_invaders_init (gs_invaders g)) h fb w)
         else
           map_option (\<lambda>(s, h', fb', w'). (g\<lparr>gs_racing := s, gs_history := h', gs_fb := fb'\<rparr>, w'))
             (racing_run io (racing_init (gs_racing g)) h fb w))"

definition launch_game :: "'w port_io \<Rightarrow> int \<Rightarrow> game_system \<Rightarrow> 'w \<Rightarrow> (game_system \<times> 'w \<times> kout list) option" where
  "launch_game io game_index g w =
     (if game_index < 0 \<or> game_index \<ge> int game_count then Some (g, w, [Kprint ''Invalid game index!\<newline>''])
      else
        (let name = gi_name (games ! nat game_index);
             g1 = g\<lparr>current_game := game_index, gs_history := game_history_session_start game_index name (gs_history g),
                    game_running := True\<rparr>;
             w1 = graphics_set_palette io (plat_video_mode_13h io w)
         in case run_game io (nat game_index) g1 w1 of
              None \<Rightarrow> None
            | Some (g2, w2) \<Rightarrow>
                Some (g2\<lparr>game_running := False,
                         gs_history := game_history_session_end game_index name (gs_history g2),
                         current_game := - 1\<rparr>,
                      plat_video_mode_text io w2,
                      [Kprintf ''Launching %s...\<newline>'' [StrArg name], Kprintf ''%s completed!\<newline>'' [StrArg name]])))"

definition stop_game :: "game_system \<Rightarrow> game_system \<times> kout list" where
  "stop_game g =
     (if game_running g \<and> current_game g \<ge> 0
      then (g\<lparr>game_running := False, current_game := - 1\<rparr>, [Kprint ''Game stopped\<newline>''])
      else (g, []))"

definition get_current_game :: "game_system \<Rightarrow> game_info option" where
  "get_current_game g =
     (if current_game g \<ge> 0 \<and> current_game g < int game_count then Some (games ! nat (current_game g)) else None)"

definition is_game_running :: "game_system \<Rightarrow> bool" where
  "is_game_running g = game_running g"

section \<open>A launch is one session\<close>

lemma frames_history:
  fixes io :: "'a port_io" and s :: 's
  assumes "frames io over key tick draws s h fb w = Some r"
  shows "\<exists>n. fst (snd r) = (game_history_tick ^^ n) h"
proof (rule frames.raw_induct [where P = "\<lambda>io over key tick draws s h fb w r. \<exists>n. fst (snd r) = (game_history_tick ^^ n) h", OF _ assms])
  fix fr :: "'a port_io \<Rightarrow> ('s \<Rightarrow> bool) \<Rightarrow> (u8 \<Rightarrow> 's \<Rightarrow> 's \<times> bool) \<Rightarrow> ('s \<Rightarrow> 's) \<Rightarrow> ('s \<Rightarrow> draw list) \<Rightarrow>
     's \<Rightarrow> history \<Rightarrow> framebuffer \<Rightarrow> 'a \<Rightarrow> ('s \<times> history \<times> framebuffer \<times> 'a) option" and io ov k t draws s h fb w r
  assume IH: "\<And>io ov k t draws s h fb w r. fr io ov k t draws s h fb w = Some r \<Longrightarrow> \<exists>n. fst (snd r) = (game_history_tick ^^ n) h"
    and step: "(if ov s then Some (s, h, fb, w)
      else Option.bind (poll_keys io k s w)
        (\<lambda>(s1, w1). let s2 = t s1 in fr io ov k t draws s2 (game_history_tick h) (fold paint (draws s2) fb) w1)) = Some r"
  show "\<exists>n. fst (snd r) = (game_history_tick ^^ n) h"
  proof (cases "ov s")
    case True
    then show ?thesis using step by (auto intro!: exI [of _ 0])
  next
    case False
    then obtain s1 w1 where "fr io ov k t draws (t s1) (game_history_tick h) (fold paint (draws (t s1)) fb) w1 = Some r"
      using step by (auto simp: Let_def bind_eq_Some_conv)
    then obtain n where "fst (snd r) = (game_history_tick ^^ n) (game_history_tick h)" using IH by blast
    then show ?thesis by (intro exI [of _ "Suc n"]) (simp add: funpow_swap1)
  qed
qed

lemma game_run_history:
  assumes "game_run io over key tick draws closing s h fb w = Some (s', h', fb', w')"
  shows "\<exists>n. h' = (game_history_tick ^^ n) h"
proof -
  obtain r where "frames io over key tick draws s h fb w = Some r" "fst (snd r) = h'"
    using assms by (fastforce simp: game_run_def bind_eq_Some_conv)
  then show ?thesis using frames_history by metis
qed

lemma run_game_history:
  assumes "run_game io i g w = Some (g', w')"
  shows "\<exists>n. gs_history g' = (game_history_tick ^^ n) (gs_history g)"
  using assms
  by (auto dest!: game_run_history simp: run_game_def Let_def snake_run_def pong_run_def tetris_run_def space_invaders_run_def racing_run_def
      split: if_splits)

text \<open>
  C23: Launching a game with an index outside the menu changes nothing. A launch with a
  valid index that returns leaves no game running and has recorded exactly one more
  session for that game: its launch count grows by one (starting at one for a game
  played for the first time), and the entries of all other games are unchanged.
\<close>

theorem launch_game_recorded:
  assumes "launch_game io i g w = Some (g', w', outs)" "history_ok (gs_history g)" "entry_count (gs_history g) < 64"
  shows "if i < 0 \<or> i \<ge> 5 then g' = g \<and> w' = w
     else \<not> game_running g' \<and> current_game g' = - 1 \<and> history_ok (gs_history g') \<and>
       (\<forall>k. k \<noteq> i \<longrightarrow> game_history_get_entry k (gs_history g') = game_history_get_entry k (gs_history g)) \<and>
       map_option launch_count (game_history_get_entry i (gs_history g')) =
         Some (case game_history_get_entry i (gs_history g) of None \<Rightarrow> 1 | Some e \<Rightarrow> launch_count e + 1)"
proof (cases "i < 0 \<or> i \<ge> 5")
  case True
  then show ?thesis using assms(1) by (auto simp: launch_game_def game_count_def games_def)
next
  case False
  let ?name = "gi_name (games ! nat i)" and ?h = "gs_history g"
  let ?g1 = "g\<lparr>current_game := i, gs_history := game_history_session_start i ?name ?h, game_running := True\<rparr>"
  obtain g2 w2 where r: "run_game io (nat i) ?g1 (graphics_set_palette io (plat_video_mode_13h io w)) = Some (g2, w2)"
      "g' = g2\<lparr>game_running := False, gs_history := game_history_session_end i ?name (gs_history g2), current_game := - 1\<rparr>"
    using assms(1) False by (auto simp: launch_game_def game_count_def games_def Let_def split: option.splits)
  obtain n where n: "gs_history g2 = (game_history_tick ^^ n) (gs_history ?g1)"
    using run_game_history [OF r(1)] by blast
  have h': "gs_history g' = session_over i ?name n ?h" by (simp add: r(2) n session_over_def)
  let ?h2 = "?h\<lparr>session_start_tick := system_tick ?h, system_tick := system_tick ?h + of_nat n,
        last_session_id := last_session_id ?h + 1, current_session_game := - 1\<rparr>"
  have ok: "history_ok ?h2" using assms(2) by (simp add: clock_irrelevant)
  note l = record_session_lookup [OF ok, of i ?name "elapsed_ticks n", folded session_over_record h', unfolded clock_irrelevant]
  show ?thesis using False l assms(3) by (auto simp: r(2) split: option.splits)
qed

text \<open>A machine whose state is the list of scancodes still to be read.\<close>

definition kbd_io :: "u8 list port_io" where
  "kbd_io = \<lparr>outb = (\<lambda>p v w. w),
     inb = (\<lambda>p w. if p = 0x64 then (w, if w = [] then 0 else 1) else if p = 0x60 then (tl w, hd w) else (w, 0)),
     inw = (\<lambda>p w. (w, 0))\<rparr>"

lemma kbd_simps [simp]:
  "outb kbd_io p v w = w" "keyboard_has_key kbd_io w = (w, w \<noteq> [])"
  "keyboard_get_scancode kbd_io [] = ([], 0)" "keyboard_get_scancode kbd_io (k # ks) = (ks, k)"
  by (simp_all add: kbd_io_def keyboard_has_key_def keyboard_get_scancode_def)

lemma fold_idle: "(\<And>x. x \<in> set xs \<Longrightarrow> f x w = w) \<Longrightarrow> fold f xs w = w"
  by (induction xs) auto

lemma kbd_video [simp]:
  "graphics_set_palette kbd_io w = w" "plat_video_mode_13h kbd_io w = w" "plat_video_mode_text kbd_io w = w"
proof -
  have i: "inb kbd_io 0x3DA w = (w, 0)" "inb kbd_io 0x3D5 w = (w, 0)" by (simp_all add: kbd_io_def)
  have all: "vga_write_all kbd_io regs w = w" for regs
    unfolding vga_write_all_def by (rule fold_idle) (auto simp: vga_write_indexed_def)
  have at: "vga_attr_write kbd_io a b w = w" for a b by (simp add: vga_attr_write_def i)
  have init: "vga_attr_init kbd_io m w = w" for m
    using fold_idle [of "[0..<16]" "\<lambda>i. vga_attr_write kbd_io (of_nat i) (of_nat i)" w]
    by (simp add: vga_attr_init_def at Let_def i)
  show "graphics_set_palette kbd_io w = w"
    unfolding graphics_set_palette_def set_palette_16_def by (rule fold_idle) (auto simp: video_set_palette_entry_def)
  show "plat_video_mode_text kbd_io w = w"
    by (simp add: plat_video_mode_text_def video_set_mode_text_def all init)
  show "plat_video_mode_13h kbd_io w = w"
    by (simp add: i plat_video_mode_13h_def video_set_mode_13h_def all init Let_def vga_write_indexed_def split_beta)
qed

lemma pong_tick_quit: "pong_quit (pong_tick p) = pong_quit p"
proof -
  have "pong_quit (pong_walls p) = pong_quit p" "pong_quit (pong_paddles p) = pong_quit p"
    "pong_quit (pong_goals p) = pong_quit p" "pong_quit (pong_ai p) = pong_quit p" for p
    by (simp_all add: pong_walls_def pong_paddles_def pong_goals_def pong_ai_def pong_serve_def Let_def)
  then show ?thesis by (simp add: pong_tick_def)
qed

lemma pong_escape:
  "\<exists>p fb'. pong_run kbd_io pong_init h fb [SCAN_ESC, 0x1C] = Some (p, game_history_tick h, fb', [])"
proof -
  let ?p = "pong_tick (pong_init\<lparr>pong_quit := True\<rparr>)"
  have q: "pong_quit ?p" "\<not> pong_quit pong_init"
    by (simp_all add: pong_tick_quit pong_init_def)
  have "poll_keys kbd_io pong_key pong_init [SCAN_ESC, 0x1C] = Some (pong_init\<lparr>pong_quit := True\<rparr>, [0x1C])"
    by (subst poll_keys.simps) (simp add: SCAN_ESC_def pong_key_def)
  then have "\<exists>fb'. frames kbd_io pong_quit pong_key pong_tick pong_draw pong_init h fb [SCAN_ESC, 0x1C] =
      Some (?p, game_history_tick h, fb', [0x1C])"
    using q by (subst frames.simps) (simp add: Let_def, subst frames.simps, simp)
  moreover have "wait_key kbd_io [0x1C] = Some [0x1C]" by (subst wait_key.simps) simp
  moreover have "flush_keys kbd_io [0x1C] = Some []"
    by (subst flush_keys.simps, simp, subst flush_keys.simps, simp)
  ultimately show ?thesis by (auto simp: pong_run_def game_run_def)
qed

definition game_system_zero :: game_system where
  "game_system_zero = \<lparr>gs_snake = fresh_snake, gs_pong = pong_init, gs_tetris = Some tetris_init, gs_invaders = invaders_zero,
     gs_racing = \<lparr>race_lane = 1, race_obst_lane = [0, 0, 0, 0], race_obst_y = [0, 0, 0, 0], race_obst_n = 0, race_score = 0,
       race_quit = False, race_tick = 0\<rparr>,
     current_game = - 1, game_running = False, gs_history = game_history_init,
     gs_demo = \<lparr>objects = [], demo_running = False\<rparr>, gs_fb = []\<rparr>"

theorem launch_game_witness:
  "\<exists>g' w' outs. launch_game kbd_io 1 game_system_zero [SCAN_ESC, 0x1C] = Some (g', w', outs) \<and>
     \<not> game_running g' \<and> map_option launch_count (game_history_get_entry 1 (gs_history g')) = Some 1"
proof -
  let ?g = "game_system_zero"
  let ?h = "game_history_session_start 1 ''Pong'' (gs_history ?g)"
  obtain p fb' where p: "pong_run kbd_io pong_init ?h (gs_fb ?g) [SCAN_ESC, 0x1C] = Some (p, game_history_tick ?h, fb', [])"
    using pong_escape by blast
  then obtain g' w' outs where l: "launch_game kbd_io 1 ?g [SCAN_ESC, 0x1C] = Some (g', w', outs)"
    by (simp add: launch_game_def game_count_def games_def Let_def run_game_def)
  have h: "gs_history ?g = game_history_init" by (simp add: game_system_zero_def)
  have e: "game_history_get_entry 1 game_history_init = None" "entry_count game_history_init = 0"
    by (simp_all add: game_history_init_def game_history_get_entry_def find_game_def)
  show ?thesis
    using l launch_game_recorded [OF l] unfolding h by (simp add: history_init_ok e)
qed

end
