(* ===== verification/Net.thy ===== *)
theory Net
  imports Asmos_Prelude
begin

text \<open>
  The network layer: \<^verbatim>\<open>src/net/udp.c\<close> (addresses, the receive ring, datagrams,
  ping, streams), \<^verbatim>\<open>src/net/icmp.c\<close> (checksums and echo requests) and the NE2000
  part of \<^verbatim>\<open>platform/x86/hal_net.c\<close>.

  Below the platform layer is the device, an argument of the operations over an
  arbitrary device state \<open>'w\<close>. Reads past the end of a buffer are \<open>None\<close>.
\<close>

section \<open>The platform network interface\<close>

record 'w net_ops =
  no_send :: "u8 list \<Rightarrow> 'w \<Rightarrow> 'w \<times> int"
  no_recv :: "nat \<Rightarrow> 'w \<Rightarrow> 'w \<times> int \<times> u8 list"
  no_ip :: "'w \<Rightarrow> u32"
  no_ticks :: "'w \<Rightarrow> 'w \<times> u32"
  no_delay :: "'w \<Rightarrow> 'w"

section \<open>Addresses\<close>

definition is_digit :: "char \<Rightarrow> bool" where
  "is_digit c \<longleftrightarrow> 48 \<le> (of_char c :: nat) \<and> (of_char c :: nat) \<le> 57"

fun parse_octet :: "string \<Rightarrow> u32 \<Rightarrow> u32 \<times> string" where
  "parse_octet [] v = (v, [])"
| "parse_octet (c # cs) v =
     (if is_digit c then parse_octet cs (v * 10 + (of_char c - 48)) else (v, c # cs))"

definition expect_dot :: "string \<Rightarrow> string option" where
  "expect_dot p = (case p of c # cs \<Rightarrow> if c = CHR ''.'' then Some cs else None | [] \<Rightarrow> None)"

definition net_parse_ip :: "string option \<Rightarrow> u32 option" where
  "net_parse_ip str =
     (case str of
        None \<Rightarrow> None
      | Some s \<Rightarrow>
          let (a, p1) = parse_octet s 0 in
          case expect_dot p1 of None \<Rightarrow> None | Some p1' \<Rightarrow>
          let (b, p2) = parse_octet p1' 0 in
          case expect_dot p2 of None \<Rightarrow> None | Some p2' \<Rightarrow>
          let (c, p3) = parse_octet p2' 0 in
          case expect_dot p3 of None \<Rightarrow> None | Some p3' \<Rightarrow>
          let (d, p4) = parse_octet p3' 0 in
          Some (push_bit 24 a OR push_bit 16 b OR push_bit 8 c OR d))"

definition digit :: "u32 \<Rightarrow> char" where
  "digit v = char_of (48 + unat v)"

definition octet_str :: "u32 \<Rightarrow> string" where
  "octet_str oct =
     (if oct \<ge> 100 then [digit (oct div 100)] else []) @
     (if oct \<ge> 10 then [digit ((oct div 10) mod 10)] else []) @ [digit (oct mod 10)]"

definition octet :: "u32 \<Rightarrow> nat \<Rightarrow> u32" where
  "octet ip s = drop_bit (s * 8) ip AND 0xFF"

text \<open>\<open>None\<close>: the buffer is left alone.\<close>

definition net_ip_to_str :: "u32 \<Rightarrow> int \<Rightarrow> string option" where
  "net_ip_to_str ip mx =
     (if mx < 8 then None
      else
        let tmp = octet_str (octet ip 3) @ ''.'' @ octet_str (octet ip 2) @ ''.'' @
                  octet_str (octet ip 1) @ ''.'' @ octet_str (octet ip 0)
        in Some (str_copy (nat mx) tmp))"

section \<open>The receive ring\<close>

definition RX_SLOTS :: nat where "RX_SLOTS = 8"
definition NET_MAX_PAYLOAD :: nat where "NET_MAX_PAYLOAD = 1400"

record rx_slot =
  src_ip :: u32
  src_port :: u16
  rx_len :: u16
  rx_data :: "u8 list"

record net_state =
  rx_ring :: "rx_slot list"
  rx_head :: nat
  rx_tail :: nat
  net_up :: bool

definition net_zero :: net_state where
  "net_zero = \<lparr>rx_ring = replicate RX_SLOTS \<lparr>src_ip = 0, src_port = 0, rx_len = 0, rx_data = replicate NET_MAX_PAYLOAD 0\<rparr>,
               rx_head = 0, rx_tail = 0, net_up = False\<rparr>"

definition ring_push :: "u32 \<Rightarrow> u16 \<Rightarrow> u8 list \<Rightarrow> u16 \<Rightarrow> net_state \<Rightarrow> net_state option" where
  "ring_push sip sport data len st =
     (let next = (rx_tail st + 1) mod RX_SLOTS in
      if next = rx_head st then Some st
      else
        let slot = rx_ring st ! rx_tail st;
            n = min (unat len) NET_MAX_PAYLOAD
        in if length data < n then None
           else Some (st\<lparr>rx_ring := (rx_ring st)[rx_tail st :=
                          \<lparr>src_ip = sip, src_port = sport, rx_len = len,
                           rx_data = take n data @ drop n (rx_data slot)\<rparr>],
                        rx_tail := next\<rparr>))"

definition net_init :: "net_state \<Rightarrow> net_state" where
  "net_init st = st\<lparr>rx_head := 0, rx_tail := 0, net_up := True\<rparr>"

definition net_shutdown :: "net_state \<Rightarrow> net_state" where
  "net_shutdown st = st\<lparr>net_up := False\<rparr>"

definition datagram :: "u32 \<Rightarrow> u16 \<Rightarrow> u8 list \<Rightarrow> u16 \<Rightarrow> u8 list" where
  "datagram dst_ip dst_port data len =
     [of_char CHR ''A'', of_char CHR ''S'', of_char CHR ''M'',
      ucast (octet dst_ip 3), ucast (octet dst_ip 2), ucast (octet dst_ip 1), ucast (octet dst_ip 0),
      ucast (dst_port AND 0xFF), ucast (drop_bit 8 dst_port),
      ucast (len AND 0xFF), ucast (drop_bit 8 len)] @ take (min (unat len) (32 + NET_MAX_PAYLOAD - 11)) data"

definition net_udp_send ::
  "'w net_ops \<Rightarrow> u32 \<Rightarrow> u16 \<Rightarrow> u8 list \<Rightarrow> u16 \<Rightarrow> net_state \<Rightarrow> 'w \<Rightarrow> (net_state \<times> 'w \<times> int) option" where
  "net_udp_send ops dst_ip dst_port data len st w =
     (if \<not> net_up st then Some (st, w, -1)
      else if length data < min (unat len) (32 + NET_MAX_PAYLOAD - 11) then None
      else
        let w1 = fst (no_send ops (datagram dst_ip dst_port data len) w) in
        if dst_ip = no_ip ops w1 \<or> dst_ip = 0x7F000001 then
          map_option (\<lambda>st1. (st1, w1, int (unat len))) (ring_push (no_ip ops w1) dst_port data len st)
        else Some (st, w1, int (unat len)))"

definition accept_raw :: "int \<Rightarrow> u8 list \<Rightarrow> net_state \<Rightarrow> net_state option" where
  "accept_raw n raw st =
     (if n \<ge> 11 \<and> raw ! 0 = of_char CHR ''A'' \<and> raw ! 1 = of_char CHR ''S'' \<and> raw ! 2 = of_char CHR ''M'' then
        let sip = push_bit 24 (ucast (raw ! 3)) OR push_bit 16 (ucast (raw ! 4)) OR
                  push_bit 8 (ucast (raw ! 5)) OR ucast (raw ! 6);
            sport = ucast (raw ! 7) OR push_bit 8 (ucast (raw ! 8));
            plen = ucast (raw ! 9) OR push_bit 8 (ucast (raw ! 10)) :: u16
        in if 11 + unat plen \<le> nat (n mod 65536) then ring_push sip sport (drop 11 raw) plen st
           else Some st
      else Some st)"

text \<open>Taking the oldest datagram copies \<open>cpy\<close> bytes out of a slot that holds 1400.\<close>

definition ring_pop :: "u16 \<Rightarrow> net_state \<Rightarrow> (net_state \<times> int \<times> (u32 \<times> u16 \<times> u8 list) option) option" where
  "ring_pop max_len st =
     (if rx_head st = rx_tail st then Some (st, 0, None)
      else
        let s = rx_ring st ! rx_head st;
            cpy = (if rx_len s > max_len then max_len else rx_len s)
        in if length (rx_data s) < unat cpy then None
           else Some (st\<lparr>rx_head := (rx_head st + 1) mod RX_SLOTS\<rparr>, int (unat cpy),
                      Some (src_ip s, src_port s, take (unat cpy) (rx_data s))))"

definition net_udp_recv ::
  "'w net_ops \<Rightarrow> u16 \<Rightarrow> net_state \<Rightarrow> 'w \<Rightarrow> (net_state \<times> 'w \<times> int \<times> (u32 \<times> u16 \<times> u8 list) option) option" where
  "net_udp_recv ops max_len st w =
     (if \<not> net_up st then Some (st, w, -1, None)
      else
        (case no_recv ops 1536 w of
           (w1, n, raw) \<Rightarrow>
             (case accept_raw n raw st of
                None \<Rightarrow> None
              | Some st1 \<Rightarrow> map_option (\<lambda>(st2, rc, r). (st2, w1, rc, r)) (ring_pop max_len st1))))"

fun ping_loop :: "nat \<Rightarrow> 'w net_ops \<Rightarrow> net_state \<Rightarrow> 'w \<Rightarrow> (net_state \<times> 'w \<times> bool) option" where
  "ping_loop 0 ops st w = Some (st, w, False)"
| "ping_loop (Suc tries) ops st w =
     (case net_udp_recv ops 16 st w of
        None \<Rightarrow> None
      | Some (st1, w1, n, r) \<Rightarrow>
          if n \<ge> 4 \<and> (case r of Some (_, _, d) \<Rightarrow> d ! 0 = of_char CHR ''P'' | None \<Rightarrow> False)
          then Some (st1, w1, True)
          else ping_loop tries ops st1 (no_delay ops w1))"

definition net_ping ::
  "'w net_ops \<Rightarrow> string option \<Rightarrow> net_state \<Rightarrow> 'w \<Rightarrow> (net_state \<times> 'w \<times> int \<times> u32 option) option" where
  "net_ping ops host st w =
     (case net_parse_ip host of
        None \<Rightarrow> Some (st, w, -1, None)
      | Some ip \<Rightarrow>
          (case no_ticks ops w of (w1, start) \<Rightarrow>
          (case net_udp_send ops ip 0 (map of_char ''PING'') 4 st w1 of
             None \<Rightarrow> None
           | Some (st1, w2, _) \<Rightarrow>
               (case ping_loop 1000 ops st1 w2 of
                  None \<Rightarrow> None
                | Some (st2, w3, True) \<Rightarrow>
                    (case no_ticks ops w3 of (w4, now) \<Rightarrow> Some (st2, w4, 0, Some (now - start)))
                | Some (st2, w3, False) \<Rightarrow> Some (st2, w3, -1, None)))))"

section \<open>Streams\<close>

record net_stream =
  ns_host :: u32
  ns_port :: u16
  ns_open :: bool

text \<open>A stream handle is its index in the pool of two; \<open>None\<close> is NULL.\<close>

definition net_connect :: "string option \<Rightarrow> u16 \<Rightarrow> net_stream list \<Rightarrow> net_stream list \<times> nat option" where
  "net_connect host port pool =
     (case List.find (\<lambda>i. \<not> ns_open (pool ! i)) [0, 1] of
        None \<Rightarrow> (pool, None)
      | Some i \<Rightarrow>
          (case net_parse_ip host of
             None \<Rightarrow> (pool, None)
           | Some ip \<Rightarrow> (pool[i := \<lparr>ns_host = ip, ns_port = port, ns_open = True\<rparr>], Some i)))"

definition net_stream_send ::
  "'w net_ops \<Rightarrow> nat option \<Rightarrow> u8 list \<Rightarrow> u32 \<Rightarrow> net_stream list \<Rightarrow> net_state \<Rightarrow> 'w \<Rightarrow> (net_state \<times> 'w \<times> int) option" where
  "net_stream_send ops s data len pool st w =
     (case s of
        None \<Rightarrow> Some (st, w, -1)
      | Some i \<Rightarrow>
          if \<not> ns_open (pool ! i) then Some (st, w, -1)
          else net_udp_send ops (ns_host (pool ! i)) (ns_port (pool ! i)) data (ucast len) st w)"

definition net_stream_recv ::
  "'w net_ops \<Rightarrow> nat option \<Rightarrow> u32 \<Rightarrow> net_stream list \<Rightarrow> net_state \<Rightarrow> 'w \<Rightarrow>
     (net_state \<times> 'w \<times> int \<times> (u32 \<times> u16 \<times> u8 list) option) option" where
  "net_stream_recv ops s max_len pool st w =
     (case s of
        None \<Rightarrow> Some (st, w, -1, None)
      | Some i \<Rightarrow>
          if \<not> ns_open (pool ! i) then Some (st, w, -1, None)
          else net_udp_recv ops (ucast max_len) st w)"

definition net_stream_close :: "nat option \<Rightarrow> net_stream list \<Rightarrow> net_stream list" where
  "net_stream_close s pool =
     (case s of None \<Rightarrow> pool | Some i \<Rightarrow> pool[i := (pool ! i)\<lparr>ns_open := False\<rparr>])"

section \<open>Internet checksum and echo request\<close>

fun sum16 :: "u8 list \<Rightarrow> nat \<Rightarrow> nat" where
  "sum16 (a # b # rest) acc = sum16 rest ((acc + (unat a + 256 * unat b)) mod 2 ^ 32)"
| "sum16 [a] acc = (acc + unat a) mod 2 ^ 32"
| "sum16 [] acc = acc"

function fold16 :: "nat \<Rightarrow> nat" where
  "fold16 acc = (if acc div 65536 \<noteq> 0 then fold16 (acc mod 65536 + acc div 65536) else acc)"
  by pat_completeness auto
termination
proof (relation "measure id")
  fix acc :: nat assume "acc div 65536 \<noteq> 0"
  moreover have "acc = 65536 * (acc div 65536) + acc mod 65536" by simp
  ultimately have "acc mod 65536 + acc div 65536 < acc" by linarith
  then show "(acc mod 65536 + acc div 65536, acc) \<in> measure id" by simp
qed simp

declare fold16.simps [simp del]

definition inet_checksum :: "u8 list \<Rightarrow> u16" where
  "inet_checksum data = NOT (of_nat (fold16 (sum16 data 0)))"

text \<open>
  The packet buffer is an uninitialised local; the fields tos, id and frag keep
  whatever bytes it held.
\<close>

definition ping_packet :: "u8 list \<Rightarrow> u32 \<Rightarrow> u32 \<Rightarrow> u8 list" where
  "ping_packet pkt0 src dst =
     (let p1 = pkt0[0 := 0x45, 8 := 64, 9 := 1];
          p2 = put16 10 0 (put16 2 28 (put32 16 dst (put32 12 src p1)));
          p3 = put16 10 (inet_checksum (take 20 p2)) p2;
          p4 = put16 22 0 (put16 26 1 (put16 24 0x4D4F (p3[20 := 8, 21 := 0])));
          p5 = put16 22 (inet_checksum (take 8 (drop 20 p4))) p4
      in p5)"

fun icmp_wait :: "nat \<Rightarrow> 'w net_ops \<Rightarrow> 'w \<Rightarrow> 'w \<times> bool" where
  "icmp_wait 0 ops w = (w, False)"
| "icmp_wait (Suc tries) ops w =
     (case no_recv ops 128 w of
        (w1, n, rx) \<Rightarrow>
          if n \<ge> 28 \<and> rx ! 20 = 0 then (w1, True) else icmp_wait tries ops (no_delay ops w1))"

definition net_icmp_ping :: "'w net_ops \<Rightarrow> u8 list \<Rightarrow> u32 \<Rightarrow> 'w \<Rightarrow> 'w \<times> int \<times> u32 option" where
  "net_icmp_ping ops pkt0 dst_ip w =
     (let pkt = ping_packet pkt0 (no_ip ops w) dst_ip in
      case no_ticks ops w of (w1, start) \<Rightarrow>
      case icmp_wait 2000 ops (fst (no_send ops (take 28 pkt) w1)) of
        (w2, False) \<Rightarrow> (w2, -1, None)
      | (w2, True) \<Rightarrow> (case no_ticks ops w2 of (w3, now) \<Rightarrow> (w3, 0, Some (now - start))))"

section \<open>Printing and parsing addresses\<close>

lemma digit_props:
  assumes "unat d < 10"
  shows "is_digit (digit d)" "of_char (digit d) - 48 = (d :: u32)" "digit d \<noteq> NUL"
proof -
  have n: "of_char (digit d) = 48 + unat d" using assms by (simp add: digit_def)
  then show "is_digit (digit d)" using assms by (simp add: is_digit_def)
  have "(of_char (digit d) :: u32) = of_nat (of_char (digit d))" by (simp add: of_nat_of_char)
  then show "of_char (digit d) - 48 = (d :: u32)" by (simp only: n) simp
  show "digit d \<noteq> NUL"
  proof
    assume "digit d = NUL"
    then have "(of_char (digit d) :: nat) = 0" by simp
    then show False using n by simp
  qed
qed

lemma parse_digit:
  "unat d < 10 \<Longrightarrow> parse_octet (digit d # cs) v = parse_octet cs (v * 10 + d)"
  by (simp add: digit_props)

lemma parse_stop: "cs = [] \<or> hd cs = CHR ''.'' \<Longrightarrow> parse_octet cs v = (v, cs)"
  by (cases cs) (auto simp: is_digit_def)

lemma octet_value:
  assumes "unat v < 256"
  shows "v \<ge> 100 \<Longrightarrow> (v div 100 * 10 + v div 10 mod 10) * 10 + v mod 10 = (v :: u32)"
    and "\<not> v \<ge> 100 \<Longrightarrow> v div 10 mod 10 * 10 + v mod 10 = v"
    and "\<not> v \<ge> 10 \<Longrightarrow> v mod 10 = v"
proof -
  let ?n = "unat v"
  have q: "?n div 100 * 10 + ?n div 10 mod 10 = ?n div 10"
    using div_mult_mod_eq [of "?n div 10" 10] by (simp add: div_mult2_eq [symmetric])
  have u: "unat (v div 100) = ?n div 100" "unat (v div 10) = ?n div 10" "unat (v div 10 mod 10) = ?n div 10 mod 10"
    "unat (v mod 10) = ?n mod 10" by (simp_all add: unat_div unat_mod)
  have b: "?n div 100 \<le> 2" "?n div 10 mod 10 < 10" "?n mod 10 < 10" using assms by linarith+
  have "unat (v div 100 * 10 + v div 10 mod 10) = ?n div 100 * 10 + ?n div 10 mod 10"
    using b by (simp add: unat_word_ariths u del: unat_div unat_mod)
  moreover from this have "unat ((v div 100 * 10 + v div 10 mod 10) * 10 + v mod 10) = ?n"
    using b q assms by (simp only: unat_word_ariths u) simp
  ultimately show "v \<ge> 100 \<Longrightarrow> (v div 100 * 10 + v div 10 mod 10) * 10 + v mod 10 = v"
    by (simp only: word_unat_eq_iff)
  have "?n div 10 mod 10 = ?n div 10" if "?n < 100" using that by simp
  then have "unat (v div 10 mod 10 * 10 + v mod 10) = ?n" if "?n < 100"
    using that b by (simp only: unat_word_ariths u) simp
  then show "\<not> v \<ge> 100 \<Longrightarrow> v div 10 mod 10 * 10 + v mod 10 = v"
    by (simp only: word_unat_eq_iff word_le_nat_alt not_le) simp
  have "unat (v mod 10) = ?n" if "?n < 10" using that u(4) by simp
  then show "\<not> v \<ge> 10 \<Longrightarrow> v mod 10 = v"
    by (simp only: word_unat_eq_iff word_le_nat_alt not_le) simp
qed

lemma parse_octet_str:
  assumes v: "unat v < 256" and rest: "rest = [] \<or> hd rest = CHR ''.''"
  shows "parse_octet (octet_str v @ rest) 0 = (v, rest)"
proof -
  have d: "unat (v div 100) < 10" "unat (v div 10 mod 10) < 10" "unat (v mod 10) < 10"
    using v by (simp_all add: unat_div unat_mod)
  note p = parse_digit [OF d(1)] parse_digit [OF d(2)] parse_digit [OF d(3)] parse_stop [OF rest]
  consider "v \<ge> 100" "v \<ge> 10" | "\<not> v \<ge> 100" "v \<ge> 10" | "\<not> v \<ge> 100" "\<not> v \<ge> 10"
    by (fastforce simp: word_le_nat_alt)
  then show ?thesis
  proof cases
    case 1
    then show ?thesis using octet_value(1) [OF v]
      by (simp only: octet_str_def if_P if_True append.simps append_Cons p) (simp only: mult_zero_left add_0_left not_False_eq_True)
  next
    case 2
    then show ?thesis using octet_value(2) [OF v]
      by (simp only: octet_str_def if_True if_False append.simps append_Cons p) (simp only: mult_zero_left add_0_left not_False_eq_True)
  next
    case 3
    then show ?thesis using octet_value(3) [OF v]
      by (simp only: octet_str_def if_False append.simps append_Cons p) (simp only: mult_zero_left add_0_left not_False_eq_True)
  qed
qed

lemma octet_bound: "unat (octet ip s) < 256"
proof -
  have "octet ip s \<le> 0xFF" unfolding octet_def by (rule word_and_le1)
  then show ?thesis by (simp add: word_le_nat_alt)
qed

lemma octets_join: "push_bit 24 (octet ip 3) OR push_bit 16 (octet ip 2) OR push_bit 8 (octet ip 1) OR octet ip 0 = ip"
proof (rule bit_word_eqI)
  fix n assume n: "n < LENGTH(32)"
  have m: "(0xFF :: u32) = mask 8" by (simp add: mask_eq_exp_minus_1)
  consider "n < 8" | "8 \<le> n \<and> n < 16" | "16 \<le> n \<and> n < 24" | "24 \<le> n" by linarith
  then show "bit (push_bit 24 (octet ip 3) OR push_bit 16 (octet ip 2) OR push_bit 8 (octet ip 1) OR octet ip 0) n = bit ip n"
    using n unfolding octet_def m by cases (auto simp: bit_simps)
qed

lemma octet_str_chars: "unat v < 256 \<Longrightarrow> NUL \<notin> set (octet_str v) \<and> length (octet_str v) \<le> 3"
proof -
  assume v: "unat v < 256"
  have d: "unat (v div 100) < 10" "unat (v div 10 mod 10) < 10" "unat (v mod 10) < 10"
    using v by (simp_all add: unat_div unat_mod)
  show ?thesis using digit_props(3) [OF d(1)] digit_props(3) [OF d(2)] digit_props(3) [OF d(3)]
    by (auto simp: octet_str_def)
qed

text \<open>
  C26: Printing an IPv4 address into a buffer of at least 16 bytes and parsing the
  result gives the address back, for every address.
\<close>
theorem ip_print_parse:
  assumes "16 \<le> mx"
  shows "\<exists>s. net_ip_to_str ip mx = Some s \<and> net_parse_ip (Some s) = Some ip"
proof -
  let ?o = "\<lambda>s. octet_str (octet ip s)"
  let ?t = "?o 3 @ ''.'' @ ?o 2 @ ''.'' @ ?o 1 @ ''.'' @ ?o 0"
  have n: "NUL \<notin> set ?t" "length ?t \<le> 15"
    using octet_str_chars [OF octet_bound, of ip 0] octet_str_chars [OF octet_bound, of ip 1]
      octet_str_chars [OF octet_bound, of ip 2] octet_str_chars [OF octet_bound, of ip 3] by auto
  then have "str_copy (nat mx) ?t = ?t" using assms by (simp add: str_copy_take cstr_id)
  then have "net_ip_to_str ip mx = Some ?t" using assms by (simp add: net_ip_to_str_def Let_def)
  moreover have "net_parse_ip (Some ?t) = Some ip"
    using octets_join [of ip]
    by (simp add: net_parse_ip_def parse_octet_str [OF octet_bound] expect_dot_def
        parse_octet_str [OF octet_bound, where rest = "[]", simplified])
  ultimately show ?thesis by blast
qed

theorem ip_print_parse_witness:
  "\<exists>s. net_ip_to_str 0x0A000002 16 = Some s \<and> net_parse_ip (Some s) = Some 0x0A000002"
  by (rule ip_print_parse) simp

section \<open>The receive ring is a bounded queue\<close>

text \<open>
  Any interleaving of requests to put something into a buffer and to take something
  out of it: on the buffer itself, where a request may fail, and on a list of at most \<open>cap\<close> entries,
  where \<open>entry\<close> is what a request puts in and \<open>answer\<close> is what is reported of the oldest entry.
\<close>

datatype ('p, 'g) fifo_op = Put 'p | Get 'g

fun fifo_run :: "('p \<Rightarrow> 's \<Rightarrow> 's option) \<Rightarrow> ('g \<Rightarrow> 's \<Rightarrow> ('s \<times> 'o) option) \<Rightarrow> ('p, 'g) fifo_op list \<Rightarrow> 's \<Rightarrow> 'o list option" where
  "fifo_run put get [] st = Some []"
| "fifo_run put get (Put p # ops) st = (case put p st of None \<Rightarrow> None | Some st' \<Rightarrow> fifo_run put get ops st')"
| "fifo_run put get (Get g # ops) st =
     (case get g st of None \<Rightarrow> None | Some (st', out) \<Rightarrow> map_option ((#) out) (fifo_run put get ops st'))"

fun queue_run :: "nat \<Rightarrow> ('p \<Rightarrow> 'a) \<Rightarrow> ('g \<Rightarrow> 'a option \<Rightarrow> 'o) \<Rightarrow> ('p, 'g) fifo_op list \<Rightarrow> 'a list \<Rightarrow> 'o list" where
  "queue_run cap entry answer [] q = []"
| "queue_run cap entry answer (Put p # ops) q =
     queue_run cap entry answer ops (if length q < cap then q @ [entry p] else q)"
| "queue_run cap entry answer (Get g # ops) [] = answer g None # queue_run cap entry answer ops []"
| "queue_run cap entry answer (Get g # ops) (x # q) = answer g (Some x) # queue_run cap entry answer ops q"

locale bounded_fifo =
  fixes inv :: "'s \<Rightarrow> bool"
    and items :: "'s \<Rightarrow> 'a list"
    and put :: "'p \<Rightarrow> 's \<Rightarrow> 's option"
    and get :: "'g \<Rightarrow> 's \<Rightarrow> ('s \<times> 'o) option"
    and fits :: "'p \<Rightarrow> bool"
    and entry :: "'p \<Rightarrow> 'a"
    and answer :: "'g \<Rightarrow> 'a option \<Rightarrow> 'o"
    and capacity :: nat
  assumes put_items: "inv st \<Longrightarrow> fits p \<Longrightarrow>
      \<exists>st'. put p st = Some st' \<and> inv st' \<and> items st' = (if length (items st) < capacity then items st @ [entry p] else items st)"
    and get_empty: "inv st \<Longrightarrow> items st = [] \<Longrightarrow> get g st = Some (st, answer g None)"
    and get_first: "inv st \<Longrightarrow> items st = x # xs \<Longrightarrow>
      \<exists>st'. get g st = Some (st', answer g (Some x)) \<and> inv st' \<and> items st' = xs"
begin

lemma runs_as_queue:
  assumes "inv st" "\<forall>p. Put p \<in> set ops \<longrightarrow> fits p"
  shows "fifo_run put get ops st = Some (queue_run capacity entry answer ops (items st))"
  using assms
proof (induction ops arbitrary: st)
  case (Cons op ops)
  show ?case
  proof (cases op)
    case (Put p)
    then obtain st' where "put p st = Some st'" "inv st'"
      "items st' = (if length (items st) < capacity then items st @ [entry p] else items st)"
      using put_items [OF Cons.prems(1), of p] Cons.prems(2) by auto
    then show ?thesis using Cons.IH [of st'] Cons.prems(2) Put by simp
  next
    case (Get g)
    show ?thesis
    proof (cases "items st")
      case Nil
      then show ?thesis using Get get_empty [OF Cons.prems(1)] Cons.IH [of st] Cons.prems by simp
    next
      case (Cons x xs)
      then obtain st' where "get g st = Some (st', answer g (Some x))" "inv st'" "items st' = xs"
        using get_first [OF Cons.prems(1)] by blast
      then show ?thesis using Cons.IH [of st'] Cons.prems(2) Get Cons by simp
    qed
  qed
qed simp

end

type_synonym packet = "u32 \<times> u16 \<times> u8 list"

definition slot_ok :: "rx_slot \<Rightarrow> bool" where
  "slot_ok s \<longleftrightarrow> length (rx_data s) = 1400 \<and> unat (rx_len s) \<le> 1400"

definition ring_inv :: "net_state \<Rightarrow> bool" where
  "ring_inv st \<longleftrightarrow> length (rx_ring st) = 8 \<and> rx_head st < 8 \<and> rx_tail st < 8 \<and> list_all slot_ok (rx_ring st)"

definition packet_of :: "rx_slot \<Rightarrow> packet" where
  "packet_of s = (src_ip s, src_port s, take (unat (rx_len s)) (rx_data s))"

definition queued :: "net_state \<Rightarrow> nat" where
  "queued st = (rx_tail st + 8 - rx_head st) mod 8"

definition packets :: "net_state \<Rightarrow> packet list" where
  "packets st = map (\<lambda>k. packet_of (rx_ring st ! ((rx_head st + k) mod 8))) [0..<queued st]"

text \<open>
  What the queue of the specification says of the ring: the requests are the
  arguments of ring_push and ring_pop, an entry is the sender with the
  announced number of bytes, and taking it reports the bytes that fit the receive buffer.
\<close>

type_synonym push = "u32 \<times> u16 \<times> u8 list \<times> u16"

definition push_entry :: "push \<Rightarrow> packet" where
  "push_entry p = (case p of (ip, port, data, len) \<Rightarrow> (ip, port, take (unat len) data))"

definition pop_answer :: "u16 \<Rightarrow> packet option \<Rightarrow> int \<times> packet option" where
  "pop_answer mx x =
     (case x of None \<Rightarrow> (0, None)
      | Some (ip, port, d) \<Rightarrow> (int (min (length d) (unat mx)), Some (ip, port, take (unat mx) d)))"

definition push_fits :: "push \<Rightarrow> bool" where
  "push_fits p \<longleftrightarrow> (case p of (ip, port, data, len) \<Rightarrow> unat len \<le> 1400 \<and> unat len \<le> length data)"

definition do_push :: "push \<Rightarrow> net_state \<Rightarrow> net_state option" where
  "do_push p = (case p of (ip, port, data, len) \<Rightarrow> ring_push ip port data len)"

lemma ring_diff: "h < 8 \<Longrightarrow> t < 8 \<Longrightarrow> (t + 8 - h) mod 8 = (if h \<le> t then t - h else t + 8 - h :: nat)"
proof (cases "h \<le> t")
  case True
  then have "t + 8 - h = (t - h) + 8" by simp
  then have "(t + 8 - h) mod 8 = (t - h) mod 8" by (simp only: mod_add_self2)
  moreover assume "t < 8"
  ultimately show ?thesis using True by simp
qed simp

lemma ring_succ: "t < 8 \<Longrightarrow> (t + 1) mod 8 = (if t = 7 then 0 else t + 1 :: nat)"
  by auto

lemma ring_index:
  assumes "h < 8" "t < 8"
  shows "(t + 1) mod 8 = h \<longleftrightarrow> (t + 8 - h) mod 8 = 7"
    "(t + 1) mod 8 \<noteq> h \<Longrightarrow> ((t + 1) mod 8 + 8 - h) mod 8 = (t + 8 - h) mod 8 + 1"
    "(h + (t + 8 - h) mod 8) mod 8 = t" "t = h \<longleftrightarrow> (t + 8 - h) mod 8 = (0 :: nat)"
    "t \<noteq> h \<Longrightarrow> (t + 8 - (h + 1) mod 8) mod 8 = (t + 8 - h) mod 8 - 1"
proof -
  define t' h' where "t' = (t + 1) mod 8" and "h' = (h + 1) mod 8"
  have b: "t' < 8" "h' < 8" by (simp_all add: t'_def h'_def)
  have n: "t' = (if t = 7 then 0 else t + 1)" "h' = (if h = 7 then 0 else h + 1)"
    using assms ring_succ by (simp_all add: t'_def h'_def)
  note d = ring_diff [OF assms] ring_diff [OF assms(1) b(1)] ring_diff [OF b(2) assms(2)]
  show "(t + 1) mod 8 = h \<longleftrightarrow> (t + 8 - h) mod 8 = 7"
    unfolding t'_def [symmetric] d using n(1) assms by auto
  show "(t + 1) mod 8 \<noteq> h \<Longrightarrow> ((t + 1) mod 8 + 8 - h) mod 8 = (t + 8 - h) mod 8 + 1"
    unfolding t'_def [symmetric] d using n(1) assms by (auto split: if_splits)
  show "(h + (t + 8 - h) mod 8) mod 8 = t" unfolding d(1) using assms by auto
  show "t = h \<longleftrightarrow> (t + 8 - h) mod 8 = 0" unfolding d(1) using assms by auto
  show "t \<noteq> h \<Longrightarrow> (t + 8 - (h + 1) mod 8) mod 8 = (t + 8 - h) mod 8 - 1"
    unfolding h'_def [symmetric] d using n(2) assms by (auto split: if_splits)
qed

lemma ring_distinct:
  assumes "h < 8" "j < k" "k < 8"
  shows "(h + j) mod 8 \<noteq> (h + k) mod (8 :: nat)"
proof
  assume "(h + j) mod 8 = (h + k) mod 8"
  then have "8 dvd k - j" using assms(2) mod_eq_dvd_iff_nat [of "h + j" "h + k" 8] by simp
  then show False using assms dvd_imp_le [of 8 "k - j"] by simp
qed

lemma ring_push_items:
  assumes inv: "ring_inv st" and len: "unat len \<le> 1400" "unat len \<le> length data"
  shows "\<exists>st'. ring_push ip port data len st = Some st' \<and> ring_inv st' \<and> net_up st' = net_up st \<and>
    packets st' = (if length (packets st) < 7 then packets st @ [(ip, port, take (unat len) data)] else packets st)"
proof -
  let ?h = "rx_head st" and ?t = "rx_tail st"
  have b: "?h < 8" "?t < 8" "length (rx_ring st) = 8" using inv by (auto simp: ring_inv_def)
  have lq: "length (packets st) = queued st" by (simp add: packets_def)
  have q8: "queued st < 8" by (simp add: queued_def)
  show ?thesis
  proof (cases "(?t + 1) mod 8 = ?h")
    case True
    then have "queued st = 7" using ring_index(1) [OF b(1,2)] by (simp add: queued_def)
    then show ?thesis using True inv lq by (simp add: ring_push_def RX_SLOTS_def)
  next
    case False
    let ?s = "\<lparr>src_ip = ip, src_port = port, rx_len = len,
                rx_data = take (unat len) data @ drop (unat len) (rx_data (rx_ring st ! ?t))\<rparr>"
    let ?st = "st\<lparr>rx_ring := (rx_ring st)[?t := ?s], rx_tail := (?t + 1) mod 8\<rparr>"
    have q: "queued st \<noteq> 7" using False ring_index(1) [OF b(1,2)] by (simp add: queued_def)
    have push: "ring_push ip port data len st = Some ?st"
      using False len by (simp add: ring_push_def RX_SLOTS_def NET_MAX_PAYLOAD_def Let_def min_def)
    have "slot_ok (rx_ring st ! ?t)" using inv b by (simp add: ring_inv_def list_all_length)
    then have "slot_ok ?s" using len by (simp add: slot_ok_def)
    then have inv': "ring_inv ?st"
      using inv b by (auto simp: ring_inv_def list_all_length nth_list_update)
    have q': "queued ?st = queued st + 1" using ring_index(2) [OF b(1,2) False] by (simp add: queued_def)
    have t: "(?h + queued st) mod 8 = ?t" using ring_index(3) [OF b(1,2)] by (simp add: queued_def)
    have "?t \<noteq> (?h + k) mod 8" if "k < queued st" for k
      using ring_distinct [OF b(1) that q8] t by simp
    then have "map (\<lambda>k. packet_of ((rx_ring st)[?t := ?s] ! ((?h + k) mod 8))) [0..<queued st] = packets st"
      unfolding packets_def by (intro map_cong) auto
    then have "packets ?st = packets st @ [packet_of ?s]"
      using b t by (simp add: packets_def q' [simplified])
    moreover have "packet_of ?s = (ip, port, take (unat len) data)"
      using len by (simp add: packet_of_def)
    ultimately show ?thesis using push inv' q q8 lq by simp
  qed
qed

lemma ring_pop_items:
  assumes inv: "ring_inv st"
  shows "packets st = [] \<Longrightarrow> ring_pop mx st = Some (st, 0, None)"
    and "packets st = (ip, port, d) # ps \<Longrightarrow>
      \<exists>st'. ring_pop mx st = Some (st', int (min (length d) (unat mx)), Some (ip, port, take (unat mx) d)) \<and>
        ring_inv st' \<and> packets st' = ps \<and> net_up st' = net_up st"
proof -
  let ?h = "rx_head st" and ?t = "rx_tail st"
  have b: "?h < 8" "?t < 8" "length (rx_ring st) = 8" using inv by (auto simp: ring_inv_def)
  have e: "packets st = [] \<longleftrightarrow> ?t = ?h"
    using ring_index(4) [OF b(1,2)] by (simp add: packets_def queued_def)
  show "packets st = [] \<Longrightarrow> ring_pop mx st = Some (st, 0, None)" using e by (simp add: ring_pop_def)
  assume p: "packets st = (ip, port, d) # ps"
  then have ne: "?t \<noteq> ?h" using e by simp
  then have q: "queued st \<noteq> 0" using ring_index(4) [OF b(1,2)] by (simp add: queued_def)
  let ?s = "rx_ring st ! ?h"
  let ?st = "st\<lparr>rx_head := (?h + 1) mod 8\<rparr>"
  have ok: "slot_ok ?s" using inv b by (simp add: ring_inv_def list_all_length)
  have q': "queued ?st = queued st - 1" using ring_index(5) [OF b(1,2) ne] by (simp add: queued_def)
  have "packets st = packet_of ?s # map (\<lambda>k. packet_of (rx_ring st ! ((?h + Suc k) mod 8))) [0..<queued st - 1]"
    using q b by (cases "queued st") (auto simp: packets_def upt_conv_Cons map_Suc_upt [symmetric] simp del: upt_Suc)
  moreover have "packets ?st = map (\<lambda>k. packet_of (rx_ring st ! ((?h + Suc k) mod 8))) [0..<queued st - 1]"
    by (simp add: packets_def q' [simplified] mod_simps)
  ultimately have ps: "packet_of ?s = (ip, port, d)" "packets ?st = ps" using p by auto
  then have d: "d = take (unat (rx_len ?s)) (rx_data ?s)" "ip = src_ip ?s" "port = src_port ?s"
    by (auto simp: packet_of_def)
  let ?c = "if rx_len ?s > mx then mx else rx_len ?s"
  have c: "unat ?c = min (length d) (unat mx)"
    using ok d(1) by (auto simp: slot_ok_def word_less_nat_alt min_def)
  have "ring_pop mx st = Some (?st, int (unat ?c), Some (ip, port, take (unat ?c) (rx_data ?s)))"
    using ne ok d by (auto simp: ring_pop_def Let_def RX_SLOTS_def slot_ok_def word_less_nat_alt)
  moreover have "take (unat ?c) (rx_data ?s) = take (unat mx) d"
    using c d(1) ok by (auto simp: slot_ok_def min_def take_all_iff)
  moreover have "ring_inv ?st" using inv by (simp add: ring_inv_def)
  ultimately show "\<exists>st'. ring_pop mx st = Some (st', int (min (length d) (unat mx)), Some (ip, port, take (unat mx) d)) \<and>
        ring_inv st' \<and> packets st' = ps \<and> net_up st' = net_up st"
    using c ps(2) by simp
qed

interpretation rx: bounded_fifo ring_inv packets do_push ring_pop push_fits push_entry pop_answer 7
proof
  fix st p assume "ring_inv st" "push_fits p"
  then show "\<exists>st'. do_push p st = Some st' \<and> ring_inv st' \<and>
      packets st' = (if length (packets st) < 7 then packets st @ [push_entry p] else packets st)"
    using ring_push_items [of st "snd (snd (snd p))" "fst (snd (snd p))" "fst p" "fst (snd p)"]
    by (cases p) (auto simp: push_fits_def do_push_def push_entry_def)
next
  fix st g assume "ring_inv st" "packets st = []"
  then show "ring_pop g st = Some (st, pop_answer g None)" using ring_pop_items(1) [of st g] by (simp add: pop_answer_def)
next
  fix st p ps g assume "ring_inv st" "packets st = p # ps"
  then show "\<exists>st'. ring_pop g st = Some (st', pop_answer g (Some p)) \<and> ring_inv st' \<and> packets st' = ps"
    using ring_pop_items(2) [of st "fst p" "fst (snd p)" "snd (snd p)" ps g] by (cases p) (auto simp: pop_answer_def)
qed

text \<open>
  C11: The receive ring is a first-in first-out queue of seven datagrams: after net_init, any
  interleaving of pushes of datagrams of at most 1400 bytes, each with at least the announced number of bytes,
  and of pops with receive buffers of any size never leaves the ring's arrays and reports exactly what
  a list reports to which a push appends if it holds fewer than seven datagrams (else the new one is
  dropped), and from which a pop takes the first one, cut to the receive buffer.
\<close>
theorem ring_fifo:
  assumes "ring_inv st"
    and "\<forall>ip port data len. Put (ip, port, data, len) \<in> set ops \<longrightarrow> unat len \<le> 1400 \<and> unat len \<le> length data"
  shows "fifo_run (\<lambda>(ip, port, data, len). ring_push ip port data len) ring_pop ops (net_init st) =
    Some (queue_run 7 (\<lambda>(ip, port, data, len). (ip, port, take (unat len) data))
      (\<lambda>mx x. case x of None \<Rightarrow> (0, None)
         | Some (ip, port, d) \<Rightarrow> (int (min (length d) (unat mx)), Some (ip, port, take (unat mx) d))) ops [])"
proof -
  have "ring_inv (net_init st)" "packets (net_init st) = []"
    using assms(1) by (auto simp: ring_inv_def net_init_def packets_def queued_def)
  moreover have "\<forall>p. Put p \<in> set ops \<longrightarrow> push_fits p" using assms(2) by (auto simp: push_fits_def)
  ultimately show ?thesis
    using rx.runs_as_queue [of "net_init st" ops] by (simp add: do_push_def [abs_def] push_entry_def [abs_def] pop_answer_def [abs_def])
qed

section \<open>Datagrams on the wire\<close>

lemma byte_join:
  "push_bit 24 (ucast (ucast (octet ip 3) :: u8)) OR push_bit 16 (ucast (ucast (octet ip 2) :: u8)) OR
   push_bit 8 (ucast (ucast (octet ip 1) :: u8)) OR ucast (ucast (octet ip 0) :: u8) = (ip :: u32)"
proof -
  have "ucast (ucast (octet ip s) :: u8) = octet ip s" for s
  proof (rule bit_word_eqI)
    fix n assume "n < LENGTH(32)"
    have m: "(0xFF :: u32) = mask 8" by (simp add: mask_eq_exp_minus_1)
    show "bit (ucast (ucast (octet ip s) :: u8) :: u32) n = bit (octet ip s) n"
      unfolding octet_def m by (auto simp: bit_simps)
  qed
  then show ?thesis using octets_join [of ip] by simp
qed

lemma word_join:
  fixes x :: u16
  shows "ucast (ucast (x AND 0xFF) :: u8) OR push_bit 8 (ucast (ucast (drop_bit 8 x) :: u8)) = x"
proof (rule bit_word_eqI)
  fix n assume n: "n < LENGTH(16)"
  have m: "(0xFF :: u16) = mask 8" by (simp add: mask_eq_exp_minus_1)
  show "bit (ucast (ucast (x AND 0xFF) :: u8) OR push_bit 8 (ucast (ucast (drop_bit 8 x) :: u8)) :: u16) n = bit x n"
    using n unfolding m by (cases "n < 8") (auto simp: bit_simps)
qed

lemma accept_datagram:
  assumes "unat len \<le> 1400" "length data = unat len"
  shows "accept_raw (11 + int (unat len)) (datagram ip port data len) st = ring_push ip port data len st"
proof -
  let ?r = "datagram ip port data len"
  have "(11 + int (unat len)) mod 65536 = 11 + int (unat len)"
    using assms(1) by (intro mod_pos_pos_trivial) linarith+
  then have n: "nat ((11 + int (unat len)) mod 65536) = 11 + unat len" by (simp only:)
  have dr: "drop 11 ?r = data" using assms by (simp add: datagram_def NET_MAX_PAYLOAD_def)
  have ip: "push_bit 24 (ucast (?r ! 3)) OR push_bit 16 (ucast (?r ! 4)) OR push_bit 8 (ucast (?r ! 5)) OR ucast (?r ! 6) = ip"
    using byte_join [of ip] by (simp add: datagram_def)
  have pl: "ucast (?r ! 7) OR push_bit 8 (ucast (?r ! 8)) = port"
    "ucast (?r ! 9) OR push_bit 8 (ucast (?r ! 10)) = len"
    using word_join by (simp_all add: datagram_def)
  have "?r ! 0 = of_char CHR ''A''" "?r ! 1 = of_char CHR ''S''" "?r ! 2 = of_char CHR ''M''"
    by (simp_all add: datagram_def)
  then show ?thesis unfolding accept_raw_def Let_def n dr ip pl by simp
qed

text \<open>
  A datagram of up to 1400 bytes built by net_udp_send and delivered by the
  device is put at the end of the queue with its address, port and payload intact
  (unless seven datagrams are waiting), and net_udp_recv hands out the oldest
  datagram, cut to the caller's buffer, and removes exactly that one.
\<close>
theorem udp_recv_fifo:
  assumes "ring_inv st" "net_up st" "unat len \<le> 1400" "length data = unat len"
    and "no_recv ops 1536 w = (w1, 11 + int (unat len), datagram ip port data len)"
  shows "\<exists>st2 sip sport d rest.
    (if length (packets st) < 7 then packets st @ [(ip, port, data)] else packets st) = (sip, sport, d) # rest \<and>
    net_udp_recv ops mx st w =
      Some (st2, w1, int (min (length d) (unat mx)), Some (sip, sport, take (unat mx) d)) \<and>
    ring_inv st2 \<and> net_up st2 \<and> packets st2 = rest"
proof -
  obtain st1 where st1: "ring_push ip port data len st = Some st1" "ring_inv st1" "net_up st1 = net_up st"
    "packets st1 = (if length (packets st) < 7 then packets st @ [(ip, port, data)] else packets st)"
    using ring_push_items [OF assms(1,3), of data ip port] assms(4) by auto
  have "packets st1 \<noteq> []" using st1(4) by (auto split: if_splits)
  then obtain sip sport d rest where q: "packets st1 = (sip, sport, d) # rest"
    by (metis list.exhaust prod_cases3)
  obtain st2 where st2: "ring_pop mx st1 = Some (st2, int (min (length d) (unat mx)), Some (sip, sport, take (unat mx) d))"
    "ring_inv st2" "packets st2 = rest" "net_up st2 = net_up st1"
    using ring_pop_items(2) [OF st1(2) q, of mx] by blast
  have acc: "accept_raw (11 + int (unat len)) (datagram ip port data len) st = Some st1"
    using accept_datagram [OF assms(3,4), of ip port st] st1(1) by (rule trans)
  have "net_udp_recv ops mx st w =
      Some (st2, w1, int (min (length d) (unat mx)), Some (sip, sport, take (unat mx) d))"
    unfolding net_udp_recv_def assms(5) prod.case acc option.case st2(1) using assms(2) by simp
  moreover have "net_up st2" using st2(4) st1(3) assms(2) by simp
  ultimately show ?thesis using st1(4) q st2(2,3) by metis
qed

text \<open>
  A received datagram that announces more than 1400 payload bytes makes
  net_udp_recv read past the slot it was stored in: the ring records the announced
  length but keeps only 1400 bytes, and a caller with a larger buffer copies them
  all.
\<close>
theorem udp_recv_overrun:
  assumes "ring_inv st" "net_up st" "packets st = []" "1400 < unat plen" "unat plen \<le> 1525" "length data = unat plen"
    and "no_recv ops 1536 w = (w1, 11 + int (unat plen), datagram ip port (take 1421 data) plen @ drop 1421 data)"
    and "unat plen \<le> unat mx"
  shows "net_udp_recv ops mx st w = None"
proof -
  let ?raw = "datagram ip port (take 1421 data) plen @ drop 1421 data"
  have b: "rx_head st < 8" "rx_tail st < 8" "length (rx_ring st) = 8" "list_all slot_ok (rx_ring st)"
    using assms(1) by (auto simp: ring_inv_def)
  have e: "rx_tail st = rx_head st"
    using assms(3) ring_index(4) [OF b(1,2)] by (simp add: packets_def queued_def)
  have dr: "drop 11 ?raw = data" using assms(5,6) by (simp add: datagram_def NET_MAX_PAYLOAD_def min_def)
  have "(11 + int (unat plen)) mod 65536 = 11 + int (unat plen)"
    using assms(5) by (intro mod_pos_pos_trivial) linarith+
  then have m: "nat ((11 + int (unat plen)) mod 65536) = 11 + unat plen" by (simp only:)
  have l: "ucast (?raw ! 9) OR push_bit 8 (ucast (?raw ! 10)) = plen"
    using word_join [of plen] by (simp add: datagram_def)
  have hd: "?raw ! 0 = of_char CHR ''A''" "?raw ! 1 = of_char CHR ''S''" "?raw ! 2 = of_char CHR ''M''"
    by (simp_all add: datagram_def)
  obtain sip sport where acc: "accept_raw (11 + int (unat plen)) ?raw st = ring_push sip sport data plen st"
    unfolding accept_raw_def Let_def dr m l using hd by auto
  have ne: "(rx_tail st + 1) mod 8 \<noteq> rx_head st" using ring_index(1) [OF b(1,2)] e by simp
  have slot: "slot_ok (rx_ring st ! rx_tail st)" using b by (simp add: list_all_length)
  obtain st1 where st1: "ring_push sip sport data plen st = Some st1" "rx_head st1 = rx_head st"
      "rx_tail st1 \<noteq> rx_head st" "rx_len (rx_ring st1 ! rx_head st) = plen"
      "length (rx_data (rx_ring st1 ! rx_head st)) = 1400"
    using ne assms(4,6) e b(2,3) slot
    by (auto simp: ring_push_def RX_SLOTS_def NET_MAX_PAYLOAD_def Let_def slot_ok_def)
  then have "ring_pop mx st1 = None"
    using assms(4,8) by (auto simp: ring_pop_def Let_def word_less_nat_alt)
  then show ?thesis
    unfolding net_udp_recv_def assms(7) prod.case acc st1(1) option.case using assms(2) by simp
qed

section \<open>Checksums verify\<close>

fun wsum :: "u8 list \<Rightarrow> nat" where
  "wsum (a # b # rest) = unat a + 256 * unat b + wsum rest"
| "wsum [a] = unat a"
| "wsum [] = 0"

lemma sum16_wsum: "acc + 65536 * length xs < 2 ^ 32 \<Longrightarrow> sum16 xs acc = acc + wsum xs"
proof (induction xs arbitrary: acc rule: wsum.induct)
  case (1 a b rest)
  have "unat a + 256 * unat b < 65536" using unat_u8_bound [of a] unat_u8_bound [of b] by linarith
  then show ?case using "1.IH" [of "acc + (unat a + 256 * unat b)"] "1.prems" by simp
next
  case (2 a)
  then show ?case using unat_u8_bound [of a] by simp
qed simp

lemma fold16_props: "fold16 s < 65536 \<and> fold16 s mod 65535 = s mod 65535 \<and> (0 < s \<longrightarrow> 0 < fold16 s)"
proof (induction s rule: fold16.induct)
  case (1 s)
  show ?case
  proof (cases "s div 65536 = 0")
    case True
    then show ?thesis by (subst (1 2 3) fold16.simps) (simp add: div_eq_0_iff)
  next
    case False
    let ?s = "s mod 65536 + s div 65536"
    have e: "fold16 s = fold16 ?s" using False by (subst fold16.simps) simp
    have "s = ?s + 65535 * (s div 65536)"
      using mult_div_mod_eq [of 65536 s] by linarith
    then have "s mod 65535 = ?s mod 65535" by (metis mod_mult_self2)
    moreover have "0 < ?s" using False by simp
    ultimately show ?thesis using 1 [OF False] e by simp
  qed
qed

lemma unat_bytes: "unat (ucast (v :: u16) :: u8) + 256 * unat (ucast (drop_bit 8 v) :: u8) = unat v"
proof -
  have "unat (drop_bit 8 v) = unat v div 256" by (simp add: drop_bit_eq_div unat_div)
  moreover have "unat v div 256 < 256" using unat_u16_bound [of v] by linarith
  ultimately have "unat (ucast (drop_bit 8 v) :: u8) = unat v div 256" by (simp add: unsigned_ucast_eq unsigned_take_bit_eq take_bit_eq_mod)
  moreover have "unat (ucast v :: u8) = unat v mod 256" by (simp add: unsigned_ucast_eq unsigned_take_bit_eq take_bit_eq_mod)
  ultimately show ?thesis by simp
qed

lemma wsum_put:
  "even i \<Longrightarrow> i + 1 < length p \<Longrightarrow> p ! i = 0 \<Longrightarrow> p ! (i + 1) = 0 \<Longrightarrow>
     wsum (put16 i v p) = wsum p + unat v"
proof (induction p arbitrary: i rule: wsum.induct)
  case (1 a b rest)
  show ?case
  proof (cases "i = 0")
    case True
    then show ?thesis using "1.prems" unat_bytes [of v] by (simp add: put16_def)
  next
    case False
    then obtain k where k: "i = Suc (Suc k)" using "1.prems"(1) by (metis even_Suc not0_implies_Suc odd_Suc_minus_one even_zero)
    then show ?thesis using "1.IH" [of k] "1.prems" by (simp add: put16_def)
  qed
qed (auto simp: put16_def)

lemma complement16: "f < 65536 \<Longrightarrow> NOT (of_nat f :: u16) = of_nat (65535 - f)"
  by (simp add: not_eq_complement of_nat_diff)

lemma checksum_verifies:
  assumes "length p \<le> 1500" "even i" "i + 1 < length p" "p ! i = 0" "p ! (i + 1) = 0"
  shows "inet_checksum (put16 i (inet_checksum p) p) = 0"
proof -
  let ?S = "wsum p" and ?f = "fold16 (wsum p)"
  have s: "sum16 p 0 = ?S" "sum16 (put16 i v p) 0 = ?S + unat v" for v
    using sum16_wsum [of 0 p] sum16_wsum [of 0 "put16 i v p"] wsum_put [OF assms(2-5)] assms(1) by simp_all
  have f: "?f < 65536" "?f mod 65535 = ?S mod 65535" "0 < ?S \<longrightarrow> 0 < ?f" using fold16_props [of ?S] by auto
  have u: "unat (inet_checksum p) = 65535 - ?f"
    using f(1) by (simp only: inet_checksum_def s(1) complement16 unat_of_nat) simp
  let ?T = "?S + (65535 - ?f)"
  have "(?T + ?f) mod 65535 = ?S mod 65535" using f(1) by simp
  then have "?f mod 65535 = (?T + ?f) mod 65535" using f(2) by simp
  then have T0: "65535 dvd ?T" using mod_eq_dvd_iff_nat [of ?f "?T + ?f" 65535] by simp
  have "0 < ?T" using f(1,3) by (cases "?S = 0") (auto simp: fold16.simps [of 0])
  then have "fold16 ?T = 65535" using fold16_props [of ?T] T0 by (auto elim!: dvdE)
  then have "inet_checksum (put16 i (inet_checksum p) p) = NOT (of_nat 65535)"
    by (simp only: inet_checksum_def [of "put16 i (inet_checksum p) p"] s(2) u)
  then show ?thesis by (simp add: complement16)
qed

lemma take_put16: "i + 1 < n \<Longrightarrow> take n (put16 i v p) = put16 i v (take n p)"
  by (simp add: put16_def take_update_swap)

lemma take_put16_beyond: "n \<le> i \<Longrightarrow> take n (put16 i v p) = take n p"
  by (simp add: put16_def)

lemma drop_put16: "n \<le> i \<Longrightarrow> drop n (put16 i v p) = put16 (i - n) v (drop n p)"
  by (simp add: put16_def drop_update_swap Suc_diff_le)

text \<open>
  C25: Whatever the packet buffer held, the echo request that net_icmp_ping sends
  carries correct checksums: both the 20-byte IP header and the 8-byte ICMP header
  verify (their checksum with the stored checksum in place is zero).
\<close>
theorem ping_checksums_verify:
  assumes "length pkt0 = 64"
  shows "inet_checksum (take 20 (ping_packet pkt0 src dst)) = 0 \<and>
    inet_checksum (take 8 (drop 20 (ping_packet pkt0 src dst))) = 0"
proof -
  define p2 where "p2 = put16 10 0 (put16 2 28 (put32 16 dst (put32 12 src (pkt0[0 := 0x45, 8 := 64, 9 := 1]))))"
  define p3 where "p3 = put16 10 (inet_checksum (take 20 p2)) p2"
  define p4 where "p4 = put16 22 0 (put16 26 1 (put16 24 0x4D4F (p3[20 := 8, 21 := 0])))"
  have pkt: "ping_packet pkt0 src dst = put16 22 (inet_checksum (take 8 (drop 20 p4))) p4"
    by (simp add: ping_packet_def p2_def p3_def p4_def Let_def)
  have len: "length p2 = 64" "length p3 = 64" "length p4 = 64"
    using assms by (simp_all add: p2_def p3_def p4_def)
  have "take 20 (ping_packet pkt0 src dst) = take 20 p3"
    by (simp add: pkt take_put16_beyond p4_def)
  also have "\<dots> = put16 10 (inet_checksum (take 20 p2)) (take 20 p2)"
    by (simp add: p3_def take_put16)
  finally have ip: "take 20 (ping_packet pkt0 src dst) = put16 10 (inet_checksum (take 20 p2)) (take 20 p2)" .
  have "p2 ! 10 = 0" "p2 ! 11 = 0" using assms by (simp_all add: p2_def put16_def)
  then have c1: "inet_checksum (put16 10 (inet_checksum (take 20 p2)) (take 20 p2)) = 0"
    using len by (intro checksum_verifies) simp_all
  let ?q = "take 8 (drop 20 p4)"
  have icmp: "take 8 (drop 20 (ping_packet pkt0 src dst)) = put16 2 (inet_checksum ?q) ?q"
    by (simp add: pkt drop_put16 take_put16)
  have "p4 ! 22 = 0" "p4 ! 23 = 0" using len(2) by (simp_all add: p4_def put16_def)
  then have "inet_checksum (put16 2 (inet_checksum ?q) ?q) = 0"
    using len by (intro checksum_verifies) simp_all
  then show ?thesis using c1 by (simp only: ip icmp simp_thms)
qed

section \<open>Witnesses\<close>

lemma ring_inv_zero: "ring_inv net_zero"
  by (simp add: ring_inv_def net_zero_def RX_SLOTS_def NET_MAX_PAYLOAD_def slot_ok_def list_all_iff)

definition feed_ops :: "(int \<times> u8 list) net_ops" where
  "feed_ops = \<lparr>no_send = (\<lambda>d w. (w, 0)), no_recv = (\<lambda>mx w. (w, fst w, snd w)), no_ip = (\<lambda>_. 0x0A000002),
               no_ticks = (\<lambda>w. (w, 0)), no_delay = (\<lambda>w. w)\<rparr>"

theorem ring_fifo_witness:
  "fifo_run (\<lambda>(ip, port, data, len). ring_push ip port data len) ring_pop
     (concat (replicate 5 [Put (1, 9, [1, 2], 2), Put (2, 9, [3], 1), Get 1, Get 8, Get 8])) (net_init net_zero) =
   Some (concat (replicate 5 [(1, Some (1, 9, [1])), (1, Some (2, 9, [3])), (0, None)]))"
proof -
  let ?ops = "concat (replicate 5 [Put (1, 9, [1, 2], 2), Put (2, 9, [3], 1), Get 1, Get 8, Get 8])"
  have "\<forall>ip port data len. Put (ip, port, data, len) \<in> set ?ops \<longrightarrow> unat len \<le> 1400 \<and> unat len \<le> length data"
    by auto
  note ring_fifo [OF ring_inv_zero this]
  moreover have "replicate 5 x = [x, x, x, x, x]" for x :: "(push, u16) fifo_op list" by (simp add: numeral_eq_Suc)
  moreover have "replicate 5 x = [x, x, x, x, x]" for x :: "(int \<times> packet option) list" by (simp add: numeral_eq_Suc)
  ultimately show ?thesis by simp
qed

theorem udp_recv_fifo_witness:
  "\<exists>st2. net_udp_recv feed_ops 16 (net_init net_zero) (13, datagram 7 9001 [5, 6] 2) =
     Some (st2, (13, datagram 7 9001 [5, 6] 2), 2, Some (7, 9001, [5, 6]))"
proof -
  have st: "ring_inv (net_init net_zero)" "net_up (net_init net_zero)" "packets (net_init net_zero) = []"
    using ring_inv_zero by (auto simp: ring_inv_def net_init_def packets_def queued_def)
  show ?thesis
    using udp_recv_fifo [OF st(1,2), of 2 "[5, 6]" feed_ops "(13, datagram 7 9001 [5, 6] 2)"
        "(13, datagram 7 9001 [5, 6] 2)" 7 9001 16] st(3)
    by (auto simp: feed_ops_def)
qed

theorem udp_recv_overrun_witness:
  "net_udp_recv feed_ops 1500 (net_init net_zero) (1412, datagram 7 9001 (replicate 1401 0) 1401) = None"
proof -
  have st: "ring_inv (net_init net_zero)" "net_up (net_init net_zero)" "packets (net_init net_zero) = []"
    using ring_inv_zero by (auto simp: ring_inv_def net_init_def packets_def queued_def)
  show ?thesis
    using udp_recv_overrun [OF st, of 1401 "replicate 1401 0" feed_ops "(1412, datagram 7 9001 (replicate 1401 0) 1401)"
        "(1412, datagram 7 9001 (replicate 1401 0) 1401)" 7 9001 1500]
    by (simp add: feed_ops_def)
qed

theorem ping_checksums_witness:
  "inet_checksum (take 20 (ping_packet (replicate 64 0xCC) 0x0A000002 0x0A000001)) = 0"
  using ping_checksums_verify [of "replicate 64 0xCC"] by simp

end
