(* ===== verification/Transport.thy ===== *)
theory Transport
  imports Net
begin

text \<open>
  The packet layer of \<^verbatim>\<open>src/transport.c\<close> (header, CRC, acknowledgement, batches and
  the heartbeat and reconnection timers) and the x86 implementation of the
  platform network calls in \<^verbatim>\<open>platform/x86/hal_net.c\<close> below it.
\<close>

section \<open>State\<close>

definition TRANSPORT_HEADER_SIZE :: nat where "TRANSPORT_HEADER_SIZE = 12"
definition TRANSPORT_MAX_PAYLOAD :: nat where "TRANSPORT_MAX_PAYLOAD = 1400"
definition TRANSPORT_PACKET_MAX :: nat where "TRANSPORT_PACKET_MAX = TRANSPORT_HEADER_SIZE + TRANSPORT_MAX_PAYLOAD"
definition TRANSPORT_BATCH_MAX :: nat where "TRANSPORT_BATCH_MAX = 4"
definition TRANSPORT_TYPE_DATA :: u8 where "TRANSPORT_TYPE_DATA = 1"
definition TRANSPORT_TYPE_ACK :: u8 where "TRANSPORT_TYPE_ACK = 2"
definition TRANSPORT_TYPE_HEARTBEAT :: u8 where "TRANSPORT_TYPE_HEARTBEAT = 3"
definition TRANSPORT_TYPE_FIN :: u8 where "TRANSPORT_TYPE_FIN = 4"
definition TRANSPORT_HEARTBEAT_TICKS :: u32 where "TRANSPORT_HEARTBEAT_TICKS = 2000 div 10"
definition TRANSPORT_RECONNECT_TICKS :: u32 where "TRANSPORT_RECONNECT_TICKS = 5000 div 10"

record transport_session =
  local_seq :: u16
  remote_seq :: u16
  connected :: u8
  heartbeat_missed :: u8
  last_heartbeat_ticks :: u32

record transport =
  session :: transport_session
  tx_buf :: "u8 list"
  rx_buf :: "u8 list"
  t_initialized :: bool
  transport_ticks :: u32
  next_reconnect_tick :: u32
  reconnect_attempts :: int

definition transport_zero :: transport where
  "transport_zero =
     \<lparr>session = \<lparr>local_seq = 0, remote_seq = 0, connected = 0, heartbeat_missed = 0, last_heartbeat_ticks = 0\<rparr>,
      tx_buf = replicate TRANSPORT_PACKET_MAX 0, rx_buf = replicate TRANSPORT_PACKET_MAX 0,
      t_initialized = False, transport_ticks = 0, next_reconnect_tick = 0, reconnect_attempts = 0\<rparr>"

section \<open>CRC\<close>

definition crc_bit :: "u16 \<Rightarrow> u16" where
  "crc_bit crc = (if crc AND 1 \<noteq> 0 then drop_bit 1 crc XOR 0xA001 else drop_bit 1 crc)"

definition crc_byte :: "u16 \<Rightarrow> u8 \<Rightarrow> u16" where
  "crc_byte crc b = (crc_bit ^^ 8) (crc XOR ucast b)"

definition crc16_simple :: "u8 list \<Rightarrow> u16" where
  "crc16_simple data = foldl crc_byte 0xFFFF data"

section \<open>Packets\<close>

definition transport_init :: "transport \<Rightarrow> transport" where
  "transport_init t =
     (if t_initialized t then t
      else t\<lparr>session := \<lparr>local_seq = 0, remote_seq = 0, connected = 1, heartbeat_missed = 0, last_heartbeat_ticks = 0\<rparr>,
             transport_ticks := 0, t_initialized := True\<rparr>)"

definition transport_shutdown :: "transport \<Rightarrow> transport" where
  "transport_shutdown t = t\<lparr>t_initialized := False, session := (session t)\<lparr>connected := 0\<rparr>\<rparr>"

definition put_header :: "u8 \<Rightarrow> u16 \<Rightarrow> u32 \<Rightarrow> u16 \<Rightarrow> u8 list \<Rightarrow> u8 list" where
  "put_header type seq len crc buf =
     (put16 8 crc (put32 4 len (put16 2 seq (buf[0 := type, 1 := 0]))))[10 := 0, 11 := 0]"

definition copy_payload :: "u8 list option \<Rightarrow> nat \<Rightarrow> u8 list \<Rightarrow> u8 list option" where
  "copy_payload payload len buf =
     (case payload of
        Some p \<Rightarrow> if length p < len then None else Some (take 12 buf @ take len p @ drop (12 + len) buf)
      | None \<Rightarrow> Some buf)"

definition transport_send ::
  "'w net_ops \<Rightarrow> u8 \<Rightarrow> u8 list option \<Rightarrow> u16 \<Rightarrow> transport \<Rightarrow> 'w \<Rightarrow> (transport \<times> 'w \<times> int) option" where
  "transport_send ops type payload len t w =
     (if \<not> t_initialized t \<or> unat len > TRANSPORT_MAX_PAYLOAD then Some (t, w, -1)
      else
        let seq = local_seq (session t);
            buf1 = put_header type seq (ucast len) 0 (tx_buf t);
            t1 = t\<lparr>session := (session t)\<lparr>local_seq := seq + 1\<rparr>\<rparr>
        in case copy_payload payload (unat len) buf1 of
             None \<Rightarrow> None
           | Some buf2 \<Rightarrow>
               let buf3 = put16 8 (crc16_simple (take (unat len) (drop 12 buf2))) buf2;
                   (w1, rc) = no_send ops (take (12 + unat len) buf3) w
               in Some (t1\<lparr>tx_buf := buf3\<rparr>, w1, if rc \<noteq> 0 then -1 else int (unat len)))"

text \<open>
  The lengths are added up in 16 bits. An entry without payload keeps what the
  uninitialised batch buffer \<open>stack\<close> held at its place.
\<close>

fun batch_body :: "u8 list \<Rightarrow> nat \<Rightarrow> (u8 list option \<times> u16) list \<Rightarrow> u8 list option" where
  "batch_body stack off [] = Some []"
| "batch_body stack off ((p, len) # es) =
     (case (case p of Some d \<Rightarrow> if length d < unat len then None else Some (take (unat len) d)
                    | None \<Rightarrow> Some (take (unat len) (drop (off + 2) stack))) of
        None \<Rightarrow> None
      | Some d \<Rightarrow>
          map_option (\<lambda>b. [ucast (len AND 0xFF), ucast (drop_bit 8 len)] @ d @ b)
            (batch_body stack (off + 2 + unat len) es))"

definition transport_send_batch ::
  "'w net_ops \<Rightarrow> u8 list \<Rightarrow> (u8 list option \<times> u16) list \<Rightarrow> transport \<Rightarrow> 'w \<Rightarrow> (transport \<times> 'w \<times> int) option" where
  "transport_send_batch ops stack es t w =
     (if \<not> t_initialized t \<or> length es = 0 \<or> length es > TRANSPORT_BATCH_MAX then Some (t, w, -1)
      else
        let total_len = foldl (\<lambda>s (p, l). s + (2 + l)) (0 :: u16) es in
        if unat total_len > TRANSPORT_MAX_PAYLOAD - 2 then Some (t, w, -1)
        else
          (case batch_body stack 2 es of
             None \<Rightarrow> None
           | Some body \<Rightarrow>
               let buf = [of_nat (length es), 0] @ body
               in if length buf > TRANSPORT_MAX_PAYLOAD then None
                  else transport_send ops TRANSPORT_TYPE_DATA (Some buf) (of_nat (length buf)) t w))"

text \<open>The bytes copied to the caller's buffer and the packet type come with the return value.\<close>

definition transport_receive ::
  "'w net_ops \<Rightarrow> u32 \<Rightarrow> transport \<Rightarrow> 'w \<Rightarrow> transport \<times> 'w \<times> int \<times> (u8 \<times> u8 list) option" where
  "transport_receive ops max_len t w =
     (if \<not> t_initialized t then (t, w, -1, None)
      else
        case no_recv ops TRANSPORT_PACKET_MAX w of (w1, n, raw) \<Rightarrow>
        let rx = take (nat n) raw @ drop (nat n) (rx_buf t);
            t1 = t\<lparr>rx_buf := rx\<rparr>
        in if n < int TRANSPORT_HEADER_SIZE then (t1, w1, -1, None)
           else
             let len = ucast (get32 rx 4) :: u16 in
             if unat len > TRANSPORT_MAX_PAYLOAD \<or> unat len > unat max_len then (t1, w1, -1, None)
             else if crc16_simple (take (unat len) (drop 12 rx)) \<noteq> get16 rx 8 then (t1, w1, -1, None)
             else
               let type = rx ! 0;
                   seq = get16 rx 2;
                   t2 = t1\<lparr>session := (session t1)\<lparr>remote_seq := seq, last_heartbeat_ticks := transport_ticks t1,
                                                 heartbeat_missed := 0\<rparr>\<rparr>;
                   res = Some (type, take (unat len) (drop 12 rx))
               in if type = TRANSPORT_TYPE_DATA then
                    let ack = put_header TRANSPORT_TYPE_ACK seq 0 0 (tx_buf t2)
                    in (t2\<lparr>tx_buf := ack\<rparr>, fst (no_send ops (take 12 ack) w1), int (unat len), res)
                  else (t2, w1, int (unat len), res))"

section \<open>Timers\<close>

definition transport_tick :: "'w net_ops \<Rightarrow> transport \<Rightarrow> 'w \<Rightarrow> (transport \<times> 'w) option" where
  "transport_tick ops t0 w =
     (if \<not> t_initialized t0 then Some (t0, w)
      else
        let t = t0\<lparr>transport_ticks := transport_ticks t0 + 1\<rparr>; s = session t in
        if connected s \<noteq> 0 then
          if transport_ticks t - last_heartbeat_ticks s \<ge> TRANSPORT_HEARTBEAT_TICKS then
            let s1 = s\<lparr>heartbeat_missed := heartbeat_missed s + 1\<rparr> in
            if heartbeat_missed s1 \<ge> 3 then Some (t\<lparr>session := s1\<lparr>connected := 0\<rparr>\<rparr>, w)
            else map_option (\<lambda>(t2, w1, rc). (t2, w1))
                   (transport_send ops TRANSPORT_TYPE_HEARTBEAT None 0 (t\<lparr>session := s1\<rparr>) w)
          else Some (t, w)
        else
          let t1 = (if reconnect_attempts t = 0
                    then t\<lparr>next_reconnect_tick := transport_ticks t + TRANSPORT_RECONNECT_TICKS\<rparr> else t) in
          if transport_ticks t1 \<ge> next_reconnect_tick t1 \<and> reconnect_attempts t1 < 10 then
            let a = reconnect_attempts t1 + 1 in
            Some (t1\<lparr>reconnect_attempts := a,
                     session := s\<lparr>connected := 1, heartbeat_missed := 0, last_heartbeat_ticks := transport_ticks t1\<rparr>,
                     next_reconnect_tick := transport_ticks t1 + TRANSPORT_RECONNECT_TICKS * (if a > 4 then 2 else 1)\<rparr>, w)
          else Some (t1, w))"

definition transport_request_reconnect :: "transport \<Rightarrow> transport" where
  "transport_request_reconnect t = t\<lparr>session := (session t)\<lparr>connected := 0, heartbeat_missed := 3\<rparr>\<rparr>"

definition transport_get_session :: "transport \<Rightarrow> transport_session" where
  "transport_get_session t = session t"

section \<open>The x86 network driver\<close>

definition NE2000_IO :: u16 where "NE2000_IO = 0x300"

record hal_net =
  hn_ready :: bool
  our_ip :: u32
  our_mask :: u32

definition our_mac :: "u8 list" where
  "our_mac = [0x52, 0x54, 0x00, 0x12, 0x34, 0x56]"

definition ne_write :: "'w port_io \<Rightarrow> u8 \<Rightarrow> u8 \<Rightarrow> 'w \<Rightarrow> 'w" where
  "ne_write io reg val w = outb io (NE2000_IO + 1) val (outb io NE2000_IO reg w)"

definition ne_read :: "'w port_io \<Rightarrow> u8 \<Rightarrow> 'w \<Rightarrow> 'w \<times> u8" where
  "ne_read io reg w = inb io (NE2000_IO + 1) (outb io NE2000_IO reg w)"

definition ne_probe :: "'w port_io \<Rightarrow> 'w \<Rightarrow> 'w \<times> bool" where
  "ne_probe io w =
     (let w1 = ne_write io 0x01 0x00 (ne_write io 0x01 0x00 (ne_write io 0x00 0x21 w));
          (w2, id) = ne_read io 0x0A w1
      in (w2, id = 0x50))"

definition ne_init_hw :: "'w port_io \<Rightarrow> 'w \<Rightarrow> 'w" where
  "ne_init_hw io w =
     (let w1 = ne_write io 0x00 0x21 w;
          w2 = fold (\<lambda>i. ne_write io (0x01 + of_nat i) (our_mac ! i)) [0..<6] w1
      in fold (\<lambda>(r, v). ne_write io r v)
           [(0x07, 0x49), (0x08, 0x00), (0x0C, 0x00), (0x0D, 0x00), (0x0E, 0x00), (0x0F, 0x00), (0x00, 0x22)] w2)"

definition ne_send :: "'w port_io \<Rightarrow> u8 list \<Rightarrow> 'w \<Rightarrow> 'w \<times> int" where
  "ne_send io frame w =
     (let data = take 1514 frame;
          w1 = ne_write io 0x07 0x49 (ne_write io 0x00 0x22 w);
          w2 = fold (\<lambda>b. outb io (NE2000_IO + 1) b) data w1
      in (ne_write io 0x00 0x18 w2, 0))"

fun inb_n :: "'w port_io \<Rightarrow> nat \<Rightarrow> 'w \<Rightarrow> 'w \<times> u8 list" where
  "inb_n io 0 w = (w, [])"
| "inb_n io (Suc n) w =
     (let (w1, b) = inb io (NE2000_IO + 1) w; (w2, bs) = inb_n io n w1 in (w2, b # bs))"

definition ne_recv :: "'w port_io \<Rightarrow> nat \<Rightarrow> 'w \<Rightarrow> 'w \<times> int \<times> u8 list" where
  "ne_recv io mx w =
     (let (w1, isr) = ne_read io 0x07 w in
      if isr AND 0x01 = 0 then (w1, 0, [])
      else
        let (w2, bn0) = ne_read io 0x0A w1;
            bn = (if bn0 = 0 then 0x40 else bn0);
            w3 = ne_write io 0x0F bn (ne_write io 0x0E bn (ne_write io 0x00 0x22 w2));
            (w4, status) = inw io (NE2000_IO + 1) w3;
            (w5, len0) = inw io (NE2000_IO + 1) w4;
            len = min (unat (len0 - 4)) mx;
            (w6, d) = inb_n io len w5
        in (ne_write io 0x07 0x40 (ne_write io 0x0D bn w6), int len, d))"

definition plat_net_init :: "'w port_io \<Rightarrow> 'w \<Rightarrow> hal_net \<times> 'w" where
  "plat_net_init io w =
     (case ne_probe io w of
        (w1, found) \<Rightarrow>
          (\<lparr>hn_ready = found, our_ip = push_bit 24 10 OR 2, our_mask = 0xFFFFFF00\<rparr>,
           if found then ne_init_hw io w1 else w1))"

definition plat_net_send :: "'w port_io \<Rightarrow> hal_net \<Rightarrow> u8 list \<Rightarrow> 'w \<Rightarrow> 'w \<times> int" where
  "plat_net_send io hn data w =
     (if hn_ready hn then
        let body = take (min (length data) 1500) data
        in ne_send io ([0xFF, 0xFF, 0xFF, 0xFF, 0xFF, 0xFF] @ our_mac @ [0x08, 0x00] @ body) w
      else (w, int (length data)))"

definition plat_net_recv :: "'w port_io \<Rightarrow> hal_net \<Rightarrow> nat \<Rightarrow> 'w \<Rightarrow> 'w \<times> int \<times> u8 list" where
  "plat_net_recv io hn mx w =
     (if hn_ready hn then
        case ne_recv io 1514 w of (w1, n, frame) \<Rightarrow>
        if n \<le> 14 then (w1, 0, [])
        else let plen = min (nat n - 14) mx in (w1, int plen, take plen (drop 14 frame))
      else (w, 0, []))"

definition hex_digit :: "u8 \<Rightarrow> char" where
  "hex_digit v = ''0123456789ABCDEF'' ! unat v"

record plat_net_info =
  ni_linked :: bool
  ni_ip :: u32
  ni_netmask :: u32
  ni_ip_str :: string
  ni_mac_str :: string

definition mac_str :: "u8 list \<Rightarrow> string" where
  "mac_str mac = concat (map (\<lambda>i. [hex_digit (drop_bit 4 (mac ! i) AND 0xF), hex_digit (mac ! i AND 0xF)] @
                                  (if i < 5 then '':'' else [])) [0..<6])"

definition plat_net_get_info :: "hal_net \<Rightarrow> plat_net_info" where
  "plat_net_get_info hn =
     \<lparr>ni_linked = True, ni_ip = our_ip hn, ni_netmask = our_mask hn,
      ni_ip_str = (case net_ip_to_str (our_ip hn) 16 of Some s \<Rightarrow> s | None \<Rightarrow> []),
      ni_mac_str = mac_str our_mac\<rparr>"

definition x86_net_ops :: "'w port_io \<Rightarrow> hal_net \<Rightarrow> ('w \<Rightarrow> 'w \<times> u32) \<Rightarrow> ('w \<Rightarrow> 'w) \<Rightarrow> 'w net_ops" where
  "x86_net_ops io hn ticks delay =
     \<lparr>no_send = plat_net_send io hn, no_recv = plat_net_recv io hn, no_ip = (\<lambda>_. our_ip hn),
      no_ticks = ticks, no_delay = delay\<rparr>"

section \<open>The CRC detects every corrupted byte\<close>

lemma odd_iff_bit: "(x :: u16) AND 1 \<noteq> 0 \<longleftrightarrow> bit x 0"
  by (simp add: and_one_eq bit_0 odd_iff_mod_2_eq_one)

lemma xor_cancel: "a XOR c = b XOR c \<Longrightarrow> a = (b :: u16)"
proof -
  assume "a XOR c = b XOR c"
  then have "(a XOR c) XOR c = (b XOR c) XOR c" by simp
  then show ?thesis by (simp add: xor.assoc)
qed

lemma crc_bit_top: "bit (crc_bit x) 15 = bit x 0"
proof -
  have "bit (0xA001 :: u16) 15" "\<not> bit x 16" by (simp, auto dest: bit_imp_le_length)
  then show ?thesis by (simp add: crc_bit_def odd_iff_bit bit_simps)
qed

lemma inj_crc_bit: "inj crc_bit"
proof (rule injI)
  fix x y assume e: "crc_bit x = crc_bit y"
  then have b: "bit x 0 = bit y 0" using crc_bit_top by metis
  then have "drop_bit 1 x = drop_bit 1 y"
    using e by (auto simp: crc_bit_def odd_iff_bit dest: xor_cancel split: if_splits)
  then have d: "bit x (Suc n) = bit y (Suc n)" for n
    by (metis bit_drop_bit_eq comp_apply plus_1_eq_Suc)
  show "x = y"
  proof (rule bit_word_eqI)
    fix n show "bit x n = bit y n" using b d by (cases n) auto
  qed
qed

lemma inj_crc_byte: "crc_byte c a = crc_byte d a \<Longrightarrow> c = d"
proof -
  assume "crc_byte c a = crc_byte d a"
  then have "c XOR ucast a = d XOR ucast a"
    using inj_fn [OF inj_crc_bit, of 8] by (auto simp: crc_byte_def dest: injD)
  then show ?thesis by (rule xor_cancel)
qed

lemma crc_byte_arg: "crc_byte c a = crc_byte c b \<Longrightarrow> a = b"
proof -
  assume "crc_byte c a = crc_byte c b"
  then have "c XOR ucast a = c XOR ucast b"
    using inj_fn [OF inj_crc_bit, of 8] by (auto simp: crc_byte_def dest: injD)
  then have "ucast a XOR c = ucast b XOR c" by (subst (1 2) xor.commute)
  then have u: "(ucast a :: u16) = ucast b" by (rule xor_cancel)
  show ?thesis
  proof (rule bit_word_eqI)
    fix n assume n: "n < LENGTH(8)"
    have "bit (ucast a :: u16) n = bit (ucast b :: u16) n" by (simp only: u)
    then show "bit a n = bit b n" using n by (simp add: bit_simps)
  qed
qed

lemma crc_rest: "foldl crc_byte c ys = foldl crc_byte d ys \<Longrightarrow> c = d"
  by (induction ys arbitrary: c d) (auto dest: inj_crc_byte)

text \<open>
  C27: Two payloads of the same length that differ in exactly one byte never have
  the same CRC, so transport_receive rejects every packet in which one payload
  byte was corrupted.
\<close>
theorem crc_detects_byte_error:
  assumes "a \<noteq> b"
  shows "crc16_simple (xs @ a # ys) \<noteq> crc16_simple (xs @ b # ys)"
  using assms by (auto simp: crc16_simple_def dest!: crc_rest crc_byte_arg)

theorem crc_detects_witness:
  "crc16_simple ([1, 2] @ 3 # [4]) \<noteq> crc16_simple ([1, 2] @ 7 # [4])"
  by (rule crc_detects_byte_error) simp

section \<open>Send and receive\<close>

definition transport_wf :: "transport \<Rightarrow> bool" where
  "transport_wf t \<longleftrightarrow> length (tx_buf t) = 1412 \<and> length (rx_buf t) = 1412"

definition frame :: "u8 \<Rightarrow> u16 \<Rightarrow> u8 list \<Rightarrow> u8 list" where
  "frame type seq p =
     [type, 0, ucast seq, ucast (drop_bit 8 seq)] @
     (let len = of_nat (length p) :: u32 in
      [ucast len, ucast (drop_bit 8 len), ucast (drop_bit 16 len), ucast (drop_bit 24 len)]) @
     (let crc = crc16_simple p in [ucast crc, ucast (drop_bit 8 crc)]) @ [0, 0] @ p"

lemma list12:
  assumes "12 \<le> length xs"
  obtains a0 a1 a2 a3 a4 a5 a6 a7 a8 a9 a10 a11 r where
    "xs = a0 # a1 # a2 # a3 # a4 # a5 # a6 # a7 # a8 # a9 # a10 # a11 # r"
proof -
  have "Suc (Suc (Suc (Suc (Suc (Suc (Suc (Suc (Suc (Suc (Suc (Suc 0))))))))))) \<le> length xs" using assms by simp
  then show ?thesis using that by (auto simp only: Suc_le_length_iff)
qed

lemma send_frame:
  assumes "t_initialized t" "transport_wf t" "length p \<le> 1400" "no_send ops (frame type (local_seq (session t)) p) w = (w1, rc)"
  shows "\<exists>t'. transport_send ops type (Some p) (of_nat (length p)) t w =
      Some (t', w1, if rc \<noteq> 0 then -1 else int (length p)) \<and> transport_wf t' \<and> t_initialized t' \<and>
      local_seq (session t') = local_seq (session t) + 1"
proof -
  have n: "unat (of_nat (length p) :: u16) = length p" using assms(3) by (simp add: unat_of_nat)
  have c: "ucast (of_nat (length p) :: u16) = (of_nat (length p) :: u32)"
    using assms(3) by (simp add: unsigned_of_nat take_bit_eq_mod)
  let ?seq = "local_seq (session t)"
  let ?b1 = "put_header type ?seq (of_nat (length p)) 0 (tx_buf t)"
  let ?b2 = "take 12 ?b1 @ p @ drop (12 + length p) ?b1"
  let ?b3 = "put16 8 (crc16_simple (take (length p) (drop 12 ?b2))) ?b2"
  have l1: "length ?b1 = 1412" using assms(2) by (simp add: put_header_def transport_wf_def)
  have crc: "take (length p) (drop 12 ?b2) = p" using l1 by simp
  obtain a0 a1 a2 a3 a4 a5 a6 a7 a8 a9 a10 a11 r where
    tx: "tx_buf t = a0 # a1 # a2 # a3 # a4 # a5 # a6 # a7 # a8 # a9 # a10 # a11 # r"
    by (rule list12 [of "tx_buf t"]) (use assms(2) in \<open>simp add: transport_wf_def\<close>)
  have "take 12 ?b1 = [type, 0, ucast ?seq, ucast (drop_bit 8 ?seq), ucast (of_nat (length p) :: u32),
      ucast (drop_bit 8 (of_nat (length p) :: u32)), ucast (drop_bit 16 (of_nat (length p) :: u32)),
      ucast (drop_bit 24 (of_nat (length p) :: u32)), 0, 0, 0, 0]"
    by (simp add: tx put_header_def put16_def put32_def numeral_eq_Suc)
  then have fr: "take (12 + length p) ?b3 = frame type ?seq p"
  proof -
    have n12: "12 + length p = Suc (Suc (Suc (Suc (Suc (Suc (Suc (Suc (Suc (Suc (Suc (Suc (length p))))))))))))"
      by simp
    show ?thesis
      unfolding crc using \<open>take 12 ?b1 = _\<close> by (simp add: frame_def put16_def Let_def) (simp add: n12)
  qed
  have l3: "length ?b3 = 1412" using l1 assms(3) by simp
  let ?t = "t\<lparr>session := (session t)\<lparr>local_seq := ?seq + 1\<rparr>, tx_buf := ?b3\<rparr>"
  have "copy_payload (Some p) (length p) ?b1 = Some ?b2" by (simp add: copy_payload_def)
  then have "transport_send ops type (Some p) (of_nat (length p)) t w =
      Some (?t, w1, if rc \<noteq> 0 then -1 else int (length p))"
    unfolding transport_send_def n c Let_def
    using assms(1,3,4) fr by (simp add: TRANSPORT_MAX_PAYLOAD_def)
  moreover have "transport_wf ?t" using assms(2) l3 by (simp add: transport_wf_def)
  ultimately show ?thesis using assms(1) by auto
qed

text \<open>The acknowledgement of a data packet, with the CRC field left at zero.\<close>

definition ack_frame :: "u16 \<Rightarrow> u8 list" where
  "ack_frame seq = (frame TRANSPORT_TYPE_ACK seq [])[8 := 0, 9 := 0]"

lemma frame_fields:
  assumes "length p \<le> 1400"
  shows "frame type seq p ! 0 = type" "get16 (frame type seq p @ r) 2 = seq"
    "get32 (frame type seq p @ r) 4 = of_nat (length p)" "get16 (frame type seq p @ r) 8 = crc16_simple p"
    "drop 12 (frame type seq p) = p" "length (frame type seq p) = 12 + length p"
proof -
  show "frame type seq p ! 0 = type" "drop 12 (frame type seq p) = p" "length (frame type seq p) = 12 + length p"
    by (simp_all add: frame_def Let_def)
  show "get16 (frame type seq p @ r) 2 = seq"
    using get_put16 [of 0 "[0, 0]" seq] by (simp add: frame_def get16_def put16_def Let_def)
  show "get16 (frame type seq p @ r) 8 = crc16_simple p"
    using get_put16 [of 0 "[0, 0]" "crc16_simple p"] by (simp add: frame_def get16_def put16_def Let_def)
  show "get32 (frame type seq p @ r) 4 = of_nat (length p)"
    using get_put32 [of 0 "[0, 0, 0, 0]" "of_nat (length p)"] by (simp add: frame_def get32_def put32_def Let_def)
qed

lemma send_receive:
  assumes a: "t_initialized a" "transport_wf a" and b: "t_initialized b" "transport_wf b"
    and p: "length p \<le> 1400" "length p \<le> unat mx"
    and net: "no_recv ops 1412 w = (w1, int (length f), f)" "f = frame type (local_seq (session a)) p"
  shows "(\<exists>a'. transport_send ops' type (Some p) (of_nat (length p)) a v =
      Some (a', fst (no_send ops' f v), if snd (no_send ops' f v) \<noteq> 0 then -1 else int (length p))) \<and>
    (\<exists>b' w2. transport_receive ops mx b w = (b', w2, int (length p), Some (type, p)) \<and> transport_wf b' \<and>
       remote_seq (session b') = local_seq (session a) \<and> heartbeat_missed (session b') = 0 \<and>
       last_heartbeat_ticks (session b') = transport_ticks b \<and>
       (type = TRANSPORT_TYPE_DATA \<longrightarrow>
          w2 = fst (no_send ops (ack_frame (local_seq (session a))) w1)))"
proof
  show "\<exists>a'. transport_send ops' type (Some p) (of_nat (length p)) a v =
      Some (a', fst (no_send ops' f v), if snd (no_send ops' f v) \<noteq> 0 then -1 else int (length p))"
    using send_frame [OF a p(1), of ops' type v] net(2) by (cases "no_send ops' f v") auto
  let ?seq = "local_seq (session a)"
  note ff = frame_fields [OF p(1), of type ?seq]
  let ?rx = "f @ drop (length f) (rx_buf b)"
  have lf: "length f = 12 + length p" using ff(6) net(2) by simp
  have len: "ucast (get32 ?rx 4) = (of_nat (length p) :: u16)" "unat (of_nat (length p) :: u16) = length p"
    using ff(3) p(1) by (simp_all add: net(2) unsigned_of_nat take_bit_eq_mod unat_of_nat)
  have pl: "take (length p) (drop 12 ?rx) = p" using ff(5,6) net(2) by simp
  have h: "?rx ! 0 = type" "get16 ?rx 2 = ?seq" "get16 ?rx 8 = crc16_simple p"
    using ff(1,2,4,6) net(2) by (simp_all add: nth_append)
  have lrx: "length ?rx = 1412" using lf p(1) b(2) by (simp add: transport_wf_def)
  let ?s = "(session b)\<lparr>remote_seq := ?seq, last_heartbeat_ticks := transport_ticks b, heartbeat_missed := 0\<rparr>"
  let ?ack = "put_header TRANSPORT_TYPE_ACK ?seq 0 0 (tx_buf b)"
  have ack: "take 12 ?ack = ack_frame ?seq"
  proof -
    obtain a0 a1 a2 a3 a4 a5 a6 a7 a8 a9 a10 a11 r where
      tx: "tx_buf b = a0 # a1 # a2 # a3 # a4 # a5 # a6 # a7 # a8 # a9 # a10 # a11 # r"
      by (rule list12 [of "tx_buf b"]) (use b(2) in \<open>simp add: transport_wf_def\<close>)
    show ?thesis by (simp add: tx put_header_def put16_def put32_def ack_frame_def frame_def Let_def)
  qed
  have "transport_receive ops mx b w =
      (if type = TRANSPORT_TYPE_DATA
       then (b\<lparr>rx_buf := ?rx, session := ?s, tx_buf := ?ack\<rparr>, fst (no_send ops (take 12 ?ack) w1), int (length p), Some (type, p))
       else (b\<lparr>rx_buf := ?rx, session := ?s\<rparr>, w1, int (length p), Some (type, p)))"
  proof -
    have rx: "take (nat (int (length f))) f @ drop (nat (int (length f))) (rx_buf b) = ?rx" by simp
    have n: "\<not> int (length f) < int 12" using lf by simp
    have pm: "(12 :: nat) + 1400 = 1412" by simp
    show ?thesis
      unfolding transport_receive_def TRANSPORT_PACKET_MAX_def TRANSPORT_HEADER_SIZE_def TRANSPORT_MAX_PAYLOAD_def
        pm net(1) prod.case Let_def rx len pl h
      using n b(1) p by simp
  qed
  then show "\<exists>b' w2. transport_receive ops mx b w = (b', w2, int (length p), Some (type, p)) \<and> transport_wf b' \<and>
       remote_seq (session b') = ?seq \<and> heartbeat_missed (session b') = 0 \<and>
       last_heartbeat_ticks (session b') = transport_ticks b \<and>
       (type = TRANSPORT_TYPE_DATA \<longrightarrow>
          w2 = fst (no_send ops (ack_frame ?seq) w1))"
    using ack lrx b(2) by (auto simp: transport_wf_def put_header_def)
qed

text \<open>
  C10: What one side sends the other receives: for every payload of up to 1400
  bytes, transport_send gives the network one packet, and a peer whose network
  delivers that packet gets back the packet type, exactly the payload, the
  sender's sequence number and a reset heartbeat count; a data packet is
  acknowledged under the same sequence number.
\<close>
theorem send_receive_roundtrip:
  assumes a: "t_initialized a" "transport_wf a" and b: "t_initialized b" "transport_wf b"
    and p: "length p \<le> 1400" "length p \<le> unat mx"
    and net: "no_recv ops 1412 w = (w1, int (length f), f)" "f = frame type (local_seq (session a)) p"
  shows "(\<exists>a'. transport_send ops' type (Some p) (of_nat (length p)) a v =
      Some (a', fst (no_send ops' f v), if snd (no_send ops' f v) \<noteq> 0 then -1 else int (length p))) \<and>
    (\<exists>b' w2. transport_receive ops mx b w = (b', w2, int (length p), Some (type, p)) \<and> transport_wf b' \<and>
       remote_seq (session b') = local_seq (session a) \<and> heartbeat_missed (session b') = 0 \<and>
       last_heartbeat_ticks (session b') = transport_ticks b \<and>
       (type = TRANSPORT_TYPE_DATA \<longrightarrow>
          w2 = fst (no_send ops (ack_frame (local_seq (session a))) w1)))"
  using assms by (rule send_receive)

text \<open>
  What the layers above rely on: a device that never reports more bytes than it
  was asked for or delivered. Sending a payload of its stated length and receiving
  then keep the buffers at their size and cannot fault.
\<close>

definition delivers :: "'w net_ops \<Rightarrow> bool" where
  "delivers ops \<longleftrightarrow>
     (\<forall>mx w. case no_recv ops mx w of (w1, n, raw) \<Rightarrow> nat n \<le> mx \<and> nat n \<le> length raw)"

lemma send_total:
  assumes "transport_wf t" "length p \<le> 1400"
  obtains t' w' rc where "transport_send ops type (Some p) (of_nat (length p)) t w = Some (t', w', rc)" "transport_wf t'"
    "t_initialized t' = t_initialized t"
proof (cases "t_initialized t")
  case True
  obtain w1 rc where "no_send ops (frame type (local_seq (session t)) p) w = (w1, rc)" by (cases "no_send ops (frame type (local_seq (session t)) p) w")
  from send_frame [OF True assms this] show ?thesis using that True by blast
next
  case False
  then show ?thesis using that [of t w "-1"] assms(1) by (simp add: transport_send_def)
qed

lemma receive_wf:
  assumes "transport_wf t" "delivers ops" "transport_receive ops mx t w = (t', w', n, r)"
  shows "transport_wf t'" "t_initialized t' = t_initialized t"
    "r = Some (type, d) \<Longrightarrow> n = int (length d) \<and> length d \<le> 1400 \<and> length d \<le> unat mx" "r = None \<Longrightarrow> n = - 1"
proof -
  obtain w1 k raw where k: "no_recv ops TRANSPORT_PACKET_MAX w = (w1, k, raw)" by (cases "no_recv ops TRANSPORT_PACKET_MAX w")
  have "nat k \<le> TRANSPORT_PACKET_MAX \<and> nat k \<le> length raw"
    using assms(2) k unfolding delivers_def by (metis (no_types, lifting) case_prod_conv)
  then have "nat k \<le> 1412 \<and> nat k \<le> length raw"
    by (simp add: TRANSPORT_PACKET_MAX_def TRANSPORT_HEADER_SIZE_def TRANSPORT_MAX_PAYLOAD_def)
  then have "length (take (nat k) raw @ drop (nat k) (rx_buf t)) = 1412"
    using assms(1) by (simp add: transport_wf_def)
  then obtain rx where rx: "take (nat k) raw @ drop (nat k) (rx_buf t) = rx" "length rx = 1412" by simp
  let ?len = "ucast (get32 rx 4) :: u16"
  have l: "length (take (unat ?len) (drop 12 rx)) = unat ?len" if "unat ?len \<le> 1400" using that rx(2) by simp
  note d = assms(3) [unfolded transport_receive_def k prod.case Let_def rx(1) TRANSPORT_MAX_PAYLOAD_def]
  consider "t' = t \<and> n = - 1 \<and> r = None" | "t' = t\<lparr>rx_buf := rx\<rparr> \<and> n = - 1 \<and> r = None"
    | "unat ?len \<le> 1400" "unat ?len \<le> unat mx" "n = int (unat ?len)" "r = Some (rx ! 0, take (unat ?len) (drop 12 rx))"
      "rx_buf t' = rx" "length (tx_buf t') = length (tx_buf t)" "t_initialized t' = t_initialized t"
    using d by (simp split: if_split_asm) (auto simp: put_header_def)
  note cs = this
  show "transport_wf t'" by (rule cs) (use assms(1) rx(2) in \<open>auto simp: transport_wf_def\<close>)
  show "t_initialized t' = t_initialized t" by (rule cs) auto
  show "r = Some (type, d) \<Longrightarrow> n = int (length d) \<and> length d \<le> 1400 \<and> length d \<le> unat mx"
    by (rule cs) (use l in auto)
  show "r = None \<Longrightarrow> n = - 1" by (rule cs) auto
qed

text \<open>
  An acknowledgement is never accepted: its CRC field is zero, while the CRC
  of its empty payload is 0xFFFF, so the receiver reports an error and its session
  keeps its sequence number and heartbeat state.
\<close>
theorem ack_rejected:
  assumes "t_initialized t" "transport_wf t" "no_recv ops 1412 w = (w1, 12, ack_frame seq)"
  shows "\<exists>t'. transport_receive ops mx t w = (t', w1, -1, None) \<and> session t' = session t"
proof -
  let ?rx = "ack_frame seq @ drop 12 (rx_buf t)"
  have l: "length (ack_frame seq) = 12" by (simp add: ack_frame_def frame_def Let_def)
  have "get32 ?rx 4 = 0" by (simp add: ack_frame_def frame_def get32_def Let_def)
  moreover have "get16 ?rx 8 = 0" by (simp add: ack_frame_def frame_def get16_def Let_def)
  moreover have "crc16_simple [] \<noteq> 0" by (simp add: crc16_simple_def)
  ultimately show ?thesis
    using assms l
    by (simp add: transport_receive_def TRANSPORT_PACKET_MAX_def TRANSPORT_HEADER_SIZE_def TRANSPORT_MAX_PAYLOAD_def Let_def)
qed

text \<open>
  Without a network card the x86 plat_net_send reports the number of bytes,
  which transport_send takes for an error: every transport_send then fails, although
  the sequence number has advanced.
\<close>
theorem send_fails_without_card:
  assumes "t_initialized t" "transport_wf t" "length p \<le> 1400" "\<not> hn_ready hn"
  shows "\<exists>t'. transport_send (x86_net_ops io hn ticks delay) type (Some p) (of_nat (length p)) t w = Some (t', w, -1) \<and>
    local_seq (session t') = local_seq (session t) + 1"
proof -
  let ?f = "frame type (local_seq (session t)) p"
  have "no_send (x86_net_ops io hn ticks delay) ?f w = (w, int (length ?f))"
    using assms(4) by (simp add: x86_net_ops_def plat_net_send_def)
  moreover have "length ?f \<noteq> 0" by (simp add: frame_fields(6) [OF assms(3)])
  ultimately show ?thesis using send_frame [OF assms(1-3)] by fastforce
qed

section \<open>The session timers\<close>

text \<open>The calls that drive the session after transport_init.\<close>

datatype transport_call = Tick | Receive u32 | Send u8 "u8 list" | RequestReconnect

definition transport_call :: "'w net_ops \<Rightarrow> transport_call \<Rightarrow> transport \<times> 'w \<Rightarrow> (transport \<times> 'w) option" where
  "transport_call ops c s = (case s of (t, w) \<Rightarrow>
     (case c of
        Tick \<Rightarrow> transport_tick ops t w
      | Receive mx \<Rightarrow> (case transport_receive ops mx t w of (t1, w1, _) \<Rightarrow> Some (t1, w1))
      | Send ty p \<Rightarrow> (case transport_send ops ty (Some p) (of_nat (length p)) t w of
                       None \<Rightarrow> None | Some (t1, w1, _) \<Rightarrow> Some (t1, w1))
      | RequestReconnect \<Rightarrow> Some (transport_request_reconnect t, w)))"

inductive session_step :: "'w net_ops \<Rightarrow> transport \<times> 'w \<Rightarrow> transport \<times> 'w \<Rightarrow> bool" for ops where
  call: "transport_call ops c s = Some s' \<Longrightarrow> session_step ops s s'"

inductive_cases session_stepE: "session_step ops s s'"

lemma tick_timers:
  assumes "transport_tick ops t w = Some (t', w')" "t_initialized t" "reconnect_attempts t = 0"
    "connected (session t) = 0" "unat (transport_ticks t) + 501 < 2 ^ 32"
  shows "connected (session t') = 0 \<and> reconnect_attempts t' = 0 \<and> t_initialized t' \<and>
    transport_ticks t' = transport_ticks t + 1"
proof -
  let ?k = "transport_ticks t + 1"
  have "unat ?k = unat (transport_ticks t) + 1" using assms(5) by (simp add: unat_word_ariths)
  then have "unat (?k + 500) = unat ?k + 500" using assms(5) by (simp add: unat_word_ariths)
  then have "\<not> ?k \<ge> ?k + TRANSPORT_RECONNECT_TICKS"
    by (simp add: word_le_nat_alt TRANSPORT_RECONNECT_TICKS_def)
  then show ?thesis using assms(1-4) by (auto simp: transport_tick_def Let_def split: if_splits)
qed

lemma receive_timers:
  "connected (session (fst (transport_receive ops mx t w))) = connected (session t) \<and>
   reconnect_attempts (fst (transport_receive ops mx t w)) = reconnect_attempts t \<and>
   t_initialized (fst (transport_receive ops mx t w)) = t_initialized t \<and>
   transport_ticks (fst (transport_receive ops mx t w)) = transport_ticks t"
  by (cases "no_recv ops TRANSPORT_PACKET_MAX w") (simp add: transport_receive_def Let_def)

lemma send_timers:
  "transport_send ops ty p n t w = Some (t', w', rc) \<Longrightarrow> connected (session t') = connected (session t) \<and>
     reconnect_attempts t' = reconnect_attempts t \<and> t_initialized t' = t_initialized t \<and> transport_ticks t' = transport_ticks t"
  by (auto simp: transport_send_def Let_def split: if_splits prod.splits option.splits)

definition session_down :: "transport \<Rightarrow> bool" where
  "session_down t \<longleftrightarrow> t_initialized t \<and> reconnect_attempts t = 0 \<and> connected (session t) = 0"

lemma session_down_step:
  assumes "session_step ops (t, w) (t', w')" "session_down t" "unat (transport_ticks t) + 501 < 2 ^ 32"
  shows "session_down t' \<and> unat (transport_ticks t') \<le> unat (transport_ticks t) + 1"
proof -
  obtain c where c: "transport_call ops c (t, w) = Some (t', w')" using assms(1) by (auto elim: session_stepE)
  show ?thesis
  proof (cases c)
    case Tick
    then show ?thesis
      using c assms(2,3) tick_timers [of ops t w t' w']
      by (auto simp: transport_call_def session_down_def unat_word_ariths)
  next
    case (Receive mx)
    then show ?thesis
      using c assms(2) receive_timers [of ops mx t w]
      by (cases "transport_receive ops mx t w") (auto simp: transport_call_def session_down_def)
  next
    case (Send ty p)
    then show ?thesis
      using c assms(2) send_timers [of ops ty "Some p" "of_nat (length p)" t w]
      by (auto simp: transport_call_def session_down_def split: option.splits)
  next
    case RequestReconnect
    then show ?thesis using c assms(2) by (auto simp: transport_call_def session_down_def transport_request_reconnect_def)
  qed
qed

text \<open>Just before the tick counter wraps, the re-armed timer is 0 and has expired.\<close>

lemma reconnects_at_wrap:
  assumes "session_down t" "transport_ticks t = - 501"
  shows "\<exists>t'. transport_tick ops t w = Some (t', w) \<and> connected (session t') = 1"
  using assms by (simp add: session_down_def transport_tick_def TRANSPORT_RECONNECT_TICKS_def)

text \<open>
  C28: A lost session never reconnects before the tick counter wraps around. Once the session is down and no reconnection
  has been made, every tick re-arms the reconnection timer before testing it, so
  after any further calls (ticks, receives, sends, reconnect requests) the session
  is still down and no attempt has been counted, if the tick counter of 32 bits plus the number
  of calls stays 501 short of wrapping around (at the wrap it does reconnect,
  \<^verbatim>\<open>reconnects_at_wrap\<close>).
\<close>
theorem session_never_reconnects:
  assumes "(session_step ops ^^ n) (t, w) (t', w')" "session_down t"
    "unat (transport_ticks t) + n + 501 < 2 ^ 32"
  shows "session_down t'"
proof -
  have "session_down t' \<and> unat (transport_ticks t') \<le> unat (transport_ticks t) + n"
    using assms(1,3)
  proof (induction n arbitrary: t' w')
    case 0
    then show ?case using assms(2) by simp
  next
    case (Suc n)
    obtain t1 w1 where s: "(session_step ops ^^ n) (t, w) (t1, w1)" "session_step ops (t1, w1) (t', w')"
      using Suc.prems(1) by auto
    have "session_down t1 \<and> unat (transport_ticks t1) \<le> unat (transport_ticks t) + n"
      using Suc.IH [OF s(1)] Suc.prems(2) by simp
    then show ?case using session_down_step [OF s(2)] Suc.prems(2) by auto
  qed
  then show ?thesis by simp
qed

section \<open>Witnesses\<close>

lemma init_ok: "t_initialized (transport_init transport_zero)" "transport_wf (transport_init transport_zero)"
  "local_seq (session (transport_init transport_zero)) = 0" "transport_ticks (transport_init transport_zero) = 0"
  by (simp_all add: transport_init_def transport_zero_def transport_wf_def TRANSPORT_PACKET_MAX_def
      TRANSPORT_HEADER_SIZE_def TRANSPORT_MAX_PAYLOAD_def)

theorem send_receive_witness:
  "\<exists>b' w2. transport_receive feed_ops 64 (transport_init transport_zero) (15, frame 1 0 [7, 8, 9]) =
     (b', w2, 3, Some (1, [7, 8, 9]))"
proof -
  have p: "length [7, 8, 9 :: u8] \<le> 1400" "length [7, 8, 9 :: u8] \<le> unat (64 :: u32)" by simp_all
  have "length (frame 1 0 [7, 8, 9]) = 15" by (simp add: frame_def Let_def)
  then have net: "no_recv feed_ops 1412 (15, frame 1 0 [7, 8, 9]) =
      ((15, frame 1 0 [7, 8, 9]), int (length (frame 1 0 [7, 8, 9])), frame 1 0 [7, 8, 9])"
    by (simp add: feed_ops_def)
  have f: "frame 1 0 [7, 8, 9] = frame 1 (local_seq (session (transport_init transport_zero))) [7, 8, 9]"
    by (simp only: init_ok(3))
  have "int (length [7, 8, 9 :: u8]) = 3" by simp
  then show ?thesis
    using send_receive_roundtrip [OF init_ok(1,2) init_ok(1,2) p net f, THEN conjunct2]
    by (elim exE conjE) (simp only:, blast)
qed

theorem ack_rejected_witness:
  "\<exists>t'. transport_receive feed_ops 64 (transport_init transport_zero) (12, ack_frame 5) = (t', (12, ack_frame 5), -1, None)"
  using ack_rejected [OF init_ok(1,2), of feed_ops "(12, ack_frame 5)" "(12, ack_frame 5)" 5 64]
  by (auto simp: feed_ops_def)

definition null_ports :: "unit port_io" where
  "null_ports = \<lparr>outb = (\<lambda>_ _ w. w), inb = (\<lambda>_ w. (w, 0)), inw = (\<lambda>_ w. (w, 0))\<rparr>"

theorem send_fails_witness:
  "\<exists>t'. transport_send (x86_net_ops null_ports (fst (plat_net_init null_ports ())) (\<lambda>w. (w, 0)) id) 1 (Some [1]) 1
      (transport_init transport_zero) () = Some (t', (), -1)"
proof -
  have "\<not> hn_ready (fst (plat_net_init null_ports ()))"
    by (simp add: plat_net_init_def ne_probe_def ne_read_def null_ports_def)
  then show ?thesis
    using send_fails_without_card [OF init_ok(1,2), of "[1]" "fst (plat_net_init null_ports ())" null_ports "\<lambda>w. (w, 0)" id 1 "()"]
    by auto
qed

theorem session_never_reconnects_witness:
  "\<exists>t'. (session_step feed_ops ^^ 1) (transport_request_reconnect (transport_init transport_zero), (0, [])) (t', (0, [])) \<and>
     session_down t'"
proof -
  let ?t = "transport_request_reconnect (transport_init transport_zero)"
  have d: "session_down ?t"
    by (simp add: session_down_def transport_request_reconnect_def transport_init_def transport_zero_def)
  obtain t' where "transport_call feed_ops RequestReconnect (?t, (0, [])) = Some (t', (0, []))"
    by (simp add: transport_call_def)
  then have "session_step feed_ops (?t, (0, [])) (t', (0, []))"
    by (rule session_step.call)
  then have s: "(session_step feed_ops ^^ 1) (?t, (0, [])) (t', (0, []))" by (simp only: relpowp_1)
  have k: "unat (transport_ticks ?t) + 1 + 501 < 2 ^ 32"
    by (simp add: transport_request_reconnect_def transport_init_def transport_zero_def)
  show ?thesis using session_never_reconnects [OF s d k] s by blast
qed

end
