(* ===== verification/Party.thy ===== *)
theory Party
  imports Transport
begin

text \<open>
  The party rooms of \<^verbatim>\<open>src/party.c\<close> on top of the transport layer: creating, joining
  and leaving a room, invitations and chat, and the handler of the messages that
  arrive. The room keeps its texts as the byte arrays of the C structure, because
  member lists arrive as raw bytes; a \<^verbatim>\<open>char *\<close> argument is a string.
\<close>

section \<open>State\<close>

definition PARTY_ROOM_NAME_MAX :: nat where "PARTY_ROOM_NAME_MAX = 32"
definition PARTY_MEMBER_MAX :: nat where "PARTY_MEMBER_MAX = 8"
definition PARTY_IP_STR_MAX :: nat where "PARTY_IP_STR_MAX = 16"
definition PARTY_CHAT_MSG_MAX :: nat where "PARTY_CHAT_MSG_MAX = 128"
definition PARTY_MSG_CREATE :: u8 where "PARTY_MSG_CREATE = 1"
definition PARTY_MSG_INVITE :: u8 where "PARTY_MSG_INVITE = 2"
definition PARTY_MSG_JOIN :: u8 where "PARTY_MSG_JOIN = 3"
definition PARTY_MSG_LEAVE :: u8 where "PARTY_MSG_LEAVE = 4"
definition PARTY_MSG_CHAT :: u8 where "PARTY_MSG_CHAT = 5"
definition PARTY_MSG_MEMBER_LIST :: u8 where "PARTY_MSG_MEMBER_LIST = 6"
definition PARTY_MSG_ROOM_INFO :: u8 where "PARTY_MSG_ROOM_INFO = 7"

record party_member =
  pm_ip :: "u8 list"
  pm_active :: bool

record party_room =
  room_name :: "u8 list"
  room_members :: "party_member list"
  member_count :: nat
  is_host :: bool
  in_room :: bool

record party =
  room :: party_room
  party_initialized :: bool
  party_rx_buf :: "u8 list"
  p_transport :: transport

definition clear_room :: party_room where
  "clear_room =
     \<lparr>room_name = replicate PARTY_ROOM_NAME_MAX 0,
      room_members = replicate PARTY_MEMBER_MAX \<lparr>pm_ip = replicate PARTY_IP_STR_MAX 0, pm_active = False\<rparr>,
      member_count = 0, is_host = False, in_room = False\<rparr>"

definition party_zero :: party where
  "party_zero = \<lparr>room = clear_room, party_initialized = False, party_rx_buf = replicate TRANSPORT_MAX_PAYLOAD 0,
                 p_transport = transport_zero\<rparr>"

section \<open>Texts in byte arrays\<close>

definition bytes :: "string \<Rightarrow> u8 list" where
  "bytes s = map of_char s"

text \<open>The copy loop reads the source up to a zero byte, at most \<open>n - 1\<close> bytes.\<close>

definition text_bytes :: "nat \<Rightarrow> u8 list \<Rightarrow> u8 list" where
  "text_bytes n src = take (n - 1) (takeWhile (\<lambda>b. b \<noteq> 0) src)"

definition store_text :: "nat \<Rightarrow> u8 list \<Rightarrow> u8 list \<Rightarrow> u8 list" where
  "store_text n src buf = (let b = text_bytes n src @ [0] in b @ drop (length b) buf)"

section \<open>Messages\<close>

definition send_party_msg ::
  "'w net_ops \<Rightarrow> u8 \<Rightarrow> u8 list \<Rightarrow> party \<Rightarrow> 'w \<Rightarrow> (party \<times> 'w) option" where
  "send_party_msg ops msg_type payload p w =
     (if length payload > TRANSPORT_MAX_PAYLOAD - 1 then Some (p, w)
      else map_option (\<lambda>(t, w1, rc). (p\<lparr>p_transport := t\<rparr>, w1))
             (transport_send ops TRANSPORT_TYPE_DATA (Some (msg_type # payload)) (of_nat (length payload + 1))
                (p_transport p) w))"

definition set_member :: "u8 list \<Rightarrow> party_room \<Rightarrow> party_room" where
  "set_member ip r =
     (let n = member_count r
      in r\<lparr>room_members := (room_members r)[n := \<lparr>pm_ip = store_text PARTY_IP_STR_MAX ip (pm_ip (room_members r ! n)),
                                               pm_active = True\<rparr>],
           member_count := n + 1\<rparr>)"

definition add_member_by_ip :: "u8 list \<Rightarrow> party_room \<Rightarrow> party_room \<times> int" where
  "add_member_by_ip ip r =
     (if member_count r \<ge> PARTY_MEMBER_MAX then (r, - 1) else (set_member ip r, 0))"

definition handle_room_info :: "u8 list \<Rightarrow> nat \<Rightarrow> party_room \<Rightarrow> party_room" where
  "handle_room_info p len r =
     (if len < 1 then r
      else let name_len = min (unat (p ! 0)) (PARTY_ROOM_NAME_MAX - 1)
           in if len < 1 + name_len + 1 then r
              else r\<lparr>room_name := take name_len (drop 1 p) @ [0] @ drop (name_len + 1) (room_name r),
                     member_count := min (unat (p ! (1 + name_len))) PARTY_MEMBER_MAX,
                     is_host := False, in_room := True\<rparr>)"

fun member_entries :: "u8 list \<Rightarrow> nat \<Rightarrow> nat \<Rightarrow> nat list \<Rightarrow> party_member list \<Rightarrow> party_member list" where
  "member_entries p len off [] ms = ms"
| "member_entries p len off (i # is) ms =
     (if off + PARTY_IP_STR_MAX \<le> len
      then member_entries p len (off + PARTY_IP_STR_MAX) is
             (ms[i := \<lparr>pm_ip = take (PARTY_IP_STR_MAX - 1) (drop off p) @ [0], pm_active = True\<rparr>])
      else ms)"

definition handle_member_list :: "u8 list \<Rightarrow> nat \<Rightarrow> party_room \<Rightarrow> party_room" where
  "handle_member_list p len r =
     (if len < 1 then r
      else let n = min (unat (p ! 0)) PARTY_MEMBER_MAX
           in r\<lparr>member_count := n, room_members := member_entries p len 1 [0..<n] (room_members r)\<rparr>)"

definition handle_chat :: "u8 list \<Rightarrow> nat \<Rightarrow> party_room \<Rightarrow> party_room" where
  "handle_chat p len r = r"

definition party_handle_received :: "u8 list \<Rightarrow> nat \<Rightarrow> party_room \<Rightarrow> party_room" where
  "party_handle_received buf payload_len r =
     (if payload_len < 1 then r
      else let msg_type = buf ! 0; p = drop 1 buf; plen = payload_len - 1
           in if msg_type = PARTY_MSG_ROOM_INFO then handle_room_info p plen r
              else if msg_type = PARTY_MSG_MEMBER_LIST then handle_member_list p plen r
              else if msg_type = PARTY_MSG_CHAT then handle_chat p plen r
              else if msg_type = PARTY_MSG_JOIN then
                if is_host r \<and> plen \<ge> PARTY_IP_STR_MAX then fst (add_member_by_ip p r) else r
              else r)"

section \<open>Operations\<close>

definition party_init :: "party \<Rightarrow> party" where
  "party_init p =
     (if party_initialized p then p
      else p\<lparr>p_transport := transport_init (p_transport p), room := clear_room, party_initialized := True\<rparr>)"

text \<open>A room entered alone: the local player is member 0, with an empty address.\<close>

definition alone :: "party_room \<Rightarrow> party_room" where
  "alone r = r\<lparr>in_room := True, member_count := 1,
     room_members := (room_members r)[0 := \<lparr>pm_ip = (pm_ip (room_members r ! 0))[0 := 0], pm_active = True\<rparr>]\<rparr>"

definition room_info :: "party_room \<Rightarrow> u8 list" where
  "room_info r =
     (let name = takeWhile (\<lambda>b. b \<noteq> 0) (take PARTY_ROOM_NAME_MAX (room_name r))
      in of_nat (length name) # name @ [of_nat (member_count r)])"

definition party_create :: "'w net_ops \<Rightarrow> string option \<Rightarrow> party \<Rightarrow> 'w \<Rightarrow> (party \<times> 'w \<times> int) option" where
  "party_create ops name p w =
     (if \<not> party_initialized p then Some (p, w, - 1)
      else
        let r0 = (case name of None \<Rightarrow> clear_room
                  | Some s \<Rightarrow> clear_room\<lparr>room_name := store_text PARTY_ROOM_NAME_MAX (bytes s) (room_name clear_room)\<rparr>);
            r = (alone r0)\<lparr>is_host := True\<rparr>
        in map_option (\<lambda>(p1, w1). (p1, w1, 0))
             (send_party_msg ops PARTY_MSG_ROOM_INFO (room_info r) (p\<lparr>room := r\<rparr>) w))"

text \<open>The message repeats the address up to and including the character the copy stopped at.\<close>

definition party_invite :: "'w net_ops \<Rightarrow> string option \<Rightarrow> party \<Rightarrow> 'w \<Rightarrow> (party \<times> 'w \<times> int) option" where
  "party_invite ops ip p w =
     (if \<not> party_initialized p \<or> \<not> in_room (room p) \<or> \<not> is_host (room p) then Some (p, w, - 1)
      else if member_count (room p) \<ge> PARTY_MEMBER_MAX then Some (p, w, - 1)
      else case ip of None \<Rightarrow> Some (p, w, - 1)
           | Some s \<Rightarrow>
               let i = length (text_bytes PARTY_IP_STR_MAX (bytes s))
               in map_option (\<lambda>(p1, w1). (p1, w1, 0))
                    (send_party_msg ops PARTY_MSG_INVITE (map (\<lambda>j. of_char (char_at s j)) [0..<i + 1])
                       (p\<lparr>room := set_member (bytes s) (room p)\<rparr>) w))"

definition party_join :: "'w net_ops \<Rightarrow> party \<Rightarrow> 'w \<Rightarrow> (party \<times> 'w \<times> int) option" where
  "party_join ops p w =
     (if \<not> party_initialized p then Some (p, w, - 1)
      else map_option (\<lambda>(p1, w1). (p1, w1, 0))
             (send_party_msg ops PARTY_MSG_JOIN (bytes ''0.0.0.0'') (p\<lparr>room := alone clear_room\<rparr>) w))"

definition party_leave :: "'w net_ops \<Rightarrow> party \<Rightarrow> 'w \<Rightarrow> (party \<times> 'w) option" where
  "party_leave ops p w =
     map_option (\<lambda>(p1, w1). (p1\<lparr>room := clear_room\<rparr>, w1)) (send_party_msg ops PARTY_MSG_LEAVE [] p w)"

definition party_chat :: "'w net_ops \<Rightarrow> string option \<Rightarrow> party \<Rightarrow> 'w \<Rightarrow> (party \<times> 'w \<times> int) option" where
  "party_chat ops msg p w =
     (case msg of None \<Rightarrow> Some (p, w, - 1)
      | Some s \<Rightarrow>
          if \<not> party_initialized p \<or> \<not> in_room (room p) then Some (p, w, - 1)
          else let len = length (text_bytes PARTY_CHAT_MSG_MAX (bytes s))
               in map_option (\<lambda>(p1, w1). (p1, w1, 0))
                    (send_party_msg ops PARTY_MSG_CHAT (map (\<lambda>j. of_char (char_at s j)) [0..<len + 1]) p w))"

definition party_poll :: "'w net_ops \<Rightarrow> party \<Rightarrow> 'w \<Rightarrow> party \<times> 'w" where
  "party_poll ops p w =
     (if \<not> party_initialized p then (p, w)
      else
        case transport_receive ops (of_nat TRANSPORT_MAX_PAYLOAD) (p_transport p) w of
          (t, w1, n, None) \<Rightarrow> (p\<lparr>p_transport := t\<rparr>, w1)
        | (t, w1, n, Some (type, d)) \<Rightarrow>
            let rx = d @ drop (length d) (party_rx_buf p);
                p1 = p\<lparr>p_transport := t, party_rx_buf := rx\<rparr>
            in if n > 0 \<and> type = TRANSPORT_TYPE_DATA \<and> PARTY_MSG_CREATE \<le> rx ! 0 \<and> rx ! 0 \<le> PARTY_MSG_ROOM_INFO
               then (p1\<lparr>room := party_handle_received rx (nat n) (room p1)\<rparr>, w1) else (p1, w1))"

definition party_list :: "'w net_ops \<Rightarrow> party \<Rightarrow> 'w \<Rightarrow> party \<times> 'w \<times> int" where
  "party_list ops p w =
     (if \<not> party_initialized p then (p, w, - 1) else case party_poll ops p w of (p1, w1) \<Rightarrow> (p1, w1, 0))"

definition party_get_room :: "party \<Rightarrow> party_room" where
  "party_get_room p = room p"

definition party_in_room :: "party \<Rightarrow> bool" where
  "party_in_room p = in_room (room p)"

section \<open>The room is well formed whatever arrives\<close>

text \<open>
  Every text of the room ends inside its array and no more than eight members are
  counted. This is what the C accesses rely on.
\<close>

definition room_ok :: "party_room \<Rightarrow> bool" where
  "room_ok r \<longleftrightarrow> length (room_name r) = 32 \<and> room_name r ! 31 = 0 \<and> length (room_members r) = 8 \<and>
     (\<forall>m\<in>set (room_members r). length (pm_ip m) = 16 \<and> pm_ip m ! 15 = 0) \<and> member_count r \<le> 8"

definition party_ok :: "party \<Rightarrow> bool" where
  "party_ok p \<longleftrightarrow> room_ok (room p) \<and> length (party_rx_buf p) = 1400 \<and> transport_wf (p_transport p)"

lemmas party_consts = PARTY_ROOM_NAME_MAX_def PARTY_MEMBER_MAX_def PARTY_IP_STR_MAX_def PARTY_CHAT_MSG_MAX_def
  TRANSPORT_MAX_PAYLOAD_def

lemma text_bytes_length: "0 < n \<Longrightarrow> length (text_bytes n src) < n"
  by (simp add: text_bytes_def)

lemma last_of_overwrite:
  assumes "length a < n" "length buf = n" "buf ! (n - 1) = (0 :: u8)"
  shows "length (a @ [0] @ drop (Suc (length a)) buf) = n" "(a @ [0] @ drop (Suc (length a)) buf) ! (n - 1) = 0"
proof -
  show l: "length (a @ [0] @ drop (Suc (length a)) buf) = n" using assms(1,2) by simp
  have g: "\<not> n - 1 < length a" using assms(1) by linarith
  show "(a @ [0] @ drop (Suc (length a)) buf) ! (n - 1) = 0"
  proof (cases "Suc (length a) = n")
    case True
    then have "n - 1 = length a" by simp
    then show ?thesis by (simp add: nth_append)
  next
    case False
    then have "Suc (length a) < n" using assms(1) by simp
    then have k: "n - 1 - length a = Suc (n - 1 - Suc (length a))" "Suc (length a) + (n - 1 - Suc (length a)) = n - 1" by auto
    have "(a @ [0] @ drop (Suc (length a)) buf) ! (n - 1) = (0 # drop (Suc (length a)) buf) ! (n - 1 - length a)"
      using g by (simp add: nth_append)
    also have "\<dots> = drop (Suc (length a)) buf ! (n - 1 - Suc (length a))" by (simp only: k(1) nth_Cons_Suc)
    also have "\<dots> = buf ! (n - 1)" using k(2) assms(2) \<open>Suc (length a) < n\<close> by (subst nth_drop) (simp_all only: k(2))
    finally show ?thesis using assms(3) by simp
  qed
qed

lemma store_text_ok:
  assumes "0 < n" "length buf = n" "buf ! (n - 1) = 0"
  shows "length (store_text n src buf) = n" "store_text n src buf ! (n - 1) = 0"
  using last_of_overwrite [OF text_bytes_length [OF assms(1)] assms(2,3), of src] by (simp_all add: store_text_def Let_def)

lemma members_update_ok:
  assumes "\<forall>m\<in>set ms. length (pm_ip m) = 16 \<and> pm_ip m ! 15 = 0" "length ip = 16" "ip ! 15 = 0"
  shows "\<forall>m\<in>set (ms[i := \<lparr>pm_ip = ip, pm_active = a\<rparr>]). length (pm_ip m) = 16 \<and> pm_ip m ! 15 = 0"
  using assms set_update_subset_insert [of ms i "\<lparr>pm_ip = ip, pm_active = a\<rparr>"] by auto

lemma set_member_ok:
  assumes "room_ok r" "member_count r < 8"
  shows "room_ok (set_member ip r)"
proof -
  let ?m = "room_members r ! member_count r"
  have "?m \<in> set (room_members r)" using assms by (simp add: room_ok_def)
  then have "length (pm_ip ?m) = 16" "pm_ip ?m ! (16 - 1) = 0" using assms(1) by (auto simp: room_ok_def)
  then have "length (store_text 16 ip (pm_ip ?m)) = 16" "store_text 16 ip (pm_ip ?m) ! 15 = 0"
    using store_text_ok [of 16 "pm_ip ?m" ip] by simp_all
  note members_update_ok [OF _ this, of "room_members r" "member_count r" True]
  then show ?thesis using assms unfolding set_member_def room_ok_def party_consts Let_def by simp
qed

lemma clear_room_ok: "room_ok clear_room"
  by (simp add: clear_room_def room_ok_def party_consts)

lemma alone_ok:
  assumes "room_ok r"
  shows "room_ok (alone r)"
proof -
  let ?m = "room_members r ! 0"
  have "?m \<in> set (room_members r)" using assms by (simp add: room_ok_def)
  then have "length ((pm_ip ?m)[0 := 0]) = 16" "(pm_ip ?m)[0 := 0] ! 15 = 0" using assms by (auto simp: room_ok_def)
  note members_update_ok [OF _ this, of "room_members r" 0 True]
  then show ?thesis using assms unfolding alone_def room_ok_def by simp
qed

lemma room_info_ok:
  assumes "room_ok r" "len \<le> length p"
  shows "room_ok (handle_room_info p len r)"
proof -
  let ?n = "min (unat (p ! 0)) 31"
  have "length (take ?n (drop 1 p)) = ?n" if "1 + ?n + 1 \<le> len" using that assms(2) by simp
  then have "length (take ?n (drop 1 p) @ [0] @ drop (?n + 1) (room_name r)) = 32 \<and>
      (take ?n (drop 1 p) @ [0] @ drop (?n + 1) (room_name r)) ! 31 = 0" if "1 + ?n + 1 \<le> len"
    using last_of_overwrite [of "take ?n (drop 1 p)" 32 "room_name r"] assms(1) that by (simp add: room_ok_def)
  then show ?thesis using assms(1) by (auto simp: handle_room_info_def room_ok_def party_consts Let_def)
qed

lemma member_entries_ok:
  assumes "\<forall>m\<in>set ms. length (pm_ip m) = 16 \<and> pm_ip m ! 15 = 0" "len \<le> length p"
  shows "(\<forall>m\<in>set (member_entries p len off is ms). length (pm_ip m) = 16 \<and> pm_ip m ! 15 = 0) \<and>
    length (member_entries p len off is ms) = length ms"
  using assms(1)
proof (induction "is" arbitrary: off ms)
  case (Cons i "is")
  show ?case
  proof (cases "off + 16 \<le> len")
    case True
    then have "length (take 15 (drop off p) @ [0]) = 16" "(take 15 (drop off p) @ [0]) ! 15 = 0"
      using assms(2) by (simp_all add: nth_append)
    from Cons.IH [OF members_update_ok [OF Cons.prems this, of i True], of "off + 16"]
    show ?thesis using True by (simp add: party_consts)
  qed (use Cons.prems in \<open>simp add: party_consts\<close>)
qed simp

lemma party_handle_ok:
  assumes "room_ok r" "n \<le> length buf"
  shows "room_ok (party_handle_received buf n r)"
proof (cases "n < 1")
  case False
  then have l: "n - 1 \<le> length (drop 1 buf)" using assms(2) by simp
  have m: "room_ok (handle_member_list (drop 1 buf) (n - 1) r)"
  proof -
    let ?k = "min (unat (drop 1 buf ! 0)) 8"
    have "\<forall>m\<in>set (room_members r). length (pm_ip m) = 16 \<and> pm_ip m ! 15 = 0" using assms(1) unfolding room_ok_def by blast
    note e = member_entries_ok [OF this l, of 1 "[0..<?k]"]
    have r: "length (room_name r) = 32" "room_name r ! 31 = 0" "length (room_members r) = 8"
      using assms(1) unfolding room_ok_def by blast+
    then show ?thesis using e assms(1) unfolding handle_member_list_def Let_def PARTY_MEMBER_MAX_def
      by (cases "n - 1 < 1") (simp_all only: if_True if_False, simp_all add: room_ok_def)
  qed
  have "room_ok (fst (add_member_by_ip (drop 1 buf) r))"
    using assms(1) set_member_ok by (simp add: add_member_by_ip_def party_consts)
  then show ?thesis
    using False assms(1) room_info_ok [OF assms(1) l] m
    by (simp add: party_handle_received_def handle_chat_def Let_def)
qed (simp add: party_handle_received_def assms(1))

lemma send_party_ok:
  assumes "party_ok p"
  obtains p' w' where "send_party_msg ops ty d p w = Some (p', w')" "party_ok p'" "room p' = room p"
    "party_initialized p' = party_initialized p"
proof (cases "length d > 1399")
  case True
  then show ?thesis using that [of p w] assms by (simp add: send_party_msg_def party_consts)
next
  case False
  have wf: "transport_wf (p_transport p)" using assms by (simp add: party_ok_def)
  have "length (ty # d) \<le> 1400" using False by simp
  then obtain t w1 rc where
    "transport_send ops TRANSPORT_TYPE_DATA (Some (ty # d)) (of_nat (length (ty # d))) (p_transport p) w = Some (t, w1, rc)"
    "transport_wf t" by (rule send_total [OF wf])
  then show ?thesis using that [of "p\<lparr>p_transport := t\<rparr>" w1] False assms
    by (simp add: send_party_msg_def party_consts party_ok_def)
qed

section \<open>Calls\<close>

datatype party_call = Init | Create "string option" | Invite "string option" | List | Join | Leave | Chat "string option" | Poll

definition party_call :: "'w net_ops \<Rightarrow> party_call \<Rightarrow> party \<times> 'w \<Rightarrow> (party \<times> 'w) option" where
  "party_call ops c s = (case s of (p, w) \<Rightarrow>
     (case c of
        Init \<Rightarrow> Some (party_init p, w)
      | Create name \<Rightarrow> map_option (\<lambda>(p1, w1, rc). (p1, w1)) (party_create ops name p w)
      | Invite ip \<Rightarrow> map_option (\<lambda>(p1, w1, rc). (p1, w1)) (party_invite ops ip p w)
      | List \<Rightarrow> (case party_list ops p w of (p1, w1, rc) \<Rightarrow> Some (p1, w1))
      | Join \<Rightarrow> map_option (\<lambda>(p1, w1, rc). (p1, w1)) (party_join ops p w)
      | Leave \<Rightarrow> party_leave ops p w
      | Chat msg \<Rightarrow> map_option (\<lambda>(p1, w1, rc). (p1, w1)) (party_chat ops msg p w)
      | Poll \<Rightarrow> Some (party_poll ops p w)))"

lemma party_poll_ok:
  assumes "party_ok p" "delivers ops"
  shows "party_ok (fst (party_poll ops p w))"
proof (cases "party_initialized p")
  case True
  obtain t w1 n r where rc: "transport_receive ops (of_nat TRANSPORT_MAX_PAYLOAD) (p_transport p) w = (t, w1, n, r)"
    by (cases "transport_receive ops (of_nat TRANSPORT_MAX_PAYLOAD) (p_transport p) w")
  have wf: "transport_wf (p_transport p)" using assms(1) by (simp add: party_ok_def)
  note rw = receive_wf [OF wf assms(2) rc]
  show ?thesis
  proof (cases r)
    case None
    then show ?thesis using True rc rw(1) assms(1) by (simp add: party_poll_def party_ok_def)
  next
    case (Some td)
    obtain ty d where td: "td = (ty, d)" by (cases td)
    have d: "n = int (length d)" "length d \<le> 1400" using rw(3) Some td by auto
    let ?rx = "d @ drop (length d) (party_rx_buf p)"
    have l: "length ?rx = 1400" using d(2) assms(1) by (simp add: party_ok_def)
    have "room_ok (room p)" using assms(1) by (simp add: party_ok_def)
    then have "room_ok (party_handle_received ?rx (nat n) (room p))"
      by (rule party_handle_ok) (simp add: d(1))
    then show ?thesis using True rc rw(1) assms(1) Some td l
      by (simp add: party_poll_def party_ok_def Let_def)
  qed
qed (simp add: party_poll_def assms(1))

lemma create_room_ok:
  "room_ok (case name of None \<Rightarrow> clear_room
     | Some s \<Rightarrow> clear_room\<lparr>room_name := store_text PARTY_ROOM_NAME_MAX (bytes s) (room_name clear_room)\<rparr>)"
proof (cases name)
  case (Some s)
  have "length (room_name clear_room) = 32" "room_name clear_room ! (32 - 1) = 0"
    by (simp_all add: clear_room_def party_consts)
  from store_text_ok [OF _ this, of "bytes s"] show ?thesis
    using Some clear_room_ok by (simp add: room_ok_def party_consts)
qed (simp add: clear_room_ok)

lemma set_room_ok: "party_ok p \<Longrightarrow> room_ok r \<Longrightarrow> party_ok (p\<lparr>room := r\<rparr>)"
  by (simp add: party_ok_def)

lemma room_flag_ok: "room_ok r \<Longrightarrow> room_ok (r\<lparr>is_host := b\<rparr>)"
  by (simp add: room_ok_def)

lemma party_call_ok:
  assumes "party_ok p" "delivers ops"
  shows "\<exists>p' w'. party_call ops c (p, w) = Some (p', w') \<and> party_ok p'"
proof (cases c)
  case Init
  have "transport_wf (transport_init (p_transport p))"
    using assms(1) by (simp add: party_ok_def transport_init_def transport_wf_def)
  then show ?thesis using Init assms(1) clear_room_ok by (simp add: party_call_def party_init_def party_ok_def)
next
  case (Create name)
  have "party_ok (p\<lparr>room := (alone (case name of None \<Rightarrow> clear_room
     | Some s \<Rightarrow> clear_room\<lparr>room_name := store_text PARTY_ROOM_NAME_MAX (bytes s) (room_name clear_room)\<rparr>))\<lparr>is_host := True\<rparr>\<rparr>)"
    (is "party_ok ?p") by (intro set_room_ok assms(1) room_flag_ok alone_ok create_room_ok)
  then obtain p' w' where "send_party_msg ops PARTY_MSG_ROOM_INFO (room_info (room ?p)) ?p w = Some (p', w')" "party_ok p'"
    by (rule send_party_ok)
  then show ?thesis using Create assms(1) by (simp add: party_call_def party_create_def Let_def)
next
  case (Invite ip)
  show ?thesis
  proof (cases "\<exists>s. ip = Some s \<and> party_initialized p \<and> in_room (room p) \<and> is_host (room p) \<and> member_count (room p) < 8")
    case True
    then obtain s where s: "ip = Some s" "party_initialized p" "in_room (room p)" "is_host (room p)" "member_count (room p) < 8"
      by blast
    have "party_ok (p\<lparr>room := set_member (bytes s) (room p)\<rparr>)" (is "party_ok ?p")
      using assms(1) s(5) by (intro set_room_ok set_member_ok) (auto simp: party_ok_def)
    then obtain p' w' where
      "send_party_msg ops PARTY_MSG_INVITE (map (\<lambda>j. of_char (char_at s j)) [0..<length (text_bytes PARTY_IP_STR_MAX (bytes s)) + 1]) ?p w = Some (p', w')"
      "party_ok p'" by (rule send_party_ok)
    then show ?thesis using Invite s by (simp add: party_call_def party_invite_def PARTY_MEMBER_MAX_def Let_def)
  next
    case False
    then show ?thesis using Invite assms(1)
      by (cases ip) (auto simp: party_call_def party_invite_def PARTY_MEMBER_MAX_def)
  qed
next
  case List
  then show ?thesis using assms party_poll_ok [OF assms, of w]
    by (cases "party_poll ops p w") (simp add: party_call_def party_list_def)
next
  case Join
  have "party_ok (p\<lparr>room := alone clear_room\<rparr>)" (is "party_ok ?p") by (intro set_room_ok assms(1) alone_ok clear_room_ok)
  then obtain p' w' where "send_party_msg ops PARTY_MSG_JOIN (bytes ''0.0.0.0'') ?p w = Some (p', w')" "party_ok p'"
    by (rule send_party_ok)
  then show ?thesis using Join assms(1) by (simp add: party_call_def party_join_def)
next
  case Leave
  obtain p' w' where "send_party_msg ops PARTY_MSG_LEAVE [] p w = Some (p', w')" "party_ok p'"
    by (rule send_party_ok [OF assms(1)])
  then show ?thesis using Leave set_room_ok [OF _ clear_room_ok] by (simp add: party_call_def party_leave_def)
next
  case (Chat msg)
  show ?thesis
  proof (cases msg)
    case (Some s)
    obtain p' w' where
      "send_party_msg ops PARTY_MSG_CHAT (map (\<lambda>j. of_char (char_at s j)) [0..<length (text_bytes PARTY_CHAT_MSG_MAX (bytes s)) + 1]) p w = Some (p', w')"
      "party_ok p'" by (rule send_party_ok [OF assms(1)])
    then show ?thesis using Chat Some assms(1) by (simp add: party_call_def party_chat_def Let_def)
  qed (use Chat assms(1) in \<open>simp add: party_call_def party_chat_def\<close>)
next
  case Poll
  then show ?thesis using party_poll_ok [OF assms, of w] by (cases "party_poll ops p w") (simp add: party_call_def)
qed

text \<open>
  C19: Whatever sequence of party calls is made and whatever packets the network
  delivers in between, no call reads or writes outside a buffer: the state stays
  well formed, with at most eight members, a room name of at most 31 and addresses
  of at most 15 characters, all terminated inside their arrays.
\<close>

theorem party_calls_safe:
  assumes "delivers ops"
  shows "\<exists>p w'. each (party_call ops) calls (party_zero, w) = Some (p, w') \<and> party_ok p"
proof -
  have z: "party_ok party_zero"
    using clear_room_ok
    by (simp add: party_zero_def party_ok_def transport_zero_def transport_wf_def party_consts TRANSPORT_PACKET_MAX_def TRANSPORT_HEADER_SIZE_def)
  have "\<exists>p' w'. each (party_call ops) calls (p, w) = Some (p', w') \<and> party_ok p'" if "party_ok p" for p w
    using that
  proof (induction calls arbitrary: p w)
    case (Cons c cs)
    obtain p1 w1 where "party_call ops c (p, w) = Some (p1, w1)" "party_ok p1"
      using party_call_ok [OF Cons.prems assms] by blast
    then show ?case using Cons.IH by simp
  qed simp
  then show ?thesis using z by blast
qed

lemma inb_n_length: "length (snd (inb_n io n w)) = n"
  by (induction n arbitrary: w) (auto simp: split_beta Let_def)

lemma x86_delivers: "delivers (x86_net_ops io hn ticks delay)"
proof -
  have ne: "fst (snd (ne_recv io mx w)) = int (length (snd (snd (ne_recv io mx w))))" for mx w
    by (simp add: ne_recv_def split_beta Let_def inb_n_length)
  have "nat n \<le> mx \<and> nat n \<le> length raw" if "plat_net_recv io hn mx w = (w1, n, raw)" for mx w w1 n raw
  proof -
    obtain v k f where f: "ne_recv io 1514 w = (v, k, f)" by (cases "ne_recv io 1514 w")
    have "k = int (length f)" using ne [of 1514 w] f by simp
    then show ?thesis using that f by (auto simp: plat_net_recv_def Let_def split: if_splits)
  qed
  then show ?thesis by (auto simp: delivers_def x86_net_ops_def)
qed

theorem party_calls_witness:
  "\<exists>p w'. each (party_call (x86_net_ops null_ports (fst (plat_net_init null_ports ())) (\<lambda>w. (w, 0)) id))
      [Init, Create (Some ''den''), Invite (Some ''10.0.0.3''), Poll, Chat (Some ''hi''), Leave] (party_zero, ()) = Some (p, w') \<and>
    party_ok p"
  by (rule party_calls_safe) (rule x86_delivers)

section \<open>Announcing a room\<close>

lemma of_char_u8_zero: "(of_char c :: u8) = 0 \<longleftrightarrow> c = NUL"
proof -
  have "unat (of_char c :: u8) = of_char c"
  proof -
    have "(of_char c :: u8) = of_nat (of_char c)" by (simp add: of_nat_of_char)
    moreover have "of_char c < (256 :: nat)" by (cases c) (auto simp: horner_sum_simps split: if_splits)
    ultimately show ?thesis by (simp add: unat_of_nat)
  qed
  then have "(of_char c :: u8) = 0 \<longleftrightarrow> (of_char c :: nat) = 0" by (simp add: unat_eq_zero [symmetric])
  also have "\<dots> \<longleftrightarrow> c = NUL" using of_char_eq_iff [of c NUL, where 'a = nat] by simp
  finally show ?thesis .
qed

lemma text_bytes_string: "text_bytes n (bytes s) = bytes (str_copy n s)"
  by (simp add: text_bytes_def bytes_def str_copy_take cstr_def takeWhile_map comp_def of_char_u8_zero take_map)

lemma bytes_nonzero: "0 \<notin> set (bytes (str_copy n s))"
  by (auto simp: text_bytes_string [symmetric] text_bytes_def dest!: in_set_takeD set_takeWhileD)

text \<open>The text a byte array holds.\<close>

definition array_text :: "u8 list \<Rightarrow> u8 list" where
  "array_text a = takeWhile (\<lambda>b. b \<noteq> 0) a"

lemma array_text_stored: "0 \<notin> set s \<Longrightarrow> array_text (s @ 0 # r) = s"
  by (induction s) (auto simp: array_text_def)

text \<open>
  C38: A room announced by one machine appears on another. When the packet that
  party_create hands to the network is delivered to a second initialised machine,
  its next poll puts it into a room of the same name (cut to 31 characters) with one
  member, as a guest; the creator is in the room as its host.
\<close>

theorem party_create_announces:
  assumes a: "party_ok a" "party_initialized a" "t_initialized (p_transport a)"
    and b: "party_ok b" "party_initialized b" "t_initialized (p_transport b)"
    and f: "f = frame TRANSPORT_TYPE_DATA (local_seq (session (p_transport a)))
        (PARTY_MSG_ROOM_INFO # of_nat (length (str_copy 32 name)) # bytes (str_copy 32 name) @ [1])"
    and net: "no_recv ops 1412 w = (w1, int (length f), f)"
  shows "(\<exists>a'. party_create ops' (Some name) a v = Some (a', fst (no_send ops' f v), 0) \<and>
       in_room (room a') \<and> is_host (room a') \<and> array_text (room_name (room a')) = bytes (str_copy 32 name)) \<and>
    (\<exists>b' w2. party_poll ops b w = (b', w2) \<and> in_room (room b') \<and> \<not> is_host (room b') \<and> member_count (room b') = 1 \<and>
       array_text (room_name (room b')) = bytes (str_copy 32 name))"
proof -
  let ?s = "bytes (str_copy 32 name)"
  let ?msg = "PARTY_MSG_ROOM_INFO # of_nat (length (str_copy 32 name)) # ?s @ [1]"
  let ?r = "(alone (clear_room\<lparr>room_name := store_text 32 (bytes name) (room_name clear_room)\<rparr>))\<lparr>is_host := True\<rparr>"
  have l: "length ?s < 32" "length (str_copy 32 name) = length ?s"
    using str_copy_length [of 32 name] by (simp_all add: bytes_def)
  have nm: "room_name ?r = ?s @ 0 # drop (Suc (length ?s)) (replicate 32 0)"
    by (simp add: alone_def store_text_def text_bytes_string Let_def clear_room_def party_consts)
  have tw: "takeWhile (\<lambda>b. b \<noteq> 0) (take 32 (room_name ?r)) = ?s"
  proof -
    have "take 32 (room_name ?r) = ?s @ 0 # take (31 - length ?s) (drop (Suc (length ?s)) (replicate 32 0))"
      unfolding nm using l(1) by (simp add: take_Cons' del: drop_replicate)
    then show ?thesis using array_text_stored [OF bytes_nonzero] by (simp add: array_text_def)
  qed
  have info: "room_info ?r = of_nat (length (str_copy 32 name)) # ?s @ [1]"
    unfolding room_info_def PARTY_ROOM_NAME_MAX_def tw Let_def l(2) by (simp add: alone_def)
  have ml: "length ?msg \<le> 1400" "length ?msg \<le> unat (of_nat TRANSPORT_MAX_PAYLOAD :: u32)"
    using l(1) by (simp_all add: TRANSPORT_MAX_PAYLOAD_def)
  have wf: "transport_wf (p_transport a)" "transport_wf (p_transport b)" using a(1) b(1) by (simp_all add: party_ok_def)
  note sr = send_receive [OF a(3) wf(1) b(3) wf(2) ml net f, where ops' = ops' and v = v]
  obtain ta where ta: "transport_send ops' TRANSPORT_TYPE_DATA (Some ?msg) (of_nat (length ?msg)) (p_transport a) v =
      Some (ta, fst (no_send ops' f v), if snd (no_send ops' f v) \<noteq> 0 then - 1 else int (length ?msg))"
    using sr by blast
  have "send_party_msg ops' PARTY_MSG_ROOM_INFO (room_info ?r) (a\<lparr>room := ?r\<rparr>) v =
      Some (a\<lparr>room := ?r, p_transport := ta\<rparr>, fst (no_send ops' f v))"
    using ta l(1) unfolding info by (simp add: send_party_msg_def TRANSPORT_MAX_PAYLOAD_def)
  then have "party_create ops' (Some name) a v = Some (a\<lparr>room := ?r, p_transport := ta\<rparr>, fst (no_send ops' f v), 0)"
    using a(2) by (simp add: party_create_def Let_def PARTY_ROOM_NAME_MAX_def)
  moreover have "array_text (room_name ?r) = ?s" unfolding nm by (rule array_text_stored [OF bytes_nonzero])
  moreover have "in_room ?r" "is_host ?r" by (simp_all add: alone_def)
  ultimately have A: "\<exists>a'. party_create ops' (Some name) a v = Some (a', fst (no_send ops' f v), 0) \<and>
       in_room (room a') \<and> is_host (room a') \<and> array_text (room_name (room a')) = ?s" by auto
  obtain tb w2 where tb: "transport_receive ops (of_nat TRANSPORT_MAX_PAYLOAD) (p_transport b) w =
      (tb, w2, int (length ?msg), Some (TRANSPORT_TYPE_DATA, ?msg))" using sr by blast
  let ?rx = "?msg @ drop (length ?msg) (party_rx_buf b)"
  have k: "unat (of_nat (length (str_copy 32 name)) :: u8) = length ?s" using l by (simp add: unat_of_nat)
  have h: "party_handle_received ?rx (nat (int (length ?msg))) (room b) =
      (room b)\<lparr>room_name := ?s @ 0 # drop (Suc (length ?s)) (room_name (room b)), member_count := 1, is_host := False, in_room := True\<rparr>"
    using l k by (simp add: party_handle_received_def handle_room_info_def Let_def PARTY_ROOM_NAME_MAX_def PARTY_MEMBER_MAX_def nth_append
        min_def)
  have "party_poll ops b w = (b\<lparr>p_transport := tb, party_rx_buf := ?rx, room := party_handle_received ?rx (nat (int (length ?msg))) (room b)\<rparr>, w2)"
    using b(2) tb by (simp add: party_poll_def Let_def PARTY_MSG_CREATE_def PARTY_MSG_ROOM_INFO_def)
  then have "\<exists>b' w2. party_poll ops b w = (b', w2) \<and> in_room (room b') \<and> \<not> is_host (room b') \<and> member_count (room b') = 1 \<and>
       array_text (room_name (room b')) = ?s"
    using array_text_stored [OF bytes_nonzero] unfolding h by auto
  then show ?thesis using A by blast
qed

theorem party_create_witness:
  "\<exists>b' w2. party_poll feed_ops (party_init party_zero)
       (18, frame TRANSPORT_TYPE_DATA 0 (PARTY_MSG_ROOM_INFO # 3 # bytes ''den'' @ [1])) = (b', w2) \<and>
     in_room (room b') \<and> array_text (room_name (room b')) = bytes ''den''"
proof -
  let ?p = "party_init party_zero"
  let ?f = "frame TRANSPORT_TYPE_DATA 0 (PARTY_MSG_ROOM_INFO # 3 # bytes ''den'' @ [1])"
  have t: "p_transport ?p = transport_init transport_zero" by (simp add: party_init_def party_zero_def)
  have ok: "party_ok ?p" "party_initialized ?p" "t_initialized (p_transport ?p)"
    using init_ok clear_room_ok by (simp_all add: t party_ok_def) (simp_all add: party_init_def party_zero_def TRANSPORT_MAX_PAYLOAD_def)
  have c: "str_copy 32 ''den'' = ''den''" by simp
  have f: "?f = frame TRANSPORT_TYPE_DATA (local_seq (session (p_transport ?p)))
      (PARTY_MSG_ROOM_INFO # of_nat (length (str_copy 32 ''den'')) # bytes (str_copy 32 ''den'') @ [1])"
    unfolding t init_ok(3) c by simp
  have "length ?f = 18" by (simp add: frame_def bytes_def Let_def)
  then have net: "no_recv feed_ops 1412 (18, ?f) = ((18, ?f), int (length ?f), ?f)" by (simp add: feed_ops_def)
  show ?thesis using party_create_announces [OF ok ok f net, THEN conjunct2] unfolding c by blast
qed

text \<open>
  A request to join is never granted: party_join sends seven bytes of address, while
  the host adds a member only for a message with at least sixteen.
\<close>

lemma join_request_ignored:
  assumes "length buf \<ge> 8" "take 8 buf = PARTY_MSG_JOIN # bytes ''0.0.0.0''"
  shows "party_handle_received buf 8 r = r"
proof -
  have "buf ! 0 = PARTY_MSG_JOIN" using assms by (metis nth_Cons_0 nth_take zero_less_numeral)
  then show ?thesis
    by (simp add: party_handle_received_def PARTY_MSG_JOIN_def PARTY_MSG_ROOM_INFO_def PARTY_MSG_MEMBER_LIST_def
        PARTY_MSG_CHAT_def PARTY_IP_STR_MAX_def Let_def)
qed

end
