(* ===== verification/Fat_Storage.thy ===== *)
theory Fat_Storage
  imports Asmos_Prelude
begin

text \<open>
  The FAT12 file layer of \<^verbatim>\<open>platform/x86/hal_storage.c\<close>: the cached FAT and root
  directory, 8.3 names, listing, reading, writing and deleting files.

  Sector input and output (\<^verbatim>\<open>fat12_read_sector\<close>, \<^verbatim>\<open>fat12_write_sector\<close>) are
  assembler stubs that jump to the disk driver; they are the argument \<open>io\<close> of the
  operations, over an arbitrary device state \<open>'w\<close>. What the file layer needs of
  them is the hypothesis \<open>reliable\<close>. A read of the cached FAT past its 4608 bytes,
  or of the caller's data past its end, is \<open>None\<close>.
\<close>

section \<open>Bytes in memory\<close>

definition blit :: "nat \<Rightarrow> u8 list \<Rightarrow> u8 list \<Rightarrow> u8 list" where
  "blit i d m = take i m @ d @ drop (i + length d) m"

section \<open>State\<close>

record 'w sector_io =
  rd_sector :: "u32 \<Rightarrow> 'w \<Rightarrow> 'w \<times> u8 list option"
  wr_sector :: "u32 \<Rightarrow> u8 list \<Rightarrow> 'w \<Rightarrow> 'w \<times> bool"

record fat_fs =
  fat_cache :: "u8 list"
  root_cache :: "u8 list"
  fs_ready :: bool

definition fat_fs_zero :: fat_fs where
  "fat_fs_zero = \<lparr>fat_cache = replicate (9 * 512) 0, root_cache = replicate (14 * 512) 0, fs_ready = False\<rparr>"

definition FAT_ROOT_LBA :: u32 where "FAT_ROOT_LBA = 51"
definition FAT_ROOT_SECTORS :: nat where "FAT_ROOT_SECTORS = 14"
definition FAT_ROOT_ENTRIES :: nat where "FAT_ROOT_ENTRIES = 224"
definition FAT_DATA_START :: u32 where "FAT_DATA_START = 65"
definition FAT_SECTORS :: nat where "FAT_SECTORS = 9"
definition FAT_END :: u16 where "FAT_END = 0xFF8"

section \<open>Names\<close>

definition upcase :: "char \<Rightarrow> u8" where
  "upcase c = (let b = of_char c in if 97 \<le> b \<and> b \<le> 122 then b - 32 else b)"

function copy_base :: "string \<Rightarrow> nat \<Rightarrow> nat \<Rightarrow> u8 list \<Rightarrow> nat \<times> nat \<times> u8 list" where
  "copy_base src i j dest =
     (if char_at src i \<noteq> NUL \<and> char_at src i \<noteq> CHR ''.'' \<and> j < 8
      then copy_base src (i + 1) (j + 1) (dest[j := upcase (char_at src i)])
      else (i, j, dest))"
  by pat_completeness auto
termination by (relation "measure (\<lambda>(src, i, j, dest). 8 - j)") auto

function copy_ext :: "string \<Rightarrow> nat \<Rightarrow> nat \<Rightarrow> u8 list \<Rightarrow> u8 list" where
  "copy_ext src i j dest =
     (if char_at src i \<noteq> NUL \<and> j < 11
      then copy_ext src (i + 1) (j + 1) (dest[j := upcase (char_at src i)])
      else dest)"
  by pat_completeness auto
termination by (relation "measure (\<lambda>(src, i, j, dest). 11 - j)") auto

declare copy_base.simps [simp del] copy_ext.simps [simp del]

text \<open>The blank-filling loop leaves the index \<open>j\<close> at 8, which is where the base loop starts.\<close>

definition fat_normalize :: "string \<Rightarrow> u8 list" where
  "fat_normalize src =
     (let dest0 = replicate 11 (of_char CHR '' '');
          j0 = 8;
          (i, j, dest1) = copy_base src 0 j0 dest0;
          i' = (if char_at src i = CHR ''.'' then i + 1 else i)
      in copy_ext src i' 8 dest1)"

section \<open>Tables\<close>

fun load_sectors :: "'w sector_io \<Rightarrow> u32 \<Rightarrow> nat list \<Rightarrow> u8 list \<Rightarrow> 'w \<Rightarrow> 'w \<times> u8 list \<times> bool" where
  "load_sectors io base [] cache w = (w, cache, True)"
| "load_sectors io base (s # ss) cache w =
     (case rd_sector io (base + of_nat s) w of
        (w1, None) \<Rightarrow> (w1, cache, False)
      | (w1, Some d) \<Rightarrow> load_sectors io base ss (blit (s * 512) d cache) w1)"

definition fat_load_tables :: "'w sector_io \<Rightarrow> fat_fs \<Rightarrow> 'w \<Rightarrow> fat_fs \<times> 'w \<times> int" where
  "fat_load_tables io fs w =
     (case load_sectors io 33 [0..<FAT_SECTORS] (fat_cache fs) w of
        (w1, fat, False) \<Rightarrow> (fs\<lparr>fat_cache := fat\<rparr>, w1, -1)
      | (w1, fat, True) \<Rightarrow>
          (case load_sectors io FAT_ROOT_LBA [0..<FAT_ROOT_SECTORS] (root_cache fs) w1 of
             (w2, root, ok) \<Rightarrow>
               (fs\<lparr>fat_cache := fat, root_cache := root\<rparr>, w2, if ok then 0 else -1)))"

fun flush_sectors :: "'w sector_io \<Rightarrow> u8 list \<Rightarrow> nat list \<Rightarrow> 'w \<Rightarrow> 'w \<times> int" where
  "flush_sectors io root [] w = (w, 0)"
| "flush_sectors io root (s # ss) w =
     (case wr_sector io (FAT_ROOT_LBA + of_nat s) (take 512 (drop (s * 512) root)) w of
        (w1, False) \<Rightarrow> (w1, -1)
      | (w1, True) \<Rightarrow> flush_sectors io root ss w1)"

definition fat_flush_root :: "'w sector_io \<Rightarrow> fat_fs \<Rightarrow> 'w \<Rightarrow> 'w \<times> int" where
  "fat_flush_root io fs w = flush_sectors io (root_cache fs) [0..<FAT_ROOT_SECTORS] w"

definition fat_next_cluster :: "u8 list \<Rightarrow> u16 \<Rightarrow> u16 option" where
  "fat_next_cluster fat cluster =
     (let off = unat cluster + unat cluster div 2 in
      if off + 1 < length fat then
        let val = get16 fat off in
        Some (if cluster AND 1 \<noteq> 0 then drop_bit 4 val else val AND 0x0FFF)
      else None)"

definition entry_used :: "u8 list \<Rightarrow> nat \<Rightarrow> bool" where
  "entry_used root i \<longleftrightarrow> \<not> (root ! (i * 32) = 0x00 \<or> root ! (i * 32) = 0xE5)"

definition entry_is_dir :: "u8 list \<Rightarrow> nat \<Rightarrow> bool" where
  "entry_is_dir root i \<longleftrightarrow> root ! (i * 32 + 11) AND 0x10 \<noteq> 0"

definition entry_matches :: "u8 list \<Rightarrow> nat \<Rightarrow> u8 list \<Rightarrow> bool" where
  "entry_matches root i name83 \<longleftrightarrow> (\<forall>j < 11. root ! (i * 32 + j) = name83 ! j)"

text \<open>Returns the entry, and the value left in \<^verbatim>\<open>*slot_out\<close>.\<close>

fun find_entry_from :: "u8 list \<Rightarrow> u8 list \<Rightarrow> nat list \<Rightarrow> nat option \<Rightarrow> nat option \<times> nat option" where
  "find_entry_from root name83 [] slot_out = (None, slot_out)"
| "find_entry_from root name83 (i # is) slot_out =
     (if \<not> entry_used root i then find_entry_from root name83 is slot_out
      else if entry_is_dir root i then find_entry_from root name83 is slot_out
      else if entry_matches root i name83 then (Some i, Some i)
      else find_entry_from root name83 is (Some i))"

definition fat_find_entry :: "fat_fs \<Rightarrow> u8 list \<Rightarrow> nat option" where
  "fat_find_entry fs name83 = fst (find_entry_from (root_cache fs) name83 [0..<FAT_ROOT_ENTRIES] None)"

definition fat_find_free_entry :: "fat_fs \<Rightarrow> nat option" where
  "fat_find_free_entry fs = List.find (\<lambda>i. \<not> entry_used (root_cache fs) i) [0..<FAT_ROOT_ENTRIES]"

definition plat_fs_init :: "'w sector_io \<Rightarrow> fat_fs \<Rightarrow> 'w \<Rightarrow> fat_fs \<times> 'w \<times> int" where
  "plat_fs_init io fs w =
     (case fat_load_tables io fs w of
        (fs1, w1, r) \<Rightarrow> (fs1\<lparr>fs_ready := (r = 0)\<rparr>, w1, if r = 0 then 0 else -1))"

definition ensure_ready :: "'w sector_io \<Rightarrow> fat_fs \<Rightarrow> 'w \<Rightarrow> fat_fs \<times> 'w \<times> int" where
  "ensure_ready io fs w = (if fs_ready fs then (fs, w, 0) else plat_fs_init io fs w)"

section \<open>Listing\<close>

record plat_file_info =
  fi_name :: string
  fi_size :: u32
  fi_cluster :: u16

text \<open>
  The name of a directory entry without its padding. A name of eight characters with an extension
  of three is 12 characters long and its terminator falls outside \<^verbatim>\<open>name[12]\<close>, into the size
  that is stored next; here it is the name alone.
\<close>

definition entry_name :: "u8 list \<Rightarrow> nat \<Rightarrow> string" where
  "entry_name root i =
     (let e = take 32 (drop (i * 32) root);
          base = takeWhile (\<lambda>b. b \<noteq> 0x20) (take 8 e);
          ext = takeWhile (\<lambda>b. b \<noteq> 0x20) (take 3 (drop 8 e))
      in map (\<lambda>b. char_of (unat b)) (base @ (if e ! 8 \<noteq> 0x20 then of_char (CHR ''.'') # ext else [])))"

fun list_from :: "u8 list \<Rightarrow> nat list \<Rightarrow> nat \<Rightarrow> plat_file_info list \<Rightarrow> plat_file_info list" where
  "list_from root [] mx out = out"
| "list_from root (i # is) mx out =
     (if \<not> length out < mx then out
      else if \<not> entry_used root i \<or> entry_is_dir root i then list_from root is mx out
      else list_from root is mx
             (out @ [\<lparr>fi_name = entry_name root i, fi_size = get32 root (i * 32 + 28),
                      fi_cluster = get16 root (i * 32 + 26)\<rparr>]))"

definition plat_fs_list ::
  "'w sector_io \<Rightarrow> nat \<Rightarrow> fat_fs \<Rightarrow> 'w \<Rightarrow> fat_fs \<times> 'w \<times> plat_file_info list option" where
  "plat_fs_list io mx fs0 w0 =
     (case ensure_ready io fs0 w0 of
        (fs, w, r) \<Rightarrow>
          if r \<noteq> 0 then (fs, w, None)
          else (fs, w, Some (list_from (root_cache fs) [0..<FAT_ROOT_ENTRIES] mx [])))"

section \<open>Reading, writing, deleting\<close>

partial_function (option) read_loop ::
  "'w sector_io \<Rightarrow> u8 list \<Rightarrow> u32 \<Rightarrow> u32 \<Rightarrow> u16 \<Rightarrow> u32 \<Rightarrow> u8 list \<Rightarrow> 'w \<Rightarrow> ('w \<times> bool \<times> u32 \<times> u8 list) option" where
  "read_loop io fat fsize buf_size cluster copied acc w =
     (if cluster < FAT_END \<and> copied < fsize \<and> copied < buf_size then
        (case rd_sector io (FAT_DATA_START + ucast cluster - 2) w of
           (w1, None) \<Rightarrow> Some (w1, False, copied, acc)
         | (w1, Some sector) \<Rightarrow>
             let n0 = 512;
                 n1 = (if copied + n0 > fsize then fsize - copied else n0);
                 n = (if copied + n1 > buf_size then buf_size - copied else n1)
             in (case fat_next_cluster fat cluster of
                   None \<Rightarrow> None
                 | Some next \<Rightarrow>
                     read_loop io fat fsize buf_size next (copied + n) (acc @ take (unat n) sector) w1))
      else Some (w, True, copied, acc))"

text \<open>The bytes put into the caller's buffer come with the return value and \<^verbatim>\<open>*out_size\<close>.\<close>

definition plat_fs_read ::
  "'w sector_io \<Rightarrow> string \<Rightarrow> u32 \<Rightarrow> fat_fs \<Rightarrow> 'w \<Rightarrow> (fat_fs \<times> 'w \<times> int \<times> u8 list \<times> u32) option" where
  "plat_fs_read io name buf_size fs0 w0 =
     (case ensure_ready io fs0 w0 of
        (fs, w, r) \<Rightarrow>
          if r \<noteq> 0 then Some (fs, w, -1, [], 0)
          else
            (case fat_find_entry fs (fat_normalize name) of
               None \<Rightarrow> Some (fs, w, -1, [], 0)
             | Some slot \<Rightarrow>
                 let fsize = get32 (root_cache fs) (slot * 32 + 28);
                     cluster = get16 (root_cache fs) (slot * 32 + 26)
                 in (case read_loop io (fat_cache fs) fsize buf_size cluster 0 [] w of
                       None \<Rightarrow> None
                     | Some (w1, False, copied, acc) \<Rightarrow> Some (fs, w1, -1, acc, 0)
                     | Some (w1, True, copied, acc) \<Rightarrow> Some (fs, w1, 0, acc, copied))))"

function write_loop ::
  "'w sector_io \<Rightarrow> u8 list \<Rightarrow> u32 \<Rightarrow> u16 \<Rightarrow> 'w \<Rightarrow> ('w \<times> bool) option" where
  "write_loop io src remaining cluster w =
     (if remaining > 0 \<and> cluster < FAT_END then
        let n = (if remaining > 512 then 512 else remaining) in
        if length src < unat n then None
        else
          (case wr_sector io (FAT_DATA_START + ucast cluster - 2)
                  (take (unat n) src @ replicate (512 - unat n) 0) w of
             (w1, False) \<Rightarrow> Some (w1, False)
           | (w1, True) \<Rightarrow> write_loop io (drop (unat n) src) (remaining - n) (cluster + 1) w1)
      else Some (w, True))"
  by pat_completeness auto
termination
  by (relation "measure (\<lambda>(io, src, remaining, cluster, w). unat remaining)")
     (auto simp: word_less_nat_alt unat_sub word_le_nat_alt)

declare write_loop.simps [simp del]

fun set_name :: "nat \<Rightarrow> u8 list \<Rightarrow> u8 list \<Rightarrow> u8 list" where
  "set_name i [] root = root"
| "set_name i (b # bs) root = set_name (Suc i) bs (root[i := b])"

definition entry_for_write :: "fat_fs \<Rightarrow> u8 list \<Rightarrow> (nat \<times> u8 list) option" where
  "entry_for_write fs name83 =
     (case fat_find_entry fs name83 of
        Some slot \<Rightarrow> Some (slot, root_cache fs)
      | None \<Rightarrow>
          (case fat_find_free_entry fs of
             None \<Rightarrow> None
           | Some slot \<Rightarrow> Some (slot, (set_name (slot * 32) name83 (root_cache fs))[slot * 32 + 11 := 0x20])))"

definition plat_fs_write ::
  "'w sector_io \<Rightarrow> string \<Rightarrow> u8 list \<Rightarrow> u32 \<Rightarrow> fat_fs \<Rightarrow> 'w \<Rightarrow> (fat_fs \<times> 'w \<times> int) option" where
  "plat_fs_write io name data sz fs0 w0 =
     (case ensure_ready io fs0 w0 of
        (fs, w, r) \<Rightarrow>
          if r \<noteq> 0 then Some (fs, w, -1)
          else
            (case entry_for_write fs (fat_normalize name) of
               None \<Rightarrow> Some (fs, w, -1)
             | Some (slot, root) \<Rightarrow>
                 let fs1 = fs\<lparr>root_cache := put16 (slot * 32 + 26) 2 (put32 (slot * 32 + 28) sz root)\<rparr>
                 in (case write_loop io data sz 2 w of
                       None \<Rightarrow> None
                     | Some (w1, False) \<Rightarrow> Some (fs1, w1, -1)
                     | Some (w1, True) \<Rightarrow>
                         (case fat_flush_root io fs1 w1 of (w2, rc) \<Rightarrow> Some (fs1, w2, rc)))))"

definition plat_fs_delete :: "'w sector_io \<Rightarrow> string \<Rightarrow> fat_fs \<Rightarrow> 'w \<Rightarrow> fat_fs \<times> 'w \<times> int" where
  "plat_fs_delete io name fs0 w0 =
     (case ensure_ready io fs0 w0 of
        (fs, w, r) \<Rightarrow>
          if r \<noteq> 0 then (fs, w, -1)
          else
            (case fat_find_entry fs (fat_normalize name) of
               None \<Rightarrow> (fs, w, -1)
             | Some slot \<Rightarrow>
                 let fs1 = fs\<lparr>root_cache := (root_cache fs)[slot * 32 := 0xE5]\<rparr>
                 in (case fat_flush_root io fs1 w of (w1, rc) \<Rightarrow> (fs1, w1, rc))))"

definition plat_fs_validate :: "'w sector_io \<Rightarrow> 'w \<Rightarrow> 'w \<times> int" where
  "plat_fs_validate io w =
     (case rd_sector io 0 w of
        (w1, None) \<Rightarrow> (w1, -1)
      | (w1, Some boot) \<Rightarrow> (w1, if boot ! 510 = 0x55 \<and> boot ! 511 = 0xAA then 0 else -1))"

definition plat_fs_repair :: "'w sector_io \<Rightarrow> fat_fs \<Rightarrow> 'w \<Rightarrow> fat_fs \<times> 'w \<times> int" where
  "plat_fs_repair io fs w =
     (case plat_fs_init io fs w of (fs1, w1, r) \<Rightarrow> (fs1, w1, if r \<noteq> 0 then -1 else 0))"

definition plat_fs_read_sector :: "'w sector_io \<Rightarrow> u32 \<Rightarrow> 'w \<Rightarrow> 'w \<times> u8 list option" where
  "plat_fs_read_sector io lba w = rd_sector io lba w"

definition plat_fs_write_sector :: "'w sector_io \<Rightarrow> u32 \<Rightarrow> u8 list \<Rightarrow> 'w \<Rightarrow> 'w \<times> bool" where
  "plat_fs_write_sector io lba buf w = wr_sector io lba buf w"

definition fat12_read_file :: "'w sector_io \<Rightarrow> string \<Rightarrow> fat_fs \<Rightarrow> 'w \<Rightarrow> (fat_fs \<times> 'w \<times> int \<times> u8 list) option" where
  "fat12_read_file io filename fs w =
     map_option (\<lambda>(fs1, w1, rc, acc, sz). (fs1, w1, if rc \<noteq> 0 then -1 else sint sz, acc))
       (plat_fs_read io filename 65536 fs w)"

definition init_fat12_c :: "'w sector_io \<Rightarrow> fat_fs \<Rightarrow> 'w \<Rightarrow> fat_fs \<times> 'w" where
  "init_fat12_c io fs w = (case plat_fs_init io fs w of (fs1, w1, r) \<Rightarrow> (fs1, w1))"

definition fat12_write_file ::
  "'w sector_io \<Rightarrow> string \<Rightarrow> u8 list \<Rightarrow> u32 \<Rightarrow> fat_fs \<Rightarrow> 'w \<Rightarrow> (fat_fs \<times> 'w \<times> int) option" where
  "fat12_write_file io filename data sz fs w = plat_fs_write io filename data sz fs w"

definition fat12_delete_file :: "'w sector_io \<Rightarrow> string \<Rightarrow> fat_fs \<Rightarrow> 'w \<Rightarrow> fat_fs \<times> 'w \<times> int" where
  "fat12_delete_file io filename fs w = plat_fs_delete io filename fs w"

definition fat12_validate_fs :: "'w sector_io \<Rightarrow> 'w \<Rightarrow> 'w \<times> int" where
  "fat12_validate_fs io w = plat_fs_validate io w"

section \<open>Names: what the code really compares\<close>

definition ext_part :: "string \<Rightarrow> string" where
  "ext_part src = (if char_at src 0 = CHR ''.'' then drop 1 src else src)"

lemma cstr_drop_NUL: "char_at src i = NUL \<Longrightarrow> cstr (drop i src) = []"
  by (cases "i < length src") (auto simp: char_at_def Cons_nth_drop_Suc [symmetric] cstr_Cons)

lemma cstr_drop_step:
  "char_at src i \<noteq> NUL \<Longrightarrow> cstr (drop i src) = char_at src i # cstr (drop (Suc i) src)"
  by (cases "i < length src") (auto simp: char_at_def Cons_nth_drop_Suc [symmetric] cstr_Cons)

lemma copy_ext_eq:
  "length dest = 11 \<Longrightarrow> j \<le> 11 \<Longrightarrow>
     copy_ext src i j dest =
       take j dest @ map upcase (take (11 - j) (cstr (drop i src))) @
         drop (j + length (take (11 - j) (cstr (drop i src)))) dest"
proof (induction src i j dest rule: copy_ext.induct)
  case (1 src i j dest)
  show ?case
  proof (cases "char_at src i \<noteq> NUL \<and> j < 11")
    case False
    then have "cstr (drop i src) = [] \<or> j = 11" using "1.prems" cstr_drop_NUL by auto
    then show ?thesis using False by (subst copy_ext.simps) auto
  next
    case True
    let ?u = "upcase (char_at src i)" and ?t = "cstr (drop (Suc i) src)"
    obtain m where m: "11 - j = Suc m" "11 - Suc j = m" using True by (metis Suc_diff_Suc)
    have "copy_ext src i j dest = copy_ext src (i + 1) (j + 1) (dest[j := ?u])"
      using True by (subst copy_ext.simps) simp
    also have "\<dots> = take (Suc j) (dest[j := ?u]) @ map upcase (take m ?t) @ drop (Suc j + length (take m ?t)) (dest[j := ?u])"
      using "1.IH" [OF True] "1.prems" True m by simp
    also have "take (Suc j) (dest[j := ?u]) = take j dest @ [?u]"
      using True "1.prems" by (simp add: take_Suc_conv_app_nth)
    also have "drop (Suc j + length (take m ?t)) (dest[j := ?u]) = drop (Suc j + length (take m ?t)) dest"
      by simp
    finally show ?thesis using True by (simp add: cstr_drop_step m)
  qed
qed

lemma fat_normalize_eq:
  "fat_normalize src =
     replicate 8 0x20 @ map upcase (take 3 (cstr (ext_part src))) @
     replicate (3 - length (cstr (ext_part src))) 0x20"
proof -
  have "copy_base src 0 8 dest = (0, 8, dest)" for dest by (subst copy_base.simps) simp
  then have "fat_normalize src = copy_ext src (if char_at src 0 = CHR ''.'' then 1 else 0) 8 (replicate 11 (of_char CHR '' ''))"
    by (simp add: fat_normalize_def Let_def)
  then show ?thesis by (simp add: copy_ext_eq ext_part_def min_def)
qed

lemma fat_normalize_props: "length (fat_normalize src) = 11" "fat_normalize src ! 0 = 0x20"
  by (auto simp: fat_normalize_eq nth_append)

section \<open>Writing a name\<close>

lemma set_name_length [simp]: "length (set_name i bs root) = length root"
  by (induction i bs root rule: set_name.induct) auto

lemma set_name_nth:
  "i + length bs \<le> length root \<Longrightarrow>
     set_name i bs root ! k = (if i \<le> k \<and> k < i + length bs then bs ! (k - i) else root ! k)"
proof (induction i bs root rule: set_name.induct)
  case (2 i b bs root)
  then show ?case by (auto simp: nth_Cons' nth_list_update Suc_diff_le)
qed auto

section \<open>Directory entries\<close>

definition hit :: "u8 list \<Rightarrow> u8 list \<Rightarrow> nat \<Rightarrow> bool" where
  "hit root nm i \<longleftrightarrow> entry_used root i \<and> \<not> entry_is_dir root i \<and> entry_matches root i nm"

definition fs_wf :: "fat_fs \<Rightarrow> bool" where
  "fs_wf fs \<longleftrightarrow> length (fat_cache fs) = 4608 \<and> length (root_cache fs) = 7168"

lemma find_entry_from_find: "fst (find_entry_from root nm is out) = List.find (hit root nm) is"
  by (induction root nm "is" out rule: find_entry_from.induct) (auto simp: hit_def)

lemma fat_find_entry_find: "fat_find_entry fs nm = List.find (hit (root_cache fs) nm) [0..<224]"
  by (simp add: fat_find_entry_def find_entry_from_find FAT_ROOT_ENTRIES_def)

lemma find_upt_Some:
  "List.find P [0..<n] = Some i \<longleftrightarrow> i < n \<and> P i \<and> (\<forall>k < i. \<not> P k)"
proof -
  have "List.find P [0..<n] = Some i \<longleftrightarrow> (\<exists>j < n. P j \<and> i = j \<and> (\<forall>k < j. \<not> P k))"
    by (auto simp: find_Some_iff)
  then show ?thesis by blast
qed

lemma find_upt_None: "List.find P [0..<n] = None \<longleftrightarrow> (\<forall>i < n. \<not> P i)"
  by (auto simp: find_None_iff)

lemma hit_cong:
  assumes eq: "\<And>j. j < 12 \<Longrightarrow> root ! (i * 32 + j) = root' ! (i * 32 + j)"
  shows "hit root nm i = hit root' nm i"
proof -
  have "root ! (i * 32) = root' ! (i * 32)" using eq [of 0] by simp
  moreover have "root ! (i * 32 + 11) = root' ! (i * 32 + 11)" using eq [of 11] by simp
  moreover have "root ! (i * 32 + j) = root' ! (i * 32 + j)" if "j < 11" for j using eq [of j] that by simp
  ultimately show ?thesis by (auto simp: hit_def entry_used_def entry_is_dir_def entry_matches_def)
qed

text \<open>The entry fields a write sets, in the directory it leaves behind.\<close>

definition with_fields :: "nat \<Rightarrow> u32 \<Rightarrow> u8 list \<Rightarrow> u8 list" where
  "with_fields slot sz root = put16 (slot * 32 + 26) 2 (put32 (slot * 32 + 28) sz root)"

lemma other_entry:
  assumes "i \<noteq> slot" "j < 32"
  shows "i * 32 + j < slot * 32 \<or> slot * 32 + 32 \<le> i * 32 + (j :: nat)"
proof (cases "i < slot")
  case True
  then show ?thesis using assms by linarith
next
  case False
  then have "slot < i" using assms by simp
  then show ?thesis by linarith
qed

lemma with_fields_nth:
  assumes "j < 26 \<or> i \<noteq> slot" "j < 32"
  shows "with_fields slot sz root ! (i * 32 + j) = root ! (i * 32 + j)"
proof -
  have "i * 32 + j \<noteq> slot * 32 + 26" "i * 32 + j \<noteq> slot * 32 + 27"
    "i * 32 + j < slot * 32 + 28 \<or> slot * 32 + 31 < i * 32 + j"
    using assms other_entry [of i slot j] by (cases "i = slot"; simp; linarith)+
  moreover from this have "put32 (slot * 32 + 28) sz root ! (i * 32 + j) = root ! (i * 32 + j)"
    by (intro put32_nth) auto
  ultimately show ?thesis by (simp add: with_fields_def put16_nth)
qed

lemma with_fields_get:
  assumes "slot < 224" "length root = 7168"
  shows "get32 (with_fields slot sz root) (slot * 32 + 28) = sz"
    "get16 (with_fields slot sz root) (slot * 32 + 26) = 2" "length (with_fields slot sz root) = 7168"
proof -
  have "get32 (with_fields slot sz root) (slot * 32 + 28) = get32 (put32 (slot * 32 + 28) sz root) (slot * 32 + 28)"
    unfolding with_fields_def get32_def by (simp add: put16_nth)
  then show "get32 (with_fields slot sz root) (slot * 32 + 28) = sz" using assms by (simp add: get_put32)
  show "get16 (with_fields slot sz root) (slot * 32 + 26) = 2"
    unfolding with_fields_def using assms by (intro get_put16) simp
  show "length (with_fields slot sz root) = 7168" using assms by (simp add: with_fields_def)
qed

lemma entry_for_write_Some:
  assumes wf: "length (root_cache fs) = 7168" and nm: "length nm = 11" "nm ! 0 = 0x20"
    and e: "entry_for_write fs nm = Some (slot, root)"
  shows "slot < 224" "length root = 7168" "hit root nm slot" "\<forall>i < slot. \<not> hit root nm i"
    "\<forall>i j. i \<noteq> slot \<longrightarrow> j < 32 \<longrightarrow> root ! (i * 32 + j) = root_cache fs ! (i * 32 + j)"
    "\<forall>i < 224. i \<noteq> slot \<longrightarrow> hit (root_cache fs) nm i \<longrightarrow> fat_find_entry fs nm \<noteq> None"
proof -
  let ?r = "root_cache fs"
  have "slot < 224 \<and> length root = 7168 \<and> hit root nm slot \<and> (\<forall>i < slot. \<not> hit root nm i) \<and>
    (\<forall>i j. i \<noteq> slot \<longrightarrow> j < 32 \<longrightarrow> root ! (i * 32 + j) = ?r ! (i * 32 + j))"
  proof (cases "fat_find_entry fs nm")
    case (Some k)
    then have "slot = k" "root = ?r" using e by (auto simp: entry_for_write_def)
    then show ?thesis using Some wf by (simp add: fat_find_entry_find find_upt_Some)
  next
    case None
    then have fr: "fat_find_free_entry fs = Some slot"
      and root: "root = (set_name (slot * 32) nm ?r)[slot * 32 + 11 := 0x20]"
      using e by (auto simp: entry_for_write_def split: option.splits)
    have slot: "slot < 224"
      using fr by (auto simp: fat_find_free_entry_def FAT_ROOT_ENTRIES_def find_upt_Some)
    have n: "root ! k = (if k = slot * 32 + 11 then 0x20 else if slot * 32 \<le> k \<and> k < slot * 32 + 11
        then nm ! (k - slot * 32) else ?r ! k)" for k
      using slot wf nm by (auto simp: root nth_list_update set_name_nth)
    have oth: "root ! (i * 32 + j) = ?r ! (i * 32 + j)" if "i \<noteq> slot" "j < 32" for i j
    proof -
      have "i * 32 + j \<noteq> slot * 32 + 11" "\<not> (slot * 32 \<le> i * 32 + j \<and> i * 32 + j < slot * 32 + 11)"
        using other_entry [OF that] by linarith+
      then show ?thesis by (subst n) auto
    qed
    have "hit root nm i = hit ?r nm i" if "i \<noteq> slot" for i
      by (rule hit_cong) (simp add: oth that)
    then have "\<forall>i < slot. \<not> hit root nm i"
      using None slot by (auto simp: fat_find_entry_find find_upt_None)
    moreover have "hit root nm slot"
      using nm by (auto simp: hit_def entry_used_def entry_is_dir_def entry_matches_def n)
    ultimately show ?thesis using slot wf oth by (auto simp: root)
  qed
  then show "slot < 224" "length root = 7168" "hit root nm slot" "\<forall>i < slot. \<not> hit root nm i"
    "\<forall>i j. i \<noteq> slot \<longrightarrow> j < 32 \<longrightarrow> root ! (i * 32 + j) = ?r ! (i * 32 + j)" by blast+
  show "\<forall>i < 224. i \<noteq> slot \<longrightarrow> hit ?r nm i \<longrightarrow> fat_find_entry fs nm \<noteq> None"
    by (auto simp: fat_find_entry_find find_upt_None)
qed

lemma hit_key: "hit root nm i \<Longrightarrow> hit root nm' i \<Longrightarrow> length nm = 11 \<Longrightarrow> length nm' = 11 \<Longrightarrow> nm = nm'"
  by (intro nth_equalityI) (auto simp: hit_def entry_matches_def)

lemma entry_for_write_other:
  assumes "hit (root_cache fs) nm' i" "nm \<noteq> nm'" "length nm = 11" "length nm' = 11"
    and e: "entry_for_write fs nm = Some (slot, root)"
  shows "slot \<noteq> i"
proof
  assume i: "slot = i"
  show False
  proof (cases "fat_find_entry fs nm")
    case (Some k)
    then have "k = i" using e i by (simp add: entry_for_write_def)
    then have "hit (root_cache fs) nm i" using Some by (simp add: fat_find_entry_find find_upt_Some)
    then show False using hit_key assms by blast
  next
    case None
    then have "\<not> entry_used (root_cache fs) i"
      using e i by (auto simp: entry_for_write_def fat_find_free_entry_def FAT_ROOT_ENTRIES_def
          find_upt_Some split: option.splits)
    then show False using assms(1) by (simp add: hit_def)
  qed
qed

lemma find_after_write:
  assumes "fs_wf fs" "length nm = 11" "nm ! 0 = 0x20" "entry_for_write fs nm = Some (slot, root)"
  shows "fat_find_entry (fs\<lparr>root_cache := with_fields slot sz root\<rparr>) nm = Some slot"
proof -
  note e = entry_for_write_Some [OF _ assms(2-4)]
  have "hit (with_fields slot sz root) nm i = hit root nm i" for i
    by (rule hit_cong) (simp add: with_fields_nth)
  then show ?thesis
    using e assms(1) by (simp add: fat_find_entry_find find_upt_Some fs_wf_def)
qed

section \<open>Sector transfers\<close>

text \<open>
  What the file layer relies on: both transfers succeed, a read delivers the 512
  bytes the device holds at that address and changes nothing, a write replaces
  exactly one sector.
\<close>

definition reliable :: "'w sector_io \<Rightarrow> ('w \<Rightarrow> u32 \<Rightarrow> u8 list) \<Rightarrow> bool" where
  "reliable io view \<longleftrightarrow>
     (\<forall>w lba. length (view w lba) = 512 \<and>
        snd (rd_sector io lba w) = Some (view w lba) \<and> view (fst (rd_sector io lba w)) = view w) \<and>
     (\<forall>w lba d. length d = 512 \<longrightarrow>
        snd (wr_sector io lba d w) \<and> view (fst (wr_sector io lba d w)) = (view w)(lba := d))"

lemma reliable_rd:
  assumes "reliable io view"
  obtains w' where "rd_sector io lba w = (w', Some (view w lba))" "view w' = view w"
  using assms that unfolding reliable_def by (metis prod.collapse)

lemma reliable_wr:
  assumes "reliable io view" "length d = 512"
  obtains w' where "wr_sector io lba d w = (w', True)" "view w' = (view w)(lba := d)"
proof -
  have "snd (wr_sector io lba d w)" "view (fst (wr_sector io lba d w)) = (view w)(lba := d)"
    using assms by (simp_all add: reliable_def)
  then show ?thesis using that [of "fst (wr_sector io lba d w)"] by (simp add: prod_eq_iff)
qed

definition pad512 :: "u8 list \<Rightarrow> u8 list" where
  "pad512 xs = take 512 xs @ replicate (512 - length xs) 0"

definition sector_of :: "nat \<Rightarrow> u32" where
  "sector_of c = of_nat (63 + c)"

lemma sector_of_inj: "c < 65536 \<Longrightarrow> c' < 65536 \<Longrightarrow> sector_of c = sector_of c' \<longleftrightarrow> c = c'"
  by (simp add: sector_of_def word_unat_eq_iff unat_of_nat del: of_nat_add)

lemma data_lba: "FAT_DATA_START + ucast (c :: u16) - 2 = sector_of (unat c)"
  by (simp add: FAT_DATA_START_def sector_of_def)

lemma pad512_length [simp]: "length (pad512 xs) = 512"
  by (simp add: pad512_def)

lemma unat_chunk:
  fixes remaining :: u32
  shows "unat (if remaining > 512 then 512 else remaining) = min 512 (unat remaining)"
    "unat (remaining - (if remaining > 512 then 512 else remaining)) = unat remaining - min 512 (unat remaining)"
  by (auto simp: word_less_nat_alt unat_sub word_le_nat_alt)

lemma chunks_step: "0 < n \<Longrightarrow> (n - 512 + 511) div 512 + 1 = (n + 511) div (512 :: nat)"
proof (cases "n < 512")
  case True
  moreover assume "0 < n"
  ultimately have "(n + 511) div 512 = 1" by (intro div_nat_eqI) auto
  then show ?thesis using True by simp
next
  case False
  then have "n + 511 = (n - 512 + 511) + 512" by simp
  then show ?thesis by simp
qed

lemma write_loop_ok:
  assumes rel: "reliable io view"
  shows "length src = unat remaining \<Longrightarrow> unat cluster + (length src + 511) div 512 \<le> 4088 \<Longrightarrow>
    \<exists>w'. write_loop io src remaining cluster w = Some (w', True) \<and>
      (\<forall>k. 512 * k < length src \<longrightarrow> view w' (sector_of (unat cluster + k)) = pad512 (drop (512 * k) src)) \<and>
      (\<forall>c < unat cluster. view w' (sector_of c) = view w (sector_of c))"
proof (induction "length src" arbitrary: src remaining cluster w rule: less_induct)
  case less
  let ?n = "if remaining > 512 then 512 else remaining"
  show ?case
  proof (cases "remaining > 0")
    case False
    then have "remaining = 0" by (simp add: word_gt_0)
    then show ?thesis using less.prems by (subst write_loop.simps) simp
  next
    case True
    then have pos: "0 < length src" using less.prems by (simp add: word_less_nat_alt)
    have c: "unat cluster < 4088" using less.prems(2) pos by linarith
    then have "cluster < FAT_END" by (simp add: FAT_END_def word_less_nat_alt)
    moreover have "take (unat ?n) src @ replicate (512 - unat ?n) 0 = pad512 src"
      using less.prems(1) unat_chunk(1) [of remaining] by (simp add: pad512_def min_def)
    moreover obtain w1 where w1: "wr_sector io (sector_of (unat cluster)) (pad512 src) w = (w1, True)"
      "view w1 = (view w)(sector_of (unat cluster) := pad512 src)"
      using reliable_wr [OF rel, of "pad512 src"] by auto
    ultimately have step: "write_loop io src remaining cluster w =
        write_loop io (drop (unat ?n) src) (remaining - ?n) (cluster + 1) w1"
      using True less.prems(1) unat_chunk(1) [of remaining]
      by (subst write_loop.simps) (auto simp: Let_def data_lba split: if_splits)
    have c1: "unat (cluster + 1) = unat cluster + 1" using c by (simp add: unat_word_ariths)
    have d: "length (drop (unat ?n) src) = unat (remaining - ?n)" "length (drop (unat ?n) src) < length src"
      "length (drop (unat ?n) src) = length src - 512"
      using less.prems(1) pos unat_chunk [of remaining] by auto
    have "unat (cluster + 1) + (length (drop (unat ?n) src) + 511) div 512 \<le> 4088"
      using less.prems(2) c1 d(3) chunks_step [OF pos] by simp
    then obtain w' where w': "write_loop io (drop (unat ?n) src) (remaining - ?n) (cluster + 1) w1 = Some (w', True)"
      "\<forall>k. 512 * k < length src - 512 \<longrightarrow>
         view w' (sector_of (unat cluster + 1 + k)) = pad512 (drop (512 * k) (drop (unat ?n) src))"
      "\<forall>x < unat cluster + 1. view w' (sector_of x) = view w1 (sector_of x)"
      using less.hyps [OF d(2,1), of "cluster + 1" w1] c1 d(3) by auto
    have "view w' (sector_of (unat cluster + k)) = pad512 (drop (512 * k) src)" if k: "512 * k < length src" for k
    proof (cases k)
      case 0
      then show ?thesis using w'(3) w1(2) by simp
    next
      case (Suc m)
      then have "min 512 (length src) = 512" using k by simp
      then have "unat ?n = 512" using unat_chunk(1) [of remaining] less.prems(1) by simp
      then show ?thesis using w'(2) Suc k by (auto simp: add.commute)
    qed
    moreover have "view w' (sector_of x) = view w (sector_of x)" if "x < unat cluster" for x
      using w'(3) w1(2) that sector_of_inj [of x "unat cluster"] c by auto
    ultimately show ?thesis using step w'(1) by auto
  qed
qed

lemma flush_ok:
  assumes rel: "reliable io view" and len: "length root = 7168"
  shows "set ss \<subseteq> {0..<14} \<Longrightarrow> \<exists>w'. flush_sectors io root ss w = (w', 0) \<and>
     (\<forall>c. 2 \<le> c \<and> c < 65536 \<longrightarrow> view w' (sector_of c) = view w (sector_of c))"
proof (induction ss arbitrary: w)
  case Nil
  then show ?case by simp
next
  case (Cons s ss)
  let ?d = "take 512 (drop (s * 512) root)"
  have s: "s < 14" and "length ?d = 512" using Cons.prems len by auto
  then obtain w1 where w1: "wr_sector io (FAT_ROOT_LBA + of_nat s) ?d w = (w1, True)"
    "view w1 = (view w)(FAT_ROOT_LBA + of_nat s := ?d)" using reliable_wr [OF rel] by metis
  have ne: "sector_of c \<noteq> FAT_ROOT_LBA + of_nat s" if "2 \<le> c \<and> c < 65536" for c
  proof -
    have "FAT_ROOT_LBA + of_nat s = of_nat (51 + s)" by (simp add: FAT_ROOT_LBA_def)
    then show ?thesis
      using s that by (simp add: sector_of_def word_unat_eq_iff unat_of_nat del: of_nat_add)
  qed
  obtain w' where w': "flush_sectors io root ss w1 = (w', 0)"
    "\<forall>c. 2 \<le> c \<and> c < 65536 \<longrightarrow> view w' (sector_of c) = view w1 (sector_of c)"
    using Cons.IH [of w1] Cons.prems by auto
  then show ?case using w1 ne by simp
qed

text \<open>The FAT links the clusters \<open>2, 3, ..., n + 1\<close> in order.\<close>

definition fat_linear :: "u8 list \<Rightarrow> nat \<Rightarrow> bool" where
  "fat_linear fat n \<longleftrightarrow> (\<forall>k < n - 1. fat_next_cluster fat (of_nat (2 + k)) = Some (of_nat (3 + k)))"

lemma fat_next_in_range: "length fat = 4608 \<Longrightarrow> unat c \<le> 3070 \<Longrightarrow> \<exists>n. fat_next_cluster fat c = Some n"
  by (simp add: fat_next_cluster_def Let_def)

lemma chunk_size:
  fixes fsize buf_size copied :: u32
  assumes "unat copied < unat fsize" "unat fsize \<le> unat buf_size" "unat fsize \<le> 4000000"
    "n1 = (if copied + 512 > fsize then fsize - copied else 512)"
    "n = (if copied + n1 > buf_size then buf_size - copied else n1)"
  shows "unat n = min 512 (unat fsize - unat copied)"
proof -
  have u: "unat (copied + 512) = unat copied + 512" using assms(1,3) by (simp add: unat_word_ariths)
  have "unat (fsize - copied) = unat fsize - unat copied"
    using assms(1) by (simp add: unat_sub word_le_nat_alt)
  then have n1: "unat n1 = min 512 (unat fsize - unat copied)"
    using assms(4) u by (auto simp: word_less_nat_alt min_def)
  then have "unat (copied + n1) = unat copied + unat n1" using assms(1,3) by (simp add: unat_word_ariths)
  then have "\<not> copied + n1 > buf_size" using n1 assms(1,2) by (simp add: word_less_nat_alt)
  then show ?thesis using n1 assms(5) by simp
qed

lemma read_loop_ok:
  assumes rel: "reliable io view" and fat: "length fat = 4608"
    and sz: "unat fsize \<le> unat buf_size" "unat fsize \<le> 1000000"
  shows "length acc + length rest = unat fsize \<Longrightarrow> unat copied = length acc \<Longrightarrow>
    unat cluster + (length rest + 511) div 512 \<le> 3071 \<Longrightarrow>
    (\<forall>k. 512 * k < length rest \<longrightarrow> take (length rest - 512 * k) (view w (sector_of (unat cluster + k))) =
       take 512 (drop (512 * k) rest)) \<Longrightarrow>
    (\<forall>c. unat cluster \<le> c \<and> c + 1 < unat cluster + (length rest + 511) div 512 \<longrightarrow>
       fat_next_cluster fat (of_nat c) = Some (of_nat (c + 1))) \<Longrightarrow>
    \<exists>w'. read_loop io fat fsize buf_size cluster copied acc w = Some (w', True, fsize, acc @ rest) \<and>
       view w' = view w"
proof (induction "length rest" arbitrary: acc rest copied cluster w rule: less_induct)
  case less
  show ?case
  proof (cases "rest = []")
    case True
    then have "copied = fsize" using less.prems by (simp add: word_unat_eq_iff)
    then show ?thesis using True by (subst read_loop.simps) simp
  next
    case False
    then have pos: "0 < length rest" by simp
    have c: "unat cluster \<le> 3070" using less.prems(3) chunks_step [OF pos] by simp
    have lt: "unat copied < unat fsize" using less.prems(1,2) pos by linarith
    define n1 where "n1 = (if copied + 512 > fsize then fsize - copied else 512)"
    define n where "n = (if copied + n1 > buf_size then buf_size - copied else n1)"
    have n: "unat n = min 512 (length rest)"
      using chunk_size [OF lt sz(1) _ n1_def n_def] sz(2) less.prems(1,2) by simp
    obtain w1 where w1: "rd_sector io (sector_of (unat cluster)) w = (w1, Some (view w (sector_of (unat cluster))))"
      "view w1 = view w" using reliable_rd [OF rel] by metis
    obtain nx where nx: "fat_next_cluster fat cluster = Some nx" using fat_next_in_range [OF fat c] by blast
    have len: "length (view w (sector_of (unat cluster))) = 512" using rel by (simp add: reliable_def)
    have tk: "take (unat n) (view w (sector_of (unat cluster))) = take (unat n) rest"
      using less.prems(4) [rule_format, of 0] pos n len by (auto simp: min_def split: if_splits)
    have step: "read_loop io fat fsize buf_size cluster copied acc w =
        read_loop io fat fsize buf_size nx (copied + n) (acc @ take (unat n) rest) w1"
      using c lt sz(1) w1 nx tk
      by (subst read_loop.simps)
         (auto simp: FAT_END_def word_less_nat_alt data_lba Let_def n1_def n_def)
    have nu: "unat (copied + n) = unat copied + unat n"
      using n less.prems(1,2) sz(2) by (simp add: unat_word_ariths)
    show ?thesis
    proof (cases "length rest \<le> 512")
      case True
      then have "copied + n = fsize" "take (unat n) rest = rest"
        using nu n less.prems(1,2) by (auto simp: word_unat_eq_iff)
      then show ?thesis using step w1(2) by (subst (asm) (2) read_loop.simps) simp
    next
      case False
      let ?rest = "drop 512 rest"
      have n5: "unat n = 512" using False n by simp
      have ch: "(length rest + 511) div 512 = (length ?rest + 511) div 512 + 1"
        using chunks_step [OF pos] False by simp
      have ch1: "1 \<le> (length ?rest + 511) div 512" using False by simp
      have nxc: "nx = of_nat (unat cluster + 1)"
        using less.prems(5) [rule_format, of "unat cluster"] ch ch1 nx by simp
      have unx: "unat nx = unat cluster + 1" using c by (simp add: nxc unat_of_nat del: of_nat_add of_nat_Suc)
      have "\<exists>w'. read_loop io fat fsize buf_size nx (copied + n) (acc @ take 512 rest) w1 =
          Some (w', True, fsize, (acc @ take 512 rest) @ ?rest) \<and> view w' = view w1"
      proof (rule less.hyps)
        show "length ?rest < length rest" using pos by simp
        show "length (acc @ take 512 rest) + length ?rest = unat fsize" using less.prems(1) by simp
        show "unat (copied + n) = length (acc @ take 512 rest)" using nu n5 less.prems(2) False by simp
        show "unat nx + (length ?rest + 511) div 512 \<le> 3071" using less.prems(3) ch unx by simp
        show "\<forall>k. 512 * k < length ?rest \<longrightarrow>
            take (length ?rest - 512 * k) (view w1 (sector_of (unat nx + k))) = take 512 (drop (512 * k) ?rest)"
        proof (intro allI impI)
          fix k assume "512 * k < length ?rest"
          then show "take (length ?rest - 512 * k) (view w1 (sector_of (unat nx + k))) = take 512 (drop (512 * k) ?rest)"
            using less.prems(4) [rule_format, of "Suc k"] unx w1(2) by (simp add: add.commute)
        qed
        show "\<forall>c. unat nx \<le> c \<and> c + 1 < unat nx + (length ?rest + 511) div 512 \<longrightarrow>
            fat_next_cluster fat (of_nat c) = Some (of_nat (c + 1))"
          using less.prems(5) unx ch by auto
      qed
      then show ?thesis using step n5 w1(2) by auto
    qed
  qed
qed

section \<open>Files\<close>

definition fs_ok :: "fat_fs \<Rightarrow> bool" where
  "fs_ok fs \<longleftrightarrow> fs_wf fs \<and> fs_ready fs"

lemma plat_fs_write_full:
  "fs_ok fs \<Longrightarrow> entry_for_write fs (fat_normalize name) = None \<Longrightarrow>
     plat_fs_write io name data sz fs w = Some (fs, w, -1)"
  by (simp add: plat_fs_write_def ensure_ready_def fs_ok_def)

lemma plat_fs_write_ok:
  assumes rel: "reliable io view" and ok: "fs_ok fs" and len: "length data = unat sz" "unat sz \<le> 1000000"
    and e: "entry_for_write fs (fat_normalize name) = Some (slot, root)"
  shows "\<exists>w'. plat_fs_write io name data sz fs w = Some (fs\<lparr>root_cache := with_fields slot sz root\<rparr>, w', 0) \<and>
    (\<forall>k. 512 * k < length data \<longrightarrow> view w' (sector_of (2 + k)) = pad512 (drop (512 * k) data))"
proof -
  have wf: "length (root_cache fs) = 7168" using ok by (simp add: fs_ok_def fs_wf_def)
  note es = entry_for_write_Some [OF wf fat_normalize_props e]
  have "(length data + 511) div 512 \<le> (1000000 + 511) div 512" using len by (intro div_le_mono) simp
  then have "unat (2 :: u16) + (length data + 511) div 512 \<le> 4088" by simp
  then obtain w1 where w1: "write_loop io data sz 2 w = Some (w1, True)"
    "\<forall>k. 512 * k < length data \<longrightarrow> view w1 (sector_of (2 + k)) = pad512 (drop (512 * k) data)"
    using write_loop_ok [OF rel len(1), of 2 w] by auto
  obtain w2 where w2: "fat_flush_root io (fs\<lparr>root_cache := with_fields slot sz root\<rparr>) w1 = (w2, 0)"
    "\<forall>c. 2 \<le> c \<and> c < 65536 \<longrightarrow> view w2 (sector_of c) = view w1 (sector_of c)"
    using flush_ok [OF rel with_fields_get(3) [OF es(1,2)], of "[0..<14]" sz w1]
    by (auto simp: fat_flush_root_def FAT_ROOT_SECTORS_def)
  have "2 + k < 65536" if "512 * k < length data" for k using that len by linarith
  then have "\<forall>k. 512 * k < length data \<longrightarrow> view w2 (sector_of (2 + k)) = pad512 (drop (512 * k) data)"
    using w1(2) w2(2) by simp
  moreover have "plat_fs_write io name data sz fs w = Some (fs\<lparr>root_cache := with_fields slot sz root\<rparr>, w2, 0)"
    using ok e w1(1) w2(1) by (simp add: plat_fs_write_def ensure_ready_def fs_ok_def with_fields_def)
  ultimately show ?thesis by blast
qed

lemma fs_ok_write:
  assumes "fs_ok fs" "entry_for_write fs (fat_normalize name) = Some (slot, root)"
  shows "fs_ok (fs\<lparr>root_cache := with_fields slot sz root\<rparr>)"
  using assms entry_for_write_Some [OF _ fat_normalize_props assms(2)] with_fields_get(3)
  by (simp add: fs_ok_def fs_wf_def)

lemma take_pad512: "take (length xs) (pad512 xs) = take 512 xs"
  by (auto simp: pad512_def min_def)

lemma take_pad512_drop: "take (length xs - n) (pad512 (drop n xs)) = take 512 (drop n xs)"
  using take_pad512 [of "drop n xs"] by simp

lemma plat_fs_read_ok:
  assumes rel: "reliable io view" and ok: "fs_ok fs"
    and e: "fat_find_entry fs (fat_normalize name) = Some slot"
    and ent: "get32 (root_cache fs) (slot * 32 + 28) = sz" "get16 (root_cache fs) (slot * 32 + 26) = 2"
    and len: "length rest = unat sz" "unat sz \<le> unat bsz" "unat sz \<le> 1000000"
    and lin: "fat_linear (fat_cache fs) ((length rest + 511) div 512)"
    and sec: "\<forall>k. 512 * k < length rest \<longrightarrow>
      take (length rest - 512 * k) (view w (sector_of (2 + k))) = take 512 (drop (512 * k) rest)"
  shows "\<exists>w'. plat_fs_read io name bsz fs w = Some (fs, w', 0, rest, sz) \<and> view w' = view w"
proof -
  have fat: "length (fat_cache fs) = 4608" using ok by (simp add: fs_ok_def fs_wf_def)
  have "(length rest + 511) div 512 \<le> (1000000 + 511) div 512" using len by (intro div_le_mono) simp
  then have b: "unat (2 :: u16) + (length rest + 511) div 512 \<le> 3071" by simp
  have nx: "fat_next_cluster (fat_cache fs) (of_nat c) = Some (of_nat (c + 1))"
    if cc: "2 \<le> c \<and> c + 1 < 2 + (length rest + 511) div 512" for c
  proof -
    obtain k where k: "c = 2 + k" using cc nat_le_iff_add [of 2 c] by blast
    then have c: "c + 1 = 3 + k" by simp
    have "k < (length rest + 511) div 512 - 1" using cc k by linarith
    then have "fat_next_cluster (fat_cache fs) (of_nat (2 + k)) = Some (of_nat (3 + k))"
      using lin unfolding fat_linear_def by blast
    then show ?thesis unfolding c by (simp only: k)
  qed
  have two: "unat (2 :: u16) = 2" by simp
  have "\<exists>w'. read_loop io (fat_cache fs) sz bsz 2 0 [] w = Some (w', True, sz, [] @ rest) \<and> view w' = view w"
  proof (rule read_loop_ok [OF rel fat len(2,3)])
    show "\<forall>c. unat (2 :: u16) \<le> c \<and> c + 1 < unat (2 :: u16) + (length rest + 511) div 512 \<longrightarrow>
      fat_next_cluster (fat_cache fs) (of_nat c) = Some (of_nat (c + 1))"
      unfolding two using nx by blast
    show "length [] + length rest = unat sz" "unat (0 :: u32) = length []" using len(1) by simp_all
    show "unat (2 :: u16) + (length rest + 511) div 512 \<le> 3071" by (rule b)
    show "\<forall>k. 512 * k < length rest \<longrightarrow>
      take (length rest - 512 * k) (view w (sector_of (unat (2 :: u16) + k))) = take 512 (drop (512 * k) rest)"
      unfolding two by (rule sec)
  qed
  then obtain w' where "read_loop io (fat_cache fs) sz bsz 2 0 [] w = Some (w', True, sz, rest)" "view w' = view w"
    by auto
  then show ?thesis using ok e ent by (simp add: plat_fs_read_def ensure_ready_def fs_ok_def Let_def)
qed

lemma write_then_read:
  assumes "reliable io view" "fs_ok fs" "length data = unat sz" "unat sz \<le> 1000000"
    and "fat_linear (fat_cache fs) ((length data + 511) div 512)"
    and "unat sz \<le> unat bsz" "fat_normalize name' = fat_normalize name"
  shows "plat_fs_write io name data sz fs w = Some (fs, w, -1) \<or>
    (\<exists>fs1 w1 w2. plat_fs_write io name data sz fs w = Some (fs1, w1, 0) \<and> fs_ok fs1 \<and>
       plat_fs_read io name' bsz fs1 w1 = Some (fs1, w2, 0, data, sz))"
proof (cases "entry_for_write fs (fat_normalize name)")
  case None
  then show ?thesis by (simp add: plat_fs_write_full [OF assms(2)])
next
  case (Some e)
  obtain slot root where e: "entry_for_write fs (fat_normalize name) = Some (slot, root)"
    using Some by (cases e) simp
  let ?fs = "fs\<lparr>root_cache := with_fields slot sz root\<rparr>"
  have wf: "fs_wf fs" "length (root_cache fs) = 7168" using assms(2) by (auto simp: fs_ok_def fs_wf_def)
  note es = entry_for_write_Some [OF wf(2) fat_normalize_props e]
  obtain w1 where w1: "plat_fs_write io name data sz fs w = Some (?fs, w1, 0)"
    "\<forall>k. 512 * k < length data \<longrightarrow> view w1 (sector_of (2 + k)) = pad512 (drop (512 * k) data)"
    using plat_fs_write_ok [OF assms(1-4) e] by blast
  have ok1: "fs_ok ?fs" by (rule fs_ok_write [OF assms(2) e])
  have fnd: "fat_find_entry ?fs (fat_normalize name') = Some slot"
    using find_after_write [OF wf(1) fat_normalize_props e] assms(7) by simp
  have "\<exists>w'. plat_fs_read io name' bsz ?fs w1 = Some (?fs, w', 0, data, sz) \<and> view w' = view w1"
    by (rule plat_fs_read_ok [OF assms(1) ok1 fnd _ _ assms(3,6,4)])
       (use with_fields_get [OF es(1,2)] assms(5) w1(2) in \<open>simp_all add: take_pad512_drop\<close>)
  then show ?thesis using w1(1) ok1 by blast
qed

text \<open>
  C6: Writing a file and reading it back. On a loaded file system with a reliable
  disk, a write either reports failure with nothing changed, when the name has no
  entry and the directory is full, or succeeds; then reading the name, or any
  name with the same directory key, with a large enough buffer returns exactly
  the bytes written and their number, provided the FAT already links the clusters
  the data covers in order (which asks nothing of files of up to 512 bytes).
\<close>
theorem write_read_roundtrip:
  assumes "reliable io view" "fs_ok fs" "length data = unat sz" "unat sz \<le> 1000000"
    and "fat_linear (fat_cache fs) ((length data + 511) div 512)"
    and "unat sz \<le> unat bsz" "fat_normalize name' = fat_normalize name"
  shows "plat_fs_write io name data sz fs w = Some (fs, w, -1) \<or>
    (\<exists>fs1 w1 w2. plat_fs_write io name data sz fs w = Some (fs1, w1, 0) \<and> fs_ok fs1 \<and>
       plat_fs_read io name' bsz fs1 w1 = Some (fs1, w2, 0, data, sz))"
  using assms by (rule write_then_read)

text \<open>
  What the 8.3 conversion really computes: the base part is always eight
  blanks, and the extension field holds the first three characters of the name
  itself (after one leading dot), in upper case. So two names with the same first
  three characters name the same file.
\<close>
theorem fat_normalize_keeps_three:
  "fat_normalize name =
     replicate 8 0x20 @ map upcase (take 3 (cstr (ext_part name))) @
     replicate (3 - length (cstr (ext_part name))) 0x20"
  by (rule fat_normalize_eq)

text \<open>
  C7: Writing a second file destroys the first. All files are stored from cluster
  2 on, so after writing two files of one sector with different directory keys,
  the first name still reads successfully but gives the bytes of the second file,
  zero padded.
\<close>
theorem second_write_overwrites_first:
  assumes rel: "reliable io view" and ok: "fs_ok fs"
    and len: "length d1 = unat n1" "length d2 = unat n2" "0 < length d2" "length d1 \<le> 512" "length d2 \<le> 512"
    and key: "fat_normalize a \<noteq> fat_normalize b"
    and wa: "plat_fs_write io a d1 n1 fs w = Some (fs1, w1, 0)"
    and wb: "plat_fs_write io b d2 n2 fs1 w1 = Some (fs2, w2, 0)"
  shows "\<exists>w3. plat_fs_read io a 512 fs2 w2 = Some (fs2, w3, 0, take (length d1) (pad512 d2), n1)"
proof -
  obtain s1 r1 where e1: "entry_for_write fs (fat_normalize a) = Some (s1, r1)"
    using wa plat_fs_write_full [OF ok, of a io d1 n1 w] by (cases "entry_for_write fs (fat_normalize a)") auto
  then have fs1: "fs1 = fs\<lparr>root_cache := with_fields s1 n1 r1\<rparr>"
    using plat_fs_write_ok [OF rel ok len(1) _ e1, of w] wa len by auto
  have ok1: "fs_ok fs1" unfolding fs1 by (rule fs_ok_write [OF ok e1])
  obtain s2 r2 where e2: "entry_for_write fs1 (fat_normalize b) = Some (s2, r2)"
    using wb plat_fs_write_full [OF ok1, of b io d2 n2 w1] by (cases "entry_for_write fs1 (fat_normalize b)") auto
  then have fs2: "fs2 = fs1\<lparr>root_cache := with_fields s2 n2 r2\<rparr>"
    and view: "\<forall>k. 512 * k < length d2 \<longrightarrow> view w2 (sector_of (2 + k)) = pad512 (drop (512 * k) d2)"
    using plat_fs_write_ok [OF rel ok1 len(2) _ e2, of w1] wb len by auto
  have ok2: "fs_ok fs2" unfolding fs2 by (rule fs_ok_write [OF ok1 e2])
  have wf: "length (root_cache fs) = 7168" "length (root_cache fs1) = 7168"
    using ok ok1 by (auto simp: fs_ok_def fs_wf_def)
  note es1 = entry_for_write_Some [OF wf(1) fat_normalize_props e1]
  note es2 = entry_for_write_Some [OF wf(2) fat_normalize_props e2]
  have f1: "fat_find_entry fs1 (fat_normalize a) = Some s1"
    unfolding fs1 using find_after_write [OF _ fat_normalize_props e1] ok by (simp add: fs_ok_def)
  then have h1: "s1 < 224" "hit (root_cache fs1) (fat_normalize a) s1"
      "\<forall>i < s1. \<not> hit (root_cache fs1) (fat_normalize a) i"
    by (auto simp: fat_find_entry_find find_upt_Some)
  have s12: "s2 \<noteq> s1"
    using entry_for_write_other [OF h1(2) key [symmetric] fat_normalize_props(1) fat_normalize_props(1) e2] .
  have same: "root_cache fs2 ! (i * 32 + j) = root_cache fs1 ! (i * 32 + j)" if "i \<noteq> s2" "j < 32" for i j
    using that es2(5) by (simp add: fs2 with_fields_nth)
  have "\<not> hit (root_cache fs2) (fat_normalize a) s2"
  proof
    assume "hit (root_cache fs2) (fat_normalize a) s2"
    moreover have "hit (root_cache fs2) (fat_normalize b) s2 = hit r2 (fat_normalize b) s2"
      by (rule hit_cong) (simp add: fs2 with_fields_nth)
    ultimately show False using es2(3) hit_key key fat_normalize_props(1) by blast
  qed
  moreover have "hit (root_cache fs2) (fat_normalize a) i = hit (root_cache fs1) (fat_normalize a) i"
    if "i \<noteq> s2" for i by (rule hit_cong) (simp add: same that)
  ultimately have f2: "fat_find_entry fs2 (fat_normalize a) = Some s1"
    using h1 s12 unfolding fat_find_entry_find find_upt_Some by metis
  have "get32 (root_cache fs2) (s1 * 32 + 28) = get32 (root_cache fs1) (s1 * 32 + 28)"
    "get16 (root_cache fs2) (s1 * 32 + 26) = get16 (root_cache fs1) (s1 * 32 + 26)"
    using s12 same [of s1 26] same [of s1 27] same [of s1 28] same [of s1 29] same [of s1 30] same [of s1 31]
    by (simp_all add: get32_def get16_def add.commute)
  then have ent: "get32 (root_cache fs2) (s1 * 32 + 28) = n1" "get16 (root_cache fs2) (s1 * 32 + 26) = 2"
    using with_fields_get [OF es1(1,2), of n1] by (simp_all add: fs1)
  have lr: "length (take (length d1) (pad512 d2)) = unat n1" using len by simp
  have lin: "fat_linear (fat_cache fs2) ((length (take (length d1) (pad512 d2)) + 511) div 512)"
  proof -
    have "(unat n1 + 511) div 512 \<le> 1" using len by linarith
    then show ?thesis by (simp only: lr) (simp add: fat_linear_def)
  qed
  have "\<exists>w'. plat_fs_read io a 512 fs2 w2 = Some (fs2, w', 0, take (length d1) (pad512 d2), n1) \<and> view w' = view w2"
  proof (rule plat_fs_read_ok [OF rel ok2 f2 ent lr _ _ lin])
    show "unat n1 \<le> unat (512 :: u32)" "unat n1 \<le> 1000000" using len by simp_all
    have "view w2 (sector_of 2) = pad512 d2" using view [rule_format, of 0] len(3) by simp
    then show "\<forall>k. 512 * k < length (take (length d1) (pad512 d2)) \<longrightarrow>
        take (length (take (length d1) (pad512 d2)) - 512 * k) (view w2 (sector_of (2 + k))) =
        take 512 (drop (512 * k) (take (length d1) (pad512 d2)))"
    proof (intro allI impI)
      fix k assume v: "view w2 (sector_of 2) = pad512 d2"
        and k: "512 * k < length (take (length d1) (pad512 d2))"
      then have "k = 0" using len(4) by simp
      then show "take (length (take (length d1) (pad512 d2)) - 512 * k) (view w2 (sector_of (2 + k))) =
        take 512 (drop (512 * k) (take (length d1) (pad512 d2)))" using len(4) v by (simp add: min_def)
    qed
  qed
  then show ?thesis by blast
qed

section \<open>Deleting\<close>

text \<open>No two live entries carry the same key.\<close>

definition unique_keys :: "fat_fs \<Rightarrow> bool" where
  "unique_keys fs \<longleftrightarrow> (\<forall>i < 224. \<forall>k < 224. \<forall>nm. length nm = 11 \<longrightarrow>
     hit (root_cache fs) nm i \<longrightarrow> hit (root_cache fs) nm k \<longrightarrow> i = k)"

lemma unique_keys_write:
  assumes "fs_ok fs" "unique_keys fs" and nm: "length nm = 11" "nm ! 0 = 0x20"
    and e: "entry_for_write fs nm = Some (slot, root)"
  shows "unique_keys (fs\<lparr>root_cache := with_fields slot sz root\<rparr>)"
proof -
  have wf: "length (root_cache fs) = 7168" using assms(1) by (simp add: fs_ok_def fs_wf_def)
  note es = entry_for_write_Some [OF wf nm e]
  have w: "hit (with_fields slot sz root) x i = hit root x i" for x i
    by (rule hit_cong) (simp add: with_fields_nth)
  have o: "hit root x i = hit (root_cache fs) x i" if "i \<noteq> slot" for x i
    by (rule hit_cong) (use es(5) that in simp)
  have n: "\<not> hit (root_cache fs) nm i" if i: "i \<noteq> slot" "i < 224" for i
  proof
    assume h: "hit (root_cache fs) nm i"
    then obtain k where k: "fat_find_entry fs nm = Some k" using es(6) i by blast
    then have "slot = k" using e by (simp add: entry_for_write_def)
    then show False using k h i assms(2) nm es(1)
      by (auto simp: unique_keys_def fat_find_entry_find find_upt_Some)
  qed
  have "i = k" if "i < 224" "k < 224" "length x = 11" "hit root x i" "hit root x k" for i k x
  proof (cases "i = slot \<or> k = slot")
    case True
    then show ?thesis using that n o es(3) nm hit_key by metis
  next
    case False
    then show ?thesis using that o assms(2) by (auto simp: unique_keys_def)
  qed
  then show ?thesis by (simp add: unique_keys_def w)
qed

text \<open>
  Deleting a file that exists, on a reliable disk and with the directory keys
  unique (which every write keeps), succeeds and the name can no longer be read;
  deleting a name without an entry fails and changes nothing.
\<close>
theorem delete_removes:
  assumes rel: "reliable io view" and ok: "fs_ok fs" and u: "unique_keys fs"
  shows "(plat_fs_delete io name fs w = (fs, w, -1) \<and> fat_find_entry fs (fat_normalize name) = None) \<or>
    (\<exists>fs1 w1. plat_fs_delete io name fs w = (fs1, w1, 0) \<and> fs_ok fs1 \<and> unique_keys fs1 \<and>
       plat_fs_read io name bsz fs1 w1 = Some (fs1, w1, -1, [], 0))"
proof (cases "fat_find_entry fs (fat_normalize name)")
  case None
  then show ?thesis using ok by (simp add: plat_fs_delete_def ensure_ready_def fs_ok_def)
next
  case (Some slot)
  let ?r = "(root_cache fs)[slot * 32 := 0xE5]"
  let ?fs = "fs\<lparr>root_cache := ?r\<rparr>"
  have wf: "length (root_cache fs) = 7168" using ok by (simp add: fs_ok_def fs_wf_def)
  have slot: "slot < 224" "hit (root_cache fs) (fat_normalize name) slot"
    using Some by (auto simp: fat_find_entry_find find_upt_Some)
  have gone: "\<not> hit ?r x slot" for x using slot wf by (simp add: hit_def entry_used_def)
  have oth: "hit ?r x i = hit (root_cache fs) x i" if "i \<noteq> slot" for x i
  proof (rule hit_cong)
    fix j :: nat assume "j < 12"
    then show "?r ! (i * 32 + j) = root_cache fs ! (i * 32 + j)" using other_entry [OF that, of j] by auto
  qed
  have h: "hit ?r x i \<longleftrightarrow> i \<noteq> slot \<and> hit (root_cache fs) x i" for x i
    using gone oth by (cases "i = slot") auto
  have u1: "unique_keys ?fs" using u by (simp add: unique_keys_def h)
  have "i = slot" if "i < 224" "hit (root_cache fs) (fat_normalize name) i" for i
    using u that slot fat_normalize_props(1) unfolding unique_keys_def by blast
  then have "fat_find_entry ?fs (fat_normalize name) = None"
    by (auto simp: fat_find_entry_find find_upt_None h)
  moreover obtain w1 where "fat_flush_root io ?fs w = (w1, 0)"
    using flush_ok [OF rel, of ?r "[0..<14]" w] wf by (auto simp: fat_flush_root_def FAT_ROOT_SECTORS_def)
  moreover have "fs_ok ?fs" using ok by (simp add: fs_ok_def fs_wf_def)
  ultimately show ?thesis using Some ok u1
    by (simp add: plat_fs_delete_def plat_fs_read_def ensure_ready_def fs_ok_def)
qed

section \<open>Witnesses\<close>

definition ram_io :: "(u32 \<Rightarrow> u8 list) sector_io" where
  "ram_io = \<lparr>rd_sector = (\<lambda>lba w. (w, Some (pad512 (w lba)))),
             wr_sector = (\<lambda>lba d w. (w(lba := d), True))\<rparr>"

definition ram_view :: "(u32 \<Rightarrow> u8 list) \<Rightarrow> u32 \<Rightarrow> u8 list" where
  "ram_view w lba = pad512 (w lba)"

lemma pad512_id: "length d = 512 \<Longrightarrow> pad512 d = d"
  by (simp add: pad512_def)

lemma ram_reliable: "reliable ram_io ram_view"
  by (auto simp: reliable_def ram_io_def ram_view_def pad512_id fun_eq_iff)

definition blank_fs :: fat_fs where
  "blank_fs = fat_fs_zero\<lparr>fs_ready := True\<rparr>"

lemma blank_ok: "fs_ok blank_fs"
  by (simp add: fs_ok_def fs_wf_def blank_fs_def fat_fs_zero_def)

lemma blank_unused: "i < 224 \<Longrightarrow> \<not> entry_used (root_cache blank_fs) i"
  by (simp add: blank_fs_def fat_fs_zero_def entry_used_def)

lemma entry_for_write_None:
  "entry_for_write fs nm = None \<Longrightarrow> i < 224 \<Longrightarrow> entry_used (root_cache fs) i"
  by (auto simp: entry_for_write_def fat_find_free_entry_def FAT_ROOT_ENTRIES_def find_upt_None
      split: option.splits)

lemma blank_write:
  "length d = unat n \<Longrightarrow> unat n \<le> 512 \<Longrightarrow> \<exists>fs1 w1. plat_fs_write ram_io a d n blank_fs w = Some (fs1, w1, 0) \<and> fs_ok fs1 \<and>
     (\<exists>s r. entry_for_write blank_fs (fat_normalize a) = Some (s, r) \<and> fs1 = blank_fs\<lparr>root_cache := with_fields s n r\<rparr>)"
proof -
  assume d: "length d = unat n" "unat n \<le> 512"
  obtain s r where e: "entry_for_write blank_fs (fat_normalize a) = Some (s, r)"
    using entry_for_write_None [of blank_fs _ 0] blank_unused [of 0] by fastforce
  then show ?thesis
    using plat_fs_write_ok [OF ram_reliable blank_ok d(1) _ e, of w] d fs_ok_write [OF blank_ok e] by auto
qed

theorem write_read_witness:
  "\<exists>fs1 w1 w2. plat_fs_write ram_io ''SLOT0.SAV'' [1, 2, 3] 3 blank_fs (\<lambda>_. []) = Some (fs1, w1, 0) \<and>
     plat_fs_read ram_io ''SLOT1.SAV'' 512 fs1 w1 = Some (fs1, w2, 0, [1, 2, 3], 3)"
proof -
  have k: "fat_normalize ''SLOT1.SAV'' = fat_normalize ''SLOT0.SAV''" by code_simp
  have "fat_linear (fat_cache blank_fs) ((length [1, 2, 3 :: u8] + 511) div 512)" by (simp add: fat_linear_def)
  then show ?thesis
    using write_read_roundtrip [OF ram_reliable blank_ok, of "[1, 2, 3]" 3 512 "''SLOT1.SAV''" "''SLOT0.SAV''" "\<lambda>_. []"]
      blank_write [of "[1, 2, 3]" 3 "''SLOT0.SAV''" "\<lambda>_. []"] k by auto
qed

theorem second_write_witness:
  "\<exists>fs1 w1 fs2 w2 w3. plat_fs_write ram_io ''A'' [1, 2] 2 blank_fs (\<lambda>_. []) = Some (fs1, w1, 0) \<and>
     plat_fs_write ram_io ''B'' [9] 1 fs1 w1 = Some (fs2, w2, 0) \<and>
     plat_fs_read ram_io ''A'' 512 fs2 w2 = Some (fs2, w3, 0, [9, 0], 2)"
proof -
  have k: "fat_normalize ''A'' \<noteq> fat_normalize ''B''" by code_simp
  obtain fs1 w1 s r where a: "plat_fs_write ram_io ''A'' [1, 2] 2 blank_fs (\<lambda>_. []) = Some (fs1, w1, 0)" "fs_ok fs1"
    and e: "entry_for_write blank_fs (fat_normalize ''A'') = Some (s, r)" "fs1 = blank_fs\<lparr>root_cache := with_fields s 2 r\<rparr>"
    using blank_write [of "[1, 2]" 2 "''A''" "\<lambda>_. []"] by auto
  have wf: "length (root_cache blank_fs) = 7168" by (simp add: blank_fs_def fat_fs_zero_def)
  note es = entry_for_write_Some [OF wf fat_normalize_props e(1)]
  have "\<exists>i < 224. \<not> entry_used (root_cache fs1) i"
  proof -
    let ?i = "if s = 0 then 1 else 0 :: nat"
    have "root_cache fs1 ! (?i * 32 + 0) = root_cache blank_fs ! (?i * 32 + 0)"
      using es(5) [rule_format, of ?i 0] with_fields_nth [of 0 ?i s 2 r] by (simp add: e(2))
    then have "\<not> entry_used (root_cache fs1) ?i" using blank_unused [of ?i] by (simp add: entry_used_def)
    then show ?thesis by (intro exI [of _ ?i]) simp
  qed
  then obtain s2 r2 where e2: "entry_for_write fs1 (fat_normalize ''B'') = Some (s2, r2)"
    using entry_for_write_None [of fs1 "fat_normalize ''B''"] by fastforce
  obtain fs2 w2 where b: "plat_fs_write ram_io ''B'' [9] 1 fs1 w1 = Some (fs2, w2, 0)"
    using plat_fs_write_ok [OF ram_reliable a(2) _ _ e2, of "[9]" 1 w1] by auto
  have "take (Suc (Suc 0)) (pad512 [9]) = [9, 0]" by (simp add: pad512_def numeral_eq_Suc)
  then show ?thesis
    using second_write_overwrites_first [OF ram_reliable blank_ok _ _ _ _ _ k a(1) b] a(1) b by auto
qed

theorem delete_witness:
  "\<exists>fs1 w1 rc. plat_fs_delete ram_io ''A'' blank_fs (\<lambda>_. []) = (fs1, w1, rc) \<and>
     fat_find_entry fs1 (fat_normalize ''A'') = None"
proof -
  have "unique_keys blank_fs" using blank_unused by (auto simp: unique_keys_def hit_def)
  moreover have "fat_find_entry blank_fs (fat_normalize ''A'') = None"
    using blank_unused by (auto simp: fat_find_entry_find find_upt_None hit_def)
  moreover from this have "plat_fs_delete ram_io ''A'' blank_fs (\<lambda>_. []) = (blank_fs, \<lambda>_. [], -1)"
    by (simp add: plat_fs_delete_def ensure_ready_def) (simp add: blank_fs_def)
  ultimately show ?thesis
    using delete_removes [OF ram_reliable blank_ok, of "''A''" "\<lambda>_. []" 512] by auto
qed

end
