(* ===== verification/Storage_Clients.thy ===== *)
theory Storage_Clients
  imports Fat_Storage
begin

text \<open>
  The parts of the kernel that keep files through the platform layer:
  \<^verbatim>\<open>src/storage.c\<close>, \<^verbatim>\<open>src/save_manager.c\<close>, \<^verbatim>\<open>src/memory_card.c\<close> and
  \<^verbatim>\<open>src/pause_engine.c\<close>. They are linked against one of two implementations of
  \<^verbatim>\<open>plat_fs_*\<close>; the operations they call are the fields of a record, what they
  rely on is a locale, and the locale is interpreted on the x86 FAT12 layer.
  Console output is left out.
\<close>

section \<open>The platform file interface\<close>

record 's file_ops =
  fo_init :: "'s \<Rightarrow> 's \<times> int"
  fo_list :: "nat \<Rightarrow> 's \<Rightarrow> 's \<times> plat_file_info list option"
  fo_read :: "string \<Rightarrow> u32 \<Rightarrow> 's \<Rightarrow> ('s \<times> int \<times> u8 list \<times> u32) option"
  fo_write :: "string \<Rightarrow> u8 list \<Rightarrow> u32 \<Rightarrow> 's \<Rightarrow> ('s \<times> int) option"
  fo_validate :: "'s \<Rightarrow> 's \<times> int"
  fo_repair :: "'s \<Rightarrow> 's \<times> int"

section \<open>storage.c\<close>

definition STORAGE_DEVICE_MAX :: nat where "STORAGE_DEVICE_MAX = 4"

datatype storage_type = STORAGE_TYPE_NONE | STORAGE_TYPE_USB | STORAGE_TYPE_HDD | STORAGE_TYPE_NETWORK

record storage_device =
  sd_in_use :: bool
  sd_type :: storage_type
  mount_path :: string
  total_kb :: u32
  free_kb :: u32
  sd_label :: string

record storage =
  devices :: "storage_device list"
  st_initialized :: bool

definition storage_register ::
  "int \<Rightarrow> storage_type \<Rightarrow> string option \<Rightarrow> u32 \<Rightarrow> u32 \<Rightarrow> string option \<Rightarrow> storage \<Rightarrow> storage" where
  "storage_register index ty path tot avail label s =
     (if index < 0 \<or> index \<ge> int STORAGE_DEVICE_MAX then s
      else s\<lparr>devices := (devices s)[nat index :=
        \<lparr>sd_in_use = True, sd_type = ty,
         mount_path = str_copy 128 (case path of None \<Rightarrow> [] | Some p \<Rightarrow> p),
         total_kb = tot, free_kb = avail,
         sd_label = str_copy 32 (case label of None \<Rightarrow> [] | Some l \<Rightarrow> l)\<rparr>]\<rparr>)"

definition storage_init :: "storage \<Rightarrow> storage" where
  "storage_init s =
     (let s1 = s\<lparr>devices := replicate STORAGE_DEVICE_MAX
                   \<lparr>sd_in_use = False, sd_type = STORAGE_TYPE_NONE, mount_path = [],
                    total_kb = 0, free_kb = 0, sd_label = []\<rparr>\<rparr>;
          s2 = storage_register 0 STORAGE_TYPE_HDD (Some ''disk0:'') 1440 800 (Some ''ASMOS Disk'') s1;
          s3 = storage_register 1 STORAGE_TYPE_USB (Some ''usb0:'') 16384 8192 (Some ''USB Mass'') s2
      in s3\<lparr>st_initialized := True\<rparr>)"

fun list_devices :: "storage_device list \<Rightarrow> nat \<Rightarrow> storage_device list \<Rightarrow> storage_device list" where
  "list_devices [] mx out = out"
| "list_devices (d # ds) mx out =
     (if \<not> length out < mx then out
      else if \<not> sd_in_use d then list_devices ds mx out
      else list_devices ds mx (out @ [d]))"

definition storage_list :: "nat \<Rightarrow> storage \<Rightarrow> storage \<times> storage_device list" where
  "storage_list mx s0 =
     (let s = (if st_initialized s0 then s0 else storage_init s0)
      in (s, list_devices (devices s) mx []))"

text \<open>Read a file into a buffer of the given size and write the bytes read under another name.\<close>

definition copy_file :: "'s file_ops \<Rightarrow> u32 \<Rightarrow> string \<Rightarrow> string \<Rightarrow> 's \<Rightarrow> ('s \<times> int) option" where
  "copy_file ops bsz src dst st =
     (case fo_read ops src bsz st of
        None \<Rightarrow> None
      | Some (st1, rc, data, sz) \<Rightarrow>
          if rc \<noteq> 0 then Some (st1, -1) else fo_write ops dst data sz st1)"

definition storage_copy :: "'s file_ops \<Rightarrow> string option \<Rightarrow> string option \<Rightarrow> 's \<Rightarrow> ('s \<times> int) option" where
  "storage_copy ops src dst st =
     (case (src, dst) of
        (Some s, Some d) \<Rightarrow>
          map_option (\<lambda>(st1, rc). (st1, if rc \<noteq> 0 then -1 else 0)) (copy_file ops 8192 s d st)
      | _ \<Rightarrow> Some (st, -1))"

definition storage_snapshot_backup :: "'s file_ops \<Rightarrow> string option \<Rightarrow> string option \<Rightarrow> 's \<Rightarrow> ('s \<times> int) option" where
  "storage_snapshot_backup ops source_path backup_path st = storage_copy ops source_path backup_path st"

section \<open>memory_card.c\<close>

record mem_card =
  mounted_slot :: int
  present :: "bool list"

definition mem_card_zero :: mem_card where
  "mem_card_zero = \<lparr>mounted_slot = 0, present = [True, False]\<rparr>"

record mc_status =
  mcs_mounted :: int
  mcs_present :: "bool list"
  mcs_total_kb :: "u32 list"
  mcs_free_kb :: "u32 list"
  mcs_integrity_ok :: bool

definition mc_get_status :: "'s file_ops \<Rightarrow> mem_card \<Rightarrow> 's \<Rightarrow> 's \<times> mc_status" where
  "mc_get_status ops mc st =
     (case fo_validate ops st of
        (st1, rc) \<Rightarrow> (st1, \<lparr>mcs_mounted = mounted_slot mc, mcs_present = present mc,
                          mcs_total_kb = [1440, 8192], mcs_free_kb = [800, 4096],
                          mcs_integrity_ok = (rc = 0)\<rparr>))"

definition mc_mount :: "'s file_ops \<Rightarrow> int \<Rightarrow> mem_card \<Rightarrow> 's \<Rightarrow> mem_card \<times> 's \<times> int" where
  "mc_mount ops slot mc st =
     (if slot < 0 \<or> slot \<ge> 2 then (mc, st, -1)
      else if \<not> present mc ! nat slot then (mc, st, -2)
      else (mc\<lparr>mounted_slot := slot\<rparr>, if slot = 0 then fst (fo_init ops st) else st, 0))"

record mc_file_entry =
  mcf_name :: string
  mcf_size :: u32
  mcf_cluster :: u16
  mcf_slot :: nat
  mcf_preview :: string

definition mc_list :: "'s file_ops \<Rightarrow> int \<Rightarrow> nat \<Rightarrow> mem_card \<Rightarrow> 's \<Rightarrow> 's \<times> mc_file_entry list option" where
  "mc_list ops slot0 mx mc st =
     (let slot = (if slot0 < 0 then mounted_slot mc else slot0) in
      if slot \<noteq> 0 \<or> \<not> present mc ! 0 then (st, None)
      else
        (case fo_list ops 32 st of
           (st1, None) \<Rightarrow> (st1, None)
         | (st1, Some files) \<Rightarrow>
             (st1, Some (map (\<lambda>f. \<lparr>mcf_name = str_copy 32 (fi_name f), mcf_size = fi_size f,
                                  mcf_cluster = fi_cluster f, mcf_slot = 0, mcf_preview = []\<rparr>)
                           (take mx files)))))"

definition mc_export :: "'s file_ops \<Rightarrow> string option \<Rightarrow> string option \<Rightarrow> 's \<Rightarrow> ('s \<times> int) option" where
  "mc_export ops filename save_name st =
     (case (filename, save_name) of
        (Some f, Some s) \<Rightarrow> copy_file ops 4096 s f st
      | _ \<Rightarrow> Some (st, -1))"

definition mc_clone :: "'s file_ops \<Rightarrow> int \<Rightarrow> int \<Rightarrow> 's \<Rightarrow> ('s \<times> int) option" where
  "mc_clone ops slot_src slot_dst st = copy_file ops 512 ''SLOT0.SAV'' ''SLOT1.SAV'' st"

definition mc_repair :: "'s file_ops \<Rightarrow> int \<Rightarrow> mem_card \<Rightarrow> 's \<Rightarrow> 's \<times> int" where
  "mc_repair ops slot0 mc st =
     (let slot = (if slot0 < 0 then mounted_slot mc else slot0) in
      if slot \<noteq> 0 then (st, -1) else fo_repair ops st)"

definition fat12_validate :: "'s file_ops \<Rightarrow> int \<Rightarrow> 's \<Rightarrow> 's \<times> int" where
  "fat12_validate ops slot st = fo_validate ops st"

definition mc_read_sector :: "'w sector_io \<Rightarrow> int \<Rightarrow> u32 \<Rightarrow> 'w \<Rightarrow> 'w \<times> u8 list option" where
  "mc_read_sector io slot sector_index w = plat_fs_read_sector io sector_index w"

definition fat12_repair :: "'s file_ops \<Rightarrow> int \<Rightarrow> 's \<Rightarrow> 's \<times> int" where
  "fat12_repair ops slot st = fo_repair ops st"

section \<open>save_manager.c\<close>

record save_manager =
  sm_slot_count :: int
  backup_buf :: "u8 list"
  backup_name :: string
  backup_size :: u32
  backup_version :: u32

definition SAVE_BACKUP_SIZE :: nat where "SAVE_BACKUP_SIZE = 4096"

definition save_manager_init :: "save_manager \<Rightarrow> save_manager" where
  "save_manager_init sm = sm\<lparr>sm_slot_count := 0, backup_name := [], backup_size := 0, backup_version := 0\<rparr>"

definition backup_pattern :: "u8 list" where
  "backup_pattern = map (\<lambda>i. of_nat i AND 0xFF) [0..<SAVE_BACKUP_SIZE]"

definition save_manager_backup ::
  "'s file_ops \<Rightarrow> string option \<Rightarrow> save_manager \<Rightarrow> 's \<Rightarrow> (save_manager \<times> 's \<times> int) option" where
  "save_manager_backup ops dest_name sm st =
     (case dest_name of
        None \<Rightarrow> Some (sm, st, -1)
      | Some d \<Rightarrow>
          if char_at d 0 = NUL then Some (sm, st, -1)
          else
            let sm1 = sm\<lparr>backup_name := str_copy 32 d, backup_version := backup_version sm + 1,
                         backup_size := of_nat SAVE_BACKUP_SIZE, backup_buf := backup_pattern\<rparr>
            in (case fo_write ops (backup_name sm1) (backup_buf sm1) (backup_size sm1) st of
                  None \<Rightarrow> None
                | Some (st1, rc) \<Rightarrow> Some (sm1, st1, if rc \<noteq> 0 then -1 else 0)))"

definition save_manager_restore ::
  "'s file_ops \<Rightarrow> string option \<Rightarrow> save_manager \<Rightarrow> 's \<Rightarrow> (save_manager \<times> 's \<times> int) option" where
  "save_manager_restore ops from_name sm st =
     (let src = (case from_name of Some f \<Rightarrow> if char_at f 0 \<noteq> NUL then f else backup_name sm
                                 | None \<Rightarrow> backup_name sm) in
      if char_at src 0 = NUL then Some (sm, st, -1)
      else
        (case fo_read ops src (of_nat SAVE_BACKUP_SIZE) st of
           None \<Rightarrow> None
         | Some (st1, rc, data, got) \<Rightarrow>
             let sm1 = sm\<lparr>backup_buf := data @ drop (length data) (backup_buf sm)\<rparr> in
             if rc \<noteq> 0 then Some (sm1, st1, -1)
             else Some (sm1\<lparr>backup_size := got, backup_name := str_copy 32 src\<rparr>, st1, 0)))"

definition slot_name :: "int \<Rightarrow> string" where
  "slot_name slot = ''SLOT'' @ [char_of (nat ((48 + slot) mod 256))] @ ''.SAV''"

definition save_manager_clone ::
  "'s file_ops \<Rightarrow> int \<Rightarrow> int \<Rightarrow> save_manager \<Rightarrow> 's \<Rightarrow> (save_manager \<times> 's \<times> int) option" where
  "save_manager_clone ops slot_dest slot_src sm st =
     (case fo_read ops (slot_name slot_src) (of_nat SAVE_BACKUP_SIZE) st of
        None \<Rightarrow> None
      | Some (st1, rc, data, sz) \<Rightarrow>
          let sm1 = sm\<lparr>backup_buf := data @ drop (length data) (backup_buf sm)\<rparr> in
          if rc \<noteq> 0 then Some (sm1, st1, -1)
          else map_option (\<lambda>(st2, rc2). (sm1, st2, rc2))
                 (fo_write ops (slot_name slot_dest) (backup_buf sm1) sz st1))"

definition save_manager_rollback ::
  "'s file_ops \<Rightarrow> int \<Rightarrow> save_manager \<Rightarrow> 's \<Rightarrow> (save_manager \<times> 's \<times> int) option" where
  "save_manager_rollback ops version_index sm st =
     (if version_index \<noteq> 1 \<or> char_at (backup_name sm) 0 = NUL then Some (sm, st, -1)
      else save_manager_restore ops (Some (backup_name sm)) sm st)"

section \<open>pause_engine.c\<close>

datatype pause_result = PAUSE_OK | PAUSE_ERR_NOT_WHITELISTED | PAUSE_ERR_MEMORY | PAUSE_ERR_STORAGE | PAUSE_ERR_IO

datatype pause_type = PAUSE_TYPE_NONE | PAUSE_TYPE_TRIGGER_ADDR | PAUSE_TYPE_CHECKPOINT

record pause_compat_entry =
  pc_game_id :: string
  pc_type :: pause_type
  trigger_addr :: u32
  trigger_value :: u32

text \<open>The two tables are the entries in use, in order; their counts are the lengths.\<close>

record pause_engine =
  whitelist :: "string list"
  compat_db :: "pause_compat_entry list"
  pe_inited :: bool

definition pause_engine_init :: "pause_engine \<Rightarrow> pause_engine" where
  "pause_engine_init pe = (if pe_inited pe then pe else pe\<lparr>whitelist := [], pe_inited := True\<rparr>)"

definition pause_is_whitelisted :: "string option \<Rightarrow> pause_engine \<Rightarrow> bool" where
  "pause_is_whitelisted game_id pe =
     (case game_id of None \<Rightarrow> False | Some g \<Rightarrow> list_ex (\<lambda>x. str_eq x g) (whitelist pe))"

definition pause_whitelist_add :: "string option \<Rightarrow> pause_engine \<Rightarrow> pause_engine \<times> int" where
  "pause_whitelist_add game_id pe =
     (case game_id of
        None \<Rightarrow> (pe, -1)
      | Some g \<Rightarrow>
          if length (whitelist pe) \<ge> 64 then (pe, -1)
          else (pe\<lparr>whitelist := whitelist pe @ [str_copy 16 g]\<rparr>, 0))"

definition snap_pattern :: "u8 list" where
  "snap_pattern = map (\<lambda>i. of_nat i XOR 0xA5) [0..<4096]"

definition pause_snapshot_save :: "'s file_ops \<Rightarrow> string option \<Rightarrow> 's \<Rightarrow> ('s \<times> pause_result) option" where
  "pause_snapshot_save ops path st =
     (case path of
        None \<Rightarrow> Some (st, PAUSE_ERR_IO)
      | Some p \<Rightarrow>
          map_option (\<lambda>(st1, rc). (st1, if rc \<noteq> 0 then PAUSE_ERR_IO else PAUSE_OK))
            (fo_write ops p snap_pattern 4096 st))"

text \<open>The restored bytes go to a static buffer; they are returned with the result.\<close>

definition pause_snapshot_restore ::
  "'s file_ops \<Rightarrow> string option \<Rightarrow> 's \<Rightarrow> ('s \<times> pause_result \<times> u8 list) option" where
  "pause_snapshot_restore ops path st =
     (case path of
        None \<Rightarrow> Some (st, PAUSE_ERR_IO, [])
      | Some p \<Rightarrow>
          map_option (\<lambda>(st1, rc, data, got). (st1, if rc \<noteq> 0 then PAUSE_ERR_IO else PAUSE_OK, data))
            (fo_read ops p 4096 st))"

definition pause_compat_add ::
  "string option \<Rightarrow> pause_type \<Rightarrow> u32 \<Rightarrow> u32 \<Rightarrow> pause_engine \<Rightarrow> pause_engine \<times> int" where
  "pause_compat_add game_id ty addr val pe =
     (case game_id of
        None \<Rightarrow> (pe, -1)
      | Some g \<Rightarrow>
          if length (compat_db pe) \<ge> 32 then (pe, -1)
          else (pe\<lparr>compat_db := compat_db pe @
                 [\<lparr>pc_game_id = str_copy 16 g, pc_type = ty, trigger_addr = addr, trigger_value = val\<rparr>]\<rparr>, 0))"

definition pause_compat_get :: "string option \<Rightarrow> pause_engine \<Rightarrow> pause_compat_entry option" where
  "pause_compat_get game_id pe =
     (case game_id of None \<Rightarrow> None | Some g \<Rightarrow> List.find (\<lambda>e. str_eq (pc_game_id e) g) (compat_db pe))"

definition pause_soft_trigger :: "string option \<Rightarrow> pause_engine \<Rightarrow> pause_result" where
  "pause_soft_trigger game_id pe =
     (case pause_compat_get game_id pe of
        None \<Rightarrow> PAUSE_ERR_NOT_WHITELISTED
      | Some e \<Rightarrow> if pc_type e \<noteq> PAUSE_TYPE_TRIGGER_ADDR then PAUSE_ERR_NOT_WHITELISTED else PAUSE_OK)"

definition pause_checkpoint_save :: "'s file_ops \<Rightarrow> string option \<Rightarrow> string option \<Rightarrow> 's \<Rightarrow> ('s \<times> pause_result) option" where
  "pause_checkpoint_save ops game_id path st = pause_snapshot_save ops path st"

section \<open>The contract and what the clients get from it\<close>

locale file_store =
  fixes ops :: "'s file_ops"
    and good :: "'s \<Rightarrow> bool"
    and key :: "string \<Rightarrow> 'k"
    and cap :: nat
  assumes write_returns: "good st \<Longrightarrow> length d = unat n \<Longrightarrow> length d \<le> cap \<Longrightarrow>
      \<exists>st' rc. fo_write ops a d n st = Some (st', rc) \<and> good st'"
    and read_after_write: "good st \<Longrightarrow> length d = unat n \<Longrightarrow> length d \<le> cap \<Longrightarrow>
      fo_write ops a d n st = Some (st', 0) \<Longrightarrow> key a' = key a \<Longrightarrow> unat n \<le> unat bsz \<Longrightarrow>
      \<exists>st''. fo_read ops a' bsz st' = Some (st'', 0, d, n) \<and> good st''"
    and read_shape: "good st \<Longrightarrow> unat bsz \<le> cap \<Longrightarrow> fo_read ops a bsz st = Some (st', rc, d, n) \<Longrightarrow>
      good st' \<and> length d \<le> unat bsz \<and> (rc = 0 \<longrightarrow> length d = unat n)"
begin

lemma copy_then_read:
  assumes "good st" "unat bsz \<le> cap" "copy_file ops bsz src dst st = Some (st', 0)" "key dst' = key dst"
  shows "\<exists>st1 st2 d n. fo_read ops src bsz st = Some (st1, 0, d, n) \<and>
    fo_read ops dst' bsz st' = Some (st2, 0, d, n) \<and> good st2"
proof -
  obtain st1 d n where r: "fo_read ops src bsz st = Some (st1, 0, d, n)" "fo_write ops dst d n st1 = Some (st', 0)"
    using assms(3) by (auto simp: copy_file_def split: option.splits prod.splits if_splits)
  then have "good st1" "length d = unat n" "length d \<le> cap" "unat n \<le> unat bsz"
    using read_shape [OF assms(1,2) r(1)] assms(2) by auto
  then show ?thesis using read_after_write [OF _ _ _ r(2) assms(4), of bsz] r(1) by auto
qed

lemma backup_then_restore:
  assumes "good st" "4096 \<le> cap" "char_at d 0 \<noteq> NUL" "key f = key (str_copy 32 d)" "char_at f 0 \<noteq> NUL"
    and b: "save_manager_backup ops (Some d) sm st = Some (sm1, st1, 0)"
  shows "\<exists>sm2 st2. save_manager_restore ops (Some f) sm1 st1 = Some (sm2, st2, 0) \<and>
    backup_buf sm2 = backup_pattern \<and> backup_size sm2 = 4096 \<and> good st2"
proof -
  have len: "length backup_pattern = unat (of_nat SAVE_BACKUP_SIZE :: u32)" "length backup_pattern \<le> cap"
    using assms(2) by (simp_all add: backup_pattern_def SAVE_BACKUP_SIZE_def)
  have w: "fo_write ops (str_copy 32 d) backup_pattern (of_nat SAVE_BACKUP_SIZE) st = Some (st1, 0)"
    and sm1: "backup_buf sm1 = backup_pattern"
    using b assms(3) by (auto simp: save_manager_backup_def Let_def split: option.splits prod.splits if_splits)
  obtain st2 where "fo_read ops f (of_nat SAVE_BACKUP_SIZE) st1 = Some (st2, 0, backup_pattern, of_nat SAVE_BACKUP_SIZE)" "good st2"
    using read_after_write [OF assms(1) len w assms(4), of "of_nat SAVE_BACKUP_SIZE"] by auto
  then show ?thesis using assms(5) sm1 by (simp add: save_manager_restore_def SAVE_BACKUP_SIZE_def)
qed

lemma snapshot_roundtrip:
  assumes "good st" "4096 \<le> cap" "pause_snapshot_save ops (Some p) st = Some (st1, PAUSE_OK)"
  shows "\<exists>st2. pause_snapshot_restore ops (Some p) st1 = Some (st2, PAUSE_OK, snap_pattern) \<and> good st2"
proof -
  have len: "length snap_pattern = unat (4096 :: u32)" "length snap_pattern \<le> cap"
    using assms(2) by (simp_all add: snap_pattern_def)
  have w: "fo_write ops p snap_pattern 4096 st = Some (st1, 0)"
    using assms(3) by (auto simp: pause_snapshot_save_def split: if_splits)
  show ?thesis
    using read_after_write [OF assms(1) len w refl, of 4096] by (auto simp: pause_snapshot_restore_def)
qed

end

section \<open>The x86 FAT12 layer meets the contract\<close>

type_synonym 'w x86_fs = "'w sector_io \<times> fat_fs \<times> 'w"

definition x86_ops :: "'w x86_fs file_ops" where
  "x86_ops =
     \<lparr>fo_init = (\<lambda>(io, fs, w). case plat_fs_init io fs w of (fs1, w1, rc) \<Rightarrow> ((io, fs1, w1), rc)),
      fo_list = (\<lambda>mx (io, fs, w). case plat_fs_list io mx fs w of (fs1, w1, r) \<Rightarrow> ((io, fs1, w1), r)),
      fo_read = (\<lambda>a bsz (io, fs, w). map_option (\<lambda>(fs1, w1, rc, d, n). ((io, fs1, w1), rc, d, n)) (plat_fs_read io a bsz fs w)),
      fo_write = (\<lambda>a d n (io, fs, w). map_option (\<lambda>(fs1, w1, rc). ((io, fs1, w1), rc)) (plat_fs_write io a d n fs w)),
      fo_validate = (\<lambda>(io, fs, w). case plat_fs_validate io w of (w1, rc) \<Rightarrow> ((io, fs, w1), rc)),
      fo_repair = (\<lambda>(io, fs, w). case plat_fs_repair io fs w of (fs1, w1, rc) \<Rightarrow> ((io, fs1, w1), rc))\<rparr>"

text \<open>A loaded file system on a reliable disk whose FAT links its first sixteen clusters in order.\<close>

definition x86_good :: "'w x86_fs \<Rightarrow> bool" where
  "x86_good st \<longleftrightarrow> (case st of (io, fs, w) \<Rightarrow>
     (\<exists>view. reliable io view) \<and> fs_ok fs \<and> fat_linear (fat_cache fs) 16)"

lemma fat_linear_mono: "fat_linear fat n \<Longrightarrow> m \<le> n \<Longrightarrow> fat_linear fat m"
  by (auto simp: fat_linear_def)

lemma chunk_bounds:
  fixes fsize buf_size copied :: u32
  assumes "unat copied < unat fsize" "unat copied < unat buf_size" "unat buf_size \<le> 4000000"
    "n1 = (if copied + 512 > fsize then fsize - copied else 512)"
    "n = (if copied + n1 > buf_size then buf_size - copied else n1)"
  shows "0 < unat n \<and> unat n \<le> 512 \<and> unat (copied + n) = unat copied + unat n \<and>
    unat copied + unat n \<le> unat buf_size"
proof -
  have u: "unat (copied + 512) = unat copied + 512" using assms(2,3) by (simp add: unat_word_ariths)
  have "unat (fsize - copied) = unat fsize - unat copied"
    using assms(1) by (simp add: unat_sub word_le_nat_alt)
  then have n1: "0 < unat n1" "unat n1 \<le> 512"
    using assms(1,4) u by (auto simp: word_less_nat_alt)
  then have c1: "unat (copied + n1) = unat copied + unat n1"
    using assms(2,3) by (simp add: unat_word_ariths)
  have "unat (buf_size - copied) = unat buf_size - unat copied"
    using assms(2) by (simp add: unat_sub word_le_nat_alt)
  then have n: "0 < unat n \<and> unat n \<le> 512 \<and> unat copied + unat n \<le> unat buf_size"
    using assms(2,5) n1 c1 by (auto simp: word_less_nat_alt)
  then have "unat (copied + n) = unat copied + unat n"
    using assms(2,3) by (simp add: unat_word_ariths)
  then show ?thesis using n by simp
qed

lemma read_loop_shape:
  assumes rel: "reliable io view" and bsz: "unat buf_size \<le> 4000000"
  shows "read_loop io fat fsize buf_size cluster copied acc w = Some (w', ok, c', acc') \<Longrightarrow>
     length acc = unat copied \<Longrightarrow> unat copied \<le> unat buf_size \<Longrightarrow>
     length acc' = unat c' \<and> unat c' \<le> unat buf_size"
proof (induction "unat buf_size - unat copied" arbitrary: cluster copied acc w rule: less_induct)
  case less
  show ?case
  proof (cases "cluster < FAT_END \<and> copied < fsize \<and> copied < buf_size")
    case False
    then have "read_loop io fat fsize buf_size cluster copied acc w = Some (w, True, copied, acc)"
      by (subst read_loop.simps) (rule if_not_P [OF False])
    then show ?thesis using less.prems by simp
  next
    case True
    then have lt: "unat copied < unat fsize" "unat copied < unat buf_size" by (simp_all add: word_less_nat_alt)
    define n1 where "n1 = (if copied + 512 > fsize then fsize - copied else 512)"
    define n where "n = (if copied + n1 > buf_size then buf_size - copied else n1)"
    note n = chunk_bounds [OF lt bsz n1_def n_def]
    let ?lba = "FAT_DATA_START + ucast cluster - 2"
    obtain w1 where w1: "rd_sector io ?lba w = (w1, Some (view w ?lba))" using reliable_rd [OF rel] by metis
    have len: "length (view w ?lba) = 512" using rel by (simp add: reliable_def)
    have "read_loop io fat fsize buf_size cluster copied acc w =
        (case fat_next_cluster fat cluster of
           None \<Rightarrow> None
         | Some nx \<Rightarrow> read_loop io fat fsize buf_size nx (copied + n) (acc @ take (unat n) (view w ?lba)) w1)"
      by (subst read_loop.simps)
         (simp only: if_P [OF True] w1 prod.case option.case Let_def n1_def [symmetric] n_def [symmetric])
    then obtain nx where "read_loop io fat fsize buf_size nx (copied + n) (acc @ take (unat n) (view w ?lba)) w1 =
        Some (w', ok, c', acc')"
      using less.prems(1) by (auto split: option.splits)
    then show ?thesis using less.hyps [of "copied + n"] n lt len less.prems(2) by auto
  qed
qed

lemma x86_read_shape:
  assumes "x86_good st" "unat bsz \<le> 4000000" "fo_read x86_ops a bsz st = Some (st', rc, d, n)"
  shows "x86_good st' \<and> length d \<le> unat bsz \<and> (rc = 0 \<longrightarrow> length d = unat n)"
proof -
  obtain io fs w where st: "st = (io, fs, w)" by (cases st)
  obtain fs1 w1 where rd: "plat_fs_read io a bsz fs w = Some (fs1, w1, rc, d, n)" "st' = (io, fs1, w1)"
    using assms(3) by (auto simp: x86_ops_def st)
  obtain view where rel: "reliable io view" and ok: "fs_ok fs" using assms(1) by (auto simp: x86_good_def st)
  have "fs1 = fs \<and> length d \<le> unat bsz \<and> (rc = 0 \<longrightarrow> length d = unat n)"
  proof (cases "fat_find_entry fs (fat_normalize a)")
    case None
    then show ?thesis using rd(1) ok by (auto simp: plat_fs_read_def ensure_ready_def fs_ok_def)
  next
    case (Some slot)
    let ?rl = "read_loop io (fat_cache fs) (get32 (root_cache fs) (slot * 32 + 28)) bsz
                (get16 (root_cache fs) (slot * 32 + 26)) 0 [] w"
    obtain w2 b c where r: "?rl = Some (w2, b, c, d)" "fs1 = fs" "rc = 0 \<longrightarrow> n = c"
      using rd(1) ok Some
      by (auto simp: plat_fs_read_def ensure_ready_def fs_ok_def Let_def split: option.splits bool.splits)
    then show ?thesis using read_loop_shape [OF rel assms(2) r(1)] by auto
  qed
  then show ?thesis using assms(1) rd(2) by (simp add: x86_good_def st)
qed

lemma x86_write_returns:
  assumes "x86_good st" "length d = unat n" "length d \<le> 8192"
  shows "\<exists>st' rc. fo_write x86_ops a d n st = Some (st', rc) \<and> x86_good st'"
proof -
  obtain io fs w where st: "st = (io, fs, w)" by (cases st)
  obtain view where rel: "reliable io view" and ok: "fs_ok fs" and lin: "fat_linear (fat_cache fs) 16"
    using assms(1) by (auto simp: x86_good_def st)
  show ?thesis
  proof (cases "entry_for_write fs (fat_normalize a)")
    case None
    then show ?thesis using plat_fs_write_full [OF ok None, of io d n w] assms(1) by (simp add: x86_ops_def st)
  next
    case (Some e)
    then obtain slot root where e: "entry_for_write fs (fat_normalize a) = Some (slot, root)" by (cases e) simp
    show ?thesis
      using plat_fs_write_ok [OF rel ok assms(2) _ e, of w] assms(2,3) fs_ok_write [OF ok e, of n] rel lin
      by (auto simp: x86_ops_def st x86_good_def)
  qed
qed

lemma x86_read_after_write:
  assumes "x86_good st" "length d = unat n" "length d \<le> 8192" "fo_write x86_ops a d n st = Some (st', 0)"
    and "fat_normalize a' = fat_normalize a" "unat n \<le> unat bsz"
  shows "\<exists>st''. fo_read x86_ops a' bsz st' = Some (st'', 0, d, n) \<and> x86_good st''"
proof -
  obtain io fs w where st: "st = (io, fs, w)" by (cases st)
  obtain view where rel: "reliable io view" and ok: "fs_ok fs" and lin: "fat_linear (fat_cache fs) 16"
    using assms(1) by (auto simp: x86_good_def st)
  obtain fs1 w1 where w: "plat_fs_write io a d n fs w = Some (fs1, w1, 0)" "st' = (io, fs1, w1)"
    using assms(4) by (auto simp: x86_ops_def st)
  have "(length d + 511) div 512 \<le> 16" using assms(3) by linarith
  then have l: "fat_linear (fat_cache fs) ((length d + 511) div 512)" by (rule fat_linear_mono [OF lin])
  have "x86_good st'" using x86_write_returns [OF assms(1-3), of a] assms(4) by simp
  then show ?thesis
    using write_then_read [OF rel ok assms(2) _ l assms(6,5), of w] w assms(2,3)
    by (auto simp: x86_ops_def x86_good_def)
qed

interpretation x86: file_store x86_ops x86_good fat_normalize 8192
proof
  fix st :: "'a x86_fs" and d :: "u8 list" and n :: u32 and a :: string
  assume "x86_good st" "length d = unat n" "length d \<le> 8192"
  then show "\<exists>st' rc. fo_write x86_ops a d n st = Some (st', rc) \<and> x86_good st'"
    by (rule x86_write_returns)
next
  fix st st' :: "'a x86_fs" and d :: "u8 list" and n bsz :: u32 and a a' :: string
  assume "x86_good st" "length d = unat n" "length d \<le> 8192" "fo_write x86_ops a d n st = Some (st', 0)"
    "fat_normalize a' = fat_normalize a" "unat n \<le> unat bsz"
  then show "\<exists>st''. fo_read x86_ops a' bsz st' = Some (st'', 0, d, n) \<and> x86_good st''"
    by (rule x86_read_after_write)
next
  fix st st' :: "'a x86_fs" and d :: "u8 list" and n bsz :: u32 and a :: string and rc :: int
  assume "x86_good st" "unat bsz \<le> 8192" "fo_read x86_ops a bsz st = Some (st', rc, d, n)"
  then show "x86_good st' \<and> length d \<le> unat bsz \<and> (rc = 0 \<longrightarrow> length d = unat n)"
    using x86_read_shape [of st bsz a st' rc d n] by simp
qed

lemma cstr_ext_part: "cstr (ext_part s) = ext_part (cstr s)"
  by (cases s) (auto simp: ext_part_def char_at_def cstr_Cons)

lemma fat_normalize_str_copy: "fat_normalize (str_copy 32 s) = fat_normalize s"
proof -
  let ?t = "cstr s"
  have "take 3 (ext_part (take 31 ?t)) = take 3 (ext_part ?t) \<and>
      3 - length (ext_part (take 31 ?t)) = 3 - length (ext_part ?t)"
    by (cases ?t) (auto simp: ext_part_def char_at_def take_Cons')
  then show ?thesis
    by (simp add: fat_normalize_eq cstr_ext_part) (simp add: str_copy_take)
qed

section \<open>What a file longer than one cluster reads back as\<close>

text \<open>
  The write fills clusters 2, 3, ... but never links them in the FAT, which the read
  follows. Here the FAT ends the chain of cluster 2 at once.
\<close>

definition fat_single :: "u8 list \<Rightarrow> bool" where
  "fat_single fat \<longleftrightarrow> (case fat_next_cluster fat 2 of None \<Rightarrow> False | Some nx \<Rightarrow> FAT_END \<le> nx)"

lemma read_first_cluster:
  assumes rel: "reliable io view" and single: "fat_single fat" and sz: "512 < unat sz" "unat sz \<le> unat bsz"
  shows "\<exists>w'. read_loop io fat sz bsz 2 0 [] w = Some (w', True, 512, take 512 (view w (sector_of 2)))"
proof -
  obtain nx where nx: "fat_next_cluster fat 2 = Some nx" "\<not> nx < FAT_END"
    using single by (auto simp: fat_single_def not_less split: option.splits)
  have lba: "FAT_DATA_START + ucast (2 :: u16) - 2 = sector_of 2" using data_lba [of 2] by simp
  obtain w1 where w1: "rd_sector io (sector_of 2) w = (w1, Some (view w (sector_of 2)))"
    using reliable_rd [OF rel] by metis
  have n: "\<not> 512 > sz" "\<not> 512 > bsz" "0 < sz" "0 < bsz" "(2 :: u16) < FAT_END"
    using sz by (simp_all add: word_less_nat_alt FAT_END_def)
  have stop: "read_loop io fat sz bsz nx 512 acc w1 = Some (w1, True, 512, acc)" for acc
    by (subst read_loop.simps) (simp add: nx(2))
  show ?thesis by (subst read_loop.simps) (simp only: n lba w1 nx(1) stop Let_def prod.case option.case add_0 append_Nil simp_thms if_True if_False, simp)
qed

lemma x86_write_read:
  assumes rel: "reliable io view" and ok: "fs_ok fs" and len: "length d = unat n" "length d \<le> 8192"
    and w: "fo_write x86_ops a d n (io, fs, w) = Some (st', 0)" and a: "fat_normalize a' = fat_normalize a" and b: "unat n \<le> unat bsz"
  shows "(fat_linear (fat_cache fs) ((length d + 511) div 512) \<longrightarrow> (\<exists>st''. fo_read x86_ops a' bsz st' = Some (st'', 0, d, n))) \<and>
    (fat_single (fat_cache fs) \<longrightarrow> (\<exists>st''. fo_read x86_ops a' bsz st' = Some (st'', 0, take 512 d, of_nat (min 512 (length d)))))"
proof -
  obtain fs1 w1 where w1: "plat_fs_write io a d n fs w = Some (fs1, w1, 0)" "st' = (io, fs1, w1)"
    using w by (auto simp: x86_ops_def)
  have lin: "\<exists>st''. fo_read x86_ops a' bsz st' = Some (st'', 0, d, n)"
    if "fat_linear (fat_cache fs) ((length d + 511) div 512)"
    using write_then_read [OF rel ok len(1) _ that b a, of w] w1 len by (auto simp: x86_ops_def)
  moreover have "\<exists>st''. fo_read x86_ops a' bsz st' = Some (st'', 0, take 512 d, of_nat (min 512 (length d)))"
    if single: "fat_single (fat_cache fs)"
  proof (cases "length d \<le> 512")
    case True
    then have "(length d + 511) div 512 \<le> 1" by linarith
    then have "fat_linear (fat_cache fs) ((length d + 511) div 512)" by (simp add: fat_linear_def)
    then show ?thesis using lin True len(1) by (simp add: of_nat_unat)
  next
    case False
    obtain slot root where e: "entry_for_write fs (fat_normalize a) = Some (slot, root)"
      using plat_fs_write_full [OF ok, of a io d n w] w1(1) by (cases "entry_for_write fs (fat_normalize a)") auto
    have wf: "fs_wf fs" "length (root_cache fs) = 7168" using ok by (auto simp: fs_ok_def fs_wf_def)
    note es = entry_for_write_Some [OF wf(2) fat_normalize_props e]
    have "unat n \<le> 1000000" using len by simp
    note wr = plat_fs_write_ok [OF rel ok len(1) this e, of w]
    have fs1: "fs1 = fs\<lparr>root_cache := with_fields slot n root\<rparr>" using wr w1(1) by auto
    have sec: "view w1 (sector_of 2) = pad512 d"
      using wr w1(1) False by (elim exE conjE) (drule spec [of _ 0], cases "d = []", simp_all)
    have fnd: "fat_find_entry fs1 (fat_normalize a') = Some slot"
      using find_after_write [OF wf(1) fat_normalize_props e] a fs1 by simp
    have "512 < unat n" using False len(1) by simp
    from read_first_cluster [OF rel single this b, of w1] obtain w2
      where "read_loop io (fat_cache fs) n bsz 2 0 [] w1 = Some (w2, True, 512, take 512 (pad512 d))"
      unfolding sec by blast
    moreover have "take 512 (pad512 d) = take 512 d" using False by (simp add: pad512_def min_def)
    moreover have "fs_ready fs1" using ok by (simp add: fs1 fs_ok_def)
    ultimately show ?thesis
      using fnd with_fields_get [OF es(1,2)] False w1(2)
      by (simp add: x86_ops_def plat_fs_read_def ensure_ready_def Let_def fs1 min_def)
  qed
  ultimately show ?thesis by blast
qed


section \<open>Properties\<close>


text \<open>
  C17: A save backed up under a name and restored from it, on a loaded x86 file system and
  a disk that performs every transfer. After a successful save_manager_backup, a restore from that name (which
  may be longer than the 31 characters kept), by any save manager, as after a restart, reports
  success; if the FAT already links the first eight clusters in order the buffer holds the 4096
  backed-up bytes again, and if the FAT ends the chain at cluster 2 it
  holds the first 512 of them, and else what it held before.
\<close>
theorem backup_restore_roundtrip:
  assumes "reliable io view" "fs_ok fs" "char_at d 0 \<noteq> NUL"
    and "save_manager_backup x86_ops (Some d) sm (io, fs, w) = Some (sm1, st1, 0)" "length (backup_buf sm2) = 4096"
  shows "(fat_linear (fat_cache fs) 8 \<longrightarrow>
      (\<exists>sm3 st3. save_manager_restore x86_ops (Some d) sm2 st1 = Some (sm3, st3, 0) \<and>
         backup_buf sm3 = map of_nat [0..<4096] \<and> backup_size sm3 = 4096)) \<and>
    (fat_single (fat_cache fs) \<longrightarrow>
      (\<exists>sm3 st3. save_manager_restore x86_ops (Some d) sm2 st1 = Some (sm3, st3, 0) \<and>
         backup_buf sm3 = map of_nat [0..<512] @ drop 512 (backup_buf sm2) \<and> backup_size sm3 = 512))"
proof -
  have len: "length backup_pattern = unat (4096 :: u32)" "length backup_pattern \<le> 8192" "length backup_pattern = 4096"
    by (simp_all add: backup_pattern_def SAVE_BACKUP_SIZE_def)
  have w: "fo_write x86_ops (str_copy 32 d) backup_pattern 4096 (io, fs, w) = Some (st1, 0)"
    using assms(3,4) by (auto simp: save_manager_backup_def SAVE_BACKUP_SIZE_def Let_def split: option.splits prod.splits if_splits)
  have "(0xFF :: u8) = - 1" by simp
  then have "x AND 0xFF = x" for x :: u8 by (metis and.comm_neutral)
  then have pat: "backup_pattern = map of_nat [0..<4096]" by (simp add: backup_pattern_def SAVE_BACKUP_SIZE_def)
  have "fat_normalize d = fat_normalize (str_copy 32 d)" by (simp add: fat_normalize_str_copy)
  from x86_write_read [OF assms(1,2) len(1,2) w this, of 4096] show ?thesis
    using assms(3,5) by (auto simp: save_manager_restore_def SAVE_BACKUP_SIZE_def pat take_map min_def)
qed

text \<open>
  The pause whitelist. As long as the table holds fewer than 64 titles a title
  can be added, and then it is found, and every title found before still is, when
  its name has at most 15 characters; a longer name is stored truncated and is
  found only if its first 15 characters were already a title of their own. A full
  table refuses the title and stays as it is.
\<close>
theorem pause_whitelist_lookup:
  "(length (whitelist pe) < 64 \<longrightarrow>
      (\<exists>pe'. pause_whitelist_add (Some g) pe = (pe', 0) \<and>
         (\<forall>x. pause_is_whitelisted (Some x) pe' \<longleftrightarrow>
            pause_is_whitelisted (Some x) pe \<or> cstr x = take 15 (cstr g)))) \<and>
   (64 \<le> length (whitelist pe) \<longrightarrow> pause_whitelist_add (Some g) pe = (pe, -1))"
  by (auto simp: pause_whitelist_add_def pause_is_whitelisted_def str_eq_iff str_copy_take cstr_take)

section \<open>Witnesses\<close>

definition chain_bytes :: "u8 list" where
  "chain_bytes = [0xF0, 0xFF, 0xFF] @
     concat (map (\<lambda>k. [of_nat (2 * k + 1), of_nat ((2 * k + 2) mod 16 * 16), of_nat ((2 * k + 2) div 16)]) [1..<10])"

definition chain_fs :: fat_fs where
  "chain_fs = blank_fs\<lparr>fat_cache := chain_bytes @ replicate (4608 - length chain_bytes) 0\<rparr>"

lemma chain_length: "length chain_bytes = 30"
  by (simp add: chain_bytes_def upt_rec)

lemma fat_next_append:
  "unat c + unat c div 2 + 1 < length xs \<Longrightarrow> fat_next_cluster (xs @ ys) c = fat_next_cluster xs c"
  by (simp add: fat_next_cluster_def get16_def nth_append Let_def)

lemma chain_steps:
  "list_all (\<lambda>k. fat_next_cluster chain_bytes (of_nat (2 + k)) = Some (of_nat (3 + k))) [0..<15]"
  by code_simp

lemma chain_good: "x86_good (ram_io, chain_fs, w)"
proof -
  have "fat_next_cluster (fat_cache chain_fs) (of_nat (2 + k)) = Some (of_nat (3 + k))" if "k < 15" for k
  proof -
    have "unat (of_nat (2 + k) :: u16) = 2 + k" using that by (simp only: unat_of_nat) simp
    moreover have "(2 + k) + (2 + k) div 2 + 1 < 30" using that by presburger
    ultimately have "unat (of_nat (2 + k) :: u16) + unat (of_nat (2 + k) :: u16) div 2 + 1 < length chain_bytes"
      by (simp only: chain_length)
    moreover have "fat_cache chain_fs = chain_bytes @ replicate (4608 - length chain_bytes) 0"
      by (simp add: chain_fs_def)
    ultimately have "fat_next_cluster (fat_cache chain_fs) (of_nat (2 + k)) = fat_next_cluster chain_bytes (of_nat (2 + k))"
      by (simp only: fat_next_append)
    then show ?thesis using chain_steps that by (simp add: list_all_iff)
  qed
  moreover have "fs_ok chain_fs"
    using blank_ok by (simp add: chain_fs_def fs_ok_def fs_wf_def chain_length)
  ultimately show ?thesis using ram_reliable by (auto simp: x86_good_def fat_linear_def)
qed

lemma chain_write:
  assumes "length d = unat n" "length d \<le> 8192"
  shows "\<exists>fs1 w1. plat_fs_write ram_io a d n chain_fs w = Some (fs1, w1, 0) \<and>
    fat_find_entry fs1 (fat_normalize a) \<noteq> None \<and> x86_good (ram_io, fs1, w1)"
proof -
  have ok: "fs_ok chain_fs" using chain_good [of undefined] by (simp add: x86_good_def)
  have "root_cache chain_fs = root_cache blank_fs" by (simp add: chain_fs_def)
  then obtain s r where e: "entry_for_write chain_fs (fat_normalize a) = Some (s, r)"
    using entry_for_write_None [of chain_fs "fat_normalize a" 0] blank_unused [of 0] by fastforce
  let ?fs = "chain_fs\<lparr>root_cache := with_fields s n r\<rparr>"
  obtain w1 where w1: "plat_fs_write ram_io a d n chain_fs w = Some (?fs, w1, 0)"
    using plat_fs_write_ok [OF ram_reliable ok assms(1) _ e, of w] assms by auto
  have "fat_find_entry ?fs (fat_normalize a) = Some s"
    using find_after_write [OF _ fat_normalize_props e] ok by (simp add: fs_ok_def)
  moreover have "x86_good (ram_io, ?fs, w1)"
    using chain_good [of w] fs_ok_write [OF ok e, of n] by (simp add: x86_good_def)
  ultimately show ?thesis using w1 by auto
qed


theorem backup_restore_witness:
  "\<exists>(st1 :: (u32 \<Rightarrow> u8 list) x86_fs) sm sm1 sm2 st2. save_manager_restore x86_ops (Some ''SAVE'') (sm\<lparr>backup_buf := replicate 4096 0\<rparr>) st1 = Some (sm2, st2, 0) \<and>
     save_manager_backup x86_ops (Some ''SAVE'') sm (ram_io, chain_fs, \<lambda>_. []) = Some (sm1, st1, 0) \<and>
     backup_buf sm2 = map of_nat [0..<4096]"
proof -
  let ?st = "(ram_io, chain_fs, \<lambda>_. [])" and ?sm = "undefined :: save_manager"
  have l: "length backup_pattern = unat (of_nat SAVE_BACKUP_SIZE :: u32)" "length backup_pattern \<le> 8192"
    by (simp_all add: backup_pattern_def SAVE_BACKUP_SIZE_def)
  obtain fs1 w1 where "plat_fs_write ram_io (str_copy 32 ''SAVE'') backup_pattern (of_nat SAVE_BACKUP_SIZE) chain_fs (\<lambda>_. [])
      = Some (fs1, w1, 0)" using chain_write [OF l, of "str_copy 32 ''SAVE''" "\<lambda>_. []"] by auto
  then have "\<exists>sm1 st1. save_manager_backup x86_ops (Some ''SAVE'') ?sm ?st = Some (sm1, st1, 0)"
    by (simp add: save_manager_backup_def Let_def char_at_def) (simp add: x86_ops_def)
  then obtain sm1 st1 where b: "save_manager_backup x86_ops (Some ''SAVE'') ?sm ?st = Some (sm1, st1, 0)"
    by blast
  have h: "char_at ''SAVE'' 0 \<noteq> NUL" "length (backup_buf (?sm\<lparr>backup_buf := replicate 4096 0\<rparr>)) = 4096" by (simp_all add: char_at_def)
  have good: "fs_ok chain_fs" "fat_linear (fat_cache chain_fs) 8"
    using chain_good [of undefined] fat_linear_mono by (auto simp: x86_good_def)
  show ?thesis using backup_restore_roundtrip [OF ram_reliable good(1) h(1) b h(2)] good(2) b by blast
qed

theorem pause_whitelist_witness:
  "\<exists>pe'. pause_whitelist_add (Some ''SLUS-20062'') \<lparr>whitelist = [], compat_db = [], pe_inited = True\<rparr> = (pe', 0) \<and>
     pause_is_whitelisted (Some ''SLUS-20062'') pe'"
proof -
  let ?pe = "\<lparr>whitelist = [], compat_db = [], pe_inited = True\<rparr>"
  have "cstr ''SLUS-20062'' = take 15 (cstr ''SLUS-20062'')" by (simp add: cstr_def)
  moreover have "length (whitelist ?pe) < 64" by simp
  ultimately show ?thesis using pause_whitelist_lookup [of ?pe "''SLUS-20062''"] by blast
qed

end
