(* ===== verification/Streaming.thy ===== *)
theory Streaming
  imports Storage_Clients Party Graphics Heap_Alloc
begin

text \<open>
  \<^verbatim>\<open>src/streaming.c\<close>: the pipeline that moves a file in chunks of 4 KB between a
  client's buffer and the platform file interface, and the capture of the frame
  buffer into transport packets. The client's memory is a byte list and a buffer a
  position in it; an access outside is \<open>None\<close>.
\<close>

section \<open>The file pipeline\<close>

definition STREAMING_CHUNK_SIZE :: u32 where "STREAMING_CHUNK_SIZE = 4096"
definition STREAMING_QUEUE_DEPTH :: nat where "STREAMING_QUEUE_DEPTH = 8"

datatype stream_op = STREAM_OP_READ | STREAM_OP_WRITE

record stream_request =
  sr_op :: stream_op
  sr_offset :: u32
  sr_length :: u32
  sr_buffer :: "nat option"
  sr_done :: bool
  sr_error :: int

record stream_pipeline =
  sp_path :: string
  sp_for_write :: bool
  sp_queue :: "stream_request list"
  sp_head :: nat
  sp_tail :: nat
  sp_active_buf :: u32

text \<open>
  The structure has 336 bytes. The fields of the queue that stream_open does not set
  keep what the fresh block held (\<open>junk\<close>).
\<close>

definition stream_open ::
  "stream_request list \<Rightarrow> string option \<Rightarrow> bool \<Rightarrow> heap \<Rightarrow> (heap \<times> (ptr \<times> stream_pipeline) option) option" where
  "stream_open junk path for_write h =
     (case path of None \<Rightarrow> Some (h, None)
      | Some p \<Rightarrow>
          (case malloc h 336 of None \<Rightarrow> None
           | Some (h1, NULL) \<Rightarrow> Some (h1, None)
           | Some (h1, a) \<Rightarrow>
               Some (h1, Some (a, \<lparr>sp_path = str_copy 128 p, sp_for_write = for_write,
                                   sp_queue = map (\<lambda>r. r\<lparr>sr_done := True, sr_error := 0\<rparr>) junk,
                                   sp_head = 0, sp_tail = 0, sp_active_buf = 0\<rparr>))))"

definition stream_close :: "ptr \<Rightarrow> heap \<Rightarrow> heap option" where
  "stream_close s h = (if s = NULL then Some h else free h s)"

definition put_bytes :: "nat \<Rightarrow> u8 list \<Rightarrow> u8 list \<Rightarrow> u8 list" where
  "put_bytes a d mem = take a mem @ d @ drop (a + length d) mem"

text \<open>One transfer of \<open>n\<close> bytes; the result of the file operation is ignored.\<close>

definition transfer ::
  "'s file_ops \<Rightarrow> stream_pipeline \<Rightarrow> nat option \<Rightarrow> u32 \<Rightarrow> u8 list \<Rightarrow> 's \<Rightarrow> (u8 list \<times> 's) option" where
  "transfer ops s buffer n mem st =
     (case buffer of None \<Rightarrow> Some (mem, st)
      | Some a \<Rightarrow>
          if a + unat n > length mem then None
          else if sp_for_write s then
            (case fo_write ops (sp_path s) (take (unat n) (drop a mem)) n st of
               None \<Rightarrow> None | Some (st1, rc) \<Rightarrow> Some (mem, st1))
          else
            (case fo_read ops (sp_path s) n st of
               None \<Rightarrow> None | Some (st1, rc, d, got) \<Rightarrow> Some (put_bytes a d mem, st1)))"

definition advance_chunk ::
  "'s file_ops \<Rightarrow> stream_pipeline \<Rightarrow> stream_request \<Rightarrow> u8 list \<Rightarrow> 's \<Rightarrow> (stream_request \<times> u8 list \<times> 's \<times> bool) option" where
  "advance_chunk ops s r mem st =
     (if sr_length r \<le> STREAMING_CHUNK_SIZE then
        map_option (\<lambda>(mem1, st1). (r\<lparr>sr_done := True, sr_error := 0\<rparr>, mem1, st1, False))
          (transfer ops s (sr_buffer r) (sr_length r) mem st)
      else
        map_option (\<lambda>(mem1, st1).
            (r\<lparr>sr_offset := sr_offset r + STREAMING_CHUNK_SIZE, sr_length := sr_length r - STREAMING_CHUNK_SIZE,
               sr_buffer := map_option (\<lambda>a. a + unat STREAMING_CHUNK_SIZE) (sr_buffer r)\<rparr>, mem1, st1, True))
          (transfer ops s (sr_buffer r) STREAMING_CHUNK_SIZE mem st))"

definition request :: "stream_op \<Rightarrow> u32 \<Rightarrow> u32 \<Rightarrow> nat \<Rightarrow> stream_request" where
  "request op off len buf =
     \<lparr>sr_op = op, sr_offset = off, sr_length = len, sr_buffer = Some buf, sr_done = False, sr_error = 0\<rparr>"

definition enqueue :: "stream_op \<Rightarrow> u32 \<Rightarrow> u32 \<Rightarrow> nat option \<Rightarrow> stream_pipeline \<Rightarrow> stream_pipeline \<times> int" where
  "enqueue op off len buffer s =
     (case buffer of None \<Rightarrow> (s, - 1)
      | Some a \<Rightarrow>
          if sp_tail s \<ge> STREAMING_QUEUE_DEPTH then (s, - 2)
          else (s\<lparr>sp_queue := (sp_queue s)[sp_tail s := request op off len a], sp_tail := sp_tail s + 1\<rparr>, 0))"

definition stream_read_async :: "u32 \<Rightarrow> u32 \<Rightarrow> nat option \<Rightarrow> stream_pipeline \<Rightarrow> stream_pipeline \<times> int" where
  "stream_read_async = enqueue STREAM_OP_READ"

definition stream_write_async :: "u32 \<Rightarrow> u32 \<Rightarrow> nat option \<Rightarrow> stream_pipeline \<Rightarrow> stream_pipeline \<times> int" where
  "stream_write_async = enqueue STREAM_OP_WRITE"

definition poll_one ::
  "'s file_ops \<Rightarrow> nat \<Rightarrow> stream_pipeline \<times> u8 list \<times> 's \<times> bool \<Rightarrow> (stream_pipeline \<times> u8 list \<times> 's \<times> bool) option" where
  "poll_one ops i x =
     (case x of (s, mem, st, progress) \<Rightarrow>
        if sr_done (sp_queue s ! i) then Some x
        else map_option (\<lambda>(r, mem1, st1, b). (s\<lparr>sp_queue := (sp_queue s)[i := r]\<rparr>, mem1, st1, progress \<or> b))
               (advance_chunk ops s (sp_queue s ! i) mem st))"

definition stream_poll ::
  "'s file_ops \<Rightarrow> stream_pipeline \<Rightarrow> u8 list \<Rightarrow> 's \<Rightarrow> (stream_pipeline \<times> u8 list \<times> 's \<times> bool) option" where
  "stream_poll ops s mem st = each (poll_one ops) [0..<sp_tail s] (s, mem, st, False)"

text \<open>The request waited for is the entry \<open>i\<close> of the queue.\<close>

partial_function (option) stream_wait ::
  "'s file_ops \<Rightarrow> nat \<Rightarrow> stream_pipeline \<Rightarrow> u8 list \<Rightarrow> 's \<Rightarrow> (stream_pipeline \<times> u8 list \<times> 's) option" where
  "stream_wait ops i s mem st =
     (if sr_done (sp_queue s ! i) then Some (s, mem, st)
      else Option.bind (stream_poll ops s mem st) (\<lambda>(s1, mem1, st1, b). stream_wait ops i s1 mem1 st1))"

partial_function (option) sync_loop ::
  "'s file_ops \<Rightarrow> stream_pipeline \<Rightarrow> u8 list \<Rightarrow> 's \<Rightarrow> (stream_pipeline \<times> u8 list \<times> 's) option" where
  "sync_loop ops s mem st =
     (let r = sp_queue s ! 0 in
      if sr_length r > 0 \<and> sr_error r = 0 then
        Option.bind (advance_chunk ops s r mem st)
          (\<lambda>(r1, mem1, st1, b). sync_loop ops (s\<lparr>sp_queue := (sp_queue s)[0 := r1]\<rparr>) mem1 st1)
      else Some (s, mem, st))"

definition stream_sync ::
  "stream_op \<Rightarrow> 's file_ops \<Rightarrow> u32 \<Rightarrow> u32 \<Rightarrow> nat option \<Rightarrow> stream_pipeline \<Rightarrow> u8 list \<Rightarrow> 's \<Rightarrow> (stream_pipeline \<times> u8 list \<times> 's \<times> int) option" where
  "stream_sync op ops off len buffer s mem st =
     (case buffer of None \<Rightarrow> Some (s, mem, st, - 1)
      | Some a \<Rightarrow>
          map_option (\<lambda>(s1, mem1, st1). (s1, mem1, st1, sr_error (sp_queue s1 ! 0)))
            (sync_loop ops (s\<lparr>sp_queue := (sp_queue s)[0 := request op off len a]\<rparr>) mem st))"

definition stream_read_sync ::
  "'s file_ops \<Rightarrow> u32 \<Rightarrow> u32 \<Rightarrow> nat option \<Rightarrow> stream_pipeline \<Rightarrow> u8 list \<Rightarrow> 's \<Rightarrow> (stream_pipeline \<times> u8 list \<times> 's \<times> int) option" where
  "stream_read_sync = stream_sync STREAM_OP_READ"

definition stream_write_sync ::
  "'s file_ops \<Rightarrow> u32 \<Rightarrow> u32 \<Rightarrow> nat option \<Rightarrow> stream_pipeline \<Rightarrow> u8 list \<Rightarrow> 's \<Rightarrow> (stream_pipeline \<times> u8 list \<times> 's \<times> int) option" where
  "stream_write_sync = stream_sync STREAM_OP_WRITE"

section \<open>Frame capture\<close>

definition FRAME_CHUNK_HEADER :: nat where "FRAME_CHUNK_HEADER = 8"
definition FRAME_CHUNK_PAYLOAD :: nat where "FRAME_CHUNK_PAYLOAD = TRANSPORT_MAX_PAYLOAD - FRAME_CHUNK_HEADER"
definition VIDEO_BPP :: nat where "VIDEO_BPP = 1"
definition QUALITY_HIGH :: int where "QUALITY_HIGH = 2"
definition QUALITY_MED :: int where "QUALITY_MED = 1"
definition QUALITY_LOW :: int where "QUALITY_LOW = 0"

record streaming =
  streaming_initialized :: bool
  streaming_running :: bool
  stream_quality :: int
  stream_passthrough :: bool
  frame_id :: u32
  frame_chunk_buf :: "u8 list"
  s_transport :: transport

definition streaming_init :: "streaming \<Rightarrow> streaming" where
  "streaming_init g =
     (if streaming_initialized g then g
      else g\<lparr>s_transport := transport_init (s_transport g), streaming_running := False, stream_quality := QUALITY_MED,
             stream_passthrough := False, frame_id := 0, streaming_initialized := True\<rparr>)"

definition streaming_start :: "streaming \<Rightarrow> streaming \<times> int" where
  "streaming_start g =
     (if \<not> streaming_initialized g then (g, - 1) else (g\<lparr>streaming_running := True, frame_id := 0\<rparr>, 0))"

definition streaming_stop :: "streaming \<Rightarrow> streaming" where
  "streaming_stop g = g\<lparr>streaming_running := False\<rparr>"

definition effective_width :: "int \<Rightarrow> nat" where
  "effective_width q = (if q = QUALITY_LOW then unat VIDEO_WIDTH div 2 else unat VIDEO_WIDTH)"

definition effective_height :: "int \<Rightarrow> nat" where
  "effective_height q = (if q = QUALITY_LOW then unat VIDEO_HEIGHT div 2 else unat VIDEO_HEIGHT)"

definition total_bytes :: "int \<Rightarrow> nat" where
  "total_bytes q = effective_width q * VIDEO_BPP * effective_height q"

definition n_chunks :: "int \<Rightarrow> nat" where
  "n_chunks q = (total_bytes q + FRAME_CHUNK_PAYLOAD - 1) div FRAME_CHUNK_PAYLOAD"

definition chunk_header :: "u32 \<Rightarrow> nat \<Rightarrow> nat \<Rightarrow> u8 list" where
  "chunk_header fid idx n =
     [ucast (fid AND 0xFF), ucast (drop_bit 8 fid AND 0xFF), ucast (drop_bit 16 fid AND 0xFF), ucast (drop_bit 24 fid AND 0xFF),
      of_nat (idx mod 256), of_nat (idx div 256 mod 256), of_nat (n mod 256), of_nat (n div 256 mod 256)]"

text \<open>The position in the frame buffer of byte \<open>pix\<close> of the picture that is sent.\<close>

definition source_pos :: "int \<Rightarrow> nat \<Rightarrow> nat" where
  "source_pos q pix =
     (if q = QUALITY_LOW then
        let w = effective_width q; row = pix div VIDEO_BPP div w; col = pix div VIDEO_BPP mod w
        in (row * 2 * unat VIDEO_WIDTH + col * 2) * VIDEO_BPP + pix mod VIDEO_BPP
      else pix)"

fun capture_loop ::
  "'w net_ops \<Rightarrow> framebuffer \<Rightarrow> nat list \<Rightarrow> nat \<Rightarrow> streaming \<Rightarrow> 'w \<Rightarrow> (streaming \<times> 'w \<times> bool) option" where
  "capture_loop ops fb [] src_offset g w = Some (g, w, True)"
| "capture_loop ops fb (i # is) src_offset g w =
     (let q = stream_quality g;
          to_copy = (if src_offset + FRAME_CHUNK_PAYLOAD > total_bytes q then total_bytes q - src_offset else FRAME_CHUNK_PAYLOAD);
          payload = chunk_header (frame_id g) i (n_chunks q) @ map (\<lambda>k. fb ! source_pos q (src_offset + k)) [0..<to_copy];
          buf = payload @ drop (length payload) (frame_chunk_buf g)
      in case transport_send ops TRANSPORT_TYPE_DATA (Some buf) (of_nat (FRAME_CHUNK_HEADER + to_copy)) (s_transport g) w of
           None \<Rightarrow> None
         | Some (t, w1, rc) \<Rightarrow>
             let g1 = g\<lparr>frame_chunk_buf := buf, s_transport := t\<rparr>
             in if rc < 0 then Some (g1, w1, False) else capture_loop ops fb is (src_offset + to_copy) g1 w1)"

definition streaming_capture_and_send ::
  "'w net_ops \<Rightarrow> framebuffer \<Rightarrow> streaming \<Rightarrow> 'w \<Rightarrow> (streaming \<times> 'w \<times> int) option" where
  "streaming_capture_and_send ops fb g w =
     (if \<not> streaming_initialized g \<or> \<not> streaming_running g then Some (g, w, - 1)
      else
        (case capture_loop ops fb [0..<n_chunks (stream_quality g)] 0 g w of
           None \<Rightarrow> None
         | Some (g1, w1, False) \<Rightarrow> Some (g1, w1, - 1)
         | Some (g1, w1, True) \<Rightarrow>
             let g2 = g1\<lparr>frame_id := frame_id g1 + 1\<rparr>
             in if stream_passthrough g2
                then (case transport_receive ops 64 (s_transport g2) w1 of (t, w2, n, r) \<Rightarrow> Some (g2\<lparr>s_transport := t\<rparr>, w2, 0))
                else Some (g2, w1, 0)))"

definition streaming_set_quality :: "int \<Rightarrow> streaming \<Rightarrow> streaming" where
  "streaming_set_quality q g = (if QUALITY_LOW \<le> q \<and> q \<le> QUALITY_HIGH then g\<lparr>stream_quality := q\<rparr> else g)"

definition streaming_set_passthrough :: "int \<Rightarrow> streaming \<Rightarrow> streaming" where
  "streaming_set_passthrough on g = g\<lparr>stream_passthrough := (on \<noteq> 0)\<rparr>"

definition streaming_active :: "streaming \<Rightarrow> bool" where
  "streaming_active g = streaming_running g"

section \<open>A captured frame arrives complete\<close>

definition image :: "int \<Rightarrow> framebuffer \<Rightarrow> u8 list" where
  "image q fb = map (\<lambda>pix. fb ! source_pos q pix) [0..<total_bytes q]"

definition chunk :: "int \<Rightarrow> framebuffer \<Rightarrow> u32 \<Rightarrow> nat \<Rightarrow> u8 list" where
  "chunk q fb fid i = chunk_header fid i (n_chunks q) @ take FRAME_CHUNK_PAYLOAD (drop (FRAME_CHUNK_PAYLOAD * i) (image q fb))"

lemmas frame_consts = FRAME_CHUNK_PAYLOAD_def FRAME_CHUNK_HEADER_def TRANSPORT_MAX_PAYLOAD_def

lemma concat_chunks: "concat (map (\<lambda>i. take k (drop (k * i) xs)) [0..<n]) = take (k * n) xs"
  by (induction n) (simp_all add: take_add add.commute [of k])

lemma send_prefix:
  assumes "unat len \<le> length p"
  shows "transport_send ops ty (Some p) len t w = transport_send ops ty (Some (take (unat len) p)) len t w"
proof -
  have "copy_payload (Some p) (unat len) b = copy_payload (Some (take (unat len) p)) (unat len) b" for b
    using assms by (simp add: copy_payload_def)
  then show ?thesis by (simp add: transport_send_def)
qed

lemma chunk_props:
  assumes "i < n_chunks q"
  defines "m \<equiv> (if 1392 * i + 1392 > total_bytes q then total_bytes q - 1392 * i else 1392)"
  shows "chunk_header fid i (n_chunks q) @ map (\<lambda>k. fb ! source_pos q (1392 * i + k)) [0..<m] = chunk q fb fid i"
    "length (chunk q fb fid i) = 8 + m" "m \<le> 1392" "1392 * i < total_bytes q"
    "Suc i < n_chunks q \<Longrightarrow> m = 1392"
proof -
  have n: "n_chunks q = (total_bytes q + 1391) div 1392" by (simp add: n_chunks_def frame_consts)
  show lt: "1392 * i < total_bytes q" using assms(1) unfolding n by linarith
  show m: "m \<le> 1392" unfolding m_def by (split if_split) linarith
  have e: "map (\<lambda>k. fb ! source_pos q (1392 * i + k)) [0..<m] = take 1392 (drop (1392 * i) (image q fb))"
  proof -
    have "1392 * i + m \<le> total_bytes q" "m = min 1392 (total_bytes q - 1392 * i)" unfolding m_def using lt by auto
    then show ?thesis by (intro nth_equalityI) (auto simp: image_def)
  qed
  show c: "chunk_header fid i (n_chunks q) @ map (\<lambda>k. fb ! source_pos q (1392 * i + k)) [0..<m] = chunk q fb fid i"
    unfolding e chunk_def by (simp add: frame_consts)
  show "length (chunk q fb fid i) = 8 + m" unfolding c [symmetric] by (simp add: chunk_header_def)
  show "m = 1392" if "Suc i < n_chunks q" using that unfolding n m_def by auto
qed

lemma capture_loop_sends:
  assumes "i \<le> n_chunks q" "i < n_chunks q \<longrightarrow> off = 1392 * i" "stream_quality g = q"
    "transport_wf (s_transport g)" "t_initialized (s_transport g)" "length (frame_chunk_buf g) = 1400"
    "\<And>d w. snd (no_send ops d w) = 0"
  shows "\<exists>g'. capture_loop ops fb [i..<n_chunks q] off g w =
      Some (g', fold (\<lambda>k. fst \<circ> no_send ops (frame TRANSPORT_TYPE_DATA (local_seq (session (s_transport g)) + of_nat (k - i))
        (chunk q fb (frame_id g) k))) [i..<n_chunks q] w, True) \<and>
      frame_id g' = frame_id g \<and> stream_passthrough g' = stream_passthrough g"
  using assms
proof (induction "n_chunks q - i" arbitrary: i off g w)
  case (Suc m)
  then have lt: "i < n_chunks q" and off: "off = 1392 * i" and m: "m = n_chunks q - Suc i" by auto
  let ?t = "s_transport g" and ?c = "chunk q fb (frame_id g) i"
  define m' where "m' = (if 1392 * i + 1392 > total_bytes q then total_bytes q - 1392 * i else 1392)"
  note c = chunk_props(1,2) [OF lt, where fid = "frame_id g" and fb = fb] chunk_props(3-5) [OF lt]
  note cp = c [folded m'_def]
  let ?buf = "?c @ drop (length ?c) (frame_chunk_buf g)"
  have len: "unat (of_nat (8 + m') :: u16) = 8 + m'" using cp(3) by (simp add: unat_of_nat del: of_nat_add)
  obtain t' where t': "transport_send ops TRANSPORT_TYPE_DATA (Some ?c) (of_nat (length ?c)) ?t w =
      Some (t', fst (no_send ops (frame TRANSPORT_TYPE_DATA (local_seq (session ?t)) ?c) w), int (length ?c))"
      "transport_wf t'" "t_initialized t'" "local_seq (session t') = local_seq (session ?t) + 1"
  proof -
    have "length ?c \<le> 1400" unfolding cp(2) using cp(3) by linarith
    moreover obtain w1 rc where "no_send ops (frame TRANSPORT_TYPE_DATA (local_seq (session ?t)) ?c) w = (w1, rc)"
      by (cases "no_send ops (frame TRANSPORT_TYPE_DATA (local_seq (session ?t)) ?c) w")
    moreover from this have "rc = 0" using Suc.prems(7) by (metis snd_conv)
    ultimately show ?thesis using send_frame [OF Suc.prems(5,4)] that by fastforce
  qed
  have "transport_send ops TRANSPORT_TYPE_DATA (Some ?buf) (of_nat (8 + m')) ?t w =
      transport_send ops TRANSPORT_TYPE_DATA (Some ?c) (of_nat (length ?c)) ?t w"
  proof -
    have "take (8 + m') ?buf = ?c" "8 + m' \<le> length ?buf" using cp(2) by simp_all
    then show ?thesis using send_prefix [of "of_nat (8 + m')" ?buf ops] unfolding len cp(2) by metis
  qed
  then have step: "capture_loop ops fb (i # [Suc i..<n_chunks q]) off g w =
      capture_loop ops fb [Suc i..<n_chunks q] (off + m') (g\<lparr>frame_chunk_buf := ?buf, s_transport := t'\<rparr>)
        (fst (no_send ops (frame TRANSPORT_TYPE_DATA (local_seq (session ?t)) ?c) w))"
  proof -
    have e: "(if off + FRAME_CHUNK_PAYLOAD > total_bytes q then total_bytes q - off else FRAME_CHUNK_PAYLOAD) = m'"
      "FRAME_CHUNK_HEADER = 8" by (simp_all add: m'_def frame_consts off)
    show ?thesis
      unfolding capture_loop.simps Let_def Suc.prems(3) e cp(1) [folded off]
      using t'(1) \<open>transport_send ops TRANSPORT_TYPE_DATA (Some ?buf) _ _ _ = _\<close> by (simp del: of_nat_add)
  qed
  have nx: "Suc i \<le> n_chunks q" "Suc i < n_chunks q \<longrightarrow> off + m' = 1392 * Suc i" using lt cp(5) off by auto
  let ?g = "g\<lparr>frame_chunk_buf := ?buf, s_transport := t'\<rparr>"
  let ?w = "fst (no_send ops (frame TRANSPORT_TYPE_DATA (local_seq (session ?t)) ?c) w)"
  have buf: "length (frame_chunk_buf ?g) = 1400"
  proof -
    have "length ?c \<le> 1400" unfolding cp(2) using cp(3) by linarith
    then show ?thesis using Suc.prems(6) by simp
  qed
  from Suc.hyps(1) [OF m nx, of ?g ?w] Suc.prems(3,7) t'(2,3) buf
  obtain g' where g': "capture_loop ops fb [Suc i..<n_chunks q] (off + m') ?g ?w =
      Some (g', fold (\<lambda>k. fst \<circ> no_send ops (frame TRANSPORT_TYPE_DATA (local_seq (session t') + of_nat (k - Suc i))
        (chunk q fb (frame_id g) k))) [Suc i..<n_chunks q] ?w, True)"
      "frame_id g' = frame_id g" "stream_passthrough g' = stream_passthrough g" by auto
  have "fold (\<lambda>k. fst \<circ> no_send ops (frame TRANSPORT_TYPE_DATA (local_seq (session t') + of_nat (k - Suc i))
        (chunk q fb (frame_id g) k))) [Suc i..<n_chunks q] ?w =
      fold (\<lambda>k. fst \<circ> no_send ops (frame TRANSPORT_TYPE_DATA (local_seq (session ?t) + of_nat (k - i))
        (chunk q fb (frame_id g) k))) [Suc i..<n_chunks q] ?w"
  proof (rule fold_cong)
    fix k assume "k \<in> set [Suc i..<n_chunks q]"
    then have "k - i = Suc (k - Suc i)" by auto
    then have "local_seq (session t') + of_nat (k - Suc i) = local_seq (session ?t) + of_nat (k - i)" by (simp add: t'(4))
    then show "fst \<circ> no_send ops (frame TRANSPORT_TYPE_DATA (local_seq (session t') + of_nat (k - Suc i)) (chunk q fb (frame_id g) k)) =
      fst \<circ> no_send ops (frame TRANSPORT_TYPE_DATA (local_seq (session ?t) + of_nat (k - i)) (chunk q fb (frame_id g) k))"
      by (simp only:)
  qed simp_all
  then show ?case using step g' by (simp add: upt_conv_Cons [OF lt])
qed simp

text \<open>
  What is to arrive, written without the definitions of the code: the picture row by
  row, at quality 0 every second pixel of every second row of the screen of 320 times 200; and its packets,
  each with the frame number in four bytes, its index and the number of packets in two
  bytes each, the least significant byte first, and up to 1392 bytes of the picture.
\<close>

definition picture :: "int \<Rightarrow> framebuffer \<Rightarrow> u8 list" where
  "picture q fb =
     (if q = 0 then concat (map (\<lambda>row. map (\<lambda>col. fb ! (320 * (2 * row) + 2 * col)) [0..<160]) [0..<100])
      else concat (map (\<lambda>row. map (\<lambda>col. fb ! (320 * row + col)) [0..<320]) [0..<200]))"

fun le_bytes :: "nat \<Rightarrow> nat \<Rightarrow> u8 list" where
  "le_bytes 0 v = []"
| "le_bytes (Suc n) v = of_nat (v mod 256) # le_bytes n (v div 256)"

definition packets_of :: "int \<Rightarrow> nat" where
  "packets_of q = (if q = 0 then 12 else 46)"

definition picture_packet :: "int \<Rightarrow> framebuffer \<Rightarrow> u32 \<Rightarrow> nat \<Rightarrow> u8 list" where
  "picture_packet q fb fid k =
     le_bytes 4 (unat fid) @ le_bytes 2 k @ le_bytes 2 (packets_of q) @ take 1392 (drop (1392 * k) (picture q fb))"

lemma rows_flat:
  "0 < w \<Longrightarrow> concat (map (\<lambda>r. map (f r) [0..<w]) [0..<h]) = map (\<lambda>i. f (i div w) (i mod w)) [0..<h * w]"
proof (induction h)
  case (Suc h)
  have "map (\<lambda>i. f (i div w) (i mod w)) [h * w..<h * w + w] = map (f h) [0..<w]"
  proof (rule nth_equalityI)
    fix k assume "k < length (map (\<lambda>i. f (i div w) (i mod w)) [h * w..<h * w + w])"
    then have "k < w" by simp
    then show "map (\<lambda>i. f (i div w) (i mod w)) [h * w..<h * w + w] ! k = map (f h) [0..<w] ! k" by simp
  qed simp
  moreover have "[0..<Suc h * w] = [0..<h * w] @ [h * w..<h * w + w]"
    using upt_add_eq_append [of 0 "h * w" w] by (simp add: add.commute)
  ultimately show ?case using Suc by simp
qed simp

lemma screen_size: "unat VIDEO_WIDTH = 320" "unat VIDEO_HEIGHT = 200" "VIDEO_BPP = 1" "QUALITY_LOW = 0"
  by (simp_all add: VIDEO_WIDTH_def VIDEO_HEIGHT_def VIDEO_BPP_def QUALITY_LOW_def)

lemma picture_size: "effective_width q = (if q = 0 then 160 else 320)" "total_bytes q = (if q = 0 then 16000 else 64000)"
  by (simp_all add: total_bytes_def effective_width_def effective_height_def screen_size)

lemma n_chunks_packets: "n_chunks q = packets_of q"
  by (simp add: n_chunks_def picture_size packets_of_def frame_consts)

lemma image_picture: "image q fb = picture q fb"
proof (cases "q = 0")
  case True
  have "source_pos q i = 320 * (2 * (i div 160)) + 2 * (i mod 160)" for i
    using True by (simp add: source_pos_def picture_size screen_size Let_def)
  then show ?thesis
    using True rows_flat [of 160 "\<lambda>row col. fb ! (320 * (2 * row) + 2 * col)" 100] by (simp add: image_def picture_def picture_size)
next
  case False
  have "source_pos q i = 320 * (i div 320) + i mod 320" for i
    using False by (simp add: source_pos_def screen_size)
  then show ?thesis using False rows_flat [of 320 "\<lambda>row col. fb ! (320 * row + col)" 200] by (simp add: image_def picture_def picture_size)
qed

lemma byte_value: "(ucast (drop_bit i fid AND 0xFF) :: u8) = of_nat (unat fid div 2 ^ i mod 256)" for fid :: u32
proof -
  have m: "(0xFF :: u32) = mask 8" by (simp add: mask_eq_exp_minus_1)
  have "(ucast (drop_bit i fid AND 0xFF) :: u8) = ucast (drop_bit i fid)"
    unfolding m by (rule bit_word_eqI) (auto simp: bit_simps)
  also have "\<dots> = of_nat (unat (drop_bit i fid))" by (simp only: of_nat_unat)
  also have "\<dots> = of_nat (unat fid div 2 ^ i)" by (subst unat_drop_bit_eq) (simp only: drop_bit_eq_div)
  also have "\<dots> = of_nat (unat fid div 2 ^ i mod 256)"
    by (simp add: word_unat_eq_iff unat_of_nat)
  finally show ?thesis .
qed

lemma header_bytes: "chunk_header fid k n = le_bytes 4 (unat fid) @ le_bytes 2 k @ le_bytes 2 n"
proof -
  have le: "le_bytes 2 v = [of_nat (v mod 256), of_nat (v div 256 mod 256)]"
    "le_bytes 4 v = [of_nat (v mod 256), of_nat (v div 256 mod 256), of_nat (v div 65536 mod 256), of_nat (v div 16777216 mod 256)]" for v
  proof -
    have n: "(2 :: nat) = Suc (Suc 0)" "(4 :: nat) = Suc (Suc (Suc (Suc 0)))" by simp_all
    show "le_bytes 2 v = [of_nat (v mod 256), of_nat (v div 256 mod 256)]"
      "le_bytes 4 v = [of_nat (v mod 256), of_nat (v div 256 mod 256), of_nat (v div 65536 mod 256), of_nat (v div 16777216 mod 256)]"
      unfolding n by (simp_all only: le_bytes.simps div_mult2_eq [symmetric]) simp_all
  qed
  show ?thesis
    unfolding chunk_header_def le
    using byte_value [of 0 fid] byte_value [of 8 fid] byte_value [of 16 fid] byte_value [of 24 fid] by simp
qed

lemma chunk_packet: "chunk q fb fid k = picture_packet q fb fid k"
  by (simp add: chunk_def picture_packet_def header_bytes n_chunks_packets image_picture frame_consts)

text \<open>
  C31: On a device that accepts every packet, with an initialised transport and pass-through off,
  streaming_capture_and_send reports success after handing over 12 packets at quality 0 and 46 at
  the others, in order and under consecutive sequence
  numbers; each carries the frame number, its own index and the number of packets, all as
  little-endian bytes, and its part of the picture, and the parts put together are the
  whole picture, which at quality 0 is every second pixel of every second row of the screen.
\<close>

theorem capture_sends_frame:
  assumes "streaming_initialized g" "streaming_running g" "\<not> stream_passthrough g" "stream_quality g = q"
    "transport_wf (s_transport g)" "t_initialized (s_transport g)" "length (frame_chunk_buf g) = 1400"
    "\<And>d w. snd (no_send ops d w) = 0"
  shows "(\<exists>g'. streaming_capture_and_send ops fb g w =
      Some (g', fold (\<lambda>k. fst \<circ> no_send ops (frame TRANSPORT_TYPE_DATA (local_seq (session (s_transport g)) + of_nat k)
        (picture_packet q fb (frame_id g) k))) [0..<packets_of q] w, 0) \<and> frame_id g' = frame_id g + 1) \<and>
    concat (map (\<lambda>k. drop 8 (picture_packet q fb (frame_id g) k)) [0..<packets_of q]) = picture q fb"
proof
  obtain g' where "capture_loop ops fb [0..<n_chunks q] 0 g w =
      Some (g', fold (\<lambda>k. fst \<circ> no_send ops (frame TRANSPORT_TYPE_DATA (local_seq (session (s_transport g)) + of_nat k)
        (chunk q fb (frame_id g) k))) [0..<n_chunks q] w, True)"
    "frame_id g' = frame_id g" "stream_passthrough g' = stream_passthrough g"
    using capture_loop_sends [of 0 q 0 g ops fb w] assms by auto
  then show "\<exists>g'. streaming_capture_and_send ops fb g w =
      Some (g', fold (\<lambda>k. fst \<circ> no_send ops (frame TRANSPORT_TYPE_DATA (local_seq (session (s_transport g)) + of_nat k)
        (picture_packet q fb (frame_id g) k))) [0..<packets_of q] w, 0) \<and> frame_id g' = frame_id g + 1"
    unfolding chunk_packet [symmetric] n_chunks_packets [symmetric]
    using assms(1-4) by (simp add: streaming_capture_and_send_def Let_def)
  have "drop 8 (chunk q fb (frame_id g) k) = take 1392 (drop (1392 * k) (image q fb))" for k
    by (simp add: chunk_def chunk_header_def frame_consts)
  moreover have "length (image q fb) \<le> 1392 * n_chunks q"
  proof -
    have "n_chunks q = (total_bytes q + 1391) div 1392" by (simp add: n_chunks_def frame_consts)
    then show ?thesis by (simp add: image_def)
  qed
  ultimately show "concat (map (\<lambda>k. drop 8 (picture_packet q fb (frame_id g) k)) [0..<packets_of q]) = picture q fb"
    unfolding chunk_packet [symmetric] n_chunks_packets [symmetric] image_picture [symmetric]
    by (simp add: concat_chunks)
qed

definition streaming_zero :: streaming where
  "streaming_zero =
     \<lparr>streaming_initialized = False, streaming_running = False, stream_quality = 0, stream_passthrough = False,
      frame_id = 0, frame_chunk_buf = replicate TRANSPORT_MAX_PAYLOAD 0, s_transport = transport_zero\<rparr>"

theorem capture_witness:
  "\<exists>g'. streaming_capture_and_send feed_ops (replicate 64000 7)
      (fst (streaming_start (streaming_set_quality 0 (streaming_init streaming_zero)))) (0, []) = Some (g', (0, []), 0)"
proof -
  let ?g = "fst (streaming_start (streaming_set_quality 0 (streaming_init streaming_zero)))"
  have t: "s_transport ?g = transport_init transport_zero"
    by (simp add: streaming_start_def streaming_set_quality_def streaming_init_def streaming_zero_def QUALITY_LOW_def QUALITY_HIGH_def)
  have g: "streaming_initialized ?g" "streaming_running ?g" "\<not> stream_passthrough ?g" "stream_quality ?g = 0"
    "transport_wf (s_transport ?g)" "t_initialized (s_transport ?g)" "length (frame_chunk_buf ?g) = 1400"
    unfolding t using init_ok(1,2)
    by (simp_all add: streaming_start_def streaming_set_quality_def streaming_init_def streaming_zero_def
        QUALITY_LOW_def QUALITY_HIGH_def TRANSPORT_MAX_PAYLOAD_def)
  have o: "snd (no_send feed_ops d w) = 0" "fst (no_send feed_ops d w) = w" for d w by (simp_all add: feed_ops_def)
  have "fold (\<lambda>k. fst \<circ> no_send feed_ops (f k)) ks w = w" for f ks w by (induction ks) (simp_all add: o(2))
  then show ?thesis using capture_sends_frame [OF g, of feed_ops "replicate 64000 7" "(0, [])"] o(1) by auto
qed

section \<open>Waiting ends, the synchronous calls do not\<close>

text \<open>What one poll does to a request of a pipeline that writes.\<close>

definition stepped :: "stream_request \<Rightarrow> stream_request \<Rightarrow> bool" where
  "stepped r r' \<longleftrightarrow>
     (if sr_done r then r' = r
      else if sr_length r \<le> 4096 then sr_done r' \<and> sr_error r' = 0 \<and> sr_length r' = sr_length r
      else \<not> sr_done r' \<and> sr_error r' = sr_error r \<and> unat (sr_length r') = unat (sr_length r) - 4096 \<and>
        sr_buffer r' = map_option (\<lambda>a. a + 4096) (sr_buffer r))"

definition in_memory :: "u8 list \<Rightarrow> stream_request \<Rightarrow> bool" where
  "in_memory mem r \<longleftrightarrow> (\<exists>a. sr_buffer r = Some a \<and> a + unat (sr_length r) \<le> length mem)"

definition pipeline_ok :: "u8 list \<Rightarrow> stream_pipeline \<Rightarrow> bool" where
  "pipeline_ok mem s \<longleftrightarrow> sp_for_write s \<and> sp_tail s \<le> length (sp_queue s) \<and>
     (\<forall>i < sp_tail s. sr_done (sp_queue s ! i) \<or> in_memory mem (sp_queue s ! i))"

lemma stepped_in_memory: "stepped r r' \<Longrightarrow> sr_done r \<or> in_memory mem r \<Longrightarrow> sr_done r' \<or> in_memory mem r'"
  by (auto simp: stepped_def in_memory_def word_le_nat_alt split: if_splits)

text \<open>One iteration of the loop of the synchronous calls.\<close>

definition sync_step ::
  "'s file_ops \<Rightarrow> stream_pipeline \<Rightarrow> stream_request \<times> u8 list \<times> 's \<Rightarrow> (stream_request \<times> u8 list \<times> 's) option" where
  "sync_step ops s x = (case x of (r, mem, st) \<Rightarrow>
     map_option (\<lambda>(r1, mem1, st1, b). (r1, mem1, st1)) (advance_chunk ops s r mem st))"

definition never_ends :: "u8 list \<Rightarrow> stream_request \<Rightarrow> bool" where
  "never_ends mem r \<longleftrightarrow> in_memory mem r \<and> sr_length r > 0 \<and> sr_error r = 0"

context file_store begin

lemma advance_write:
  assumes "good st" "4096 \<le> cap" "sp_for_write s" "in_memory mem r"
  shows "\<exists>r' st' b. advance_chunk ops s r mem st = Some (r', mem, st', b) \<and> good st' \<and> (\<not> sr_done r \<longrightarrow> stepped r r') \<and>
    (never_ends mem r \<longrightarrow> never_ends mem r')"
proof -
  obtain a where a: "sr_buffer r = Some a" "a + unat (sr_length r) \<le> length mem" using assms(4) by (auto simp: in_memory_def)
  have tr: "\<exists>st'. transfer ops s (Some a) n mem st = Some (mem, st') \<and> good st'"
    if "unat n \<le> 4096" "unat n \<le> unat (sr_length r)" for n
  proof -
    have "length (take (unat n) (drop a mem)) = unat n" "a + unat n \<le> length mem" using that a(2) by simp_all
    then show ?thesis
      using write_returns [OF assms(1), of "take (unat n) (drop a mem)" n "sp_path s"] that(1) assms(2,3)
      by (auto simp: transfer_def)
  qed
  show ?thesis
  proof (cases "sr_length r \<le> 4096")
    case True
    then show ?thesis using tr [of "sr_length r"] a
      by (auto simp: advance_chunk_def STREAMING_CHUNK_SIZE_def stepped_def never_ends_def in_memory_def word_le_nat_alt)
  next
    case False
    then have l: "unat (sr_length r - 4096) = unat (sr_length r) - 4096" "4096 < unat (sr_length r)"
      by (simp_all add: unat_sub_if' word_le_nat_alt)
    then have "sr_length r - 4096 > 0" by (simp add: word_less_nat_alt)
    then show ?thesis using tr [of 4096] a False l
      by (auto simp: advance_chunk_def STREAMING_CHUNK_SIZE_def stepped_def never_ends_def in_memory_def)
  qed
qed

lemma poll_steps:
  assumes "good st" "4096 \<le> cap" "pipeline_ok mem s" "k \<le> sp_tail s"
  shows "\<exists>q st' b. each (poll_one ops) [0..<k] (s, mem, st, False) = Some (s\<lparr>sp_queue := q\<rparr>, mem, st', b) \<and> good st' \<and>
    length q = length (sp_queue s) \<and> (\<forall>i<k. stepped (sp_queue s ! i) (q ! i)) \<and> (\<forall>i\<ge>k. q ! i = sp_queue s ! i)"
  using assms(4)
proof (induction k)
  case 0
  show ?case using assms(1) by (intro exI [of _ "sp_queue s"] exI [of _ st] exI [of _ False]) simp
next
  case (Suc k)
  then obtain q st1 b where q: "each (poll_one ops) [0..<k] (s, mem, st, False) = Some (s\<lparr>sp_queue := q\<rparr>, mem, st1, b)" "good st1"
    "length q = length (sp_queue s)" "\<forall>i<k. stepped (sp_queue s ! i) (q ! i)" "\<forall>i\<ge>k. q ! i = sp_queue s ! i" by auto
  have k: "k < length q" "q ! k = sp_queue s ! k" "sp_for_write (s\<lparr>sp_queue := q\<rparr>)"
    "sr_done (q ! k) \<or> in_memory mem (q ! k)"
    using Suc.prems assms(3) q(3,5) by (auto simp: pipeline_ok_def)
  have app: "each (poll_one ops) [0..<Suc k] (s, mem, st, False) = poll_one ops k (s\<lparr>sp_queue := q\<rparr>, mem, st1, b)"
    by (simp add: each_append q(1) split: option.splits)
  show ?case
  proof (cases "sr_done (q ! k)")
    case True
    then have "stepped (sp_queue s ! k) (q ! k)" using k(2) by (simp add: stepped_def)
    moreover have "poll_one ops k (s\<lparr>sp_queue := q\<rparr>, mem, st1, b) = Some (s\<lparr>sp_queue := q\<rparr>, mem, st1, b)"
      using True by (simp add: poll_one_def)
    ultimately show ?thesis unfolding app using q
      by (intro exI [of _ q] exI [of _ st1] exI [of _ b]) (auto simp: less_Suc_eq)
  next
    case False
    obtain r' st2 b' where r: "advance_chunk ops (s\<lparr>sp_queue := q\<rparr>) (q ! k) mem st1 = Some (r', mem, st2, b')" "good st2" "stepped (q ! k) r'"
      using advance_write [OF q(2) assms(2) k(3), of mem "q ! k"] k(4) False by blast
    have "poll_one ops k (s\<lparr>sp_queue := q\<rparr>, mem, st1, b) = Some (s\<lparr>sp_queue := q[k := r']\<rparr>, mem, st2, b \<or> b')"
      using False r(1) by (simp add: poll_one_def)
    then show ?thesis unfolding app using q k(1,2) r(2,3)
      by (intro exI [of _ "q[k := r']"] exI [of _ st2] exI [of _ "b \<or> b'"])
        (auto simp: less_Suc_eq nth_list_update)
  qed
qed

lemma wait_returns:
  assumes "good st" "4096 \<le> cap" "pipeline_ok mem s" "i < sp_tail s"
  shows "\<exists>s' st'. stream_wait ops i s mem st = Some (s', mem, st') \<and> sr_done (sp_queue s' ! i)"
  using assms(1,3,4)
proof (induction "unat (sr_length (sp_queue s ! i))" arbitrary: s st rule: less_induct)
  case (less s st)
  show ?case
  proof (cases "sr_done (sp_queue s ! i)")
    case True
    then show ?thesis by (subst stream_wait.simps) simp
  next
    case not_done: False
    obtain q st1 b where q: "stream_poll ops s mem st = Some (s\<lparr>sp_queue := q\<rparr>, mem, st1, b)" "good st1"
      "length q = length (sp_queue s)" "\<forall>j < sp_tail s. stepped (sp_queue s ! j) (q ! j)"
      using poll_steps [OF less.prems(1) assms(2) less.prems(2) order_refl] by (auto simp: stream_poll_def)
    let ?s = "s\<lparr>sp_queue := q\<rparr>"
    have step: "stream_wait ops i s mem st = stream_wait ops i ?s mem st1"
      using not_done by (subst stream_wait.simps) (simp add: q(1))
    have ok: "pipeline_ok mem ?s"
      using less.prems(2) q(3,4) stepped_in_memory [of _ _ mem] unfolding pipeline_ok_def by auto
    have sd: "stepped (sp_queue s ! i) (q ! i)" using q(4) less.prems(3) by blast
    show ?thesis
    proof (cases "sr_length (sp_queue s ! i) \<le> 4096")
      case True
      then have "sr_done (q ! i)" using sd not_done by (simp add: stepped_def)
      then show ?thesis unfolding step by (subst stream_wait.simps) simp
    next
      case False
      then have "unat (sr_length (q ! i)) < unat (sr_length (sp_queue s ! i))"
        using sd not_done False by (auto simp: stepped_def word_le_nat_alt)
      then show ?thesis unfolding step using less.hyps [of ?s st1] ok q(2) less.prems(3) by simp
    qed
  qed
qed

lemma sync_steps_run:
  assumes "good st" "4096 \<le> cap" "sp_for_write s" "never_ends mem r"
  shows "\<exists>r' st'. each (\<lambda>_. sync_step ops s) (replicate n ()) (r, mem, st) = Some (r', mem, st') \<and> never_ends mem r'"
  using assms(1,4)
proof (induction n arbitrary: r st)
  case (Suc n)
  obtain r' st' b where "advance_chunk ops s r mem st = Some (r', mem, st', b)" "good st'" "never_ends mem r'"
    using advance_write [OF Suc.prems(1) assms(2,3)] Suc.prems(2) unfolding never_ends_def by blast
  then show ?case using Suc.IH by (simp add: sync_step_def)
qed simp

lemma sync_loop_diverges:
  assumes "good st" "4096 \<le> cap" "sp_for_write s" "never_ends mem (sp_queue s ! 0)" "sp_queue s \<noteq> []"
  shows "sync_loop ops s mem st = None"
proof (rule ccontr)
  assume "sync_loop ops s mem st \<noteq> None"
  then obtain x where x: "sync_loop ops s mem st = Some x" by blast
  have "ops' = ops \<longrightarrow> \<not> (good st \<and> sp_for_write s \<and> never_ends mem (sp_queue s ! 0) \<and> sp_queue s \<noteq> [])"
    if "sync_loop ops' s mem st = Some x" for ops' s mem st x
  proof (rule sync_loop.raw_induct [where
      P = "\<lambda>ops' s mem st x. ops' = ops \<longrightarrow> \<not> (good st \<and> sp_for_write s \<and> never_ends mem (sp_queue s ! 0) \<and> sp_queue s \<noteq> [])", OF _ that])
    fix f :: "'s file_ops \<Rightarrow> stream_pipeline \<Rightarrow> u8 list \<Rightarrow> 's \<Rightarrow> (stream_pipeline \<times> u8 list \<times> 's) option" and ops' s mem st x
    assume IH: "\<And>ops' s mem st x. f ops' s mem st = Some x \<Longrightarrow>
        ops' = ops \<longrightarrow> \<not> (good st \<and> sp_for_write s \<and> never_ends mem (sp_queue s ! 0) \<and> sp_queue s \<noteq> [])"
      and run: "(let r = sp_queue s ! 0 in
         if sr_length r > 0 \<and> sr_error r = 0 then
           Option.bind (advance_chunk ops' s r mem st)
             (\<lambda>(r1, mem1, st1, b). f ops' (s\<lparr>sp_queue := (sp_queue s)[0 := r1]\<rparr>) mem1 st1)
         else Some (s, mem, st)) = Some x"
    show "ops' = ops \<longrightarrow> \<not> (good st \<and> sp_for_write s \<and> never_ends mem (sp_queue s ! 0) \<and> sp_queue s \<noteq> [])"
    proof (intro impI notI, elim conjE)
      assume i: "ops' = ops" "good st" "sp_for_write s" "never_ends mem (sp_queue s ! 0)" "sp_queue s \<noteq> []"
      then have "in_memory mem (sp_queue s ! 0)" by (simp add: never_ends_def)
      then obtain r' st' b where r: "advance_chunk ops s (sp_queue s ! 0) mem st = Some (r', mem, st', b)" "good st'" "never_ends mem r'"
        using advance_write [OF i(2) assms(2) i(3)] i(4) by blast
      then have "f ops (s\<lparr>sp_queue := (sp_queue s)[0 := r']\<rparr>) mem st' = Some x"
        using run i(1,4) by (simp add: never_ends_def Let_def)
      from IH [OF this] show False using r(2,3) i(3,5) by (cases "sp_queue s") auto
    qed
  qed
  with x assms show False by blast
qed

end

text \<open>
  C32: Waiting for a queued write ends. On the x86 file system, for every pipeline opened
  for writing whose pending requests lie in the client's memory, stream_wait returns
  after finitely many polls with the request marked as done; lengths beyond one chunk
  only take more polls.
\<close>

theorem stream_wait_returns:
  assumes "x86_good st" "pipeline_ok mem s" "i < sp_tail s"
  shows "\<exists>s' st'. stream_wait x86_ops i s mem st = Some (s', mem, st') \<and> sr_done (sp_queue s' ! i)"
  by (rule x86.wait_returns [OF assms(1) _ assms(2,3)]) simp

text \<open>
  C33: The synchronous write never returns. A last chunk marks the request as done but
  leaves its length, which is what the loop of stream_write_sync tests: for a request
  of any positive length every iteration runs without a fault and the condition of the
  loop still holds after any number of them.
\<close>

theorem stream_write_sync_diverges:
  assumes "x86_good st" "sp_for_write s" "sp_queue s \<noteq> []" "a + unat len \<le> length mem" "len \<noteq> 0"
  shows "stream_write_sync x86_ops off len (Some a) s mem st = None \<and>
    (\<exists>r' st'. each (\<lambda>_. sync_step x86_ops s) (replicate n ()) (request STREAM_OP_WRITE off len a, mem, st) = Some (r', mem, st') \<and>
       sr_length r' > 0 \<and> sr_error r' = 0)"
proof
  have r: "never_ends mem (request STREAM_OP_WRITE off len a)"
    using assms(4,5) by (simp add: never_ends_def in_memory_def request_def word_neq_0_conv)
  let ?s = "s\<lparr>sp_queue := (sp_queue s)[0 := request STREAM_OP_WRITE off len a]\<rparr>"
  have q: "never_ends mem (sp_queue ?s ! 0)" "sp_queue ?s \<noteq> []" "sp_for_write ?s"
    using r assms(2,3) by (cases "sp_queue s"; simp)+
  have "sync_loop x86_ops ?s mem st = None" by (rule x86.sync_loop_diverges [OF assms(1) _ q(3,1,2)]) simp
  then show "stream_write_sync x86_ops off len (Some a) s mem st = None"
    by (simp add: stream_write_sync_def stream_sync_def)
  show "\<exists>r' st'. each (\<lambda>_. sync_step x86_ops s) (replicate n ()) (request STREAM_OP_WRITE off len a, mem, st) = Some (r', mem, st') \<and>
       sr_length r' > 0 \<and> sr_error r' = 0"
    using x86.sync_steps_run [OF assms(1) _ assms(2) r, of n] by (auto simp: never_ends_def)
qed

definition log_pipeline :: stream_pipeline where
  "log_pipeline = \<lparr>sp_path = ''LOG'', sp_for_write = True,
     sp_queue = replicate 8 ((request STREAM_OP_WRITE 0 0 0)\<lparr>sr_done := True\<rparr>), sp_head = 0, sp_tail = 0, sp_active_buf = 0\<rparr>"

theorem stream_wait_witness:
  "\<exists>s' st'. stream_wait x86_ops 0 (fst (stream_write_async 0 5000 (Some 0) log_pipeline)) (replicate 5000 1)
     (ram_io, chain_fs, \<lambda>_. []) = Some (s', replicate 5000 1, st') \<and> sr_done (sp_queue s' ! 0)"
proof (rule stream_wait_returns)
  show "x86_good (ram_io, chain_fs, \<lambda>_. [])" by (rule chain_good)
  show "pipeline_ok (replicate 5000 1) (fst (stream_write_async 0 5000 (Some 0) log_pipeline))"
    by (simp add: pipeline_ok_def stream_write_async_def enqueue_def log_pipeline_def STREAMING_QUEUE_DEPTH_def in_memory_def request_def)
  show "0 < sp_tail (fst (stream_write_async 0 5000 (Some 0) log_pipeline))"
    by (simp add: stream_write_async_def enqueue_def log_pipeline_def STREAMING_QUEUE_DEPTH_def)
qed

theorem stream_write_sync_witness:
  "stream_write_sync x86_ops 0 10 (Some 0) log_pipeline (replicate 10 1) (ram_io, chain_fs, \<lambda>_. []) = None"
proof -
  have "sp_for_write log_pipeline" "sp_queue log_pipeline \<noteq> []" "0 + unat (10 :: u32) \<le> length (replicate 10 (1 :: u8))"
    by (simp_all add: log_pipeline_def)
  from stream_write_sync_diverges [OF chain_good this, of 0 n for n] show ?thesis by simp
qed

end
