(* ===== verification/Devices.thy ===== *)
theory Devices
  imports Console Video Net
begin

text \<open>
  Input devices and their mapping: \<^verbatim>\<open>src/bluetooth.c\<close> and \<^verbatim>\<open>src/bt_dongle.c\<close>,
  \<^verbatim>\<open>src/controller_remap.c\<close>, the virtual controller of \<^verbatim>\<open>src/network_controller.c\<close> and
  the keyboard behind the controller interface (\<^verbatim>\<open>platform/x86/hal_input.c\<close>,
  \<^verbatim>\<open>platform/x86/io_syscalls.c\<close>, the scancode tables of \<^verbatim>\<open>keyboard.asm\<close>). The two
  tables of named profiles obey one contract, the locale \<open>name_table\<close>.
\<close>

unbundle bit_operations_syntax

section \<open>bluetooth.c\<close>

definition BT_ADDR_STR_MAX :: nat where "BT_ADDR_STR_MAX = 18"
definition BT_DEVICE_MAX :: nat where "BT_DEVICE_MAX = 6"
definition BT_PROFILE_NAME_MAX :: nat where "BT_PROFILE_NAME_MAX = 24"
definition BT_LOGICAL_BUTTONS :: nat where "BT_LOGICAL_BUTTONS = 16"
definition BT_PROFILE_SLOTS :: nat where "BT_PROFILE_SLOTS = 4"

record bt_device =
  bd_addr :: string
  bd_paired :: bool
  bd_connected :: bool

record bt_profile =
  bp_name :: string
  bp_map :: "int list"

record bluetooth =
  bt_initialized :: bool
  controller_map :: "int list"
  bt_profiles :: "bt_profile list"
  bt_profile_count :: nat
  paired_devices :: "bt_device list"
  paired_count :: nat

definition bt_init :: "bluetooth \<Rightarrow> bluetooth" where
  "bt_init b =
     (if bt_initialized b then b
      else \<lparr>bt_initialized = True, controller_map = map int [0..<BT_LOGICAL_BUTTONS],
            bt_profiles = replicate BT_PROFILE_SLOTS \<lparr>bp_name = [], bp_map = replicate BT_LOGICAL_BUTTONS 0\<rparr>,
            bt_profile_count = 0,
            paired_devices = replicate BT_DEVICE_MAX \<lparr>bd_addr = [], bd_paired = False, bd_connected = False\<rparr>,
            paired_count = 0\<rparr>)"

text \<open>The dongle of \<^verbatim>\<open>bt_dongle.c\<close> is a stub that is always present; a scan only probes it.\<close>

datatype bt_dongle_result = BT_DONGLE_OK | BT_DONGLE_NO_DEVICE | BT_DONGLE_ERR_IO | BT_DONGLE_ERR_TIMEOUT

definition bt_dongle_probe :: "bool \<times> bt_dongle_result" where
  "bt_dongle_probe = (True, BT_DONGLE_OK)"

definition bt_dongle_init :: "bool \<times> bt_dongle_result" where
  "bt_dongle_init = bt_dongle_probe"

definition bt_dongle_send_cmd :: "bool \<Rightarrow> bt_dongle_result" where
  "bt_dongle_send_cmd dongle_present = (if dongle_present then BT_DONGLE_OK else BT_DONGLE_NO_DEVICE)"

definition bt_dongle_poll_hid :: "bool \<Rightarrow> int \<Rightarrow> u8 list" where
  "bt_dongle_poll_hid dongle_present max_len = (if \<not> dongle_present \<or> max_len < 6 then [] else replicate 6 0)"

definition bt_dongle_get_controller_state :: "u16 \<times> u8 \<times> u8 \<times> u8 \<times> u8" where
  "bt_dongle_get_controller_state = (0, 0, 0, 0, 0)"

definition bt_scan :: "bluetooth \<Rightarrow> int" where
  "bt_scan b = (if \<not> bt_initialized b then - 1 else (case bt_dongle_init of _ \<Rightarrow> 0))"

definition bt_pair :: "string option \<Rightarrow> bluetooth \<Rightarrow> bluetooth \<times> int" where
  "bt_pair addr b =
     (case addr of None \<Rightarrow> (b, - 1)
      | Some a \<Rightarrow>
          if \<not> bt_initialized b \<or> paired_count b \<ge> BT_DEVICE_MAX then (b, - 1)
          else (b\<lparr>paired_devices := (paired_devices b)[paired_count b :=
                   \<lparr>bd_addr = str_copy BT_ADDR_STR_MAX a, bd_paired = True, bd_connected = True\<rparr>],
                 paired_count := paired_count b + 1\<rparr>, 0))"

text \<open>Removing entry \<open>i\<close> moves the later entries of the first \<open>n\<close> down by one.\<close>

definition close_gap :: "nat \<Rightarrow> nat \<Rightarrow> 'a list \<Rightarrow> 'a list" where
  "close_gap i n xs = fold (\<lambda>k ys. ys[k := ys ! (k + 1)]) [i..<n - 1] xs"

definition bt_unpair :: "string option \<Rightarrow> bluetooth \<Rightarrow> bluetooth \<times> int" where
  "bt_unpair addr b =
     (case addr of None \<Rightarrow> (b, - 1)
      | Some a \<Rightarrow>
          if \<not> bt_initialized b then (b, - 1)
          else (case List.find (\<lambda>i. str_eq a (bd_addr (paired_devices b ! i))) [0..<paired_count b] of
                  None \<Rightarrow> (b, - 1)
                | Some i \<Rightarrow> (b\<lparr>paired_devices := close_gap i (paired_count b) (paired_devices b),
                               paired_count := paired_count b - 1\<rparr>, 0)))"

definition bt_list :: "int \<Rightarrow> bluetooth \<Rightarrow> bt_device list \<times> int" where
  "bt_list max_count b =
     (if \<not> bt_initialized b \<or> max_count \<le> 0 then ([], - 1)
      else (take (min (paired_count b) (nat max_count)) (paired_devices b), int (paired_count b)))"

definition controller_map_show :: "bluetooth \<Rightarrow> kout list \<times> int" where
  "controller_map_show b =
     (if \<not> bt_initialized b then ([], - 1)
      else ([Kprint ''  logical -> physical: ''] @
            concat (map (\<lambda>i. (if i > 0 then [Kprint '' ''] else []) @
                [Kprintf ''%d:%d'' [IntArg (of_nat i), IntArg (word_of_int (controller_map b ! i))]]) [0..<BT_LOGICAL_BUTTONS]) @
            [Kprint ''\<newline>''], 0))"

definition controller_map_set :: "int \<Rightarrow> int \<Rightarrow> bluetooth \<Rightarrow> bluetooth \<times> int" where
  "controller_map_set logical_button physical_source b =
     (if \<not> bt_initialized b \<or> logical_button < 0 \<or> logical_button \<ge> int BT_LOGICAL_BUTTONS then (b, - 1)
      else (b\<lparr>controller_map := (controller_map b)[nat logical_button := physical_source]\<rparr>, 0))"

definition bt_controller_profile_create :: "string option \<Rightarrow> bluetooth \<Rightarrow> bluetooth \<times> int" where
  "bt_controller_profile_create name b =
     (case name of None \<Rightarrow> (b, - 1)
      | Some n \<Rightarrow>
          if \<not> bt_initialized b \<or> bt_profile_count b \<ge> BT_PROFILE_SLOTS then (b, - 1)
          else (b\<lparr>bt_profiles := (bt_profiles b)[bt_profile_count b :=
                   \<lparr>bp_name = str_copy BT_PROFILE_NAME_MAX n, bp_map = controller_map b\<rparr>],
                 bt_profile_count := bt_profile_count b + 1\<rparr>, 0))"

definition bt_controller_profile_load :: "string option \<Rightarrow> bluetooth \<Rightarrow> bluetooth \<times> int" where
  "bt_controller_profile_load name b =
     (case name of None \<Rightarrow> (b, - 1)
      | Some n \<Rightarrow>
          if \<not> bt_initialized b then (b, - 1)
          else (case List.find (\<lambda>i. str_eq n (bp_name (bt_profiles b ! i))) [0..<bt_profile_count b] of
                  None \<Rightarrow> (b, - 1)
                | Some i \<Rightarrow> (b\<lparr>controller_map := bp_map (bt_profiles b ! i)\<rparr>, 0)))"

section \<open>controller\_remap.c\<close>

definition CTRL_PROFILE_NAME_LEN :: nat where "CTRL_PROFILE_NAME_LEN = 24"
definition CTRL_MAX_PROFILES :: nat where "CTRL_MAX_PROFILES = 8"
definition CTRL_MACRO_LEN :: nat where "CTRL_MACRO_LEN = 32"

record controller_profile =
  cp_name :: string
  button_remap :: "int list"
  sensitivity :: int
  deadzone :: int
  turbo_mask :: int
  macro_len :: u8
  macro_keys :: "u8 list"

record remap =
  rm_profiles :: "controller_profile list"
  rm_count :: nat
  rm_current :: controller_profile

definition default_profile :: "u8 list \<Rightarrow> controller_profile" where
  "default_profile keys =
     \<lparr>cp_name = [], button_remap = map int [0..<16], sensitivity = 128, deadzone = 32, turbo_mask = 0,
      macro_len = 0, macro_keys = keys\<rparr>"

text \<open>The macro keys are not reset.\<close>

definition controller_remap_init :: "remap \<Rightarrow> remap" where
  "controller_remap_init r =
     \<lparr>rm_profiles = map (\<lambda>p. default_profile (macro_keys p)) (rm_profiles r), rm_count = 0,
      rm_current = default_profile (macro_keys (rm_current r))\<rparr>"

definition controller_profile_save :: "string option \<Rightarrow> remap \<Rightarrow> remap \<times> int" where
  "controller_profile_save name r =
     (case name of None \<Rightarrow> (r, - 1)
      | Some n \<Rightarrow>
          if char_at n 0 = NUL then (r, - 1)
          else if rm_count r \<ge> CTRL_MAX_PROFILES then (r, - 2)
          else (r\<lparr>rm_profiles := (rm_profiles r)[rm_count r := (rm_current r)\<lparr>cp_name := str_copy CTRL_PROFILE_NAME_LEN n\<rparr>],
                 rm_count := rm_count r + 1\<rparr>, 0))"

definition controller_profile_load :: "string option \<Rightarrow> remap \<Rightarrow> remap \<times> int" where
  "controller_profile_load name r =
     (case name of None \<Rightarrow> (r, - 1)
      | Some n \<Rightarrow>
          if char_at n 0 = NUL then (r, - 1)
          else (case List.find (\<lambda>i. str_eq (cp_name (rm_profiles r ! i)) n) [0..<rm_count r] of
                  None \<Rightarrow> (r, - 2)
                | Some i \<Rightarrow> (r\<lparr>rm_current := (rm_profiles r ! i)\<lparr>cp_name := str_copy CTRL_PROFILE_NAME_LEN (cp_name (rm_profiles r ! i))\<rparr>\<rparr>, 0)))"

definition controller_profile_list :: "remap \<Rightarrow> kout list" where
  "controller_profile_list r =
     [Kprint ''\<newline>  '', KprintColor '' controller profiles '' 0x2A, KprintColor '' --------------------\<newline>'' 0x08] @
     (if rm_count r = 0 then [Kprint ''  (none) Save with: controller profile save <name>\<newline>'']
      else map (\<lambda>i. let p = rm_profiles r ! i in
             Kprintf ''  %d. %s (sens=%d dead=%d turbo=0x%X)\<newline>''
               [IntArg (of_nat (i + 1)), StrArg (cp_name p), IntArg (word_of_int (sensitivity p)),
                IntArg (word_of_int (deadzone p)), IntArg (word_of_int (turbo_mask p))]) [0..<rm_count r]) @
     [Kprint ''  ----------------------------------------\<newline>\<newline>'']"

definition controller_profile_apply :: "string option \<Rightarrow> remap \<Rightarrow> remap \<times> kout list \<times> int" where
  "controller_profile_apply name r =
     (case controller_profile_load name r of (r1, rc) \<Rightarrow>
        (r1, case name of Some n \<Rightarrow> if rc = 0 then [Kprintf ''  Profile '%s' applied.\<newline>'' [StrArg n]] else []
                        | None \<Rightarrow> [], rc))"

definition clamp255 :: "int \<Rightarrow> int" where
  "clamp255 v = (let v1 = (if v < 0 then 0 else v) in if v1 > 255 then 255 else v1)"

definition controller_set_sensitivity :: "int \<Rightarrow> remap \<Rightarrow> remap" where
  "controller_set_sensitivity v r = r\<lparr>rm_current := (rm_current r)\<lparr>sensitivity := clamp255 v\<rparr>\<rparr>"

definition controller_set_deadzone :: "int \<Rightarrow> remap \<Rightarrow> remap" where
  "controller_set_deadzone v r = r\<lparr>rm_current := (rm_current r)\<lparr>deadzone := clamp255 v\<rparr>\<rparr>"

definition controller_set_turbo :: "int \<Rightarrow> remap \<Rightarrow> remap" where
  "controller_set_turbo hex r = r\<lparr>rm_current := (rm_current r)\<lparr>turbo_mask := hex AND 0xFFFF\<rparr>\<rparr>"

definition controller_remap_print_current :: "remap \<Rightarrow> kout list" where
  "controller_remap_print_current r =
     (let c = rm_current r
      in [Kprint ''\<newline>  '', KprintColor '' controller '' 0x2A, KprintColor '' --------------------------------\<newline>'' 0x08,
          Kprintf ''  Profile:   %s\<newline>'' [StrArg (if char_at (cp_name c) 0 \<noteq> NUL then cp_name c else ''(default)'')],
          Kprintf ''  Sensitivity: %d  Deadzone: %d  Turbo: 0x%X\<newline>''
            [IntArg (word_of_int (sensitivity c)), IntArg (word_of_int (deadzone c)), IntArg (word_of_int (turbo_mask c))],
          Kprint ''  ----------------------------------------\<newline>\<newline>''])"

section \<open>network\_controller.c\<close>

definition NETCTRL_MAGIC :: u32 where "NETCTRL_MAGIC = 0x43543250"

record net_controller =
  nc_running :: bool
  last_buttons :: u16
  last_axes :: "u8 list"

definition network_controller_start :: "net_controller \<Rightarrow> net_controller" where
  "network_controller_start c = c\<lparr>nc_running := True\<rparr>"

definition network_controller_stop :: "net_controller \<Rightarrow> net_controller" where
  "network_controller_stop c = c\<lparr>nc_running := False\<rparr>"

definition network_controller_get_state :: "net_controller \<Rightarrow> u16 \<times> u8 list" where
  "network_controller_get_state c = (last_buttons c, last_axes c)"

text \<open>The packet has 12 bytes: magic, buttons, the four axes and two triggers that are ignored.\<close>

definition network_controller_poll ::
  "'w net_ops \<Rightarrow> net_controller \<Rightarrow> net_state \<Rightarrow> 'w \<Rightarrow> (net_controller \<times> net_state \<times> 'w \<times> bool) option" where
  "network_controller_poll ops c st w =
     (if \<not> nc_running c then Some (c, st, w, False)
      else
        (case net_udp_recv ops 64 st w of
           None \<Rightarrow> None
         | Some (st1, w1, n, None) \<Rightarrow> Some (c, st1, w1, False)
         | Some (st1, w1, n, Some (sip, sport, d)) \<Rightarrow>
             if n < 12 \<or> get32 d 0 \<noteq> NETCTRL_MAGIC then Some (c, st1, w1, False)
             else Some (c\<lparr>last_buttons := get16 d 4, last_axes := take 4 (drop 6 d)\<rparr>, st1, w1, True)))"

section \<open>The keyboard as a controller\<close>

definition asc_unshift :: string where
  "asc_unshift = [NUL, NUL] @ ''1234567890-='' @ [NUL, NUL] @ ''qwertyuiop[]'' @ [NUL, NUL] @
     ''asdfghjkl;'' @ [CHR 0x27, CHR 0x60, NUL, CHR 0x5C] @ [CHR 0x5C] @ ''zxcvbnm,./'' @ [NUL, NUL] @ [NUL, NUL, NUL, CHR '' '']"

definition asc_shift :: string where
  "asc_shift = [NUL, NUL] @ ''!@#$%^&*()'' @ [NUL, NUL] @ ''QWERTYUIOP{}'' @ [NUL, NUL] @
     ''ASDFGHJKL:'' @ [CHR 0x22, NUL, NUL] @ ''|ZXCVBNM<>?'' @ [NUL, NUL] @ [NUL, NUL, NUL, CHR '' '']"

definition scancode_to_ascii :: "u8 \<Rightarrow> bool \<Rightarrow> char" where
  "scancode_to_ascii sc shift = (if sc > 0x39 then NUL else if shift then asc_shift ! unat sc else asc_unshift ! unat sc)"

record controller_state =
  cs_buttons :: u16
  cs_axes :: "u8 list"
  cs_present :: bool

definition plat_controller_read ::
  "'w port_io \<Rightarrow> int \<Rightarrow> bool \<Rightarrow> 'w \<Rightarrow> bool \<times> 'w \<times> controller_state \<times> int" where
  "plat_controller_read io port shift w =
     (let out = \<lparr>cs_buttons = 0, cs_axes = [0, 0, 0, 0], cs_present = False\<rparr>
      in if port \<noteq> 0 then (shift, w, out, - 1)
         else case keyboard_has_key io w of (w1, k) \<Rightarrow>
           if \<not> k then (shift, w1, out, 0)
           else case keyboard_get_scancode io w1 of (w2, sc) \<Rightarrow>
             if sc = 0x2A \<or> sc = 0x36 then (True, w2, out, 0)
             else if sc = 0xAA \<or> sc = 0xB6 then (False, w2, out, 0)
             else let c = scancode_to_ascii sc shift
                  in if c = NUL then (shift, w2, out, 0)
                     else (shift, w2, out\<lparr>cs_present := True, cs_buttons := scast (of_char c :: u8)\<rparr>, 0))"

definition plat_keyboard_scancode :: "'w port_io \<Rightarrow> 'w \<Rightarrow> 'w \<times> int" where
  "plat_keyboard_scancode io w = (case keyboard_get_scancode io w of (w1, sc) \<Rightarrow> (w1, uint sc))"

definition plat_keyboard_has_key :: "'w port_io \<Rightarrow> 'w \<Rightarrow> 'w \<times> bool" where
  "plat_keyboard_has_key io w = keyboard_has_key io w"

definition sys_ps2_controller_read :: "'w port_io \<Rightarrow> bool \<Rightarrow> 'w \<Rightarrow> bool \<times> 'w \<times> u8 list" where
  "sys_ps2_controller_read io shift w =
     (case plat_controller_read io 0 shift w of (sh, w1, st, rc) \<Rightarrow>
        (sh, w1, if rc \<noteq> 0 \<or> \<not> cs_present st then replicate 6 0
                 else [ucast (cs_buttons st AND 0xFF), ucast (drop_bit 8 (cs_buttons st) AND 0xFF)] @ cs_axes st))"

section \<open>Tables of named profiles\<close>

text \<open>
  Both profile tables append and search from the front. What their callers get:
  \<open>put\<close> stores a value under a name that may be cut (\<open>cut\<close>), \<open>get\<close> finds it, and an
  older entry of the same name always wins.
\<close>

locale name_table =
  fixes good :: "'t \<Rightarrow> bool" and put :: "string \<Rightarrow> 'v \<Rightarrow> 't \<Rightarrow> 't option" and get :: "string \<Rightarrow> 't \<Rightarrow> 'v option"
    and cut :: "string \<Rightarrow> string" and stored :: "string \<Rightarrow> 'v \<Rightarrow> 'v"
  assumes put_good: "good t \<Longrightarrow> put n v t = Some t' \<Longrightarrow> good t'"
    and get_put: "good t \<Longrightarrow> put n v t = Some t' \<Longrightarrow>
      get m t' = (case get m t of Some u \<Rightarrow> Some u | None \<Rightarrow> if cstr m = cut n then Some (stored n v) else None)"
begin

lemma first_entry_wins: "good t \<Longrightarrow> put n v t = Some t' \<Longrightarrow> get m t = Some u \<Longrightarrow> get m t' = Some u"
  by (simp add: get_put)

lemma entry_kept:
  assumes "good t" "get m t = Some u" "each (\<lambda>(n, v). put n v) nvs t = Some t'"
  shows "get m t' = Some u"
  using assms
proof (induction nvs arbitrary: t)
  case (Cons nv nvs)
  then show ?case
    by (cases nv) (auto split: option.splits intro: put_good first_entry_wins)
qed simp

lemma fresh_entry: "good t \<Longrightarrow> put n v t = Some t' \<Longrightarrow> get m t = None \<Longrightarrow> cstr m = cut n \<Longrightarrow> get m t' = Some (stored n v)"
  by (simp add: get_put)

end

lemma find_upt_Suc:
  "List.find P [0..<Suc n] = (case List.find P [0..<n] of Some i \<Rightarrow> Some i | None \<Rightarrow> if P n then Some n else None)"
proof -
  have "List.find P (xs @ [n]) = (case List.find P xs of Some i \<Rightarrow> Some i | None \<Rightarrow> if P n then Some n else None)" for xs
    by (induction xs) auto
  then show ?thesis by simp
qed

lemma find_upt_bound: "List.find P [0..<n] = Some i \<Longrightarrow> i < n"
  by (auto simp: find_Some_iff)

lemma find_update:
  assumes "n < length xs"
  shows "List.find (\<lambda>i. P (xs[n := v] ! i)) [0..<Suc n] =
    (case List.find (\<lambda>i. P (xs ! i)) [0..<n] of Some i \<Rightarrow> Some i | None \<Rightarrow> if P v then Some n else None)"
proof -
  have "List.find (\<lambda>i. P (xs[n := v] ! i)) [0..<n] = List.find (\<lambda>i. P (xs ! i)) [0..<n]"
    by (rule find_cong) auto
  then show ?thesis using assms unfolding find_upt_Suc by simp
qed

definition bt_ok :: "bluetooth \<Rightarrow> bool" where
  "bt_ok b \<longleftrightarrow> bt_initialized b \<and> length (bt_profiles b) = BT_PROFILE_SLOTS \<and> bt_profile_count b \<le> BT_PROFILE_SLOTS"

definition bt_put :: "string \<Rightarrow> int list \<Rightarrow> bluetooth \<Rightarrow> bluetooth option" where
  "bt_put n v b = (case bt_controller_profile_create (Some n) (b\<lparr>controller_map := v\<rparr>) of (b', rc) \<Rightarrow> if rc = 0 then Some b' else None)"

definition bt_get :: "string \<Rightarrow> bluetooth \<Rightarrow> int list option" where
  "bt_get n b = (case bt_controller_profile_load (Some n) b of (b', rc) \<Rightarrow> if rc = 0 then Some (controller_map b') else None)"

interpretation bt_table: name_table bt_ok bt_put bt_get "str_copy BT_PROFILE_NAME_MAX" "\<lambda>n v. v"
proof
  fix t t' :: bluetooth and n m :: string and v :: "int list"
  assume ok: "bt_ok t" and p: "bt_put n v t = Some t'"
  let ?k = "bt_profile_count t" and ?e = "\<lparr>bp_name = str_copy BT_PROFILE_NAME_MAX n, bp_map = v\<rparr>"
  have t': "t' = t\<lparr>controller_map := v, bt_profiles := (bt_profiles t)[?k := ?e], bt_profile_count := ?k + 1\<rparr>"
    and k: "?k < BT_PROFILE_SLOTS"
    using p by (auto simp: bt_put_def bt_controller_profile_create_def split: if_splits)
  show "bt_ok t'" using ok k by (simp add: t' bt_ok_def)
  have "?k < length (bt_profiles t)" using ok k by (simp add: bt_ok_def)
  note f = find_update [OF this, of "\<lambda>e. str_eq m (bp_name e)" ?e]
  have "(bt_profiles t)[?k := ?e] ! i = bt_profiles t ! i" if "List.find (\<lambda>i. str_eq m (bp_name (bt_profiles t ! i))) [0..<?k] = Some i" for i
    using find_upt_bound [OF that] by simp
  then show "bt_get m t' = (case bt_get m t of Some u \<Rightarrow> Some u | None \<Rightarrow> if cstr m = str_copy BT_PROFILE_NAME_MAX n then Some v else None)"
    using ok f \<open>?k < length (bt_profiles t)\<close>
    by (auto simp: t' bt_get_def bt_controller_profile_load_def bt_ok_def str_eq_iff split: option.splits)
qed

definition remap_ok :: "remap \<Rightarrow> bool" where
  "remap_ok r \<longleftrightarrow> length (rm_profiles r) = CTRL_MAX_PROFILES \<and> rm_count r \<le> CTRL_MAX_PROFILES"

definition remap_put :: "string \<Rightarrow> controller_profile \<Rightarrow> remap \<Rightarrow> remap option" where
  "remap_put n v r = (case controller_profile_save (Some n) (r\<lparr>rm_current := v\<rparr>) of (r', rc) \<Rightarrow> if rc = 0 then Some r' else None)"

definition remap_get :: "string \<Rightarrow> remap \<Rightarrow> controller_profile option" where
  "remap_get n r = (case controller_profile_load (Some n) r of (r', rc) \<Rightarrow> if rc = 0 then Some (rm_current r') else None)"

lemma str_copy_idem: "str_copy n (str_copy n s) = str_copy n s"
  by (simp add: str_copy_take cstr_take)

interpretation remap_table: name_table remap_ok remap_put remap_get "str_copy CTRL_PROFILE_NAME_LEN"
  "\<lambda>n v. v\<lparr>cp_name := str_copy CTRL_PROFILE_NAME_LEN n\<rparr>"
proof
  fix t t' :: remap and n m :: string and v :: controller_profile
  assume ok: "remap_ok t" and p: "remap_put n v t = Some t'"
  let ?k = "rm_count t" and ?e = "v\<lparr>cp_name := str_copy CTRL_PROFILE_NAME_LEN n\<rparr>"
  have t': "t' = t\<lparr>rm_current := v, rm_profiles := (rm_profiles t)[?k := ?e], rm_count := ?k + 1\<rparr>"
    and k: "?k < CTRL_MAX_PROFILES" and n: "char_at n 0 \<noteq> NUL"
    using p by (auto simp: remap_put_def controller_profile_save_def split: if_splits)
  show "remap_ok t'" using ok k by (simp add: t' remap_ok_def)
  have l: "?k < length (rm_profiles t)" using ok k by (simp add: remap_ok_def)
  note f = find_update [OF l, of "\<lambda>e. str_eq (cp_name e) m" ?e]
  have u: "(rm_profiles t)[?k := ?e] ! i = rm_profiles t ! i" if "List.find (\<lambda>i. str_eq (cp_name (rm_profiles t ! i)) m) [0..<?k] = Some i" for i
    using find_upt_bound [OF that] by simp
  have e: "char_at m 0 = NUL \<Longrightarrow> cstr m \<noteq> str_copy CTRL_PROFILE_NAME_LEN n"
    using n by (cases m; cases n) (auto simp: char_at_def cstr_Cons str_copy_take CTRL_PROFILE_NAME_LEN_def)
  show "remap_get m t' = (case remap_get m t of Some u \<Rightarrow> Some u
      | None \<Rightarrow> if cstr m = str_copy CTRL_PROFILE_NAME_LEN n then Some ?e else None)"
  proof (cases "char_at m 0 = NUL")
    case True
    then show ?thesis using e by (simp add: remap_get_def controller_profile_load_def)
  next
    case False
    have i: "str_copy CTRL_PROFILE_NAME_LEN (cstr m) = cstr m" if "str_copy CTRL_PROFILE_NAME_LEN n = cstr m"
      using str_copy_idem [of CTRL_PROFILE_NAME_LEN n] that by simp
    show ?thesis
      using False f u l i by (auto simp: t' remap_get_def controller_profile_load_def str_eq_iff str_copy_idem split: option.splits)
  qed
qed

text \<open>
  A controller profile that was saved comes back when it is loaded. After a
  successful save, and whatever the current settings have been changed to since,
  loading the saved name (cut to 23 characters) succeeds; it restores all settings that
  were current at the save, except when an older profile has the same name: then the
  save has reported success without effect on that name, and the older settings load.
\<close>

theorem profile_save_load:
  assumes "remap_ok r" "controller_profile_save (Some n) r = (r1, 0)" "cstr m = str_copy CTRL_PROFILE_NAME_LEN n"
  shows "controller_profile_load (Some m) (r1\<lparr>rm_current := c\<rparr>) =
    (r1\<lparr>rm_current := (case controller_profile_load (Some m) r of (r0, rc) \<Rightarrow>
        if rc = 0 then rm_current r0 else (rm_current r)\<lparr>cp_name := str_copy CTRL_PROFILE_NAME_LEN n\<rparr>)\<rparr>, 0)"
proof -
  have p: "remap_put n (rm_current r) r = Some r1" using assms(2) by (simp add: remap_put_def)
  have n: "char_at n 0 \<noteq> NUL" using assms(2) by (auto simp: controller_profile_save_def split: if_splits)
  then have m: "char_at m 0 \<noteq> NUL"
    using assms(3) by (cases m; cases n) (auto simp: char_at_def cstr_Cons str_copy_take CTRL_PROFILE_NAME_LEN_def)
  have g: "remap_get m r1 = Some (case remap_get m r of Some u \<Rightarrow> u | None \<Rightarrow> (rm_current r)\<lparr>cp_name := str_copy CTRL_PROFILE_NAME_LEN n\<rparr>)"
    using remap_table.get_put [OF assms(1) p, of m] assms(3) by (simp split: option.splits)
  then obtain i where "List.find (\<lambda>i. str_eq (cp_name (rm_profiles r1 ! i)) m) [0..<rm_count r1] = Some i"
    using m by (auto simp: remap_get_def controller_profile_load_def split: option.splits)
  then show ?thesis
    using g m by (auto simp: remap_get_def controller_profile_load_def split: option.splits if_splits)
qed

definition remap_zero :: remap where
  "remap_zero = controller_remap_init
     \<lparr>rm_profiles = replicate CTRL_MAX_PROFILES (default_profile (replicate CTRL_MACRO_LEN 0)), rm_count = 0,
      rm_current = default_profile (replicate CTRL_MACRO_LEN 0)\<rparr>"

theorem profile_save_witness:
  "sensitivity (rm_current (fst (controller_profile_load (Some ''fast'')
      (controller_set_sensitivity 7 (fst (controller_profile_save (Some ''fast'') (controller_set_sensitivity 300 remap_zero))))))) = 255"
proof -
  let ?r = "controller_set_sensitivity 300 remap_zero"
  have ok: "remap_ok ?r" by (simp add: remap_ok_def remap_zero_def controller_remap_init_def controller_set_sensitivity_def)
  have s: "controller_profile_save (Some ''fast'') ?r = (fst (controller_profile_save (Some ''fast'') ?r), 0)"
    by (simp add: controller_profile_save_def char_at_def remap_zero_def controller_remap_init_def controller_set_sensitivity_def CTRL_MAX_PROFILES_def)
  have c: "cstr ''fast'' = str_copy CTRL_PROFILE_NAME_LEN ''fast''" by (simp add: cstr_Cons CTRL_PROFILE_NAME_LEN_def)
  have old: "controller_profile_load (Some ''fast'') ?r = (?r, - 2)"
    by (simp add: controller_profile_load_def char_at_def remap_zero_def controller_remap_init_def controller_set_sensitivity_def)
  have k: "controller_set_sensitivity 7 x = x\<lparr>rm_current := (rm_current x)\<lparr>sensitivity := 7\<rparr>\<rparr>" for x
    by (simp add: controller_set_sensitivity_def clamp255_def)
  show ?thesis unfolding k profile_save_load [OF ok s c] old
    by (simp add: controller_set_sensitivity_def clamp255_def)
qed

section \<open>Pairing\<close>

lemma close_gap_list:
  assumes "i < n" "n \<le> length xs"
  shows "close_gap i n xs = take i xs @ take (n - 1 - i) (drop (i + 1) xs) @ drop (n - 1) xs"
proof -
  have "[i..<n - 1] = map (\<lambda>j. i + j) [0..<n - 1 - i]" using assms(1) by (intro nth_equalityI) auto
  then have "close_gap i n xs = fold (\<lambda>j ys. ys[i + j := ys ! (i + 1 + j)]) [0..<n - 1 - i] xs"
    by (simp add: close_gap_def fold_map comp_def)
  then show ?thesis using fold_copy_down [of i 1 "n - 1 - i" xs] assms by simp
qed

text \<open>The devices that are paired, and what unpairing does to them.\<close>

definition paired :: "bluetooth \<Rightarrow> bt_device list" where
  "paired b = take (paired_count b) (paired_devices b)"

lemma unpair_removes:
  assumes "bt_initialized b" "paired_count b \<le> length (paired_devices b)" "bt_unpair (Some a) b = (b', rc)"
  shows "if \<exists>d\<in>set (paired b). cstr (bd_addr d) = cstr a
    then rc = 0 \<and> (\<exists>d xs ys. paired b = xs @ d # ys \<and> cstr (bd_addr d) = cstr a \<and> paired b' = xs @ ys)
    else rc = - 1 \<and> b' = b"
proof (cases "List.find (\<lambda>i. str_eq a (bd_addr (paired_devices b ! i))) [0..<paired_count b]")
  case None
  then have "\<forall>d\<in>set (paired b). cstr (bd_addr d) \<noteq> cstr a"
    using assms(2) by (fastforce simp: find_None_iff paired_def str_eq_iff in_set_conv_nth)
  then show ?thesis using None assms(1,3) by (auto simp: bt_unpair_def)
next
  case (Some i)
  let ?n = "paired_count b" and ?d = "paired_devices b"
  have i: "i < ?n" "cstr (bd_addr (?d ! i)) = cstr a" using Some by (auto simp: find_Some_iff str_eq_iff)
  have b': "b' = b\<lparr>paired_devices := close_gap i ?n ?d, paired_count := ?n - 1\<rparr>" "rc = 0"
    using Some assms(1,3) by (auto simp: bt_unpair_def)
  have "paired b = take i ?d @ ?d ! i # take (?n - 1 - i) (drop (i + 1) ?d)"
  proof -
    have "?n = i + Suc (?n - 1 - i)" using i(1) by simp
    then have "paired b = take i ?d @ take (Suc (?n - 1 - i)) (drop i ?d)" unfolding paired_def by (metis take_add)
    moreover have "drop i ?d = ?d ! i # drop (i + 1) ?d" using i(1) assms(2) by (simp add: Cons_nth_drop_Suc)
    ultimately show ?thesis by simp
  qed
  moreover have "paired b' = take i ?d @ take (?n - 1 - i) (drop (i + 1) ?d)"
    using i(1) assms(2) by (simp add: b'(1) paired_def close_gap_list)
  moreover have "?d ! i \<in> set (paired b)" using \<open>paired b = _\<close> by simp
  ultimately show ?thesis using i(2) b'(2) by auto
qed

text \<open>
  The bottom row of the keyboard table starts one entry late, so the scancode of Z is
  read as a backslash and that of X as z; the table for shift lacks two entries in
  its first row.
\<close>

lemma bottom_row_shifted:
  "scancode_to_ascii 0x2C False = CHR 0x5C" "scancode_to_ascii 0x2D False = CHR ''z''" "scancode_to_ascii 0x10 True = CHR ''E''"
  by (simp_all add: scancode_to_ascii_def asc_unshift_def asc_shift_def)

end
