(* ===== verification/Media.thy ===== *)
theory Media
  imports Console
begin

text \<open>
  The music player's playlist and status (\<^verbatim>\<open>src/music.c\<close>) and the LED control
  (\<^verbatim>\<open>src/led_control.c\<close>) of the x86 build, which has no LED. What
  \<^verbatim>\<open>fat12_list_files\<close> prints is an argument of \<open>music_list\<close>; the function itself
  (\<^verbatim>\<open>platform/x86/hal_storage.c\<close>) is in the theory \<^verbatim>\<open>Machine\<close>, which imports this one.
\<close>

section \<open>music.c\<close>

definition MUSIC_PLAYLIST_MAX :: nat where "MUSIC_PLAYLIST_MAX = 32"
definition MUSIC_PATH_LEN :: nat where "MUSIC_PATH_LEN = 64"
definition MUSIC_NOW_PLAYING_LEN :: nat where "MUSIC_NOW_PLAYING_LEN = 80"

record music =
  now_playing :: string
  background_mode :: bool
  playlist :: "string list"
  playlist_count :: nat

definition music_init :: music where
  "music_init = \<lparr>now_playing = [], background_mode = False, playlist = replicate MUSIC_PLAYLIST_MAX [], playlist_count = 0\<rparr>"

definition on_off :: "bool \<Rightarrow> string" where
  "on_off b = (if b then ''on'' else ''off'')"

definition music_play :: "string option \<Rightarrow> music \<Rightarrow> music \<times> kout list" where
  "music_play path m =
     (if path = None \<or> char_at (the path) 0 = NUL then
        (m, if char_at (now_playing m) 0 \<noteq> NUL then [Kprintf ''Now playing: %s\<newline>'' [StrArg (now_playing m)]]
            else [Kprint ''No track selected. Use: music play <file>\<newline>''])
      else
        let m1 = m\<lparr>now_playing := str_copy MUSIC_NOW_PLAYING_LEN (the path)\<rparr>
        in (m1, [Kprint ''  '', KprintColor ''music'' 0x0A, Kprintf '' Playing: %s\<newline>'' [StrArg (now_playing m1)],
                 Kprint ''  (Audio decode requires IOP/SPU2; playback simulated.)\<newline>'']))"

definition music_list :: "kout list \<Rightarrow> kout list" where
  "music_list listing =
     [Kprint ''\<newline>  '', KprintColor '' music list '' 0x2A, KprintColor '' (FAT12 root) -----------------\<newline>'' 0x08] @ listing @
     [Kprint ''  Use '', KprintColor ''music play <file>'' 0x0B, Kprint '' to play. Supported: MP3, WAV.\<newline>'',
      Kprint ''  ----------------------------------------\<newline>\<newline>'']"

definition music_background :: "int \<Rightarrow> music \<Rightarrow> music \<times> kout list" where
  "music_background on m =
     (m\<lparr>background_mode := (on \<noteq> 0)\<rparr>,
      [Kprint ''  '', KprintColor ''music'' 0x0A, Kprintf '' background %s\<newline>'' [StrArg (on_off (on \<noteq> 0))]])"

definition music_is_background :: "music \<Rightarrow> bool" where
  "music_is_background m = background_mode m"

definition music_print_status :: "music \<Rightarrow> kout list" where
  "music_print_status m =
     [Kprint ''  '', KprintColor ''music'' 0x0A,
      Kprintf '' status: %s  background: %s\<newline>''
        [StrArg (if char_at (now_playing m) 0 \<noteq> NUL then now_playing m else ''(none)''), StrArg (on_off (background_mode m))]]"

definition music_add_to_playlist :: "string option \<Rightarrow> music \<Rightarrow> music \<times> int" where
  "music_add_to_playlist path m =
     (case path of None \<Rightarrow> (m, - 1)
      | Some p \<Rightarrow>
          if playlist_count m \<ge> MUSIC_PLAYLIST_MAX then (m, - 1)
          else (m\<lparr>playlist := (playlist m)[playlist_count m := str_copy MUSIC_PATH_LEN p],
                  playlist_count := playlist_count m + 1\<rparr>, 0))"

definition music_playlist_clear :: "music \<Rightarrow> music" where
  "music_playlist_clear m = m\<lparr>playlist_count := 0, playlist := replicate MUSIC_PLAYLIST_MAX []\<rparr>"

definition music_playlist_list :: "music \<Rightarrow> kout list" where
  "music_playlist_list m =
     [Kprint ''\<newline>  '', KprintColor '' playlist '' 0x2A, KprintColor '' -----------------------------\<newline>'' 0x08] @
     (if playlist_count m = 0 then [Kprint ''  (empty)\<newline>'']
      else map (\<lambda>i. Kprintf ''  %2d. %s\<newline>'' [IntArg (of_nat (i + 1)), StrArg (playlist m ! i)]) [0..<playlist_count m]) @
     [Kprint ''  ----------------------------------------\<newline>\<newline>'']"

section \<open>led\_control.c\<close>

datatype led_model = LED_MODEL_UNKNOWN | LED_MODEL_FAT | LED_MODEL_SLIM

record led =
  cached_model :: led_model
  led_supported :: bool

definition led_zero :: led where
  "led_zero = \<lparr>cached_model = LED_MODEL_UNKNOWN, led_supported = False\<rparr>"

definition led_detect_model :: "led \<Rightarrow> led \<times> led_model" where
  "led_detect_model l =
     (if cached_model l \<noteq> LED_MODEL_UNKNOWN then (l, cached_model l)
      else (l\<lparr>cached_model := LED_MODEL_UNKNOWN, led_supported := False\<rparr>, LED_MODEL_UNKNOWN))"

definition led_is_supported :: "led \<Rightarrow> led \<times> bool" where
  "led_is_supported l =
     (let l1 = (if cached_model l = LED_MODEL_UNKNOWN then fst (led_detect_model l) else l) in (l1, led_supported l1))"

definition led_set :: "string option \<Rightarrow> led \<Rightarrow> led \<times> kout list \<times> int" where
  "led_set color l =
     (case color of None \<Rightarrow> (l, [], - 1)
      | Some c \<Rightarrow>
          (case led_is_supported l of (l1, has_led) \<Rightarrow>
             if \<not> has_led then (l1, [Kprint ''  led: not supported on this hardware\<newline>''], - 2)
             else if str_eq c ''red'' \<or> str_eq c ''green'' \<or> str_eq c ''blue'' \<or> str_eq c ''off'' then (l1, [], 0)
             else (l1, [Kprint ''  led: unknown color (red, green, blue, off)\<newline>''], - 1)))"

definition led_pulse :: "u32 \<Rightarrow> led \<Rightarrow> led \<times> kout list \<times> int" where
  "led_pulse period_ms l =
     (case led_is_supported l of (l1, has_led) \<Rightarrow>
        if \<not> has_led then (l1, [Kprint ''  led pulse: not supported on this hardware\<newline>''], - 1) else (l1, [], 0))"

definition led_rgb :: "u8 \<Rightarrow> u8 \<Rightarrow> u8 \<Rightarrow> led \<Rightarrow> led \<times> kout list \<times> int" where
  "led_rgb r g b l =
     (case led_is_supported l of (l1, has_led) \<Rightarrow>
        if \<not> has_led then (l1, [Kprint ''  led rgb: not supported on this hardware\<newline>''], - 1) else (l1, [], 0))"

definition led_set_timed :: "string option \<Rightarrow> u32 \<Rightarrow> led \<Rightarrow> led \<times> kout list \<times> int" where
  "led_set_timed color delay_ms l = led_set color l"

section \<open>The playlist is a bounded queue of names\<close>

definition songs :: "music \<Rightarrow> string list" where
  "songs m = take (playlist_count m) (playlist m)"

definition music_ok :: "music \<Rightarrow> bool" where
  "music_ok m \<longleftrightarrow> length (playlist m) = MUSIC_PLAYLIST_MAX \<and> playlist_count m \<le> MUSIC_PLAYLIST_MAX"

lemma music_init_ok: "music_ok music_init" "songs music_init = []"
  by (simp_all add: music_init_def music_ok_def songs_def)

lemma playlist_add:
  assumes "music_ok m"
  shows "if length (songs m) < 32 then snd (music_add_to_playlist (Some p) m) = 0 \<and>
      songs (fst (music_add_to_playlist (Some p) m)) = songs m @ [str_copy 64 p] \<and> music_ok (fst (music_add_to_playlist (Some p) m))
    else music_add_to_playlist (Some p) m = (m, - 1)"
  using assms by (simp add: music_add_to_playlist_def songs_def music_ok_def MUSIC_PLAYLIST_MAX_def MUSIC_PATH_LEN_def take_Suc_conv_app_nth)

lemma playlist_clear: "music_ok m \<Longrightarrow> songs (music_playlist_clear m) = [] \<and> music_ok (music_playlist_clear m)"
  by (simp add: music_playlist_clear_def songs_def music_ok_def)

lemma led_never_supported:
  "\<not> led_supported l \<Longrightarrow> snd (snd (led_set (Some c) l)) = - 2 \<and> snd (snd (led_pulse ms l)) = - 1 \<and> snd (snd (led_rgb r g b l)) = - 1"
  by (simp add: led_set_def led_pulse_def led_rgb_def led_is_supported_def led_detect_model_def Let_def)

end
