(* ===== verification/Mem_Budget.thy ===== *)
theory Mem_Budget
  imports Heap_Alloc
begin

text \<open>
  The memory budget and the swap layer of \<^verbatim>\<open>src/memory_budget.c\<close>: per-region
  accounting in kilobytes, a table of 32 swap slots whose buffers come from the
  kernel heap, and the run-length coding offered for swapped buffers.

  The swap layer is a client of the allocator contract: its safety (no buffer is
  released twice, no two slots share a buffer) is proved from that contract in
  the context of the locale and reached through its interpretation on the heap.
\<close>

section \<open>State\<close>

definition BUDGET_REGION_MAX :: nat where "BUDGET_REGION_MAX = 8"
definition SWAP_SLOT_MAX :: nat where "SWAP_SLOT_MAX = 32"

definition BUDGET_KERNEL :: nat where "BUDGET_KERNEL = 0"
definition BUDGET_NETWORK :: nat where "BUDGET_NETWORK = 1"
definition BUDGET_FS :: nat where "BUDGET_FS = 2"
definition BUDGET_STREAMING :: nat where "BUDGET_STREAMING = 3"
definition BUDGET_APP :: nat where "BUDGET_APP = 4"
definition BUDGET_PAUSE_CACHE :: nat where "BUDGET_PAUSE_CACHE = 5"
definition BUDGET_SWAP_CACHE :: nat where "BUDGET_SWAP_CACHE = 6"
definition BUDGET_OTHER :: nat where "BUDGET_OTHER = 7"

record budget_entry =
  limit_kb :: u32
  used_kb :: u32
  be_name :: "string option"

record swap_slot =
  in_use :: bool
  ss_offset :: u32
  local_ptr :: ptr
  ss_size :: u32
  ss_region :: nat

record budget =
  regions :: "budget_entry list"
  swap_slots :: "swap_slot list"
  inited :: bool
  bheap :: heap

definition region_names :: "string list" where
  "region_names = [''kernel'', ''network'', ''fs'', ''streaming'', ''app'', ''pause_cache'',
                   ''swap_cache'', ''other'']"

definition budget_zero :: "heap \<Rightarrow> budget" where
  "budget_zero h =
     \<lparr>regions = replicate BUDGET_REGION_MAX \<lparr>limit_kb = 0, used_kb = 0, be_name = None\<rparr>,
      swap_slots = replicate SWAP_SLOT_MAX
        \<lparr>in_use = False, ss_offset = 0, local_ptr = NULL, ss_size = 0, ss_region = 0\<rparr>,
      inited = False, bheap = h\<rparr>"

section \<open>Budget operations\<close>

definition memory_budget_set_limit :: "nat \<Rightarrow> u32 \<Rightarrow> budget \<Rightarrow> budget" where
  "memory_budget_set_limit region kb st =
     (if region \<ge> BUDGET_REGION_MAX then st
      else st\<lparr>regions := (regions st)[region := (regions st ! region)\<lparr>limit_kb := kb\<rparr>]\<rparr>)"

definition memory_budget_init :: "budget \<Rightarrow> budget" where
  "memory_budget_init st =
     (if inited st then st
      else
        let st1 = st\<lparr>regions := map (\<lambda>nm. \<lparr>limit_kb = 0, used_kb = 0, be_name = Some nm\<rparr>) region_names\<rparr>;
            st2 = (memory_budget_set_limit BUDGET_OTHER 1024 \<circ>
                   memory_budget_set_limit BUDGET_SWAP_CACHE (4 * 1024) \<circ>
                   memory_budget_set_limit BUDGET_PAUSE_CACHE (2 * 1024) \<circ>
                   memory_budget_set_limit BUDGET_APP (16 * 1024) \<circ>
                   memory_budget_set_limit BUDGET_STREAMING (2 * 1024) \<circ>
                   memory_budget_set_limit BUDGET_FS 1024 \<circ>
                   memory_budget_set_limit BUDGET_NETWORK (2 * 1024) \<circ>
                   memory_budget_set_limit BUDGET_KERNEL (4 * 1024)) st1
        in st2\<lparr>swap_slots := map (\<lambda>s. s\<lparr>in_use := False, local_ptr := NULL\<rparr>) (swap_slots st2),
               inited := True\<rparr>)"

definition kb_of :: "u32 \<Rightarrow> u32" where
  "kb_of size_bytes = (size_bytes + 1023) div 1024"

definition memory_budget_alloc :: "nat \<Rightarrow> u32 \<Rightarrow> budget \<Rightarrow> budget \<times> int" where
  "memory_budget_alloc region size_bytes st0 =
     (let st = (if inited st0 then st0 else memory_budget_init st0) in
      if region \<ge> BUDGET_REGION_MAX then (st, -1)
      else
        let e = regions st ! region; add_kb = kb_of size_bytes in
        if used_kb e + add_kb > limit_kb e \<and> limit_kb e \<noteq> 0 then (st, 0)
        else (st\<lparr>regions := (regions st)[region := e\<lparr>used_kb := used_kb e + add_kb\<rparr>]\<rparr>, 1))"

definition memory_budget_free :: "nat \<Rightarrow> u32 \<Rightarrow> budget \<Rightarrow> budget" where
  "memory_budget_free region size_bytes st =
     (if region \<ge> BUDGET_REGION_MAX then st
      else
        let e = regions st ! region; sub_kb = kb_of size_bytes in
        st\<lparr>regions := (regions st)[region :=
             e\<lparr>used_kb := (if sub_kb > used_kb e then 0 else used_kb e - sub_kb)\<rparr>]\<rparr>)"

definition memory_budget_can_alloc :: "nat \<Rightarrow> u32 \<Rightarrow> budget \<Rightarrow> int" where
  "memory_budget_can_alloc region size_bytes st =
     (if region \<ge> BUDGET_REGION_MAX then 0
      else
        let e = regions st ! region; add_kb = kb_of size_bytes in
        if limit_kb e = 0 then 1
        else if used_kb e + add_kb \<le> limit_kb e then 1 else 0)"

definition memory_budget_used_kb :: "nat \<Rightarrow> budget \<Rightarrow> u32" where
  "memory_budget_used_kb region st =
     (if region \<ge> BUDGET_REGION_MAX then 0 else used_kb (regions st ! region))"

definition memory_budget_total_used_kb :: "budget \<Rightarrow> u32" where
  "memory_budget_total_used_kb st = foldl (\<lambda>t e. t + used_kb e) 0 (regions st)"

section \<open>Swap slots\<close>

fun find_unused :: "nat \<Rightarrow> swap_slot list \<Rightarrow> nat option" where
  "find_unused i [] = None"
| "find_unused i (s # ss) = (if \<not> in_use s then Some i else find_unused (Suc i) ss)"

definition swap_slot_alloc ::
  "u32 \<Rightarrow> nat \<Rightarrow> swap_slot option \<Rightarrow> budget \<Rightarrow> (budget \<times> int \<times> swap_slot option) option" where
  "swap_slot_alloc sz region out st =
     (if out = None then Some (st, -1, out)
      else
        case malloc (bheap st) sz of
          None \<Rightarrow> None
        | Some (h, NULL) \<Rightarrow> Some (st\<lparr>bheap := h\<rparr>, -2, out)
        | Some (h, Ptr p) \<Rightarrow>
            (case memory_budget_alloc BUDGET_SWAP_CACHE sz (st\<lparr>bheap := h\<rparr>) of
               (st1, rc) \<Rightarrow>
                 if rc = 0 then map_option (\<lambda>h'. (st1\<lparr>bheap := h'\<rparr>, -3, out)) (free (bheap st1) (Ptr p))
                 else
                   (case find_unused 0 (swap_slots st1) of
                      Some i \<Rightarrow>
                        let s = \<lparr>in_use = True, ss_offset = of_nat i, local_ptr = Ptr p,
                                 ss_size = sz, ss_region = region\<rparr>
                        in Some (st1\<lparr>swap_slots := (swap_slots st1)[i := s]\<rparr>, 0, Some s)
                    | None \<Rightarrow>
                        let st2 = memory_budget_free BUDGET_SWAP_CACHE sz st1
                        in map_option (\<lambda>h'. (st2\<lparr>bheap := h'\<rparr>, -4, out)) (free (bheap st2) (Ptr p)))))"

definition swap_evict :: "swap_slot option \<Rightarrow> budget \<Rightarrow> (budget \<times> int) option" where
  "swap_evict slot st =
     (case slot of
        None \<Rightarrow> Some (st, -1)
      | Some sl \<Rightarrow>
          let i = unat (ss_offset sl) in
          if i \<ge> SWAP_SLOT_MAX then Some (st, -1)
          else
            let real = swap_slots st ! i in
            if local_ptr real = NULL then Some (st, 0)
            else map_option (\<lambda>h. (st\<lparr>bheap := h, swap_slots := (swap_slots st)[i := real\<lparr>local_ptr := NULL\<rparr>]\<rparr>, 0))
                   (free (bheap st) (local_ptr real)))"

definition swap_restore :: "swap_slot option \<Rightarrow> budget \<Rightarrow> (budget \<times> int \<times> swap_slot option) option" where
  "swap_restore slot st =
     (case slot of
        None \<Rightarrow> Some (st, -1, None)
      | Some sl \<Rightarrow>
          let i = unat (ss_offset sl) in
          if i \<ge> SWAP_SLOT_MAX then Some (st, -1, slot)
          else
            let real = swap_slots st ! i in
            if local_ptr real \<noteq> NULL then Some (st, 0, slot)
            else
              (case malloc (bheap st) (ss_size real) of
                 None \<Rightarrow> None
               | Some (h, NULL) \<Rightarrow> Some (st\<lparr>bheap := h\<rparr>, -2, slot)
               | Some (h, Ptr p) \<Rightarrow>
                   Some (st\<lparr>bheap := h, swap_slots := (swap_slots st)[i := real\<lparr>local_ptr := Ptr p\<rparr>]\<rparr>,
                         0, Some (sl\<lparr>local_ptr := Ptr p\<rparr>))))"

definition swap_slot_free :: "swap_slot option \<Rightarrow> budget \<Rightarrow> budget option" where
  "swap_slot_free slot st =
     (case slot of
        None \<Rightarrow> Some st
      | Some sl \<Rightarrow>
          let i = unat (ss_offset sl) in
          if i \<ge> SWAP_SLOT_MAX then Some st
          else
            let real = swap_slots st ! i;
                upd = (\<lambda>st'. st'\<lparr>swap_slots := (swap_slots st')[i := real\<lparr>local_ptr := NULL, in_use := False\<rparr>]\<rparr>)
            in if local_ptr real \<noteq> NULL then
                 map_option (\<lambda>h. upd (memory_budget_free BUDGET_SWAP_CACHE (ss_size real) (st\<lparr>bheap := h\<rparr>)))
                   (free (bheap st) (local_ptr real))
               else Some (upd st))"

section \<open>Run-length coding\<close>

text \<open>
  The coders walk their input with an index; the model keeps the rest of the
  input. A run byte with no value byte after it makes the decoder read past its
  input, which is \<open>None\<close>.
\<close>

fun run_count :: "u8 \<Rightarrow> u8 list \<Rightarrow> nat \<Rightarrow> nat" where
  "run_count r [] c = c"
| "run_count r (y # ys) c = (if y = r \<and> c < 127 then run_count r ys (Suc c) else c)"

lemma run_count_ge: "c \<le> run_count r ys c"
  by (induction r ys c rule: run_count.induct) auto

function swap_compress_from :: "nat \<Rightarrow> nat \<Rightarrow> u8 list \<Rightarrow> u8 list" where
  "swap_compress_from len k [] = []"
| "swap_compress_from len k (x # xs) =
     (if \<not> k + 2 < len then []
      else
        let cnt = run_count x xs 1 in
        if cnt \<ge> 3 then (0x80 OR of_nat cnt) # x # swap_compress_from len (k + 2) (drop cnt (x # xs))
        else x # swap_compress_from len (k + 1) xs)"
  by pat_completeness auto
termination by (relation "measure (\<lambda>(len, k, s). length s)") auto

definition swap_compress :: "u8 list \<Rightarrow> u8 list" where
  "swap_compress src = swap_compress_from (length src) 0 src"

fun swap_decompress :: "u8 list \<Rightarrow> u8 list option" where
  "swap_decompress [] = Some []"
| "swap_decompress (x # rest) =
     (if x AND 0x80 \<noteq> 0 then
        (case rest of
           [] \<Rightarrow> None
         | v # rest' \<Rightarrow> map_option (\<lambda>d. replicate (unat (x AND 0x7F)) v @ d) (swap_decompress rest'))
      else map_option (\<lambda>d. x # d) (swap_decompress rest))"


section \<open>Budgets are respected\<close>

definition budget_wf :: "budget \<Rightarrow> bool" where
  "budget_wf st \<longleftrightarrow> length (regions st) = 8 \<and> length (swap_slots st) = 32"

lemmas budget_consts = BUDGET_REGION_MAX_def SWAP_SLOT_MAX_def BUDGET_KERNEL_def BUDGET_NETWORK_def
  BUDGET_FS_def BUDGET_STREAMING_def BUDGET_APP_def BUDGET_PAUSE_CACHE_def BUDGET_SWAP_CACHE_def
  BUDGET_OTHER_def

lemma kb_of_exact: "uint n \<le> 4294966272 \<Longrightarrow> uint (kb_of n) = (uint n + 1023) div 1024"
  by (simp add: kb_of_def uint_div_distrib uint_plus_if')

lemma kb_of_bound: "uint (kb_of n) < 4194304"
  using uint_u32_bounds(2) [of "n + 1023"] by (simp add: kb_of_def uint_div_distrib)

lemma budget_wf_zero [simp]: "budget_wf (budget_zero h)"
  by (simp add: budget_wf_def budget_zero_def budget_consts)

lemma set_limit_lengths [simp]:
  "length (regions (memory_budget_set_limit r k st)) = length (regions st)"
  "swap_slots (memory_budget_set_limit r k st) = swap_slots st"
  "bheap (memory_budget_set_limit r k st) = bheap st"
  by (simp_all add: memory_budget_set_limit_def)

lemma budget_wf_init [simp]: "budget_wf st \<Longrightarrow> budget_wf (memory_budget_init st)"
  by (simp add: budget_wf_def memory_budget_init_def region_names_def Let_def)

text \<open>
  On an initialised budget, for a size that does not wrap when rounded up and
  a usage that does not wrap when charged, the allocation check accepts exactly
  when memory_budget_can_alloc says so. An accepted request charges the exact
  number of started kilobytes to its region only, stays within a non-zero limit,
  and the matching free restores the budget; a refused request changes nothing
  and really was over the limit.
\<close>
theorem budget_alloc_exact:
  assumes wf: "budget_wf st" and "inited st" and r: "r < 8"
    and n: "uint n \<le> 4294966272"
    and nw: "uint (used_kb (regions st ! r)) + (uint n + 1023) div 1024 < 4294967296"
    and al: "memory_budget_alloc r n st = (st', rc)"
  shows "rc = memory_budget_can_alloc r n st \<and>
    (rc = 0 \<longrightarrow> st' = st \<and> limit_kb (regions st ! r) \<noteq> 0 \<and>
       uint (limit_kb (regions st ! r)) < uint (used_kb (regions st ! r)) + (uint n + 1023) div 1024) \<and>
    (rc \<noteq> 0 \<longrightarrow> rc = 1 \<and>
       uint (memory_budget_used_kb r st') = uint (memory_budget_used_kb r st) + (uint n + 1023) div 1024 \<and>
       (limit_kb (regions st ! r) \<noteq> 0 \<longrightarrow> memory_budget_used_kb r st' \<le> limit_kb (regions st ! r)) \<and>
       (\<forall>q. q \<noteq> r \<longrightarrow> memory_budget_used_kb q st' = memory_budget_used_kb q st) \<and>
       memory_budget_free r n st' = st)"
proof -
  let ?e = "regions st ! r"
  let ?st1 = "st\<lparr>regions := (regions st)[r := ?e\<lparr>used_kb := used_kb ?e + kb_of n\<rparr>]\<rparr>"
  have len: "r < length (regions st)" using wf r by (simp add: budget_wf_def)
  have sum: "uint (used_kb ?e + kb_of n) = uint (used_kb ?e) + (uint n + 1023) div 1024"
    using nw by (simp add: uint_plus_if' kb_of_exact [OF n])
  show ?thesis
  proof (cases "limit_kb ?e < used_kb ?e + kb_of n \<and> limit_kb ?e \<noteq> 0")
    case True
    then have "st' = st" "rc = 0" "memory_budget_can_alloc r n st = 0"
      using al r \<open>inited st\<close>
      by (simp_all add: memory_budget_alloc_def memory_budget_can_alloc_def budget_consts Let_def not_le)
    then show ?thesis using True sum by (simp add: word_less_def)
  next
    case False
    have "kb_of n \<le> used_kb ?e + kb_of n" using sum kb_of_exact [OF n] by (simp add: word_le_def)
    then have fr: "memory_budget_free r n ?st1 = st"
      using r len by (simp add: memory_budget_free_def budget_consts Let_def not_less)
    have "st' = ?st1" "rc = 1" "memory_budget_can_alloc r n st = 1"
      using al r \<open>inited st\<close> False
      by (auto simp: memory_budget_alloc_def memory_budget_can_alloc_def budget_consts Let_def not_less)
    then show ?thesis using False sum len r fr
      by (auto simp: memory_budget_used_kb_def budget_consts not_less)
  qed
qed

theorem budget_alloc_witness:
  "let st = memory_budget_init (budget_zero boot_heap) in
     budget_wf st \<and> inited st \<and> memory_budget_alloc BUDGET_FS 1025 st = (fst (memory_budget_alloc BUDGET_FS 1025 st), 1) \<and>
     uint (memory_budget_used_kb BUDGET_FS (fst (memory_budget_alloc BUDGET_FS 1025 st))) = 2"
proof -
  let ?st = "memory_budget_init (budget_zero boot_heap)"
  have wf: "budget_wf ?st" by simp
  have in_st: "inited ?st" by (simp add: memory_budget_init_def Let_def budget_zero_def)
  have e: "regions ?st ! BUDGET_FS = \<lparr>limit_kb = 1024, used_kb = 0, be_name = Some ''fs''\<rparr>"
    by (simp add: memory_budget_init_def Let_def budget_zero_def memory_budget_set_limit_def
        region_names_def budget_consts)
  have al: "memory_budget_alloc BUDGET_FS 1025 ?st = (fst (memory_budget_alloc BUDGET_FS 1025 ?st), 1)"
    using in_st e by (simp add: memory_budget_alloc_def Let_def kb_of_def) (simp add: budget_consts)
  show ?thesis
    using budget_alloc_exact [OF wf in_st _ _ _ al] wf in_st al e
    by (simp add: Let_def memory_budget_used_kb_def budget_consts)
qed

section \<open>The swap layer never corrupts the heap\<close>

text \<open>
  A table of pointers is tracked when every pointer in it is a region in use and
  no two entries hold the same region. The three lemmas are the client's side of
  the allocator contract.
\<close>

definition tracked :: "(int \<times> u32) set \<Rightarrow> nat \<Rightarrow> (nat \<Rightarrow> ptr) \<Rightarrow> bool" where
  "tracked R n tab \<longleftrightarrow>
     (\<forall>i < n. \<forall>x. tab i = Ptr x \<longrightarrow> x \<in> fst ` R) \<and>
     (\<forall>i < n. \<forall>j < n. i \<noteq> j \<longrightarrow> tab i = tab j \<longrightarrow> tab i = NULL)"

lemma tracked_cong: "(\<And>i. i < n \<Longrightarrow> tab i = tab' i) \<Longrightarrow> tracked R n tab = tracked R n tab'"
  by (simp add: tracked_def)

context allocator
begin

lemma alloc_fresh:
  assumes "inv h" "alloc h m = Some (h', Ptr p)"
  shows "p \<notin> fst ` regions h" "fst ` regions h' = insert p (fst ` regions h)"
proof -
  obtain s where s: "(p, s) \<notin> regions h" "regions h' = insert (p, s) (regions h)"
    using alloc_ptr [OF assms] by blast
  then show "p \<notin> fst ` regions h"
    using region_unique [OF alloc_inv [OF assms], of p s] by force
  show "fst ` regions h' = insert p (fst ` regions h)" using s by simp
qed

lemma tracked_alloc:
  assumes "inv h" "alloc h m = Some (h', p)" "tracked (regions h) n tab"
  shows "tracked (regions h') n (tab(i := p))" "tracked (regions h') n tab"
proof -
  have "tracked (regions h') n (tab(i := p)) \<and> tracked (regions h') n tab"
  proof (cases p)
    case NULL
    then have "h' = h" using assms alloc_null by blast
    then show ?thesis using assms(3) NULL by (auto simp: tracked_def)
  next
    case (Ptr x)
    then show ?thesis
      using alloc_fresh [OF assms(1), of m h' x] assms(2,3) by (auto simp: tracked_def)
  qed
  then show "tracked (regions h') n (tab(i := p))" "tracked (regions h') n tab" by blast+
qed

lemma tracked_release:
  assumes "inv h" "tracked (regions h) n tab" "i < n"
  shows "\<exists>h'. release h (tab i) = Some h' \<and> inv h' \<and> tracked (regions h') n (tab(i := NULL))"
proof (cases "tab i")
  case NULL
  then show ?thesis using assms release_null by (auto simp: tracked_def)
next
  case (Ptr x)
  then have "x \<in> fst ` regions h" using assms by (auto simp: tracked_def)
  then obtain s where s: "(x, s) \<in> regions h" by force
  then obtain h' where h': "release h (Ptr x) = Some h'" "inv h'" "regions h' = regions h - {(x, s)}"
    using release_region assms(1) by blast
  have "y \<in> fst ` regions h'" if "y \<in> fst ` regions h" "y \<noteq> x" for y
    using that h'(3) by (auto simp: image_iff)
  moreover have "tab j \<noteq> Ptr x" if "j < n" "j \<noteq> i" for j
    using assms(2,3) Ptr that unfolding tracked_def by (metis ptr.distinct(1))
  ultimately have "tracked (regions h') n (tab(i := NULL))"
    using assms(2,3) Ptr unfolding tracked_def by (metis fun_upd_apply ptr.distinct(1))
  then show ?thesis using h' Ptr by auto
qed

lemma tracked_alloc_release:
  assumes "inv h" "alloc h m = Some (h', p)" "tracked (regions h) n tab"
  shows "\<exists>h''. release h' p = Some h'' \<and> inv h'' \<and> tracked (regions h'') n tab"
  using alloc_release [OF assms(1,2)] assms(3) by auto

end

definition slot_ptr :: "budget \<Rightarrow> nat \<Rightarrow> ptr" where
  "slot_ptr st i = local_ptr (swap_slots st ! i)"

definition swap_inv :: "budget \<Rightarrow> bool" where
  "swap_inv st \<longleftrightarrow> budget_wf st \<and> heap_inv (bheap st) \<and> tracked (owned (bheap st)) 32 (slot_ptr st)"

lemma budget_wf_alloc: "budget_wf st \<Longrightarrow> memory_budget_alloc r n st = (st', rc) \<Longrightarrow> budget_wf st'"
  using budget_wf_init [of st]
  by (auto simp: memory_budget_alloc_def budget_wf_def Let_def split: if_splits)

lemma init_frame: "bheap (memory_budget_init st) = bheap st"
  "\<not> inited st \<Longrightarrow> i < length (swap_slots st) \<Longrightarrow> slot_ptr (memory_budget_init st) i = NULL"
  by (simp_all add: memory_budget_init_def slot_ptr_def Let_def)

lemma alloc_frame:
  assumes "budget_wf st" "memory_budget_alloc r n st = (st', rc)"
  shows "bheap st' = bheap st" "i < 32 \<Longrightarrow> slot_ptr st' i = slot_ptr st i \<or> slot_ptr st' i = NULL"
  using assms init_frame(1) [of st] init_frame(2) [of st i]
  by (auto simp: memory_budget_alloc_def Let_def slot_ptr_def budget_wf_def split: if_splits)

lemma tracked_mono:
  assumes "tracked R n tab" "\<And>i. i < n \<Longrightarrow> tab' i = tab i \<or> tab' i = NULL"
  shows "tracked R n tab'"
proof -
  have "tab i = tab' i" if "i < n" "tab' i \<noteq> NULL" for i using assms(2) that by metis
  then show ?thesis using assms(1) unfolding tracked_def by (metis ptr.distinct(1))
qed

lemma swap_inv_budget_alloc:
  "swap_inv st \<Longrightarrow> memory_budget_alloc r n st = (st', rc) \<Longrightarrow> swap_inv st' \<and> bheap st' = bheap st"
  using budget_wf_alloc [of st r n st' rc] alloc_frame [of st r n st' rc]
    tracked_mono [of "owned (bheap st)" 32 "slot_ptr st" "slot_ptr st'"]
  by (auto simp: swap_inv_def)

lemma budget_free_frame [simp]:
  "budget_wf (memory_budget_free r n st) = budget_wf st"
  "bheap (memory_budget_free r n st) = bheap st"
  "swap_slots (memory_budget_free r n st) = swap_slots st"
  "slot_ptr (memory_budget_free r n st) = slot_ptr st"
  by (auto simp: memory_budget_free_def budget_wf_def slot_ptr_def Let_def)

lemma budget_wf_upd [simp]:
  "budget_wf (st\<lparr>bheap := h\<rparr>) = budget_wf st"
  "length ss = length (swap_slots st) \<Longrightarrow> budget_wf (st\<lparr>swap_slots := ss\<rparr>) = budget_wf st"
  by (simp_all add: budget_wf_def)

lemma slot_ptr_upd:
  "slot_ptr (st\<lparr>bheap := h\<rparr>) = slot_ptr st"
  "i < length (swap_slots st) \<Longrightarrow>
     slot_ptr (st\<lparr>swap_slots := (swap_slots st)[i := s]\<rparr>) = (slot_ptr st)(i := local_ptr s)"
  by (auto simp: slot_ptr_def fun_eq_iff nth_list_update)

lemma find_unused_bound: "find_unused k ss = Some i \<Longrightarrow> k \<le> i \<and> i < k + length ss"
  by (induction k ss rule: find_unused.induct) (auto split: if_splits)

lemma swap_alloc_safe:
  assumes inv: "swap_inv st"
  shows "\<exists>st' rc out'. swap_slot_alloc sz region out st = Some (st', rc, out') \<and> swap_inv st'"
proof (cases "out = None")
  case True
  then show ?thesis using inv by (simp add: swap_slot_alloc_def)
next
  case out: False
  obtain h p where m: "malloc (bheap st) sz = Some (h, p)" "heap_inv h"
    using kheap.alloc_returns [of "bheap st" sz] inv by (auto simp: swap_inv_def)
  have hi: "heap_inv (bheap st)" "tracked (owned (bheap st)) 32 (slot_ptr st)" "budget_wf st"
    using inv by (auto simp: swap_inv_def)
  note tr = kheap.tracked_alloc [OF hi(1) m(1) hi(2)]
  show ?thesis
  proof (cases p)
    case NULL
    then show ?thesis using out m tr(2) hi by (simp add: swap_slot_alloc_def swap_inv_def slot_ptr_upd)
  next
    case (Ptr x)
    obtain st1 rc where b: "memory_budget_alloc BUDGET_SWAP_CACHE sz (st\<lparr>bheap := h\<rparr>) = (st1, rc)"
      by (cases "memory_budget_alloc BUDGET_SWAP_CACHE sz (st\<lparr>bheap := h\<rparr>)")
    have "swap_inv (st\<lparr>bheap := h\<rparr>)" using m tr(2) hi by (simp add: swap_inv_def slot_ptr_upd)
    then have st1: "swap_inv st1" "bheap st1 = h" using swap_inv_budget_alloc [OF _ b] by auto
    have sub: "slot_ptr st1 i = slot_ptr st i \<or> slot_ptr st1 i = NULL" if "i < 32" for i
      using alloc_frame(2) [OF _ b that] hi(3) by (simp add: slot_ptr_upd)
    obtain h2 where h2: "free h (Ptr x) = Some h2" "heap_inv h2" "tracked (owned h2) 32 (slot_ptr st1)"
      using kheap.tracked_alloc_release [OF hi(1) m(1) tracked_mono [OF hi(2) sub]] Ptr by auto
    have wf1: "budget_wf st1" using st1 by (simp add: swap_inv_def)
    consider "rc = 0" | i where "rc \<noteq> 0" "find_unused 0 (swap_slots st1) = Some i"
      | "rc \<noteq> 0" "find_unused 0 (swap_slots st1) = None" by fastforce
    then show ?thesis
    proof cases
      case 2
      have i: "i < length (swap_slots st1)" using find_unused_bound [OF 2(2)] by simp
      have "tracked (owned h) 32 ((slot_ptr st1)(i := Ptr x))"
        using kheap.tracked_alloc(1) [OF hi(1) m(1) tracked_mono [OF hi(2) sub]] Ptr by auto
      then show ?thesis
        using 2 out m(1) Ptr b st1 i by (auto simp: swap_slot_alloc_def swap_inv_def slot_ptr_upd Let_def)
    qed (use out m(1) Ptr b st1 h2 wf1 in \<open>auto simp: swap_slot_alloc_def swap_inv_def slot_ptr_upd Let_def\<close>)
  qed
qed

lemma swap_release_slot:
  assumes inv: "swap_inv st" and i: "i < 32"
  obtains h where "free (bheap st) (local_ptr (swap_slots st ! i)) = Some h" "heap_inv h"
    "tracked (owned h) 32 ((slot_ptr st)(i := NULL))"
  using kheap.tracked_release [of "bheap st" 32 "slot_ptr st" i] assms
  by (auto simp: swap_inv_def slot_ptr_def)

lemma swap_inv_null:
  assumes "budget_wf st" "heap_inv h" "tracked (owned h) 32 ((slot_ptr st)(i := NULL))" "i < 32"
    "local_ptr s = NULL"
  shows "swap_inv (st\<lparr>bheap := h, swap_slots := (swap_slots st)[i := s]\<rparr>)"
proof -
  have "slot_ptr (st\<lparr>bheap := h, swap_slots := (swap_slots st)[i := s]\<rparr>) = (slot_ptr st)(i := NULL)"
    using assms by (auto simp: slot_ptr_def fun_eq_iff nth_list_update budget_wf_def)
  then show ?thesis using assms by (simp add: swap_inv_def budget_wf_def)
qed

lemma swap_evict_safe:
  assumes inv: "swap_inv st"
  shows "\<exists>st' rc. swap_evict slot st = Some (st', rc) \<and> swap_inv st'"
proof (cases "\<exists>sl. slot = Some sl \<and> unat (ss_offset sl) < 32")
  case False
  then show ?thesis using inv by (auto simp: swap_evict_def budget_consts Let_def split: option.splits)
next
  case True
  then obtain sl where sl: "slot = Some sl" "unat (ss_offset sl) < 32" by blast
  obtain h where h: "free (bheap st) (local_ptr (swap_slots st ! unat (ss_offset sl))) = Some h"
    "heap_inv h" "tracked (owned h) 32 ((slot_ptr st)(unat (ss_offset sl) := NULL))"
    using swap_release_slot [OF inv sl(2)] .
  have "budget_wf st" using inv by (simp add: swap_inv_def)
  then show ?thesis
    using swap_inv_null [OF _ h(2,3) sl(2)] inv sl h(1)
    by (auto simp: swap_evict_def budget_consts Let_def)
qed

lemma swap_slot_free_safe:
  assumes inv: "swap_inv st"
  shows "\<exists>st'. swap_slot_free slot st = Some st' \<and> swap_inv st'"
proof (cases "\<exists>sl. slot = Some sl \<and> unat (ss_offset sl) < 32")
  case False
  then show ?thesis using inv by (auto simp: swap_slot_free_def budget_consts Let_def split: option.splits)
next
  case True
  then obtain sl where sl: "slot = Some sl" "unat (ss_offset sl) < 32" by blast
  let ?i = "unat (ss_offset sl)"
  let ?real = "swap_slots st ! ?i"
  obtain h where h: "free (bheap st) (local_ptr ?real) = Some h"
    "heap_inv h" "tracked (owned h) 32 ((slot_ptr st)(?i := NULL))"
    using swap_release_slot [OF inv sl(2)] .
  have wf: "budget_wf st" using inv by (simp add: swap_inv_def)
  let ?b = "if local_ptr ?real = NULL then st
            else memory_budget_free BUDGET_SWAP_CACHE (ss_size ?real) (st\<lparr>bheap := h\<rparr>)"
  have hb: "bheap ?b = h" using h(1) by (auto simp: free_def)
  have "swap_inv (?b\<lparr>bheap := h, swap_slots := (swap_slots ?b)[?i := ?real\<lparr>local_ptr := NULL, in_use := False\<rparr>]\<rparr>)"
    by (rule swap_inv_null) (use wf h sl in \<open>auto simp: slot_ptr_upd\<close>)
  moreover have "?b\<lparr>bheap := h, swap_slots := (swap_slots ?b)[?i := ?real\<lparr>local_ptr := NULL, in_use := False\<rparr>]\<rparr>
      = ?b\<lparr>swap_slots := (swap_slots ?b)[?i := ?real\<lparr>local_ptr := NULL, in_use := False\<rparr>]\<rparr>"
    using hb by (metis (no_types, lifting) budget.surjective budget.update_convs(2,4) budget.select_convs(4))
  moreover have "swap_slot_free slot st =
      Some (?b\<lparr>swap_slots := (swap_slots ?b)[?i := ?real\<lparr>local_ptr := NULL, in_use := False\<rparr>]\<rparr>)"
    using sl h(1) by (simp add: swap_slot_free_def budget_consts Let_def)
  ultimately show ?thesis by auto
qed

lemma swap_restore_safe:
  assumes inv: "swap_inv st"
  shows "\<exists>st' rc slot'. swap_restore slot st = Some (st', rc, slot') \<and> swap_inv st'"
proof (cases "\<exists>sl. slot = Some sl \<and> unat (ss_offset sl) < 32 \<and> local_ptr (swap_slots st ! unat (ss_offset sl)) = NULL")
  case False
  then show ?thesis using inv by (auto simp: swap_restore_def budget_consts Let_def split: option.splits)
next
  case True
  then obtain sl where sl: "slot = Some sl" "unat (ss_offset sl) < 32"
    "local_ptr (swap_slots st ! unat (ss_offset sl)) = NULL" by blast
  let ?i = "unat (ss_offset sl)"
  have hi: "heap_inv (bheap st)" "tracked (owned (bheap st)) 32 (slot_ptr st)" "budget_wf st"
    using inv by (auto simp: swap_inv_def)
  obtain h p where m: "malloc (bheap st) (ss_size (swap_slots st ! ?i)) = Some (h, p)" "heap_inv h"
    using kheap.alloc_returns [OF hi(1), of "ss_size (swap_slots st ! ?i)"] by auto
  note tr = kheap.tracked_alloc [OF hi(1) m(1) hi(2)]
  have "slot_ptr (st\<lparr>bheap := h, swap_slots := (swap_slots st)[?i := s]\<rparr>) = (slot_ptr st)(?i := local_ptr s)" for s
    using hi(3) sl(2) by (auto simp: slot_ptr_def fun_eq_iff nth_list_update budget_wf_def)
  then show ?thesis using sl m tr(1) [of ?i] tr(2) hi(3)
    by (cases p) (auto simp: swap_restore_def budget_consts Let_def swap_inv_def budget_wf_def slot_ptr_upd)
qed

text \<open>Every sequence of calls into the swap layer, starting from the zeroed tables.\<close>

datatype swap_op =
    SwapAlloc u32 nat "swap_slot option"
  | SwapEvict "swap_slot option"
  | SwapRestore "swap_slot option"
  | SwapFree "swap_slot option"
  | BudgetInit
  | BudgetAlloc nat u32
  | BudgetFree nat u32
  | BudgetLimit nat u32

fun swap_call :: "swap_op \<Rightarrow> budget \<Rightarrow> budget option" where
  "swap_call (SwapAlloc sz r out) st = map_option fst (swap_slot_alloc sz r out st)"
| "swap_call (SwapEvict sl) st = map_option fst (swap_evict sl st)"
| "swap_call (SwapRestore sl) st = map_option fst (swap_restore sl st)"
| "swap_call (SwapFree sl) st = swap_slot_free sl st"
| "swap_call BudgetInit st = Some (memory_budget_init st)"
| "swap_call (BudgetAlloc r n) st = Some (fst (memory_budget_alloc r n st))"
| "swap_call (BudgetFree r n) st = Some (memory_budget_free r n st)"
| "swap_call (BudgetLimit r n) st = Some (memory_budget_set_limit r n st)"

inductive swap_reach :: "heap \<Rightarrow> budget \<Rightarrow> bool" for h where
  start: "swap_reach h (budget_zero h)"
| step: "swap_reach h st \<Longrightarrow> swap_call op st = Some st' \<Longrightarrow> swap_reach h st'"

lemma slot_ptr_set_limit [simp]: "slot_ptr (memory_budget_set_limit r k st) = slot_ptr st"
  by (simp add: slot_ptr_def fun_eq_iff)

lemma swap_inv_init: "swap_inv st \<Longrightarrow> swap_inv (memory_budget_init st)"
proof (cases "inited st")
  case True
  then show "swap_inv st \<Longrightarrow> swap_inv (memory_budget_init st)" by (simp add: memory_budget_init_def)
next
  case False
  assume inv: "swap_inv st"
  then have "length (swap_slots st) = 32" by (simp add: swap_inv_def budget_wf_def)
  with inv show "swap_inv (memory_budget_init st)"
    using False init_frame [of st] tracked_mono [of "owned (bheap st)" 32 "slot_ptr st" "slot_ptr (memory_budget_init st)"]
    by (auto simp: swap_inv_def)
qed

lemma swap_call_safe:
  assumes "swap_inv st"
  shows "\<exists>st'. swap_call op st = Some st' \<and> swap_inv st'"
proof (cases op)
  case (BudgetAlloc r n)
  then show ?thesis using swap_inv_budget_alloc [OF assms, of r n] by (cases "memory_budget_alloc r n st") simp
next
  case (BudgetLimit r n)
  then show ?thesis using assms by (simp add: swap_inv_def budget_wf_def)
next
  case (BudgetFree r n)
  then show ?thesis using assms by (simp add: swap_inv_def)
next
  case BudgetInit
  then show ?thesis using swap_inv_init [OF assms] by simp
next
  case (SwapAlloc sz r out)
  then show ?thesis using swap_alloc_safe [OF assms, of sz r out] by auto
next
  case (SwapEvict sl)
  then show ?thesis using swap_evict_safe [OF assms, of sl] by auto
next
  case (SwapRestore sl)
  then show ?thesis using swap_restore_safe [OF assms, of sl] by auto
next
  case (SwapFree sl)
  then show ?thesis using swap_slot_free_safe [OF assms, of sl] by auto
qed

lemma swap_inv_zero: "heap_inv h \<Longrightarrow> swap_inv (budget_zero h)"
proof -
  assume "heap_inv h"
  moreover have "slot_ptr (budget_zero h) i = NULL" if "i < 32" for i
    using that by (simp add: slot_ptr_def budget_zero_def budget_consts)
  ultimately show ?thesis by (simp add: swap_inv_def tracked_def) (simp add: budget_zero_def)
qed

lemma swap_reach_inv: "swap_reach h st \<Longrightarrow> heap_inv h \<Longrightarrow> swap_inv st"
proof (induction rule: swap_reach.induct)
  case start
  then show ?case by (simp add: swap_inv_zero)
next
  case (step st op st')
  then show ?case using swap_call_safe [of st op] by auto
qed

text \<open>
  C5: Whatever calls were made into the budget and swap layer since the tables were
  zeroed, the next call returns: the layer never hands free a pointer that is
  not a block in use and never walks a broken block list. Afterwards the heap is
  still well formed, every buffer in the slot table is a block in use and no two
  slots share a buffer.
\<close>
theorem swap_layer_safe:
  assumes "heap_inv h" "swap_reach h st"
  shows "\<exists>st'. swap_call op st = Some st' \<and> heap_inv (bheap st') \<and>
    (\<forall>i < 32. \<forall>x. slot_ptr st' i = Ptr x \<longrightarrow> x \<in> fst ` owned (bheap st')) \<and>
    (\<forall>i < 32. \<forall>j < 32. i \<noteq> j \<longrightarrow> slot_ptr st' i = slot_ptr st' j \<longrightarrow> slot_ptr st' i = NULL)"
  using swap_call_safe [OF swap_reach_inv [OF assms(2,1)], of op]
  by (auto simp: swap_inv_def tracked_def)

theorem swap_layer_witness:
  "\<exists>st'. swap_call (SwapAlloc 64 BUDGET_APP (Some \<lparr>in_use = False, ss_offset = 0, local_ptr = NULL, ss_size = 0, ss_region = 0\<rparr>))
     (budget_zero boot_heap) = Some st' \<and>
     heap_inv (bheap st')"
  using swap_layer_safe [OF boot_heap_facts(2) swap_reach.start, of "SwapAlloc 64 BUDGET_APP _"]
  by blast

section \<open>Run-length coding round trip\<close>

lemma run_count_props:
  "c \<le> 127 \<Longrightarrow> run_count r ys c \<le> 127 \<and> run_count r ys c \<le> c + length ys \<and>
     take (run_count r ys c - c) ys = replicate (run_count r ys c - c) r"
proof (induction r ys c rule: run_count.induct)
  case (2 r y ys c)
  then show ?case using run_count_ge [of "Suc c" r ys]
    by (cases "run_count r ys (Suc c) - c") (auto simp: take_Cons' diff_Suc)
qed auto

lemma run_count_split:
  assumes n: "n = run_count x xs 1"
  shows "1 \<le> n \<and> n \<le> 127 \<and> x # xs = replicate n x @ drop n (x # xs)"
proof -
  note p = run_count_props [of 1 x xs, folded n]
  have ge: "1 \<le> n" using run_count_ge [of 1 x xs] n by simp
  have "take n (x # xs) = replicate n x" using p ge by (cases n) auto
  then show ?thesis using p ge append_take_drop_id [of n "x # xs"] by auto
qed

lemma byte_table:
  "list_all (\<lambda>c. unat ((0x80 OR (of_nat c :: u8)) AND 0x7F) = c \<and>
     (0x80 OR (of_nat c :: u8)) AND 0x80 \<noteq> 0 \<and> (of_nat c :: u8) AND 0x80 = 0) [0..<128]"
  by code_simp

lemma run_byte:
  "c \<le> 127 \<Longrightarrow> unat ((0x80 OR (of_nat c :: u8)) AND 0x7F) = c \<and> (0x80 OR (of_nat c :: u8)) AND 0x80 \<noteq> 0"
  using byte_table by (simp add: list_all_iff)

lemma low_byte: "x < 0x80 \<Longrightarrow> (x :: u8) AND 0x80 = 0"
proof -
  assume "x < 0x80"
  then have "unat x \<in> set [0..<128]" by (simp add: word_less_nat_alt)
  then have "(of_nat (unat x) :: u8) AND 0x80 = 0" using byte_table unfolding list_all_iff by blast
  then show ?thesis by simp
qed

text \<open>
  The specification: the input cut into runs of at most 127 equal bytes, where a run of
  three or more is one piece of two coded bytes and every other byte a piece of one.
\<close>

definition run_length :: "u8 \<Rightarrow> u8 list \<Rightarrow> nat" where
  "run_length x xs = (let n = min 127 (Suc (length (takeWhile (\<lambda>y. y = x) xs))) in if n \<ge> 3 then n else 1)"

lemma run_length_bounds: "1 \<le> run_length x xs" "run_length x xs \<le> 127"
  by (auto simp: run_length_def Let_def)

lemma run_length_pos [simp]: "0 < run_length x xs"
  using run_length_bounds(1) [of x xs] by linarith

function pieces :: "u8 list \<Rightarrow> (nat \<times> u8) list" where
  "pieces [] = []"
| "pieces (x # xs) = (run_length x xs, x) # pieces (drop (run_length x xs) (x # xs))"
  by pat_completeness auto
termination by (relation "measure length") auto

definition piece_cost :: "nat \<times> u8 \<Rightarrow> nat" where
  "piece_cost t = (if fst t \<ge> 3 then 2 else 1)"

definition piece_code :: "nat \<times> u8 \<Rightarrow> u8 list" where
  "piece_code t = (if fst t \<ge> 3 then [0x80 OR of_nat (fst t), snd t] else [snd t])"

fun fitting :: "nat \<Rightarrow> nat \<Rightarrow> (nat \<times> u8) list \<Rightarrow> (nat \<times> u8) list" where
  "fitting len k [] = []"
| "fitting len k (t # ts) = (if k + 2 < len then t # fitting len (k + piece_cost t) ts else [])"

lemma run_count_eq: "run_count r ys c = (if c < 127 then min 127 (c + length (takeWhile (\<lambda>y. y = r) ys)) else c)"
  by (induction r ys c rule: run_count.induct) auto

lemma compress_pieces: "swap_compress_from len k s = concat (map piece_code (fitting len k (pieces s)))"
proof (induction len k s rule: swap_compress_from.induct)
  case (2 len k x xs)
  have c: "run_count x xs (Suc 0) = min 127 (Suc (length (takeWhile (\<lambda>y. y = x) xs)))" by (simp add: run_count_eq)
  show ?case
    using 2 by (auto simp: Let_def c run_length_def piece_code_def piece_cost_def)
qed simp

lemma piece_split: "x # xs = replicate (run_length x xs) x @ drop (run_length x xs) (x # xs)"
proof -
  define n where "n = min 127 (Suc (length (takeWhile (\<lambda>y. y = x) xs)))"
  have "n = run_count x xs 1" by (simp add: n_def run_count_eq)
  from run_count_split [OF this] have "x # xs = replicate n x @ drop n (x # xs)" by blast
  moreover have "run_length x xs = (if n \<ge> 3 then n else 1)" by (simp add: run_length_def n_def Let_def)
  ultimately show ?thesis by (cases "n \<ge> 3") simp_all
qed

lemma pieces_concat: "concat (map (\<lambda>(n, x). replicate n x) (pieces s)) = s"
proof (induction s rule: pieces.induct)
  case (2 x xs)
  then show ?case using piece_split [of x xs] by simp
qed simp

lemma run_length_short: "run_length x xs < 3 \<Longrightarrow> run_length x xs = 1"
  by (simp add: run_length_def Let_def split: if_splits)

lemma pieces_range: "t \<in> set (pieces s) \<Longrightarrow> 1 \<le> fst t \<and> fst t \<le> 127 \<and> snd t \<in> set s \<and> (fst t < 3 \<longrightarrow> fst t = 1)"
proof (induction s rule: pieces.induct)
  case (2 y ys)
  show ?case
  proof (cases "t = (run_length y ys, y)")
    case True
    then show ?thesis using run_length_bounds run_length_short by simp
  next
    case False
    then have "t \<in> set (pieces (drop (run_length y ys) (y # ys)))" using 2(2) by simp
    from 2(1) [OF this] show ?thesis by (blast dest: in_set_dropD)
  qed
qed simp

lemma decode_pieces:
  "\<forall>t\<in>set ts. 1 \<le> fst t \<and> fst t \<le> 127 \<and> snd t < 0x80 \<and> (fst t < 3 \<longrightarrow> fst t = 1) \<Longrightarrow>
     swap_decompress (concat (map piece_code ts)) = Some (concat (map (\<lambda>(n, x). replicate n x) ts))"
proof (induction ts)
  case (Cons t ts)
  obtain n x where t: "t = (n, x)" by (cases t)
  then show ?case using Cons run_byte [of n] low_byte [of x] by (auto simp: piece_code_def)
qed simp

lemma fitting_prefix: "\<exists>rest. ts = fitting len k ts @ rest"
  by (induction len k ts rule: fitting.induct) auto

lemma fitting_all: "fitting len k ts = ts \<longleftrightarrow> ts = [] \<or> k + sum_list (map piece_cost (butlast ts)) + 2 < len"
proof (induction len k ts rule: fitting.induct)
  case (2 len k t ts)
  then show ?case by (cases ts) auto
qed simp

lemma decode_fitting:
  assumes "\<forall>b\<in>set s. b < 0x80"
  shows "\<exists>d rest. swap_decompress (swap_compress_from len k s) = Some d \<and> s = d @ rest \<and>
    (d = s \<longleftrightarrow> s = [] \<or> k + sum_list (map piece_cost (butlast (pieces s))) + 2 < len)"
proof -
  let ?out = "\<lambda>ts. concat (map (\<lambda>(n, x). replicate n x) ts)"
  obtain rest where r: "pieces s = fitting len k (pieces s) @ rest" using fitting_prefix by blast
  then have sub: "set (fitting len k (pieces s)) \<subseteq> set (pieces s)" by (metis Un_upper1 set_append)
  have "swap_decompress (swap_compress_from len k s) = Some (?out (fitting len k (pieces s)))"
    unfolding compress_pieces by (rule decode_pieces) (use sub pieces_range assms in blast)
  moreover have s: "s = ?out (fitting len k (pieces s)) @ ?out rest"
    using pieces_concat [of s] by (subst (asm) r) simp
  moreover have "?out rest = [] \<longleftrightarrow> rest = []"
  proof (cases rest)
    case (Cons t ts)
    then have "t \<in> set (pieces s)" by (subst r) simp
    then have "1 \<le> fst t" using pieces_range by blast
    then show ?thesis using Cons by (cases t) auto
  qed simp
  moreover have "rest = [] \<longleftrightarrow> fitting len k (pieces s) = pieces s" using r by (metis append_Nil2 append_self_conv)
  moreover have "pieces s = [] \<longleftrightarrow> s = []" by (cases s) auto
  ultimately show ?thesis using fitting_all [of len k "pieces s"] by (metis append_Nil2 append_self_conv)
qed

lemma compress_length: "length (swap_compress_from len k s) + k \<le> max k (len - 1)"
proof (induction len k s rule: swap_compress_from.induct)
  case (2 len k x xs)
  then show ?case by (auto simp: Let_def)
qed simp

text \<open>
  C24: On 7-bit data the decoder inverts the coder up to truncation, and exactly when it
  loses nothing is decided: decoding the coded buffer always succeeds and gives a
  prefix of the input, and it gives the whole input if and only if the input is empty
  or the code of all its pieces but the last, plus two bytes, is shorter than the
  input. For any data the coded buffer is no longer than the input, so a
  destination of the input's size is never overrun.
\<close>
theorem swap_compress_roundtrip:
  "length (swap_compress s) \<le> length s \<and>
   ((\<forall>b \<in> set s. b < 0x80) \<longrightarrow>
      (\<exists>d rest. swap_decompress (swap_compress s) = Some d \<and> s = d @ rest \<and>
         (d = s \<longleftrightarrow> s = [] \<or> sum_list (map piece_cost (butlast (pieces s))) + 2 < length s)))"
proof (intro conjI impI)
  show "length (swap_compress s) \<le> length s" using compress_length [of "length s" 0 s] by (auto simp: swap_compress_def)
  assume "\<forall>b \<in> set s. b < 0x80"
  from decode_fitting [OF this, of "length s" 0]
  show "\<exists>d rest. swap_decompress (swap_compress s) = Some d \<and> s = d @ rest \<and>
         (d = s \<longleftrightarrow> s = [] \<or> sum_list (map piece_cost (butlast (pieces s))) + 2 < length s)"
    by (simp only: swap_compress_def add_0)
qed

theorem swap_compress_roundtrip_witness:
  "pieces [7, 7, 7, 7, 7, 7, 1, 2] = [(6, 7), (1, 1), (1, 2)] \<and>
   swap_decompress (swap_compress [7, 7, 7, 7, 7, 7, 1, 2]) = Some [7, 7, 7, 7, 7, 7, 1, 2]"
proof -
  let ?s = "[7, 7, 7, 7, 7, 7, 1, 2] :: u8 list"
  have p: "pieces ?s = [(6, 7), (1, 1), (1, 2)]" by (simp add: run_length_def)
  then have n: "sum_list (map piece_cost (butlast (pieces ?s))) + 2 < length ?s" by (simp only: butlast.simps) (simp add: piece_cost_def)
  have "\<forall>b\<in>set ?s. b < 0x80" by simp
  then obtain d where "swap_decompress (swap_compress ?s) = Some d" "d = ?s"
    using swap_compress_roundtrip [of ?s] n by blast
  then show ?thesis using p by (simp only:)
qed

lemma compress_no_runs:
  "\<forall>b \<in> set t. b < 0x80 \<Longrightarrow> \<forall>pre x post. t \<noteq> pre @ x # x # x # post \<Longrightarrow> m \<le> length t \<Longrightarrow>
     swap_decompress (swap_compress_from (k + 2 + m) k t) = Some (take m t)"
proof (induction t arbitrary: k m)
  case Nil
  then show ?case by simp
next
  case (Cons x xs)
  have lt: "run_count x xs 1 < 3"
  proof (rule ccontr)
    assume "\<not> run_count x xs 1 < 3"
    then obtain d where "run_count x xs 1 = 3 + d" by (metis le_Suc_ex not_less)
    then have "x # xs = [] @ x # x # x # (replicate d x @ drop (3 + d) (x # xs))"
      using run_count_split [of "run_count x xs 1" x xs] by (simp add: numeral_3_eq_3)
    then show False using Cons.prems(2) by blast
  qed
  have xs: "\<forall>pre y post. xs \<noteq> pre @ y # y # y # post" using Cons.prems(2) by (metis append_Cons)
  show ?case
  proof (cases m)
    case (Suc m')
    then have "swap_decompress (swap_compress_from (Suc k + 2 + m') (Suc k) xs) = Some (take m' xs)"
      using Cons.IH [of m' "Suc k"] xs Cons.prems by auto
    then show ?thesis using lt Suc low_byte [of x] Cons.prems(1) by (simp add: Let_def)
  qed simp
qed

text \<open>
  A buffer that contains no run of three equal bytes loses its last two bytes:
  the coder stops two bytes before the end of its output, so decoding gives the
  input without them.
\<close>
theorem swap_compress_drops_tail:
  assumes "\<forall>b \<in> set s. b < 0x80" and "\<forall>pre x post. s \<noteq> pre @ x # x # x # post"
  shows "swap_decompress (swap_compress s) = Some (take (length s - 2) s)"
proof -
  show ?thesis
  proof (cases "length s \<ge> 2")
    case True
    then have "0 + 2 + (length s - 2) = length s" by simp
    then show ?thesis
      using compress_no_runs [OF assms, of "length s - 2" 0] by (simp add: swap_compress_def)
  next
    case False
    then show ?thesis by (cases s) (auto simp: swap_compress_def)
  qed
qed

theorem swap_compress_drops_tail_witness:
  "swap_decompress (swap_compress [1, 2, 3, 4]) = Some [1, 2]"
proof -
  have "\<forall>pre x post. [1, 2, 3, 4 :: u8] \<noteq> pre @ x # x # x # post"
    by (auto simp: Cons_eq_append_conv)
  then show ?thesis using swap_compress_drops_tail [of "[1, 2, 3, 4]"] by simp
qed

end
