(* ===== verification/Quantum.thy ===== *)
theory Quantum
  imports Mem_Budget Transport Console
begin

text \<open>
  The profile manager of \<^verbatim>\<open>src/quantum/observer.c\<close>, the sound modes of \<^verbatim>\<open>eigenmode.c\<close>,
  the controller pairing of \<^verbatim>\<open>entangle.c\<close>, the clock synchronisation of \<^verbatim>\<open>phase_sync.c\<close>
  and the configuration check of \<^verbatim>\<open>config_wf.c\<close>. A profile name is kept as its byte array,
  because one path leaves it without a terminator.
\<close>

section \<open>State\<close>

definition QUANTUM_PROFILE_MAX :: nat where "QUANTUM_PROFILE_MAX = 4"
definition QUANTUM_NAME_MAX :: nat where "QUANTUM_NAME_MAX = 16"

record quantum_profile =
  qp_name :: "char list"
  qp_weight :: u8
  qp_collapsed :: bool
  qp_ram_cost_kb :: u32

record quantum_state =
  q_profiles :: "quantum_profile list"
  q_profile_count :: nat
  q_active :: string
  q_coherence :: u8

section \<open>observer.c\<close>

definition quantum_init :: "quantum_state \<Rightarrow> quantum_state" where
  "quantum_init q =
     \<lparr>q_profiles = map (\<lambda>p. \<lparr>qp_name = (qp_name p)[0 := NUL], qp_weight = 0, qp_collapsed = False, qp_ram_cost_kb = 0\<rparr>) (q_profiles q),
      q_profile_count = 0, q_active = [], q_coherence = 200\<rparr>"

definition quantum_coherence :: "quantum_state \<Rightarrow> u8" where
  "quantum_coherence q = q_coherence q"

definition quantum_observe :: "string option \<Rightarrow> quantum_state \<Rightarrow> budget \<Rightarrow> quantum_state \<times> budget \<times> kout list \<times> int" where
  "quantum_observe subsys q b =
     (case subsys of None \<Rightarrow> (q, b, [], - 1)
      | Some s \<Rightarrow>
          (if q_coherence q > 10 then q\<lparr>q_coherence := q_coherence q - 5\<rparr> else q,
           fst (memory_budget_alloc BUDGET_APP (256 * 1024) b),
           [Kprintf ''observe: %s collapsed into RAM\<newline>'' [StrArg s]], 0))"

definition quantum_collapse :: "string option \<Rightarrow> quantum_state \<Rightarrow> quantum_state \<times> kout list \<times> int" where
  "quantum_collapse profile q =
     (case profile of None \<Rightarrow> (q, [], - 1)
      | Some s \<Rightarrow>
          (case List.find (\<lambda>i. qp_name (q_profiles q ! i) ! 0 = char_at s 0) [0..<q_profile_count q] of
             None \<Rightarrow> (q, [], - 1)
           | Some i \<Rightarrow>
               (q\<lparr>q_profiles := (q_profiles q)[i := (q_profiles q ! i)\<lparr>qp_collapsed := True\<rparr>],
                  q_active := str_copy QUANTUM_NAME_MAX s\<rparr>,
                [Kprintf ''collapse: profile %s active\<newline>'' [StrArg s]], 0)))"

definition superposed_name :: "string \<Rightarrow> char list \<Rightarrow> char list" where
  "superposed_name a buf =
     (let n = str_copy QUANTUM_NAME_MAX a; i = length n;
          b = n @ [CHR ''+''] @ (if i < QUANTUM_NAME_MAX - 1 then [NUL] else [])
      in b @ drop (length b) buf)"

definition quantum_superpose :: "string option \<Rightarrow> string option \<Rightarrow> u8 \<Rightarrow> quantum_state \<Rightarrow> quantum_state \<times> kout list \<times> int" where
  "quantum_superpose a b weight q =
     (case (a, b) of
        (Some s, Some t) \<Rightarrow>
          if q_profile_count q \<ge> QUANTUM_PROFILE_MAX then (q, [], - 1)
          else
            let i = q_profile_count q; p = q_profiles q ! i
            in (q\<lparr>q_profiles := (q_profiles q)[i := p\<lparr>qp_name := superposed_name s (qp_name p), qp_weight := weight, qp_collapsed := False\<rparr>],
                  q_profile_count := i + 1\<rparr>,
                [Kprintf ''superpose: %s | %s weight=%u\<newline>'' [StrArg s, StrArg t, IntArg (ucast weight)]], 0)
      | _ \<Rightarrow> (q, [], - 1))"

text \<open>The text \<^verbatim>\<open>quantum_status\<close> writes; \<open>None\<close> is the result -1.\<close>

definition quantum_status :: "int \<Rightarrow> quantum_state \<Rightarrow> string option" where
  "quantum_status mx q =
     (if mx < 16 then None
      else Some (''coh='' @ (if q_coherence q \<ge> 100 then ''1'' else []) @
                 [char_of (48 + unat (q_coherence q) div 10 mod 10), char_of (48 + unat (q_coherence q) mod 10)]))"

section \<open>eigenmode.c\<close>

definition MODES :: nat where "MODES = 3"

definition mode_names :: "string list" where
  "mode_names = [''bass'', ''melody'', ''ambience'']"

definition mode_gain_init :: "u8 list" where
  "mode_gain_init = [255, 255, 255]"

definition quantum_measure_mode :: "int \<Rightarrow> u8 list \<Rightarrow> u8 list \<times> kout list \<times> int" where
  "quantum_measure_mode mode gain =
     (if mode < 0 \<or> mode \<ge> int MODES then (gain, [], - 1)
      else (gain[nat mode := 0], [Kprintf ''measure: %s muted\<newline>'' [StrArg (mode_names ! nat mode)]], 0))"

definition quantum_interfere_modes :: "int \<Rightarrow> int \<Rightarrow> u8 list \<Rightarrow> u8 list \<times> kout list \<times> int" where
  "quantum_interfere_modes a b gain =
     (if a < 0 \<or> a \<ge> int MODES \<or> b < 0 \<or> b \<ge> int MODES then (gain, [], - 1)
      else
        let avg = of_nat ((unat (gain ! nat a) + unat (gain ! nat b)) div 2)
        in (gain[nat b := avg, nat a := avg],
            [Kprintf ''interfere: %s + %s\<newline>'' [StrArg (mode_names ! nat a), StrArg (mode_names ! nat b)]], 0))"

section \<open>entangle.c\<close>

definition quantum_entangle_input :: "int \<Rightarrow> int \<Rightarrow> int \<times> int \<Rightarrow> (int \<times> int) \<times> kout list \<times> int" where
  "quantum_entangle_input pad_a pad_b e =
     ((pad_a, pad_b), [Kprintf ''entangle: pad%d <-> pad%d\<newline>'' [IntArg (word_of_int pad_a), IntArg (word_of_int pad_b)]], 0)"

definition quantum_decohere :: "int \<Rightarrow> int \<times> int \<Rightarrow> (int \<times> int) \<times> kout list \<times> int" where
  "quantum_decohere pad e =
     (if fst e = pad \<or> snd e = pad
      then ((- 1, - 1), [Kprintf ''decohere: pad%d\<newline>'' [IntArg (word_of_int pad)]], 0)
      else (e, [], - 1))"

section \<open>phase\_sync.c\<close>

record phase_sync =
  phase :: "u8 list"
  omega :: "u8 list"
  coupling :: u8
  node_count :: nat

definition phase_sync_zero :: phase_sync where
  "phase_sync_zero = \<lparr>phase = replicate 8 0, omega = replicate 8 0, coupling = 128, node_count = 1\<rparr>"

definition quantum_set_coupling :: "u8 \<Rightarrow> phase_sync \<Rightarrow> phase_sync" where
  "quantum_set_coupling k s = s\<lparr>coupling := k\<rparr>"

definition phase_diff :: "u8 \<Rightarrow> u8 \<Rightarrow> int" where
  "phase_diff pj pi =
     (let d = uint pj - uint pi;
          d1 = (if d > 128 then d - 256 else d)
      in if d1 < - 128 then d1 + 256 else d1)"

text \<open>Division of signed integers truncates towards zero.\<close>

definition c_div :: "int \<Rightarrow> int \<Rightarrow> int" where
  "c_div a b = sgn a * sgn b * (\<bar>a\<bar> div \<bar>b\<bar>)"

definition sync_node :: "nat \<Rightarrow> phase_sync \<Rightarrow> phase_sync" where
  "sync_node i s =
     (let sum = (\<Sum>j\<leftarrow>[0..<node_count s]. if i = j then 0 else phase_diff (phase s ! j) (phase s ! i));
          delta = c_div (uint (coupling s) * sum) (256 * int (node_count s))
      in s\<lparr>phase := (phase s)[i := word_of_int (uint (phase s ! i) + uint (omega s ! i) + delta)]\<rparr>)"

definition quantum_phase_sync_tick ::
  "'w net_ops \<Rightarrow> phase_sync \<Rightarrow> transport \<Rightarrow> 'w \<Rightarrow> (phase_sync \<times> transport \<times> 'w) option" where
  "quantum_phase_sync_tick ops s t w =
     map_option (Pair (fold sync_node [0..<node_count s] s)) (transport_tick ops t w)"

definition quantum_tick ::
  "'w net_ops \<Rightarrow> quantum_state \<Rightarrow> phase_sync \<Rightarrow> transport \<Rightarrow> 'w \<Rightarrow> (quantum_state \<times> phase_sync \<times> transport \<times> 'w) option" where
  "quantum_tick ops q s t w =
     map_option (Pair (if q_coherence q < 255 then q\<lparr>q_coherence := q_coherence q + 1\<rparr> else q))
       (quantum_phase_sync_tick ops s t w)"

section \<open>config\_wf.c\<close>

definition quantum_load_config_wf :: "char list option \<Rightarrow> u32 \<Rightarrow> kout list \<times> int" where
  "quantum_load_config_wf data len =
     (case data of None \<Rightarrow> ([], - 1)
      | Some p \<Rightarrow>
          if len < 8 then ([], - 1)
          else if p ! 0 \<noteq> CHR ''W'' \<or> p ! 1 \<noteq> CHR ''F'' then ([], - 1)
          else ([Kprint ''config.wf: wavefunction loaded\<newline>''], 0))"

section \<open>The profile table and the coherence stay in range\<close>

definition profiles_ok :: "quantum_state \<Rightarrow> bool" where
  "profiles_ok q \<longleftrightarrow> length (q_profiles q) = QUANTUM_PROFILE_MAX \<and> (\<forall>p\<in>set (q_profiles q). length (qp_name p) = QUANTUM_NAME_MAX)"

definition quantum_ok :: "quantum_state \<Rightarrow> bool" where
  "quantum_ok q \<longleftrightarrow> profiles_ok q \<and> q_profile_count q \<le> QUANTUM_PROFILE_MAX \<and> q_coherence q \<ge> 6 \<and>
     length (q_active q) < QUANTUM_NAME_MAX"

inductive quantum_moves :: "'w net_ops \<Rightarrow> quantum_state \<Rightarrow> quantum_state \<Rightarrow> bool" for ops where
  observe: "quantum_observe s q b = (q', b', outs, rc) \<Longrightarrow> quantum_moves ops q q'"
| collapse: "quantum_collapse s q = (q', outs, rc) \<Longrightarrow> quantum_moves ops q q'"
| superpose: "quantum_superpose s t weight q = (q', outs, rc) \<Longrightarrow> quantum_moves ops q q'"
| tick: "quantum_tick ops q ph tr w = Some (q', ph', tr', w') \<Longrightarrow> quantum_moves ops q q'"

lemma superposed_length: "length buf = QUANTUM_NAME_MAX \<Longrightarrow> length (superposed_name a buf) = QUANTUM_NAME_MAX"
  using str_copy_length [of QUANTUM_NAME_MAX a] by (auto simp: superposed_name_def Let_def QUANTUM_NAME_MAX_def)

lemma profiles_update:
  "profiles_ok q \<Longrightarrow> length (qp_name p) = QUANTUM_NAME_MAX \<Longrightarrow> profiles_ok (q\<lparr>q_profiles := (q_profiles q)[i := p]\<rparr>)"
  using set_update_subset_insert [of "q_profiles q" i p] by (auto simp: profiles_ok_def)

lemma quantum_init_ok: "profiles_ok q \<Longrightarrow> quantum_ok (quantum_init q)"
  by (auto simp: quantum_ok_def profiles_ok_def quantum_init_def QUANTUM_NAME_MAX_def)

lemma quantum_moves_ok:
  assumes "quantum_moves ops q q'" "quantum_ok q"
  shows "quantum_ok q'"
  using assms
proof cases
  case (observe s b b' outs rc)
  have "6 \<le> q_coherence q - 5" if "q_coherence q > 10"
    using that by (simp add: word_le_nat_alt word_less_nat_alt unat_sub_if')
  then show ?thesis using observe assms(2)
    by (auto simp: quantum_observe_def quantum_ok_def profiles_ok_def split: option.splits if_splits)
next
  case (collapse s outs rc)
  show ?thesis
  proof (cases "q' = q")
    case False
    then obtain i t where i: "i < q_profile_count q" and
      q': "q' = q\<lparr>q_profiles := (q_profiles q)[i := (q_profiles q ! i)\<lparr>qp_collapsed := True\<rparr>], q_active := str_copy QUANTUM_NAME_MAX t\<rparr>"
      using collapse by (auto simp: quantum_collapse_def find_Some_iff split: option.splits)
    have "length (qp_name (q_profiles q ! i)) = QUANTUM_NAME_MAX"
      using i assms(2) by (simp add: quantum_ok_def profiles_ok_def)
    then show ?thesis using assms(2) profiles_update [of q "(q_profiles q ! i)\<lparr>qp_collapsed := True\<rparr>" i] str_copy_length [of QUANTUM_NAME_MAX t]
      by (simp add: q' quantum_ok_def profiles_ok_def QUANTUM_NAME_MAX_def)
  qed (use assms in simp)
next
  case (superpose s t weight outs rc)
  show ?thesis
  proof (cases "q' = q")
    case False
    let ?i = "q_profile_count q"
    from False superpose obtain a where i: "?i < QUANTUM_PROFILE_MAX" and
      q': "q' = q\<lparr>q_profiles := (q_profiles q)[?i := (q_profiles q ! ?i)
             \<lparr>qp_name := superposed_name a (qp_name (q_profiles q ! ?i)), qp_weight := weight, qp_collapsed := False\<rparr>],
             q_profile_count := ?i + 1\<rparr>"
      by (auto simp: quantum_superpose_def Let_def split: option.splits if_splits)
    have "length (qp_name (q_profiles q ! ?i)) = QUANTUM_NAME_MAX"
      using i assms(2) by (simp add: quantum_ok_def profiles_ok_def)
    note l = superposed_length [OF this, of a]
    show ?thesis using assms(2) i l
        profiles_update [of q "(q_profiles q ! ?i)\<lparr>qp_name := superposed_name a (qp_name (q_profiles q ! ?i)), qp_weight := weight, qp_collapsed := False\<rparr>" ?i]
      by (simp add: q' quantum_ok_def profiles_ok_def)
  qed (use assms in simp)
next
  case (tick ph tr w ph' tr' w')
  have "6 \<le> q_coherence q + 1" if "6 \<le> q_coherence q" "q_coherence q < 255"
    using that by (simp add: word_le_nat_alt word_less_nat_alt unat_word_ariths)
  then show ?thesis using tick assms(2) by (auto simp: quantum_tick_def quantum_ok_def profiles_ok_def split: if_splits)
qed

text \<open>
  C35: From initialisation on, whatever observe, collapse, superpose and tick calls follow,
  the table keeps at most four profiles with names inside their arrays, the coherence
  never falls below 6, and the status text fits in the sixteen bytes
  \<^verbatim>\<open>quantum_status\<close> asks for.
\<close>

theorem quantum_bounds:
  assumes "profiles_ok q0" "(quantum_moves ops)\<^sup>*\<^sup>* (quantum_init q0) q"
  shows "quantum_ok q \<and> (\<exists>txt. quantum_status 16 q = Some txt \<and> length txt \<le> 7)"
proof -
  have "quantum_ok q" using assms(2)
    by (induction rule: rtranclp_induct) (auto intro: quantum_init_ok [OF assms(1)] quantum_moves_ok)
  then show ?thesis by (simp add: quantum_status_def)
qed

definition quantum_zero :: quantum_state where
  "quantum_zero =
     \<lparr>q_profiles = replicate QUANTUM_PROFILE_MAX
        \<lparr>qp_name = replicate QUANTUM_NAME_MAX NUL, qp_weight = 0, qp_collapsed = False, qp_ram_cost_kb = 0\<rparr>,
      q_profile_count = 0, q_active = [], q_coherence = 0\<rparr>"

theorem quantum_bounds_witness:
  "quantum_ok (fst (quantum_collapse (Some ''azure'') (fst (quantum_superpose (Some ''alpha'') (Some ''beta'') 128 (quantum_init quantum_zero)))))"
  (is "quantum_ok ?q2")
proof -
  let ?q1 = "fst (quantum_superpose (Some ''alpha'') (Some ''beta'') 128 (quantum_init quantum_zero))"
  define ops :: "unit net_ops" where "ops = \<lparr>no_send = (\<lambda>_ w. (w, 0)), no_recv = (\<lambda>_ w. (w, 0, [])), no_ip = (\<lambda>_. 0), no_ticks = (\<lambda>w. (w, 0)), no_delay = (\<lambda>w. w)\<rparr>"
  have "profiles_ok quantum_zero" by (simp add: profiles_ok_def quantum_zero_def)
  moreover have "(quantum_moves ops)\<^sup>*\<^sup>* (quantum_init quantum_zero) ?q2"
    by (rule rtranclp.rtrancl_into_rtrancl [OF r_into_rtranclp])
      (rule quantum_moves.superpose [OF surjective_pairing [THEN trans [OF _ arg_cong [of _ _ "Pair _", OF surjective_pairing]]]],
       rule quantum_moves.collapse [OF surjective_pairing [THEN trans [OF _ arg_cong [of _ _ "Pair _", OF surjective_pairing]]]])
  ultimately show ?thesis using quantum_bounds by blast
qed

text \<open>
  What the profile commands really do: a profile is found by its first letter only; a name of
  fifteen or more characters is stored without a terminator; and a coherence of 200 or
  more is reported with the wrong hundreds digit.
\<close>

lemma collapse_first_letter:
  "quantum_collapse (Some s) q = (q', outs, rc) \<Longrightarrow>
   rc = (if \<exists>i<q_profile_count q. qp_name (q_profiles q ! i) ! 0 = char_at s 0 then 0 else - 1)"
  by (auto simp: quantum_collapse_def find_None_iff find_Some_iff split: option.splits)

lemma long_name_unterminated:
  assumes "length (cstr a) \<ge> 15" "length buf = QUANTUM_NAME_MAX"
  shows "NUL \<notin> set (superposed_name a buf)"
proof -
  have "length (str_copy 16 a) = 15" using assms(1) by (simp add: str_copy_take)
  moreover have "NUL \<notin> set (str_copy 16 a)" by (metis cstr_no_nul cstr_str_copy)
  ultimately show ?thesis using assms(2) by (simp add: superposed_name_def QUANTUM_NAME_MAX_def Let_def)
qed

lemma status_of_200: "q_coherence q = 200 \<Longrightarrow> quantum_status 96 q = Some ''coh=100''"
  by (simp add: quantum_status_def char_of_def bit_Suc_0_iff)

end
