(* ===== verification/Machine.thy ===== *)
theory Machine
  imports Sched Games Party Streaming Devices Media Quantum
begin

text \<open>
  The whole machine of the x86 build: the state of every component in one record, the
  hardware below it, and how a component's operation acts on that record. In the sources the
  components are files with static variables; what they share (the transport session, the
  heap, the device) is shared here by the lifting functions. The theory also holds
  \<^verbatim>\<open>platform/x86/hal_system.c\<close>, the small assembly routines it calls, and the file list
  of \<^verbatim>\<open>platform/x86/hal_storage.c\<close>, which prints.
\<close>

unbundle bit_operations_syntax

section \<open>Hardware and state\<close>

text \<open>
  The ports and the disk, the clock (\<^verbatim>\<open>rdtsc\<close>), one \<^verbatim>\<open>pause\<close> instruction, the memory size
  the boot loader left, and two things the code reads that it did not write: the bytes at
  the return address of \<^verbatim>\<open>sys_exit\<close> (see \<^verbatim>\<open>cmd_exit\<close>) and the stack buffer of
  \<^verbatim>\<open>net_icmp_ping\<close>.
\<close>

record 'w hardware =
  hw_ports :: "'w port_io"
  hw_disk :: "'w sector_io"
  hw_clock :: "'w \<Rightarrow> 'w \<times> u32"
  hw_pause :: "'w \<Rightarrow> 'w"
  hw_mem_mb :: u32
  hw_code :: string
  hw_packet :: "u8 list"

record 'w machine =
  m_world :: 'w
  m_console :: console
  m_budget :: budget
  m_sched :: sched
  m_fs :: fat_fs
  m_hal_net :: hal_net
  m_net :: net_state
  m_streams :: "net_stream list"
  m_transport :: transport
  m_party :: party
  m_streaming :: streaming
  m_storage :: storage
  m_card :: mem_card
  m_saves :: save_manager
  m_pause :: pause_engine
  m_games :: game_system
  m_music :: music
  m_led :: led
  m_bt :: bluetooth
  m_remap :: remap
  m_quantum :: quantum_state
  m_phase :: phase_sync
  m_pads :: "int \<times> int"
  m_tick_ms :: u32
  m_pad_shift :: bool
  m_shift_down :: bool
  m_halted :: bool

section \<open>Platform functions\<close>

definition detect_ps2_memory :: "'w hardware \<Rightarrow> u32" where
  "detect_ps2_memory hw = (if hw_mem_mb hw \<noteq> 0 then hw_mem_mb hw else 32)"

definition get_memory_info :: "'w hardware \<Rightarrow> u32" where
  "get_memory_info hw = push_bit 10 (detect_ps2_memory hw)"

definition sys_get_memory_size :: "'w hardware \<Rightarrow> u32" where
  "sys_get_memory_size hw = get_memory_info hw"

definition sys_timer_init :: "'w hardware \<Rightarrow> 'w \<Rightarrow> 'w" where
  "sys_timer_init hw w =
     (let io = hw_ports hw; ax = 11932 :: u16
      in outb io 0x40 (ucast (drop_bit 8 ax)) (outb io 0x40 (ucast ax) (outb io 0x43 0x34 w)))"

definition plat_init :: "'w hardware \<Rightarrow> 'w machine \<Rightarrow> 'w machine" where
  "plat_init hw m = m\<lparr>m_tick_ms := 0, m_world := sys_timer_init hw (m_world m)\<rparr>"

definition plat_model_string :: string where
  "plat_model_string = ''ASMOS x86 (QEMU/Modchip CD)''"

definition plat_mem_total_kb :: "'w hardware \<Rightarrow> u32" where
  "plat_mem_total_kb hw = (let mb = detect_ps2_memory hw in (if mb = 0 then 32 else mb) * 1024)"

definition plat_mem_used_kb :: "'w hardware \<Rightarrow> 'w machine \<Rightarrow> u32 option" where
  "plat_mem_used_kb hw m =
     map_option (\<lambda>pct. (plat_mem_total_kb hw * pct) div 100) (get_memory_usage_percent (bheap (m_budget m)))"

definition plat_mem_free_kb :: "'w hardware \<Rightarrow> 'w machine \<Rightarrow> u32 option" where
  "plat_mem_free_kb hw m =
     map_option (\<lambda>u. let t = plat_mem_total_kb hw in if u < t then t - u else 0) (plat_mem_used_kb hw m)"

definition plat_ticks_ms :: "'w hardware \<Rightarrow> 'w \<Rightarrow> 'w \<times> u32" where
  "plat_ticks_ms hw w = hw_clock hw w"

text \<open>
  The delay pauses the processor; the counter \<^verbatim>\<open>tick_ms\<close> it adds to is left out, because nothing in the
  x86 sources reads it.
\<close>

definition plat_delay_ms :: "'w hardware \<Rightarrow> u32 \<Rightarrow> 'w \<Rightarrow> 'w" where
  "plat_delay_ms hw ms w = (hw_pause hw ^^ unat (ms * 1000)) w"

text \<open>The reset: after it the processor stops, and nothing of the caller runs.\<close>

definition system_reboot :: "'w hardware \<Rightarrow> 'w machine \<Rightarrow> 'w machine" where
  "system_reboot hw m = m\<lparr>m_world := outb (hw_ports hw) 0xCF9 0x06 (m_world m), m_halted := True\<rparr>"

definition plat_reboot :: "'w hardware \<Rightarrow> 'w machine \<Rightarrow> 'w machine" where
  "plat_reboot hw m = system_reboot hw m"

definition plat_temp_celsius :: "int \<times> int" where
  "plat_temp_celsius = (45, 0)"

definition sys_sound_init :: "'w hardware \<Rightarrow> 'w \<Rightarrow> 'w" where
  "sys_sound_init hw w = (case inb (hw_ports hw) 0x61 w of (w1, v) \<Rightarrow> outb (hw_ports hw) 0x61 (v OR 1) w1)"

definition init_ps2_controllers :: "'w hardware \<Rightarrow> 'w \<Rightarrow> 'w" where
  "init_ps2_controllers hw w = fold (outb (hw_ports hw) 0x64) [0xAD, 0xAE, 0xA7, 0xA8] w"

section \<open>Operations of the components on the machine\<close>

text \<open>What the network code sees: the driver, the clock, and a delay of one millisecond.\<close>

definition net_of :: "'w hardware \<Rightarrow> 'w machine \<Rightarrow> 'w net_ops" where
  "net_of hw m = x86_net_ops (hw_ports hw) (m_hal_net m) (plat_ticks_ms hw) (plat_delay_ms hw 1)"

text \<open>The party and streaming code use the one transport session of the machine.\<close>

definition get_party :: "'w machine \<Rightarrow> party" where
  "get_party m = (m_party m)\<lparr>p_transport := m_transport m\<rparr>"

definition set_party :: "party \<Rightarrow> 'w \<Rightarrow> 'w machine \<Rightarrow> 'w machine" where
  "set_party p w m = m\<lparr>m_party := p, m_transport := p_transport p, m_world := w\<rparr>"

definition get_streaming :: "'w machine \<Rightarrow> streaming" where
  "get_streaming m = (m_streaming m)\<lparr>s_transport := m_transport m\<rparr>"

definition set_streaming :: "streaming \<Rightarrow> 'w machine \<Rightarrow> 'w machine" where
  "set_streaming g m = m\<lparr>m_streaming := g, m_transport := s_transport g\<rparr>"

definition get_files :: "'w hardware \<Rightarrow> 'w machine \<Rightarrow> 'w x86_fs" where
  "get_files hw m = (hw_disk hw, m_fs m, m_world m)"

definition set_files :: "'w x86_fs \<Rightarrow> 'w machine \<Rightarrow> 'w machine" where
  "set_files st m = (case st of (io, fs, w) \<Rightarrow> m\<lparr>m_fs := fs, m_world := w\<rparr>)"

text \<open>
  A command runs on the machine and says what it prints; a fault or a loop that does not
  end is \<open>None\<close>. \<open>andthen\<close> runs one after the other.
\<close>

type_synonym 'w action = "'w machine \<Rightarrow> ('w machine \<times> kout list) option"

definition say :: "kout list \<Rightarrow> 'w action" where
  "say outs m = Some (m, outs)"

definition andthen :: "'w action \<Rightarrow> 'w action \<Rightarrow> 'w action" where
  "andthen a b m =
     (case a m of None \<Rightarrow> None | Some (m1, outs1) \<Rightarrow> map_option (\<lambda>(m2, outs2). (m2, outs1 @ outs2)) (b m1))"

definition plat_net_shutdown :: "'w machine \<Rightarrow> 'w machine" where
  "plat_net_shutdown m = m\<lparr>m_net := net_shutdown (m_net m), m_hal_net := (m_hal_net m)\<lparr>hn_ready := False\<rparr>\<rparr>"

section \<open>The list of blocks\<close>

text \<open>
  What \<^verbatim>\<open>print_memory_state\<close> prints; \<open>pool\<close> is the address of the heap. The print
  routine knows neither \<^verbatim>\<open>%p\<close> nor \<^verbatim>\<open>%zu\<close>, and takes the address for the \<^verbatim>\<open>%d\<close> of the
  free flag.
\<close>

definition pointer_arg :: "u32 \<Rightarrow> int option \<Rightarrow> karg" where
  "pointer_arg pool a = IntArg (case a of None \<Rightarrow> 0 | Some x \<Rightarrow> pool + word_of_int x)"

partial_function (option) block_lines :: "u32 \<Rightarrow> (int \<Rightarrow> mem_block option) \<Rightarrow> int option \<Rightarrow> kout list option" where
  "block_lines pool H current =
     (case current of
        None \<Rightarrow> Some []
      | Some a \<Rightarrow>
          (case H a of
             None \<Rightarrow> None
           | Some b \<Rightarrow>
               Option.bind (block_lines pool H (mb_next b)) (\<lambda>ls. Some (Kprintf ''Block %p - size: %zu, free: %d, next: %p\<newline>''
                   [pointer_arg pool (Some a), IntArg (mb_size b), IntArg (if mb_free b then 1 else 0), pointer_arg pool (mb_next b)] # ls))))"

definition print_memory_state :: "u32 \<Rightarrow> 'w machine \<Rightarrow> kout list option" where
  "print_memory_state pool m =
     (let h = bheap (m_budget m)
      in map_option (\<lambda>ls. [Kprint ''Memory State:\<newline>''] @ ls @ [Kprint ''\<newline>'']) (block_lines pool (headers h) (free_list h)))"

section \<open>The list of files\<close>

definition fat12_list_files :: "'w hardware \<Rightarrow> 'w machine \<Rightarrow> 'w machine \<times> kout list" where
  "fat12_list_files hw m =
     (case plat_fs_list (hw_disk hw) 32 (m_fs m) (m_world m) of
        (fs, w, None) \<Rightarrow> (m\<lparr>m_fs := fs, m_world := w\<rparr>, [Kprint ''  fs: list failed\<newline>''])
      | (fs, w, Some files) \<Rightarrow>
          (m\<lparr>m_fs := fs, m_world := w\<rparr>,
           map (\<lambda>f. Kprintf ''  %-12s %6u bytes\<newline>'' [StrArg (fi_name f), IntArg (fi_size f)]) files @
           [Kprintf ''  %d file(s)\<newline>'' [IntArg (of_nat (length files))]]))"

section \<open>The machine when the kernel is entered\<close>

text \<open>
  All static variables have their initial values (the games are modelled from their
  initialised states, which every launch sets again); \<open>w\<close> is the state of the hardware.
\<close>

definition machine_zero :: "'w \<Rightarrow> 'w machine" where
  "machine_zero w =
     \<lparr>m_world = w, m_console = \<lparr>vga_buffer = replicate 2000 0, cursor_row = 0, cursor_col = 0\<rparr>,
      m_budget = budget_zero \<lparr>headers = (\<lambda>_. None), bytes = (\<lambda>_. 0), free_list = None\<rparr>,
      m_sched = sched_zero \<lparr>headers = (\<lambda>_. None), bytes = (\<lambda>_. 0), free_list = None\<rparr>,
      m_fs = fat_fs_zero, m_hal_net = \<lparr>hn_ready = False, our_ip = 0, our_mask = 0\<rparr>, m_net = net_zero,
      m_streams = replicate 2 \<lparr>ns_host = 0, ns_port = 0, ns_open = False\<rparr>, m_transport = transport_zero,
      m_party = party_zero, m_streaming = streaming_zero, m_storage = \<lparr>devices = [], st_initialized = False\<rparr>,
      m_card = mem_card_zero,
      m_saves = \<lparr>sm_slot_count = 0, backup_buf = replicate SAVE_BACKUP_SIZE 0, backup_name = [], backup_size = 0, backup_version = 0\<rparr>,
      m_pause = \<lparr>whitelist = [], compat_db = [], pe_inited = False\<rparr>,
      m_games = game_system_zero\<lparr>gs_fb := replicate 64000 0\<rparr>, m_music = music_init, m_led = led_zero,
      m_bt = \<lparr>bt_initialized = False, controller_map = replicate BT_LOGICAL_BUTTONS 0, bt_profiles = [], bt_profile_count = 0,
              paired_devices = [], paired_count = 0\<rparr>,
      m_remap = remap_zero, m_quantum = quantum_zero, m_phase = phase_sync_zero, m_pads = (- 1, - 1), m_tick_ms = 0,
      m_pad_shift = False, m_shift_down = False, m_halted = False\<rparr>"

end
