(* ===== verification/Registry.thy ===== *)
theory Registry
  imports Machine
begin

text \<open>
  The table of subsystems of \<^verbatim>\<open>src/subsys/registry.c\<close>: initialisation and tick of all of
  them in the order of the table, their capabilities, and the status line.
\<close>

unbundle bit_operations_syntax

section \<open>The subsystems\<close>

datatype subsys_id =
    SUBSYS_CORE | SUBSYS_STORAGE | SUBSYS_NET | SUBSYS_INPUT | SUBSYS_AUDIO | SUBSYS_VIDEO | SUBSYS_IOP
  | SUBSYS_PARTY | SUBSYS_QUANTUM

definition SUBSYS_COUNT :: nat where "SUBSYS_COUNT = 9"

definition CAP_NONE :: u32 where "CAP_NONE = 0x00000000"
definition CAP_STORAGE :: u32 where "CAP_STORAGE = 0x00000001"
definition CAP_NET_RAW :: u32 where "CAP_NET_RAW = 0x00000002"
definition CAP_INPUT :: u32 where "CAP_INPUT = 0x00000008"
definition CAP_AUDIO :: u32 where "CAP_AUDIO = 0x00000010"
definition CAP_VIDEO :: u32 where "CAP_VIDEO = 0x00000020"
definition CAP_IOP :: u32 where "CAP_IOP = 0x00000040"
definition CAP_QUANTUM :: u32 where "CAP_QUANTUM = 0x00000080"

text \<open>
  An entry: \<^verbatim>\<open>init\<close> and \<^verbatim>\<open>status\<close> with their results, and \<^verbatim>\<open>tick\<close>, which may be absent and may
  fault. A status function gets the size of its buffer; \<open>None\<close> is a write outside it, and
  the inner \<open>None\<close> the result -1.
\<close>

record 'w subsys =
  ss_name :: string
  ss_id :: subsys_id
  ss_capabilities :: u32
  ss_init :: "'w machine \<Rightarrow> 'w machine \<times> int"
  ss_status :: "int \<Rightarrow> 'w machine \<Rightarrow> ('w machine \<times> string option) option"
  ss_tick :: "('w machine \<Rightarrow> 'w machine option) option"

definition status_text :: "int \<Rightarrow> int \<Rightarrow> string \<Rightarrow> 'w machine \<Rightarrow> ('w machine \<times> string option) option" where
  "status_text need mx s m =
     (if mx < need then Some (m, None) else if int (length s) + 1 > mx then None else Some (m, Some s))"

definition core_init :: "'w machine \<Rightarrow> 'w machine \<times> int" where
  "core_init m = (m, 0)"

definition core_status :: "int \<Rightarrow> 'w machine \<Rightarrow> ('w machine \<times> string option) option" where
  "core_status mx m = status_text 2 mx ''ok'' m"

definition storage_init_sub :: "'w hardware \<Rightarrow> 'w machine \<Rightarrow> 'w machine \<times> int" where
  "storage_init_sub hw m = (case plat_fs_init (hw_disk hw) (m_fs m) (m_world m) of (fs, w, rc) \<Rightarrow> (m\<lparr>m_fs := fs, m_world := w\<rparr>, rc))"

definition storage_status :: "'w hardware \<Rightarrow> int \<Rightarrow> 'w machine \<Rightarrow> ('w machine \<times> string option) option" where
  "storage_status hw mx m =
     (if mx < 8 then Some (m, None)
      else case plat_fs_validate (hw_disk hw) (m_world m) of
             (w, rc) \<Rightarrow> Some (m\<lparr>m_world := w\<rparr>, Some ((if rc = 0 then ''m'' else ''e'') @ ''ount'')))"

definition net_init_sub :: "'w hardware \<Rightarrow> 'w machine \<Rightarrow> 'w machine \<times> int" where
  "net_init_sub hw m = (case plat_net_init (hw_ports hw) (m_world m) of (hn, w) \<Rightarrow> (m\<lparr>m_hal_net := hn, m_world := w\<rparr>, 0))"

definition net_status :: "int \<Rightarrow> 'w machine \<Rightarrow> ('w machine \<times> string option) option" where
  "net_status mx m =
     (if mx < 1 then None
      else Some (m, Some (take (nat (mx - 1)) (if ni_linked (plat_net_get_info (m_hal_net m)) then ''up'' else ''down''))))"

definition net_tick :: "'w hardware \<Rightarrow> 'w machine \<Rightarrow> 'w machine option" where
  "net_tick hw m =
     map_option (\<lambda>(t, w). m\<lparr>m_transport := t, m_world := w\<rparr>) (transport_tick (net_of hw m) (m_transport m) (m_world m))"

definition input_init :: "'w machine \<Rightarrow> 'w machine \<times> int" where
  "input_init m = (m, 0)"

definition input_status :: "int \<Rightarrow> 'w machine \<Rightarrow> ('w machine \<times> string option) option" where
  "input_status mx m = status_text 4 mx ''read'' m"

definition audio_init :: "'w machine \<Rightarrow> 'w machine \<times> int" where
  "audio_init m = (m, 0)"

definition audio_status :: "int \<Rightarrow> 'w machine \<Rightarrow> ('w machine \<times> string option) option" where
  "audio_status mx m = status_text 4 mx ''spu'' m"

definition video_init :: "'w hardware \<Rightarrow> 'w machine \<Rightarrow> 'w machine \<times> int" where
  "video_init hw m = (m\<lparr>m_world := plat_video_mode_text (hw_ports hw) (m_world m)\<rparr>, 0)"

definition video_status :: "int \<Rightarrow> 'w machine \<Rightarrow> ('w machine \<times> string option) option" where
  "video_status mx m = status_text 4 mx ''vga'' m"

definition iop_init_sub :: "'w machine \<Rightarrow> 'w machine \<times> int" where
  "iop_init_sub m = (m, 0)"

definition iop_status :: "int \<Rightarrow> 'w machine \<Rightarrow> ('w machine \<times> string option) option" where
  "iop_status mx m = status_text 6 mx ''sim'' m"

definition party_init_sub :: "'w machine \<Rightarrow> 'w machine \<times> int" where
  "party_init_sub m = (m, 0)"

definition party_tick :: "'w hardware \<Rightarrow> 'w machine \<Rightarrow> 'w machine option" where
  "party_tick hw m = (case party_poll (net_of hw m) (get_party m) (m_world m) of (p, w) \<Rightarrow> Some (set_party p w m))"

definition party_status :: "int \<Rightarrow> 'w machine \<Rightarrow> ('w machine \<times> string option) option" where
  "party_status mx m = status_text 4 mx ((if party_in_room (m_party m) then ''i'' else ''o'') @ ''pen'') m"

definition quantum_init_sub :: "'w machine \<Rightarrow> 'w machine \<times> int" where
  "quantum_init_sub m = (m\<lparr>m_quantum := quantum_init (m_quantum m)\<rparr>, 0)"

definition quantum_status_sub :: "int \<Rightarrow> 'w machine \<Rightarrow> ('w machine \<times> string option) option" where
  "quantum_status_sub mx m = Some (m, quantum_status mx (m_quantum m))"

definition quantum_tick_sub :: "'w hardware \<Rightarrow> 'w machine \<Rightarrow> 'w machine option" where
  "quantum_tick_sub hw m =
     map_option (\<lambda>(q, ph, t, w). m\<lparr>m_quantum := q, m_phase := ph, m_transport := t, m_world := w\<rparr>)
       (quantum_tick (net_of hw m) (m_quantum m) (m_phase m) (m_transport m) (m_world m))"

section \<open>The table and its operations\<close>

definition subsystems :: "'w hardware \<Rightarrow> 'w subsys list" where
  "subsystems hw =
     [\<lparr>ss_name = ''core'', ss_id = SUBSYS_CORE, ss_capabilities = CAP_NONE, ss_init = core_init, ss_status = core_status, ss_tick = None\<rparr>,
      \<lparr>ss_name = ''storage'', ss_id = SUBSYS_STORAGE, ss_capabilities = CAP_STORAGE, ss_init = storage_init_sub hw, ss_status = storage_status hw, ss_tick = None\<rparr>,
      \<lparr>ss_name = ''net'', ss_id = SUBSYS_NET, ss_capabilities = CAP_NET_RAW, ss_init = net_init_sub hw, ss_status = net_status, ss_tick = Some (net_tick hw)\<rparr>,
      \<lparr>ss_name = ''input'', ss_id = SUBSYS_INPUT, ss_capabilities = CAP_INPUT, ss_init = input_init, ss_status = input_status, ss_tick = None\<rparr>,
      \<lparr>ss_name = ''audio'', ss_id = SUBSYS_AUDIO, ss_capabilities = CAP_AUDIO, ss_init = audio_init, ss_status = audio_status, ss_tick = None\<rparr>,
      \<lparr>ss_name = ''video'', ss_id = SUBSYS_VIDEO, ss_capabilities = CAP_VIDEO, ss_init = video_init hw, ss_status = video_status, ss_tick = None\<rparr>,
      \<lparr>ss_name = ''iop'', ss_id = SUBSYS_IOP, ss_capabilities = CAP_IOP, ss_init = iop_init_sub, ss_status = iop_status, ss_tick = None\<rparr>,
      \<lparr>ss_name = ''party'', ss_id = SUBSYS_PARTY, ss_capabilities = CAP_NET_RAW, ss_init = party_init_sub, ss_status = party_status, ss_tick = Some (party_tick hw)\<rparr>,
      \<lparr>ss_name = ''quantum'', ss_id = SUBSYS_QUANTUM, ss_capabilities = CAP_QUANTUM, ss_init = quantum_init_sub, ss_status = quantum_status_sub, ss_tick = Some (quantum_tick_sub hw)\<rparr>]"

definition subsys_init_all :: "'w hardware \<Rightarrow> 'w machine \<Rightarrow> 'w machine" where
  "subsys_init_all hw m = fold (\<lambda>s m. fst (ss_init s m)) (subsystems hw) m"

definition subsys_tick_all :: "'w hardware \<Rightarrow> 'w machine \<Rightarrow> 'w machine option" where
  "subsys_tick_all hw m = each (\<lambda>s m. case ss_tick s of None \<Rightarrow> Some m | Some f \<Rightarrow> f m) (subsystems hw) m"

definition subsys_get :: "'w hardware \<Rightarrow> int \<Rightarrow> 'w subsys option" where
  "subsys_get hw i = (if i < 0 \<or> i \<ge> int SUBSYS_COUNT then None else Some (subsystems hw ! nat i))"

definition subsys_has_cap :: "'w hardware \<Rightarrow> int \<Rightarrow> u32 \<Rightarrow> bool" where
  "subsys_has_cap hw i cap = (case subsys_get hw i of None \<Rightarrow> False | Some s \<Rightarrow> ss_capabilities s AND cap \<noteq> 0)"

text \<open>
  The line is built in a buffer of \<open>mx\<close> bytes, each status in one of 32; a subsystem is not
  asked once the line is full. The first argument is what remains of the table.
\<close>

fun status_from :: "'w subsys list \<Rightarrow> int \<Rightarrow> string \<Rightarrow> 'w machine \<Rightarrow> ('w machine \<times> string) option" where
  "status_from [] mx line m = Some (m, line)"
| "status_from (s # ss) mx line m =
     (if int (length line) < mx - 1 then
        (case ss_status s 32 m of
           None \<Rightarrow> None
         | Some (m1, None) \<Rightarrow> status_from ss mx line m1
         | Some (m1, Some tmp) \<Rightarrow>
             status_from ss mx (take (nat (mx - 1)) (line @ ss_name s @ ''='' @ cstr tmp @ '' '')) m1)
      else Some (m, line))"

definition subsys_status_all :: "'w hardware \<Rightarrow> int \<Rightarrow> 'w machine \<Rightarrow> ('w machine \<times> string) option" where
  "subsys_status_all hw mx m = (if mx < 1 then None else status_from (subsystems hw) mx [] m)"

section \<open>Lookup and the status line\<close>

lemma status_step:
  assumes "ss_status s 32 m = Some (m1, Some tmp)" "cstr tmp = tmp"
    "length line + (length (ss_name s) + length tmp + 2) \<le> nat (mx - 1)"
  shows "status_from (s # ss) mx line m = status_from ss mx (line @ (ss_name s @ ''='' @ tmp @ '' '')) m1"
proof -
  have "int (length line) < mx - 1" using assms(3) by linarith
  then show ?thesis using assms by simp
qed

declare status_from.simps(2) [simp del]

text \<open>
  The status line the shell shows has room for every subsystem: with 96 bytes nothing is
  cut, whatever the state. The party entry reads \<^verbatim>\<open>ipen\<close> inside a room and the storage
  entry \<^verbatim>\<open>eount\<close> on an error, because only the first letter depends on the state.
\<close>

lemma status_line:
  "\<exists>w. subsys_status_all hw 96 m = Some (m\<lparr>m_world := w\<rparr>,
     ''core=ok storage='' @ (if snd (plat_fs_validate (hw_disk hw) (m_world m)) = 0 then ''m'' else ''e'') @
     ''ount net=up input=read audio=spu video=vga iop=sim party='' @
     (if party_in_room (m_party m) then ''i'' else ''o'') @ ''pen quantum='' @ the (quantum_status 32 (m_quantum m)) @ '' '')"
proof -
  obtain w rc where v: "plat_fs_validate (hw_disk hw) (m_world m) = (w, rc)" by (cases "plat_fs_validate (hw_disk hw) (m_world m)")
  define m1 where "m1 = m\<lparr>m_world := w\<rparr>"
  define st where "st = (if rc = 0 then ''m'' else ''e'') @ ''ount''"
  define pa where "pa = (if party_in_room (m_party m) then ''i'' else ''o'') @ ''pen''"
  define q where "q = the (quantum_status 32 (m_quantum m))"
  have q: "quantum_status 32 (m_quantum m1) = Some q" "length q \<le> 7" by (simp_all add: q_def m1_def quantum_status_def)
  have cq: "cstr q = q"
    by (rule cstr_id) (auto simp: q_def quantum_status_def of_char_eq_iff [symmetric, where 'a = nat] simp del: of_char_eq_iff)
  have l: "length st = 5" "length pa = 4" "cstr st = st" "cstr pa = pa" by (simp_all add: st_def pa_def cstr_Cons)
  have f: "ni_linked (plat_net_get_info (m_hal_net m1))" by (simp add: plat_net_get_info_def)
  have "subsys_status_all hw 96 m = status_from (subsystems hw) 96 [] m" by (simp add: subsys_status_all_def)
  also have "\<dots> = status_from (drop 1 (subsystems hw)) 96 ''core=ok '' m"
    by (simp add: subsystems_def status_step [where tmp = "''ok''"] core_status_def status_text_def cstr_Cons)
  also have "\<dots> = status_from (drop 2 (subsystems hw)) 96 (''core=ok storage='' @ st @ '' '') m1"
    by (simp add: subsystems_def status_step [where tmp = st] storage_status_def v st_def m1_def cstr_Cons)
  also have "\<dots> = status_from (drop 3 (subsystems hw)) 96 (''core=ok storage='' @ st @ '' net=up '') m1"
    by (simp add: subsystems_def status_step [where tmp = "''up''"] net_status_def f cstr_Cons l)
  also have "\<dots> = status_from (drop 4 (subsystems hw)) 96 (''core=ok storage='' @ st @ '' net=up input=read '') m1"
    by (simp add: subsystems_def status_step [where tmp = "''read''"] input_status_def status_text_def cstr_Cons l)
  also have "\<dots> = status_from (drop 5 (subsystems hw)) 96 (''core=ok storage='' @ st @ '' net=up input=read audio=spu '') m1"
    by (simp add: subsystems_def status_step [where tmp = "''spu''"] audio_status_def status_text_def cstr_Cons l)
  also have "\<dots> = status_from (drop 6 (subsystems hw)) 96 (''core=ok storage='' @ st @ '' net=up input=read audio=spu video=vga '') m1"
    by (simp add: subsystems_def status_step [where tmp = "''vga''"] video_status_def status_text_def cstr_Cons l)
  also have "\<dots> = status_from (drop 7 (subsystems hw)) 96 (''core=ok storage='' @ st @ '' net=up input=read audio=spu video=vga iop=sim '') m1"
    by (simp add: subsystems_def status_step [where tmp = "''sim''"] iop_status_def status_text_def cstr_Cons l)
  also have "\<dots> = status_from (drop 8 (subsystems hw)) 96 (''core=ok storage='' @ st @ '' net=up input=read audio=spu video=vga iop=sim party='' @ pa @ '' '') m1"
    by (simp add: subsystems_def status_step [where tmp = pa] party_status_def status_text_def pa_def m1_def cstr_Cons l)
  also have "\<dots> = Some (m1, ''core=ok storage='' @ st @ '' net=up input=read audio=spu video=vga iop=sim party='' @ pa @ '' quantum='' @ q @ '' '')"
    using q l by (simp add: subsystems_def status_step [where tmp = q] quantum_status_sub_def cq)
  finally show ?thesis by (intro exI [of _ w]) (simp add: m1_def st_def pa_def q_def v)
qed

lemma small_status_buffers:
  "core_status 2 m = None" "input_status 4 m = None" "party_status 4 m = None"
  by (simp_all add: core_status_def input_status_def party_status_def status_text_def)

end
