(* ===== verification/Status.thy ===== *)
theory Status
  imports Machine
begin

text \<open>
  What the kernel reports about the machine: \<^verbatim>\<open>src/hw_status.c\<close> and \<^verbatim>\<open>src/dashboard.c\<close>; and the
  network tools of the shell: \<^verbatim>\<open>plat_net_ping\<close> of \<^verbatim>\<open>platform/x86/hal_net.c\<close> and the clients of
  \<^verbatim>\<open>src/net_clients.c\<close>.
\<close>

section \<open>hw\_status.c\<close>

definition HW_STATUS_MAX_PORTS :: nat where "HW_STATUS_MAX_PORTS = 2"
definition HW_STATUS_MODEL_LEN :: nat where "HW_STATUS_MODEL_LEN = 32"

record hw_memstat =
  ms_total_kb :: u32
  ms_free_kb :: u32
  ms_used_kb :: u32
  ms_kernel_kb :: u32

record hw_port_status =
  ps_present :: bool
  ps_device_count :: int
  ps_info :: string

record hw_iop_status =
  iop_running :: bool
  iop_load_percent :: u32
  iop_text :: string

record hw_network_status =
  hn_linked :: bool
  hn_ip :: u32
  hn_mac :: string
  hn_info :: string

record hw_temp_status =
  tp_detected :: bool
  tp_celsius :: int
  tp_status :: string

record hw_sysinfo =
  si_model :: string
  si_ee_mhz :: u32
  si_ram_mb :: u32
  si_ee_load_percent :: u32
  si_memstat :: hw_memstat
  si_ports :: "hw_port_status list"
  si_iop :: hw_iop_status
  si_network :: hw_network_status
  si_temp :: hw_temp_status

definition usage_percent :: "'w machine \<Rightarrow> u32 option" where
  "usage_percent m = get_memory_usage_percent (bheap (m_budget m))"

definition memstat_from_system :: "'w hardware \<Rightarrow> 'w machine \<Rightarrow> hw_memstat option" where
  "memstat_from_system hw m =
     (case (plat_mem_used_kb hw m, plat_mem_free_kb hw m) of
        (Some u, Some f) \<Rightarrow> Some \<lparr>ms_total_kb = plat_mem_total_kb hw, ms_free_kb = f, ms_used_kb = u, ms_kernel_kb = 512\<rparr>
      | _ \<Rightarrow> None)"

definition hw_status_get_memstat :: "'w hardware \<Rightarrow> 'w machine \<Rightarrow> hw_memstat option" where
  "hw_status_get_memstat hw m = memstat_from_system hw m"

fun ports_from :: "'w hardware \<Rightarrow> nat list \<Rightarrow> 'w machine \<Rightarrow> 'w machine \<times> hw_port_status list" where
  "ports_from hw [] m = (m, [])"
| "ports_from hw (i # is) m =
     (case plat_controller_read (hw_ports hw) (int i) (m_pad_shift m) (m_world m) of
        (sh, w, ctrl, rc) \<Rightarrow>
          case ports_from hw is (m\<lparr>m_pad_shift := sh, m_world := w\<rparr>) of
            (m1, ps) \<Rightarrow>
              (m1, \<lparr>ps_present = cs_present ctrl, ps_device_count = (if cs_present ctrl then 1 else 0),
                    ps_info = str_copy 64 (if i = 0 then ''Controller port 1'' else ''Controller port 2'')\<rparr> # ps))"

definition hw_status_get_ports :: "'w hardware \<Rightarrow> nat \<Rightarrow> 'w machine \<Rightarrow> 'w machine \<times> hw_port_status list" where
  "hw_status_get_ports hw mx m = ports_from hw [0..<min mx HW_STATUS_MAX_PORTS] m"

definition hw_status_get_iop :: "'w machine \<Rightarrow> hw_iop_status option" where
  "hw_status_get_iop m =
     map_option (\<lambda>pct. \<lparr>iop_running = True, iop_load_percent = ucast (ucast (pct div 4 + 5) :: u8), iop_text = str_copy 32 ''running''\<rparr>)
       (usage_percent m)"

definition hw_status_get_network :: "'w machine \<Rightarrow> hw_network_status" where
  "hw_status_get_network m =
     (let ni = plat_net_get_info (m_hal_net m)
      in \<lparr>hn_linked = ni_linked ni, hn_ip = ni_ip ni, hn_mac = str_copy 18 (ni_mac_str ni),
          hn_info = str_copy 64 (if ni_linked ni then ni_ip_str ni else ''no link'')\<rparr>)"

definition hw_status_get_temp :: hw_temp_status where
  "hw_status_get_temp =
     (case plat_temp_celsius of (c, rc) \<Rightarrow>
        \<lparr>tp_detected = (rc = 0), tp_celsius = (if rc = 0 then c else - 1),
         tp_status = str_copy 16 (if rc = 0 then ''ok'' else ''n/a'')\<rparr>)"

definition hw_status_get_sysinfo :: "'w hardware \<Rightarrow> 'w machine \<Rightarrow> ('w machine \<times> hw_sysinfo) option" where
  "hw_status_get_sysinfo hw m =
     (case (usage_percent m, memstat_from_system hw m) of
        (Some pct, Some ms) \<Rightarrow>
          (case hw_status_get_ports hw HW_STATUS_MAX_PORTS m of
             (m1, ports) \<Rightarrow>
               map_option (\<lambda>iop. (m1,
                  \<lparr>si_model = str_copy HW_STATUS_MODEL_LEN plat_model_string, si_ee_mhz = 294,
                   si_ram_mb = plat_mem_total_kb hw div 1024, si_ee_load_percent = ucast (ucast (pct div 2 + 5) :: u8),
                   si_memstat = ms, si_ports = ports, si_iop = iop, si_network = hw_status_get_network m1,
                   si_temp = hw_status_get_temp\<rparr>))
                 (hw_status_get_iop m1))
      | _ \<Rightarrow> None)"

section \<open>dashboard.c\<close>

definition DASHBOARD_BAR_LEN :: nat where "DASHBOARD_BAR_LEN = 32"

definition bar :: "u32 \<Rightarrow> kout list" where
  "bar pct =
     (let filled = sint ((pct * of_nat DASHBOARD_BAR_LEN) div 100)
      in map (\<lambda>i. if int i < filled then KprintColor ''#'' 0x0A else KprintColor ''.'' 0x08) [0..<DASHBOARD_BAR_LEN])"

definition dashboard_show :: "'w machine \<Rightarrow> kout list option" where
  "dashboard_show m =
     map_option (\<lambda>p.
       let mem_pct = (if p > 100 then 100 else p);
           ni = plat_net_get_info (m_hal_net m)
       in [Kprint ''\<newline>  '', KprintColor '' dashboard '' 0x2A, KprintColor '' ---------------------------------\<newline>'' 0x08,
           Kprint ''  memory  '', KprintColor ''['' 0x08] @ bar mem_pct @
          [KprintColor '']'' 0x08, Kprintf '' %u%%\<newline>'' [IntArg mem_pct],
           Kprint ''  led      (use '', KprintColor ''led'' 0x0B, Kprint '' command)\<newline>'',
           Kprint ''  network  '',
           KprintColor (if ni_linked ni then ni_ip_str ni else ''down'') (if ni_linked ni then 0x0A else 0x08),
           Kprint ''\<newline>'', Kprint ''  party    '',
           (if party_in_room (m_party m) then KprintColor ''in room'' 0x0A else KprintColor ''idle'' 0x08),
           Kprint ''\<newline>'', Kprint ''  ----------------------------------------\<newline>\<newline>''])
       (usage_percent m)"

section \<open>Ping\<close>

definition plat_net_ping :: "'w hardware \<Rightarrow> string \<Rightarrow> 'w machine \<Rightarrow> ('w machine \<times> int \<times> u32 option) option" where
  "plat_net_ping hw host m =
     (let ops = net_of hw m;
          first = (case net_parse_ip (Some host) of
                     None \<Rightarrow> (m_world m, - 1, None)
                   | Some ip \<Rightarrow> net_icmp_ping ops (hw_packet hw) ip (m_world m))
      in case first of (w1, rc, rtt) \<Rightarrow>
           if rc = 0 then Some (m\<lparr>m_world := w1\<rparr>, 0, rtt)
           else map_option (\<lambda>(st, w2, rc2, rtt2). (m\<lparr>m_net := st, m_world := w2\<rparr>, rc2, rtt2))
                  (net_ping ops (Some host) (m_net m) w1))"

section \<open>net\_clients.c\<close>

text \<open>
  A call on a stream of the machine. Reading gives what was received; the clients print the
  bytes up to the first zero.
\<close>

definition stream_send :: "'w hardware \<Rightarrow> nat \<Rightarrow> string \<Rightarrow> 'w machine \<Rightarrow> 'w machine option" where
  "stream_send hw s text m =
     map_option (\<lambda>(st, w, rc). m\<lparr>m_net := st, m_world := w\<rparr>)
       (net_stream_send (net_of hw m) (Some s) (map of_char text) (of_nat (length text)) (m_streams m) (m_net m) (m_world m))"

definition stream_recv :: "'w hardware \<Rightarrow> nat \<Rightarrow> u32 \<Rightarrow> 'w machine \<Rightarrow> ('w machine \<times> string option) option" where
  "stream_recv hw s mx m =
     map_option (\<lambda>(st, w, n, r). (m\<lparr>m_net := st, m_world := w\<rparr>,
         case r of Some (ip, port, d) \<Rightarrow> if n > 0 then Some (map (\<lambda>b. char_of (unat b)) d) else None | None \<Rightarrow> None))
       (net_stream_recv (net_of hw m) (Some s) mx (m_streams m) (m_net m) (m_world m))"

definition stream_close :: "nat \<Rightarrow> 'w machine \<Rightarrow> 'w machine" where
  "stream_close s m = m\<lparr>m_streams := net_stream_close (Some s) (m_streams m)\<rparr>"

text \<open>Receive into a buffer of \<open>mx + 1\<close> bytes and print what came, if anything.\<close>

definition show_received :: "'w hardware \<Rightarrow> nat \<Rightarrow> u32 \<Rightarrow> string \<Rightarrow> 'w action" where
  "show_received hw s mx format m =
     map_option (\<lambda>(m1, r). (m1, case r of Some text \<Rightarrow> [Kprintf format [StrArg text]] | None \<Rightarrow> [])) (stream_recv hw s mx m)"

definition sending :: "'w hardware \<Rightarrow> nat \<Rightarrow> string \<Rightarrow> 'w action" where
  "sending hw s text m = map_option (\<lambda>m1. (m1, [])) (stream_send hw s text m)"

definition crlf :: string where "crlf = [CHR 0x0D, CHR 0x0A]"

definition ftp_client :: "'w hardware \<Rightarrow> string \<Rightarrow> 'w machine \<Rightarrow> ('w machine \<times> kout list \<times> int) option" where
  "ftp_client hw host m =
     (case net_connect (Some host) 21 (m_streams m) of
        (pool, None) \<Rightarrow> Some (m\<lparr>m_streams := pool\<rparr>, [Kprint ''  ftp: connect failed\<newline>''], - 1)
      | (pool, Some s) \<Rightarrow>
          map_option (\<lambda>(m1, outs). (stream_close s m1, outs @ [Kprint ''  ftp: connected (basic auth sent)\<newline>''], 0))
            ((andthen (show_received hw s 127 ''  ftp: %s\<newline>'')
             (andthen (sending hw s (''USER anonymous'' @ crlf))
             (andthen (show_received hw s 127 ''  %s\<newline>'')
             (andthen (sending hw s (''PASS guest@'' @ crlf))
                      (show_received hw s 127 ''  %s\<newline>''))))) (m\<lparr>m_streams := pool\<rparr>)))"

definition telnet_client :: "'w hardware \<Rightarrow> string \<Rightarrow> 'w machine \<Rightarrow> ('w machine \<times> kout list \<times> int) option" where
  "telnet_client hw host m =
     (case net_connect (Some host) 23 (m_streams m) of
        (pool, None) \<Rightarrow> Some (m\<lparr>m_streams := pool\<rparr>, [Kprint ''  telnet: connect failed\<newline>''], - 1)
      | (pool, Some s) \<Rightarrow>
          map_option (\<lambda>(m1, outs).
              (stream_close s m1, outs @ [Kprint ''  telnet: session open (type via future interactive mode)\<newline>''], 0))
            (andthen (sending hw s crlf) (show_received hw s 255 ''  telnet: %s\<newline>'') (m\<lparr>m_streams := pool\<rparr>)))"

text \<open>Appending a string to the command while it is shorter than \<open>n\<close>.\<close>

definition append_to :: "nat \<Rightarrow> string \<Rightarrow> string \<Rightarrow> string" where
  "append_to n cmd p = cmd @ take (n - length cmd) (cstr p)"

definition irc_client :: "'w hardware \<Rightarrow> string \<Rightarrow> string option \<Rightarrow> string option \<Rightarrow> 'w machine \<Rightarrow> ('w machine \<times> kout list \<times> int) option" where
  "irc_client hw host channel nick m =
     (case net_connect (Some host) 6667 (m_streams m) of
        (pool, None) \<Rightarrow> Some (m\<lparr>m_streams := pool\<rparr>, [Kprint ''  irc: connect failed\<newline>''], - 1)
      | (pool, Some s) \<Rightarrow>
          let nick_cmd = append_to 120 (append_to 120 [] ''NICK '') (case nick of Some n \<Rightarrow> n | None \<Rightarrow> ''asmos'') @ crlf;
              user_cmd = append_to 120 [] (''USER asmos 0 * :ASMOS'' @ crlf);
              join = (case channel of
                        None \<Rightarrow> say []
                      | Some c \<Rightarrow> sending hw s (append_to 120 (append_to 100 [] ''JOIN '') c @ crlf))
          in map_option (\<lambda>(m1, outs). (stream_close s m1, outs @ [Kprint ''  irc: registered and joined channel\<newline>''], 0))
               (andthen (sending hw s nick_cmd) (andthen (sending hw s user_cmd) join) (m\<lparr>m_streams := pool\<rparr>)))"

end
