(* ===== verification/Shell.thy ===== *)
theory Shell
  imports Registry Status
begin

text \<open>
  The shell of \<^verbatim>\<open>src/shell.c\<close> with the line input of \<^verbatim>\<open>syscalls_x86.asm\<close>: reading and splitting
  a line, every command, the command table and the main loop. A command acts on the whole
  machine and says what it prints. Scanning goes through the model of \<^verbatim>\<open>ksscanf\<close>, so a
  variable keeps its initial value when the scanner stores nothing into it.
\<close>

unbundle bit_operations_syntax

section \<open>Colours and input\<close>

definition C_BRIGHT :: u8 where "C_BRIGHT = 0x0F"
definition C_DIM :: u8 where "C_DIM = 0x08"
definition C_GREEN :: u8 where "C_GREEN = 0x0A"
definition C_CYAN :: u8 where "C_CYAN = 0x0B"
definition C_RED :: u8 where "C_RED = 0x0C"
definition C_YELLOW :: u8 where "C_YELLOW = 0x0E"
definition C_MAGENTA :: u8 where "C_MAGENTA = 0x0D"
definition C_BLUE :: u8 where "C_BLUE = 0x09"
definition C_GREEN_BG :: u8 where "C_GREEN_BG = 0x2A"

definition init_shell :: "kout list" where
  "init_shell =
     [Kprint ''\<newline>  '', KprintColor ''############################################\<newline>'' C_CYAN,
      Kprint ''  '', KprintColor ''#'' C_CYAN, Kprint ''  '', KprintColor ''ASMOS'' C_BRIGHT, Kprint ''  x86  '',
      KprintColor ''KERNEL'' C_YELLOW, Kprint ''  '', KprintColor ''SHELL'' C_GREEN, Kprint ''              '',
      KprintColor ''#\<newline>'' C_CYAN, Kprint ''  '',
      KprintColor ''############################################\<newline>'' C_CYAN, Kprint ''  '',
      KprintColor ''  >> '' C_DIM, KprintColor ''help'' C_YELLOW, KprintColor '' for commands  |  '' C_DIM,
      KprintColor ''root@asmos'' C_CYAN, KprintColor '' ready'' C_GREEN, Kprint ''\<newline>\<newline>'']"

definition print_prompt :: "kout list" where
  "print_prompt =
     [KprintColor ''  '' C_DIM, KprintColor ''root'' C_CYAN, KprintColor ''@'' C_DIM, KprintColor ''asmos'' C_YELLOW,
      KprintColor '':'' C_DIM, KprintColor ''~'' C_GREEN, KprintColor '' $ '' C_BRIGHT]"

text \<open>The scanner's outputs: the variable behind pointer argument \<open>i\<close>, with its initial value.\<close>

definition str_out :: "scan_val list \<Rightarrow> nat \<Rightarrow> string" where
  "str_out vs i = (case drop i vs of StrVal s # _ \<Rightarrow> s | _ \<Rightarrow> [])"

definition int_out :: "scan_val list \<Rightarrow> nat \<Rightarrow> int \<Rightarrow> int" where
  "int_out vs i v = (case drop i vs of IntVal n # _ \<Rightarrow> n | _ \<Rightarrow> v)"

definition scan_int :: "string \<Rightarrow> string \<Rightarrow> int \<Rightarrow> int option" where
  "scan_int str format v = map_option (\<lambda>vs. int_out vs 0 v) (ksscanf str format)"

definition is_blank :: "char \<Rightarrow> bool" where
  "is_blank c \<longleftrightarrow> c = CHR '' '' \<or> c = CHR 0x09"

definition is_eol :: "char \<Rightarrow> bool" where
  "is_eol c \<longleftrightarrow> c = NUL \<or> c = CHR 0x0A \<or> c = CHR 0x0D"

text \<open>First word and the rest without blanks around it, each cut to its buffer.\<close>

fun strip_end :: "string \<Rightarrow> string" where
  "strip_end [] = []"
| "strip_end (c # cs) = (case strip_end cs of [] \<Rightarrow> if is_blank c then [] else [c] | d # ds \<Rightarrow> c # d # ds)"

definition parse_cmd_args :: "string \<Rightarrow> nat \<Rightarrow> nat \<Rightarrow> string \<times> string" where
  "parse_cmd_args input cmd_max args_max =
     (let s = dropWhile is_blank input;
          cmd = take (cmd_max - 1) (takeWhile (\<lambda>c. \<not> is_eol c \<and> \<not> is_blank c) s);
          rest = dropWhile is_blank (drop (length cmd) s);
          args = take (args_max - 1) (takeWhile (\<lambda>c. \<not> is_eol c) rest)
      in (cmd, strip_end args))"

definition next_word :: "string \<Rightarrow> nat \<Rightarrow> string \<times> string" where
  "next_word s buf_max =
     (let t = dropWhile is_blank s;
          w = take (buf_max - 1) (takeWhile (\<lambda>c. c \<noteq> NUL \<and> \<not> is_blank c) t)
      in (w, drop (length w) t))"

definition rule :: kout where
  "rule = KprintColor ''----------------------------------------\<newline>'' C_DIM"

definition end_rule :: "kout list" where
  "end_rule = [Kprint ''  '', rule, Kprint ''\<newline>'']"

section \<open>Simple commands\<close>

definition help_line :: "string \<Rightarrow> string \<Rightarrow> kout" where
  "help_line name what = Kprintf ''     %-10s  %s\<newline>'' [StrArg name, StrArg what]"

definition help_group :: "string \<Rightarrow> u8 \<Rightarrow> string \<Rightarrow> string \<Rightarrow> string \<Rightarrow> kout list" where
  "help_group title color gap name what =
     [Kprint ''  '', KprintColor title color, Kprint gap, Kprintf ''%-10s  %s\<newline>'' [StrArg name, StrArg what]]"

definition cmd_help :: "'w hardware \<Rightarrow> string \<Rightarrow> 'w action" where
  "cmd_help hw args = say
     ([Kprint ''\<newline>  '', KprintColor '' COMMANDS '' C_GREEN_BG, KprintColor '' asmos shell '' C_DIM, Kprint ''\<newline>  '', rule] @
      help_group ''core'' C_CYAN ''     '' ''help'' ''this help'' @
      [help_line ''clear'' ''clear screen'', help_line ''exit'' ''exit shell''] @
      help_group ''fs'' C_YELLOW ''       '' ''ls'' ''list directory'' @
      [help_line ''cd'' ''change directory'', help_line ''cat'' ''show file''] @
      help_group ''system'' C_MAGENTA ''   '' ''meminfo'' ''memory info'' @
      [help_line ''ps2info'' ''hardware info'', help_line ''sysinfo'' ''full system status'', help_line ''memstat'' ''memory usage'',
       help_line ''ports'' ''controller/USB ports'', help_line ''iopstat'' ''IOP status'', help_line ''temp'' ''temperature'',
       help_line ''date'' ''date/time'', help_line ''reboot'' ''reboot''] @
      help_group ''mc/led'' C_YELLOW ''   '' ''mc'' ''memory card list/mount/export/clone/repair'' @
      [help_line ''led'' ''LED set/pulse/rgb''] @
      help_group ''net'' C_BLUE ''       '' ''network'' ''network status'' @
      [help_line ''ping'' ''ping host'', help_line ''ftp'' ''FTP client'', help_line ''telnet'' ''telnet'', help_line ''irc'' ''IRC client''] @
      help_group ''media'' C_GREEN ''    '' ''sound'' ''sound control'' @
      [help_line ''graphics'' ''GPU control'', help_line ''music'' ''music player'', help_line ''demo'' ''graphics demo''] @
      help_group ''run'' C_CYAN ''       '' ''game'' ''launch game'' @
      [help_line ''controller'' ''controller'', help_line ''timer'' ''timers'', help_line ''benchmark'' ''benchmarks'',
       help_line ''system'' ''system status''] @ end_rule)"

definition cmd_ls :: "'w hardware \<Rightarrow> string \<Rightarrow> 'w action" where
  "cmd_ls hw args m =
     (case fat12_list_files hw m of (m1, outs) \<Rightarrow>
        Some (m1, [Kprint ''\<newline>  '', KprintColor '' [ '' C_DIM, KprintColor ''ls'' C_CYAN, KprintColor '' ] '' C_DIM,
                   Kprint '' current directory\<newline>  '', rule] @ outs @ end_rule))"

definition cmd_cd :: "'w hardware \<Rightarrow> string \<Rightarrow> 'w action" where
  "cmd_cd hw args = say
     (if ksstrcmp args [] = 0 then [Kprint ''  '', KprintColor ''cwd'' C_DIM, Kprint '' /\<newline>'']
      else [Kprint ''  '', KprintColor ''cd'' C_CYAN, Kprintf '' %s '' [StrArg args], KprintColor ''(nav not impl)\<newline>'' C_DIM])"

definition cmd_cat :: "'w hardware \<Rightarrow> string \<Rightarrow> 'w action" where
  "cmd_cat hw args = say
     (if ksstrcmp args [] = 0
      then [Kprint ''  '', KprintColor ''usage'' C_DIM, Kprint '': '', KprintColor ''cat'' C_CYAN, Kprint '' <file>\<newline>'']
      else [Kprint ''  '', KprintColor ''cat'' C_CYAN, Kprintf '' %s '' [StrArg args], KprintColor ''(read not impl)\<newline>'' C_DIM])"

definition cmd_clear :: "'w hardware \<Rightarrow> string \<Rightarrow> 'w action" where
  "cmd_clear hw args = say [ClearScreen]"

definition cmd_date :: "'w hardware \<Rightarrow> string \<Rightarrow> 'w action" where
  "cmd_date hw args = say [Kprint ''Date/Time: 2024-01-01 12:00:00 (PS2 System Time)\<newline>'']"

definition cmd_echo :: "'w hardware \<Rightarrow> string \<Rightarrow> 'w action" where
  "cmd_echo hw args = say (if ksstrcmp args [] \<noteq> 0 then [Kprintf ''%s\<newline>'' [StrArg args]] else [])"

definition cmd_reboot :: "'w hardware \<Rightarrow> string \<Rightarrow> 'w action" where
  "cmd_reboot hw args m = Some (plat_reboot hw m, [Kprint ''Rebooting system...\<newline>''])"

definition cmd_meminfo :: "'w hardware \<Rightarrow> string \<Rightarrow> 'w action" where
  "cmd_meminfo hw args m =
     map_option (\<lambda>free_kb.
       let mem_kb = sys_get_memory_size hw
       in (m, [Kprint ''\<newline>  '', KprintColor '' memory '' C_MAGENTA,
               KprintColor '' ----------------------------------------\<newline>'' C_DIM, Kprint ''    total     '',
               Kprintf ''%u KB (%u MB)\<newline>'' [IntArg mem_kb, IntArg (mem_kb div 1024)], Kprint ''    free      '',
               Kprintf ''%u KB\<newline>'' [IntArg free_kb], Kprint ''    type      '', KprintColor ''DDR SDRAM'' C_CYAN,
               Kprint '' @ 150MHz, 2.4 GB/s\<newline>''] @ end_rule))
       (plat_mem_free_kb hw m)"

definition cmd_ps2info :: "'w hardware \<Rightarrow> string \<Rightarrow> 'w action" where
  "cmd_ps2info hw args = say
     ([Kprint ''\<newline>  '', KprintColor '' hardware '' C_YELLOW,
       KprintColor '' --------------------------------------\<newline>'' C_DIM, Kprint ''    system    '',
       KprintColor ''PlayStation 2'' C_CYAN, Kprint ''\<newline>    cpu       MIPS R5900 (EE) @ 294MHz\<newline>'',
       Kprint ''    gpu       Graphics Synthesizer @ 147MHz\<newline>'', Kprint ''    ram       32MB DDR @ 150MHz\<newline>'',
       Kprint ''    storage   CD/DVD\<newline>'', Kprint ''    input     DualShock 2\<newline>'',
       Kprint ''    net       Ethernet 10/100\<newline>'', Kprint ''    sound     SPU2 (48 ch)\<newline>''] @ end_rule)"

definition cmd_network :: "'w hardware \<Rightarrow> string \<Rightarrow> 'w action" where
  "cmd_network hw args m =
     (case plat_net_init (hw_ports hw) (m_world m) of (hn, w) \<Rightarrow>
        let result = 0 :: int; ni = plat_net_get_info hn
        in Some (m\<lparr>m_hal_net := hn, m_world := w, m_net := net_init (m_net m)\<rparr>,
                 [Kprint ''\<newline>  '', KprintColor '' network '' C_BLUE,
                  KprintColor '' -------------------------------------\<newline>'' C_DIM, Kprint ''    init     ''] @
                 (if result = 0
                  then [KprintColor ''ok'' C_GREEN, Kprintf ''\<newline>    ip        %s\<newline>'' [StrArg (ni_ip_str ni)],
                        Kprint ''    netmask   255.255.255.0\<newline>'', Kprint ''    gateway   10.0.0.254\<newline>'',
                        Kprint ''    cmds      ping, ftp, telnet, irc\<newline>'']
                  else [KprintColor ''failed'' C_RED, Kprint '' (adapter not found)\<newline>'']) @ end_rule))"

definition cmd_sound :: "'w hardware \<Rightarrow> string \<Rightarrow> 'w action" where
  "cmd_sound hw args m =
     Some (m\<lparr>m_world := sys_sound_init hw (m_world m)\<rparr>,
       map Kprint [''PS2 Sound System Control:\<newline>'', ''=========================\<newline>'', ''Initializing SPU2 sound system...\<newline>'',
         ''Sound system initialized!\<newline>'', ''SPU2 Features:\<newline>'', ''  - 48 audio channels\<newline>'',
         ''  - 44.1kHz sample rate\<newline>'', ''  - 16-bit audio\<newline>'', ''  - ADPCM compression\<newline>'',
         ''  - Reverb and echo effects\<newline>'', ''Use 'music' command to play audio files\<newline>''])"

definition cmd_graphics :: "'w hardware \<Rightarrow> string \<Rightarrow> 'w action" where
  "cmd_graphics hw args m =
     Some (m\<lparr>m_world := video_set_mode_text (hw_ports hw) (m_world m)\<rparr>,
       map Kprint [''PS2 Graphics System Control:\<newline>'', ''============================\<newline>'',
         ''Initializing Graphics Synthesizer...\<newline>'', ''Graphics system initialized!\<newline>'',
         ''Graphics Synthesizer Features:\<newline>'', ''  - Resolution: Up to 1920x1080\<newline>'', ''  - Color depth: 24-bit\<newline>'',
         ''  - Fill rate: 2.4 Gpixels/s\<newline>'', ''  - Texture memory: 4MB\<newline>'', ''  - Hardware acceleration\<newline>'',
         ''Use 'demo' command for graphics demonstrations\<newline>''])"

definition cmd_timer :: "'w hardware \<Rightarrow> string \<Rightarrow> 'w action" where
  "cmd_timer hw args m =
     (case hw_clock hw (sys_timer_init hw (m_world m)) of (w, timer_value) \<Rightarrow>
        Some (m\<lparr>m_world := w\<rparr>,
          [Kprint ''PS2 Timer System:\<newline>'', Kprint ''=================\<newline>'', Kprint ''Initializing timers...\<newline>'',
           Kprintf ''Timer initialized! Current value: %u\<newline>'' [IntArg timer_value], Kprint ''Available timers:\<newline>'',
           Kprint ''  - Timer 0: System timer\<newline>'', Kprint ''  - Timer 1: User timer\<newline>'', Kprint ''  - Timer 2: CD/DVD timer\<newline>'']))"

definition with_remap :: "(remap \<Rightarrow> remap) \<Rightarrow> 'w machine \<Rightarrow> 'w machine" where
  "with_remap f m = m\<lparr>m_remap := f (m_remap m)\<rparr>"

text \<open>The two setters: scan a number from the second word, store and report it.\<close>

definition controller_level :: "string \<Rightarrow> int \<Rightarrow> (int \<Rightarrow> remap \<Rightarrow> remap) \<Rightarrow> string \<Rightarrow> 'w action" where
  "controller_level name initial setter format m =
     map_option (\<lambda>val. (with_remap (setter val) m, [Kprintf format [IntArg (word_of_int val)]])) (scan_int name ''%d'' initial)"

definition controller_turbo :: "string \<Rightarrow> 'w action" where
  "controller_turbo name m =
     map_option (\<lambda>m1. (m1, controller_remap_print_current (m_remap m1)))
       (if ksstrcmp name ''on'' = 0 then Some (with_remap (controller_set_turbo 0xFFFF) m)
        else if ksstrcmp name ''off'' = 0 then Some (with_remap (controller_set_turbo 0) m)
        else if char_at name 0 \<noteq> NUL
        then map_option (\<lambda>hex. with_remap (controller_set_turbo hex) m) (scan_int name ''%x'' 0)
        else Some m)"

definition controller_usage :: "'w action" where
  "controller_usage m =
     Some (m, controller_remap_print_current (m_remap m) @
       [Kprint ''  controller profile list|save|load|apply <name>\<newline>'',
        Kprint ''  controller sensitivity|deadzone <0-255>  turbo on|off|<hex>\<newline>''])"

definition controller_sub :: "string \<Rightarrow> string \<Rightarrow> string \<Rightarrow> 'w action" where
  "controller_sub sub name name2 m =
     (if ksstrcmp sub ''profile'' = 0 \<and> ksstrcmp name ''list'' = 0 then Some (m, controller_profile_list (m_remap m))
      else if ksstrcmp sub ''profile'' = 0 \<and> ksstrcmp name ''save'' = 0 \<and> char_at name2 0 \<noteq> NUL then
        (case controller_profile_save (Some name2) (m_remap m) of (r, rc) \<Rightarrow>
           Some (m\<lparr>m_remap := r\<rparr>, [if rc = 0 then Kprintf ''  Profile '%s' saved.\<newline>'' [StrArg name2] else Kprint ''  Failed to save profile.\<newline>'']))
      else if ksstrcmp sub ''profile'' = 0 \<and> ksstrcmp name ''load'' = 0 \<and> char_at name2 0 \<noteq> NUL then
        (case controller_profile_load (Some name2) (m_remap m) of (r, rc) \<Rightarrow>
           Some (m\<lparr>m_remap := r\<rparr>, [if rc = 0 then Kprintf ''  Profile '%s' loaded.\<newline>'' [StrArg name2] else Kprint ''  Profile not found.\<newline>'']))
      else if ksstrcmp sub ''profile'' = 0 \<and> ksstrcmp name ''apply'' = 0 \<and> char_at name2 0 \<noteq> NUL then
        (case controller_profile_apply (Some name2) (m_remap m) of (r, outs, rc) \<Rightarrow> Some (m\<lparr>m_remap := r\<rparr>, outs))
      else if ksstrcmp sub ''sensitivity'' = 0 \<and> char_at name 0 \<noteq> NUL then
        controller_level name 128 controller_set_sensitivity ''  Sensitivity set to %d\<newline>'' m
      else if ksstrcmp sub ''deadzone'' = 0 \<and> char_at name 0 \<noteq> NUL then
        controller_level name 32 controller_set_deadzone ''  Deadzone set to %d\<newline>'' m
      else if ksstrcmp sub ''turbo'' = 0 then controller_turbo name m
      else if ksstrcmp sub ''current'' = 0 then Some (m, controller_remap_print_current (m_remap m))
      else controller_usage m)"

definition cmd_controller :: "'w hardware \<Rightarrow> string \<Rightarrow> 'w action" where
  "cmd_controller hw args m =
     (if char_at args 0 = NUL then controller_usage m
      else case ksscanf args ''%31s %23s %23s'' of
             None \<Rightarrow> None
           | Some vs \<Rightarrow> controller_sub (str_out vs 0) (str_out vs 1) (str_out vs 2) m)"

section \<open>Profiles and the network tools\<close>

definition cmd_observe :: "'w hardware \<Rightarrow> string \<Rightarrow> 'w action" where
  "cmd_observe hw args m =
     (if char_at args 0 = NUL then Some (m, [Kprint ''  usage: observe <subsys>\<newline>''])
      else case quantum_observe (Some args) (m_quantum m) (m_budget m) of
             (q, b, outs, rc) \<Rightarrow> Some (m\<lparr>m_quantum := q, m_budget := b\<rparr>, outs))"

definition cmd_collapse :: "'w hardware \<Rightarrow> string \<Rightarrow> 'w action" where
  "cmd_collapse hw args m =
     (if char_at args 0 = NUL then Some (m, [Kprint ''  usage: collapse <profile>\<newline>''])
      else case quantum_collapse (Some args) (m_quantum m) of
             (q, outs, rc) \<Rightarrow> Some (m\<lparr>m_quantum := q\<rparr>, outs @ (if rc \<noteq> 0 then [KprintColor ''  collapse failed\<newline>'' C_RED] else [])))"

definition cmd_superpose :: "'w hardware \<Rightarrow> string \<Rightarrow> 'w action" where
  "cmd_superpose hw args m =
     (case ksscanf args ''%23s %23s'' of
        None \<Rightarrow> None
      | Some vs \<Rightarrow>
          let a = str_out vs 0; b = str_out vs 1
          in if char_at a 0 = NUL \<or> char_at b 0 = NUL then Some (m, [Kprint ''  usage: superpose <a> <b>\<newline>''])
             else case quantum_superpose (Some a) (Some b) 128 (m_quantum m) of
                    (q, outs, rc) \<Rightarrow> Some (m\<lparr>m_quantum := q\<rparr>, outs))"

definition cmd_entangle :: "'w hardware \<Rightarrow> string \<Rightarrow> 'w action" where
  "cmd_entangle hw args m =
     map_option (\<lambda>vs. case quantum_entangle_input (int_out vs 0 0) (int_out vs 1 1) (m_pads m) of
                        (e, outs, rc) \<Rightarrow> (m\<lparr>m_pads := e\<rparr>, outs))
       (ksscanf args ''%d %d'')"

text \<open>The quantum status always fits; a result -1 would leave the buffer of the shell unset.\<close>

definition cmd_coherence :: "'w hardware \<Rightarrow> string \<Rightarrow> 'w action" where
  "cmd_coherence hw args m =
     (case quantum_status 96 (m_quantum m) of
        None \<Rightarrow> None
      | Some qs \<Rightarrow>
          map_option (\<lambda>(m1, line). (m1, [Kprintf ''  coherence: %s\<newline>'' [StrArg qs], Kprintf ''  subsys: %s\<newline>'' [StrArg line]]))
            (subsys_status_all hw 96 m))"

definition cmd_ping :: "'w hardware \<Rightarrow> string \<Rightarrow> 'w action" where
  "cmd_ping hw args m =
     (if ksstrcmp args [] = 0
      then Some (m, [Kprint ''  '', KprintColor ''usage'' C_DIM, Kprint '': '', KprintColor ''ping'' C_CYAN, Kprint '' <host>\<newline>''])
      else map_option (\<lambda>(m1, rc, rtt). (m1,
             [Kprintf ''  ping %s ... '' [StrArg args],
              if rc = 0 then Kprintf ''ok (%u ms)\<newline>'' [IntArg (case rtt of Some t \<Rightarrow> t | None \<Rightarrow> 0)]
              else KprintColor ''timeout\<newline>'' C_RED]))
             (plat_net_ping hw args m))"

text \<open>The host is the first word the scanner finds.\<close>

definition scan_words :: "string \<Rightarrow> string \<Rightarrow> scan_val list option" where
  "scan_words args format = (if char_at args 0 = NUL then Some [] else ksscanf args format)"

definition cmd_ftp :: "'w hardware \<Rightarrow> string \<Rightarrow> 'w action" where
  "cmd_ftp hw args m =
     (case scan_words args ''%63s'' of
        None \<Rightarrow> None
      | Some vs \<Rightarrow>
          if char_at (str_out vs 0) 0 = NUL then Some (m, [Kprint ''  usage: ftp <host> [path]\<newline>''])
          else map_option (\<lambda>(m1, outs, rc). (m1, outs)) (ftp_client hw (str_out vs 0) m))"

definition cmd_telnet :: "'w hardware \<Rightarrow> string \<Rightarrow> 'w action" where
  "cmd_telnet hw args m =
     (case scan_words args ''%63s'' of
        None \<Rightarrow> None
      | Some vs \<Rightarrow>
          if char_at (str_out vs 0) 0 = NUL then Some (m, [Kprint ''  usage: telnet <host>\<newline>''])
          else map_option (\<lambda>(m1, outs, rc). (m1, outs)) (telnet_client hw (str_out vs 0) m))"

definition cmd_irc :: "'w hardware \<Rightarrow> string \<Rightarrow> 'w action" where
  "cmd_irc hw args m =
     (case scan_words args ''%63s %31s'' of
        None \<Rightarrow> None
      | Some vs \<Rightarrow>
          if char_at (str_out vs 0) 0 = NUL then Some (m, [Kprint ''  usage: irc <host> [channel]\<newline>''])
          else map_option (\<lambda>(m1, outs, rc). (m1, outs))
                 (irc_client hw (str_out vs 0) (Some (if char_at (str_out vs 1) 0 \<noteq> NUL then str_out vs 1 else ''#asmos''))
                    (Some ''asmos'') m))"

section \<open>Games, music and benchmarks\<close>

definition cmd_game :: "'w hardware \<Rightarrow> string \<Rightarrow> 'w action" where
  "cmd_game hw args m =
     (case (if char_at args 0 \<noteq> NUL then scan_int args ''%d'' (- 1) else Some (- 1)) of
        None \<Rightarrow> None
      | Some idx \<Rightarrow>
          if idx \<ge> 1
          then map_option (\<lambda>(g, w, outs). (m\<lparr>m_games := g, m_world := w\<rparr>, outs))
                 (launch_game (hw_ports hw) (idx - 1) (m_games m) (m_world m))
          else Some (m, list_games @ [Kprint ''Usage: game <number>  (e.g. game 1)\<newline>'']))"

definition cmd_games :: "'w hardware \<Rightarrow> string \<Rightarrow> 'w action" where
  "cmd_games hw args m =
     (case scan_words args ''%31s'' of
        None \<Rightarrow> None
      | Some vs \<Rightarrow>
          let sub = str_out vs 0; h = gs_history (m_games m)
          in Some (m,
               if ksstrcmp sub ''history'' = 0 then game_history_print_history h
               else if ksstrcmp sub ''stats'' = 0 then game_history_print_stats h
               else if ksstrcmp sub ''last'' = 0 then game_history_print_last h
               else [Kprint ''  '', KprintColor ''games'' C_CYAN, Kprint '' <history|stats|last>\<newline>'',
                     Kprint ''    history  list all game sessions\<newline>'', Kprint ''    stats    total playtime, most played\<newline>'',
                     Kprint ''    last     last played game\<newline>'']))"

definition opt_text :: "string \<Rightarrow> string option" where
  "opt_text s = (if char_at s 0 \<noteq> NUL then Some s else None)"

definition music_usage :: "kout list" where
  "music_usage =
     [Kprint ''  '', KprintColor ''music'' C_GREEN, Kprint '' play|list|background|status|playlist <add|list|clear>\<newline>'',
      Kprint ''    play <file>       play file (MP3/WAV)\<newline>'', Kprint ''    list [path]       list audio files\<newline>'',
      Kprint ''    background on|off toggle background playback\<newline>'', Kprint ''    playlist add <f>  add file to playlist\<newline>'',
      Kprint ''    playlist list     list playlist\<newline>'', Kprint ''    playlist clear    clear playlist\<newline>'']"

definition music_sub :: "'w hardware \<Rightarrow> string \<Rightarrow> string \<Rightarrow> string \<Rightarrow> 'w machine \<Rightarrow> 'w machine \<times> kout list" where
  "music_sub hw sub arg2 arg3 m =
     (if ksstrcmp sub ''play'' = 0 then
        (case music_play (opt_text arg2) (m_music m) of (mu, outs) \<Rightarrow> (m\<lparr>m_music := mu\<rparr>, outs))
      else if ksstrcmp sub ''list'' = 0 then
        (case fat12_list_files hw m of (m1, listing) \<Rightarrow> (m1, music_list listing))
      else if ksstrcmp sub ''background'' = 0 then
        (if ksstrcmp arg2 ''on'' = 0 then (case music_background 1 (m_music m) of (mu, outs) \<Rightarrow> (m\<lparr>m_music := mu\<rparr>, outs))
         else if ksstrcmp arg2 ''off'' = 0 then (case music_background 0 (m_music m) of (mu, outs) \<Rightarrow> (m\<lparr>m_music := mu\<rparr>, outs))
         else (m, music_print_status (m_music m)))
      else if ksstrcmp sub ''status'' = 0 then (m, music_print_status (m_music m))
      else if ksstrcmp sub ''playlist'' = 0 \<and> ksstrcmp arg2 ''add'' = 0 then
        (if char_at arg3 0 \<noteq> NUL then
           (case music_add_to_playlist (Some arg3) (m_music m) of
              (mu, rc) \<Rightarrow> (m\<lparr>m_music := mu\<rparr>,
                [if rc = 0 then Kprintf ''  Added to playlist: %s\<newline>'' [StrArg arg3] else Kprint ''  Playlist full.\<newline>'']))
         else (m, [Kprint ''  usage: music playlist add <file>\<newline>'']))
      else if ksstrcmp sub ''playlist'' = 0 \<and> ksstrcmp arg2 ''list'' = 0 then (m, music_playlist_list (m_music m))
      else if ksstrcmp sub ''playlist'' = 0 \<and> ksstrcmp arg2 ''clear'' = 0 then
        (m\<lparr>m_music := music_playlist_clear (m_music m)\<rparr>, [Kprint ''  Playlist cleared.\<newline>''])
      else (m, music_usage))"

definition cmd_music :: "'w hardware \<Rightarrow> string \<Rightarrow> 'w action" where
  "cmd_music hw args m =
     (if char_at args 0 = NUL then Some (m, music_usage)
      else map_option (\<lambda>vs. music_sub hw (str_out vs 0) (str_out vs 1) (str_out vs 2) m) (ksscanf args ''%31s %63s %63s''))"

definition cmd_demo :: "'w hardware \<Rightarrow> string \<Rightarrow> 'w action" where
  "cmd_demo hw args m =
     (let io = hw_ports hw; g = m_games m
      in case init_graphics_demo io (video_set_mode_13h io (m_world m)) of
           (d, w1, outs1) \<Rightarrow>
             case run_graphics_demo io d (gs_fb g) w1 of
               ((d2, fb, w2), outs2) \<Rightarrow>
                 Some (m\<lparr>m_games := g\<lparr>gs_demo := d2, gs_fb := fb\<rparr>, m_world := video_set_mode_text io w2\<rparr>,
                       [Kprint ''Switching to graphics mode - running demo...\<newline>''] @ outs1 @ outs2 @
                       [Kprint ''Back to text mode.\<newline>'']))"

text \<open>
  The loop of the benchmark adds up the numbers below a million in a 32-bit \<^verbatim>\<open>int\<close>; a sum
  out of range is undefined.
\<close>

function bench_loop :: "int \<Rightarrow> int \<Rightarrow> int option" where
  "bench_loop i cpu_result =
     (if i < 1000000 then
        (if cpu_result + i < 2 ^ 31 then bench_loop (i + 1) (cpu_result + i) else None)
      else Some cpu_result)"
  by pat_completeness auto

termination by (relation "measure (\<lambda>(i, c). nat (1000000 - i))") auto

declare bench_loop.simps [simp del]

definition cmd_benchmark :: "'w hardware \<Rightarrow> string \<Rightarrow> 'w action" where
  "cmd_benchmark hw args m =
     map_option (\<lambda>cpu_result. (m,
        [Kprint ''\<newline>  '', KprintColor '' benchmark '' C_MAGENTA, KprintColor '' ---------------------------------\<newline>'' C_DIM,
         Kprint ''    running ... '', KprintColor ''cpu'' C_CYAN, Kprintf '' %d ops  '' [IntArg (word_of_int cpu_result)],
         KprintColor ''mem'' C_GREEN, Kprint '' ok  '', KprintColor ''gpu'' C_YELLOW, Kprint '' ok\<newline>''] @ end_rule))
       (bench_loop 0 0)"

definition cmd_system :: "'w hardware \<Rightarrow> string \<Rightarrow> 'w action" where
  "cmd_system hw args = say
     ([Kprint ''\<newline>  '', KprintColor '' system '' C_GREEN, KprintColor '' ---------------------------------------\<newline>'' C_DIM,
       Kprint ''    cpu       MIPS R5900 @ 294MHz\<newline>'', Kprint ''    gpu       Graphics Synthesizer @ 147MHz\<newline>'',
       Kprint ''    memory    32MB DDR\<newline>'', Kprint ''    network   Ethernet 10/100\<newline>'', Kprint ''    sound     SPU2 (48ch)\<newline>'',
       Kprint ''    storage   CD/DVD\<newline>'', Kprint ''    ctrl      DualShock 2\<newline>'', Kprint ''    temp      '',
       KprintColor ''ok'' C_GREEN, Kprint ''    pwr       AC\<newline>''] @ end_rule)"

section \<open>Hardware status\<close>

definition cmd_sysinfo :: "'w hardware \<Rightarrow> string \<Rightarrow> 'w action" where
  "cmd_sysinfo hw args m =
     map_option (\<lambda>(m1, si). (m1,
        [Kprint ''\<newline>  '', KprintColor '' sysinfo '' C_MAGENTA,
         KprintColor '' ----------------------------------------\<newline>'' C_DIM,
         Kprintf ''    model    %s\<newline>'' [StrArg (si_model si)],
         Kprintf ''    ee       %u MHz  load %u%%\<newline>'' [IntArg (si_ee_mhz si), IntArg (si_ee_load_percent si)],
         Kprintf ''    ram      %u MB\<newline>'' [IntArg (si_ram_mb si)],
         Kprintf ''    mem      %u KB total  %u KB free  %u KB used\<newline>''
           [IntArg (ms_total_kb (si_memstat si)), IntArg (ms_free_kb (si_memstat si)), IntArg (ms_used_kb (si_memstat si))],
         Kprint ''    iop      '', KprintColor (iop_text (si_iop si)) (if iop_running (si_iop si) then C_GREEN else C_RED),
         Kprintf ''  load %u%%\<newline>'' [IntArg (iop_load_percent (si_iop si))], Kprint ''    network  '',
         KprintColor (hn_info (si_network si)) (if hn_linked (si_network si) then C_GREEN else C_DIM), Kprint ''\<newline>'',
         Kprint ''    temp     '', KprintColor (tp_status (si_temp si)) C_YELLOW, Kprint ''\<newline>  '', rule, Kprint ''\<newline>'']))
       (hw_status_get_sysinfo hw m)"

definition cmd_memstat :: "'w hardware \<Rightarrow> string \<Rightarrow> 'w action" where
  "cmd_memstat hw args m =
     map_option (\<lambda>s. (m,
        [Kprint ''\<newline>  '', KprintColor '' memstat '' C_CYAN, KprintColor '' ---------------------------------------\<newline>'' C_DIM,
         Kprintf ''    total   %u KB  (%u MB)\<newline>'' [IntArg (ms_total_kb s), IntArg (ms_total_kb s div 1024)],
         Kprintf ''    free    %u KB\<newline>'' [IntArg (ms_free_kb s)], Kprintf ''    used    %u KB\<newline>'' [IntArg (ms_used_kb s)],
         Kprintf ''    kernel  %u KB\<newline>'' [IntArg (ms_kernel_kb s)]] @ end_rule))
       (hw_status_get_memstat hw m)"

definition cmd_ports :: "'w hardware \<Rightarrow> string \<Rightarrow> 'w action" where
  "cmd_ports hw args m =
     (case hw_status_get_ports hw HW_STATUS_MAX_PORTS m of
        (m1, p) \<Rightarrow> Some (m1,
          [Kprint ''\<newline>  '', KprintColor '' ports '' C_YELLOW, KprintColor '' ------------------------------------------\<newline>'' C_DIM] @
          concat (map (\<lambda>i.
            [Kprintf ''    port %d  '' [IntArg (of_nat (i + 1))],
             KprintColor (if ps_present (p ! i) then ''present'' else ''empty'') (if ps_present (p ! i) then C_GREEN else C_DIM),
             Kprintf ''  %s  devices %d\<newline>'' [StrArg (ps_info (p ! i)), IntArg (word_of_int (ps_device_count (p ! i)))]])
            [0..<HW_STATUS_MAX_PORTS]) @ end_rule))"

definition cmd_iopstat :: "'w hardware \<Rightarrow> string \<Rightarrow> 'w action" where
  "cmd_iopstat hw args m =
     map_option (\<lambda>iop. (m,
        [Kprint ''\<newline>  '', KprintColor '' iopstat '' C_GREEN, KprintColor '' -----------------------------------------\<newline>'' C_DIM,
         Kprint ''    status  '', KprintColor (if iop_running iop then ''running'' else ''halted'') (if iop_running iop then C_GREEN else C_RED),
         Kprintf ''\<newline>    load    %u%%\<newline>'' [IntArg (iop_load_percent iop)]] @ end_rule))
       (hw_status_get_iop m)"

definition cmd_temp :: "'w hardware \<Rightarrow> string \<Rightarrow> 'w action" where
  "cmd_temp hw args = say
     (let t = hw_status_get_temp
      in [Kprint ''\<newline>  '', KprintColor '' temp '' C_RED, KprintColor '' ---------------------------------------------\<newline>'' C_DIM,
          Kprint ''    sensor  '', KprintColor (if tp_detected t then ''ok'' else ''n/a'') (if tp_detected t then C_GREEN else C_DIM)] @
         (if tp_celsius t \<ge> 0 then [Kprintf ''  %d C'' [IntArg (word_of_int (tp_celsius t))]] else []) @
         [Kprintf ''\<newline>    status  %s\<newline>'' [StrArg (tp_status t)]] @ end_rule)"

section \<open>Memory card and LED\<close>

definition on_files :: "'w hardware \<Rightarrow> ('w x86_fs \<Rightarrow> ('w x86_fs \<times> 'a) option) \<Rightarrow> 'w machine \<Rightarrow> ('w machine \<times> 'a) option" where
  "on_files hw f m = map_option (\<lambda>(st, r). (set_files st m, r)) (f (get_files hw m))"

definition mc_usage :: "kout list" where
  "mc_usage =
     [Kprint ''  '', KprintColor ''mc'' C_CYAN,
      Kprint '' list | mount <1|2> | export <file> [save] | clone <slot1> <slot2> | repair\<newline>'']"

definition mc_list_sub :: "'w hardware \<Rightarrow> 'w action" where
  "mc_list_sub hw m =
     (case mc_get_status x86_ops (m_card m) (get_files hw m) of
        (st, s) \<Rightarrow>
          (case fat12_list_files hw (set_files st m) of
             (m1, listing) \<Rightarrow>
               Some (m1, [Kprint ''\<newline>  '', KprintColor '' mc list '' C_CYAN, Kprint '' (slot '',
                          Kprintf ''%d mounted) '' [IntArg (word_of_int (mcs_mounted s + 1))],
                          KprintColor ''--------------------------------\<newline>'' C_DIM] @ listing @ end_rule)))"

definition mc_mount_sub :: "'w hardware \<Rightarrow> string \<Rightarrow> 'w action" where
  "mc_mount_sub hw rest m =
     (case scan_int (fst (next_word rest 16)) ''%d'' 0 of
        None \<Rightarrow> None
      | Some slot \<Rightarrow>
          if slot < 1 \<or> slot > 2 then Some (m, [Kprint ''  mc mount: use 1 or 2\<newline>''])
          else (case mc_mount x86_ops (slot - 1) (m_card m) (get_files hw m) of
                  (mc, st, r) \<Rightarrow>
                    Some ((set_files st m)\<lparr>m_card := mc\<rparr>,
                          [if r = 0 then Kprintf ''  mc: mounted slot %d\<newline>'' [IntArg (word_of_int slot)]
                           else Kprint ''  mc mount: failed\<newline>''])))"

definition mc_export_sub :: "'w hardware \<Rightarrow> string \<Rightarrow> 'w action" where
  "mc_export_sub hw rest m =
     (case next_word rest 64 of
        (fname, rest1) \<Rightarrow>
          if char_at fname 0 = NUL then Some (m, [Kprint ''  mc export <filename> [save_name]\<newline>''])
          else map_option (\<lambda>(m1, r). (m1, []))
                 (on_files hw (mc_export x86_ops (Some fname) (opt_text (fst (next_word rest1 64)))) m))"

definition mc_clone_sub :: "'w hardware \<Rightarrow> string \<Rightarrow> 'w action" where
  "mc_clone_sub hw rest m =
     (case next_word rest 16 of
        (a, rest1) \<Rightarrow>
          (case (scan_int a ''%d'' 0, scan_int (fst (next_word rest1 16)) ''%d'' 0) of
             (Some s1, Some s2) \<Rightarrow>
               if s1 < 1 \<or> s1 > 2 \<or> s2 < 1 \<or> s2 > 2 then Some (m, [Kprint ''  mc clone slot1 slot2  (1 or 2)\<newline>''])
               else map_option (\<lambda>(m1, r). (m1, if r = 0 then [Kprint ''  mc clone: ok\<newline>''] else []))
                      (on_files hw (mc_clone x86_ops (s1 - 1) (s2 - 1)) m)
           | _ \<Rightarrow> None))"

definition mc_repair_sub :: "'w hardware \<Rightarrow> 'w action" where
  "mc_repair_sub hw m =
     (case mc_repair x86_ops (- 1) (m_card m) (get_files hw m) of
        (st, r) \<Rightarrow> Some (set_files st m, if r = 0 then [Kprint ''  mc repair: done\<newline>''] else []))"

definition cmd_mc :: "'w hardware \<Rightarrow> string \<Rightarrow> 'w action" where
  "cmd_mc hw args m =
     (case next_word args 32 of
        (sub, rest) \<Rightarrow>
          if char_at sub 0 = NUL then Some (m, mc_usage)
          else if ksstrcmp sub ''list'' = 0 then mc_list_sub hw m
          else if ksstrcmp sub ''mount'' = 0 then mc_mount_sub hw rest m
          else if ksstrcmp sub ''export'' = 0 then mc_export_sub hw rest m
          else if ksstrcmp sub ''clone'' = 0 then mc_clone_sub hw rest m
          else if ksstrcmp sub ''repair'' = 0 then mc_repair_sub hw m
          else Some (m, [Kprint ''  mc: unknown subcommand (list, mount, export, clone, repair)\<newline>'']))"

definition with_led :: "(led \<Rightarrow> led \<times> kout list \<times> int) \<Rightarrow> kout list \<Rightarrow> 'w machine \<Rightarrow> 'w machine \<times> kout list" where
  "with_led f ok m =
     (case f (m_led m) of (l, outs, r) \<Rightarrow> (m\<lparr>m_led := l\<rparr>, outs @ (if r = 0 then ok else [])))"

definition byte_of :: "int \<Rightarrow> u8" where
  "byte_of v = word_of_int (if v < 0 then 0 else if v > 255 then 255 else v)"

definition led_rgb_sub :: "string \<Rightarrow> 'w action" where
  "led_rgb_sub rest m =
     (case next_word rest 8 of (r_str, rest1) \<Rightarrow> (case next_word rest1 8 of (g_str, rest2) \<Rightarrow>
        (case (scan_int r_str ''%d'' 0, scan_int g_str ''%d'' 0, scan_int (fst (next_word rest2 8)) ''%d'' 0) of
           (Some ri, Some gi, Some bi) \<Rightarrow>
             let r = byte_of ri; g = byte_of gi; b = byte_of bi
             in Some (with_led (led_rgb r g b)
                        [Kprintf ''  led rgb %d %d %d\<newline>'' [IntArg (ucast r), IntArg (ucast g), IntArg (ucast b)]] m)
         | _ \<Rightarrow> None)))"

definition cmd_led :: "'w hardware \<Rightarrow> string \<Rightarrow> 'w action" where
  "cmd_led hw args m =
     (case next_word args 32 of
        (sub, rest) \<Rightarrow>
          if char_at sub 0 = NUL
          then Some (m, [Kprint ''  '', KprintColor ''led'' C_YELLOW, Kprint '' set <red|green|blue|off> | pulse [ms] | rgb <r> <g> <b>\<newline>''])
          else if ksstrcmp sub ''set'' = 0 then
            (let color = fst (next_word rest 16)
             in if char_at color 0 = NUL then Some (m, [Kprint ''  led set red|green|blue|off\<newline>''])
                else Some (with_led (led_set (Some color)) [Kprintf ''  led set %s\<newline>'' [StrArg color]] m))
          else if ksstrcmp sub ''pulse'' = 0 then
            map_option (\<lambda>ms. with_led (led_pulse (word_of_int ms)) [Kprint ''  led pulse\<newline>''] m)
              (scan_int (fst (next_word rest 16)) ''%u'' 0)
          else if ksstrcmp sub ''rgb'' = 0 then led_rgb_sub rest m
          else Some (m, [Kprint ''  led: unknown subcommand (set, pulse, rgb)\<newline>'']))"

section \<open>Party, streaming, Bluetooth\<close>

text \<open>A party call that gives a result, and what the shell prints on success and failure.\<close>

definition party_call_sub ::
  "'w hardware \<Rightarrow> ('w net_ops \<Rightarrow> party \<Rightarrow> 'w \<Rightarrow> (party \<times> 'w \<times> int) option) \<Rightarrow> kout \<Rightarrow> kout \<Rightarrow> 'w action" where
  "party_call_sub hw f ok failed m =
     map_option (\<lambda>(p, w, r). (set_party p w m, [if r = 0 then ok else failed])) (f (net_of hw m) (get_party m) (m_world m))"

definition room_text :: "u8 list \<Rightarrow> string" where
  "room_text bs = cstr (map (\<lambda>b. char_of (unat b)) bs)"

definition party_list_sub :: "'w hardware \<Rightarrow> 'w action" where
  "party_list_sub hw m =
     (case party_list (net_of hw m) (get_party m) (m_world m) of
        (p, w, rc) \<Rightarrow>
          let m1 = set_party p w m; r = party_get_room p; name = room_text (room_name r)
          in Some (m1,
               if party_in_room p
               then [Kprintf ''  room: %s  members: %d\<newline>''
                       [StrArg (if char_at name 0 \<noteq> NUL then name else ''(unnamed)''), IntArg (of_nat (member_count r))]]
               else [Kprint ''  no room (use party create or party join)\<newline>'']))"

definition cmd_party :: "'w hardware \<Rightarrow> string \<Rightarrow> 'w action" where
  "cmd_party hw args m0 =
     (case next_word args 32 of
        (sub, rest) \<Rightarrow>
          if char_at sub 0 = NUL
          then Some (m0, [Kprint ''  '', KprintColor ''party'' C_CYAN,
                 Kprint '' create [name] | invite <IP> | list | join [IP] | leave | chat <msg>\<newline>''])
          else
            let m = set_party (party_init (get_party m0)) (m_world m0) m0
            in if ksstrcmp sub ''create'' = 0 then
                 party_call_sub hw (\<lambda>ops. party_create ops (opt_text (fst (next_word rest PARTY_ROOM_NAME_MAX))))
                   (Kprint ''  party: room created\<newline>'') (Kprint ''  party create failed\<newline>'') m
               else if ksstrcmp sub ''invite'' = 0 then
                 (let ip = fst (next_word rest PARTY_IP_STR_MAX)
                  in if char_at ip 0 = NUL then Some (m, [Kprint ''  party invite <IP>\<newline>''])
                     else party_call_sub hw (\<lambda>ops. party_invite ops (Some ip))
                            (Kprintf ''  party: invited %s\<newline>'' [StrArg ip]) (Kprint ''  party invite failed\<newline>'') m)
               else if ksstrcmp sub ''list'' = 0 then party_list_sub hw m
               else if ksstrcmp sub ''join'' = 0 then
                 party_call_sub hw party_join (Kprint ''  party: joined\<newline>'') (Kprint ''  party join failed\<newline>'') m
               else if ksstrcmp sub ''leave'' = 0 then
                 map_option (\<lambda>(p, w). (set_party p w m, [Kprint ''  party: left\<newline>'']))
                   (party_leave (net_of hw m) (get_party m) (m_world m))
               else if ksstrcmp sub ''chat'' = 0 then
                 (let msg = fst (next_word rest PARTY_CHAT_MSG_MAX)
                  in if char_at msg 0 = NUL then Some (m, [Kprint ''  party chat <message>\<newline>''])
                     else party_call_sub hw (\<lambda>ops. party_chat ops (Some msg))
                            (Kprint ''  sent\<newline>'') (Kprint ''  party chat failed (in a room?)\<newline>'') m)
               else Some (m, [Kprint ''  party: unknown subcommand\<newline>'']))"

definition cmd_stream :: "'w hardware \<Rightarrow> string \<Rightarrow> 'w action" where
  "cmd_stream hw args m0 =
     (case next_word args 24 of
        (sub, rest) \<Rightarrow>
          if char_at sub 0 = NUL
          then Some (m0, [Kprint ''  '', KprintColor ''stream'' C_MAGENTA, Kprint '' start <client_IP> | stop | status | quality <0|1|2>\<newline>''])
          else
            let m = set_streaming (streaming_init (get_streaming m0)) m0; g = get_streaming m
            in if ksstrcmp sub ''start'' = 0 then
                 (let ip = fst (next_word rest PARTY_IP_STR_MAX)
                  in if char_at ip 0 = NUL then Some (m, [Kprint ''  stream start <client_IP>\<newline>''])
                     else case streaming_start g of
                            (g1, r) \<Rightarrow> Some (set_streaming g1 m,
                               [if r = 0 then Kprintf ''  stream: started -> %s\<newline>'' [StrArg ip] else Kprint ''  stream start failed\<newline>'']))
               else if ksstrcmp sub ''stop'' = 0 then Some (set_streaming (streaming_stop g) m, [Kprint ''  stream: stopped\<newline>''])
               else if ksstrcmp sub ''status'' = 0 then
                 Some (m, [Kprint (if streaming_active g then ''  stream: active\<newline>'' else ''  stream: stopped\<newline>'')])
               else if ksstrcmp sub ''quality'' = 0 then
                 (let q = fst (next_word rest 8)
                  in map_option (\<lambda>v. (set_streaming (streaming_set_quality v g) m, [Kprintf ''  stream quality: %d\<newline>'' [IntArg (word_of_int v)]]))
                       (if char_at q 0 \<noteq> NUL then scan_int q ''%d'' 1 else Some 1))
               else Some (m, [Kprint ''  stream: unknown subcommand\<newline>'']))"

definition cmd_bt :: "'w hardware \<Rightarrow> string \<Rightarrow> 'w action" where
  "cmd_bt hw args m0 =
     (case next_word args 24 of
        (sub, rest) \<Rightarrow>
          if char_at sub 0 = NUL
          then Some (m0, [Kprint ''  '', KprintColor ''bt'' C_BLUE, Kprint '' scan | pair [addr] | unpair <addr> | list\<newline>''])
          else
            let b = bt_init (m_bt m0); m = m0\<lparr>m_bt := b\<rparr>
            in if ksstrcmp sub ''scan'' = 0 then
                 (let r = bt_scan b
                  in Some (m, [if r = 0 then Kprint ''  bt scan: no devices found\<newline>''
                               else Kprintf ''  bt scan: %d device(s) found\<newline>'' [IntArg (word_of_int r)]]))
               else if ksstrcmp sub ''pair'' = 0 then
                 (let addr = fst (next_word rest BT_ADDR_STR_MAX)
                  in case bt_pair (Some (if char_at addr 0 \<noteq> NUL then addr else ''00:11:22:33:44:55'')) b of
                       (b1, r) \<Rightarrow> Some (m\<lparr>m_bt := b1\<rparr>, [Kprint (if r = 0 then ''  bt pair: ok\<newline>'' else ''  bt pair failed\<newline>'')]))
               else if ksstrcmp sub ''unpair'' = 0 then
                 (let addr = fst (next_word rest BT_ADDR_STR_MAX)
                  in if char_at addr 0 = NUL then Some (m, [Kprint ''  bt unpair <addr>\<newline>''])
                     else Some (m\<lparr>m_bt := fst (bt_unpair (Some addr) b)\<rparr>, [Kprint ''  bt unpair ok\<newline>'']))
               else if ksstrcmp sub ''list'' = 0 then
                 (let n = snd (bt_list (int BT_DEVICE_MAX) b)
                  in Some (m, [if n < 0 then Kprint ''  bt list failed\<newline>'' else Kprintf ''  bt devices: %d\<newline>'' [IntArg (word_of_int n)]]))
               else Some (m, [Kprint ''  bt: unknown subcommand\<newline>'']))"

definition cmd_ctrlmap :: "'w hardware \<Rightarrow> string \<Rightarrow> 'w action" where
  "cmd_ctrlmap hw args m =
     (let b = bt_init (m_bt m)
      in case controller_map_show b of
           (outs, r) \<Rightarrow> Some (m\<lparr>m_bt := b\<rparr>,
             outs @ [Kprint (if r = 0 then ''  ctrlmap: identity mapping (default)\<newline>'' else ''  ctrlmap failed\<newline>'')]))"

definition cmd_ctrlprofile :: "'w hardware \<Rightarrow> string \<Rightarrow> 'w action" where
  "cmd_ctrlprofile hw args m0 =
     (case next_word args 24 of
        (sub, rest) \<Rightarrow>
          if char_at sub 0 = NUL
          then Some (m0, [Kprint ''  '', KprintColor ''ctrlprofile'' C_YELLOW, Kprint '' create <name> | load <name>\<newline>''])
          else
            let b = bt_init (m_bt m0); m = m0\<lparr>m_bt := b\<rparr>; name = fst (next_word rest BT_PROFILE_NAME_MAX)
            in if ksstrcmp sub ''create'' = 0 then
                 (if char_at name 0 = NUL then Some (m, [Kprint ''  ctrlprofile create <name>\<newline>''])
                  else case bt_controller_profile_create (Some name) b of
                         (b1, r) \<Rightarrow> Some (m\<lparr>m_bt := b1\<rparr>,
                           [if r = 0 then Kprintf ''  profile created: %s\<newline>'' [StrArg name] else Kprint ''  ctrlprofile create failed\<newline>'']))
               else if ksstrcmp sub ''load'' = 0 then
                 (if char_at name 0 = NUL then Some (m, [Kprint ''  ctrlprofile load <name>\<newline>''])
                  else case bt_controller_profile_load (Some name) b of
                         (b1, r) \<Rightarrow> Some (m\<lparr>m_bt := b1\<rparr>,
                           [if r = 0 then Kprintf ''  profile loaded: %s\<newline>'' [StrArg name] else Kprint ''  ctrlprofile load failed\<newline>'']))
               else Some (m, [Kprint ''  ctrlprofile: unknown subcommand\<newline>'']))"

section \<open>Saves\<close>

text \<open>What the save manager prints; the model of its operations is in \<^verbatim>\<open>Storage_Clients\<close>.\<close>

definition save_manager_list :: "'w hardware \<Rightarrow> 'w action" where
  "save_manager_list hw m =
     (case fat12_list_files hw m of
        (m1, listing) \<Rightarrow> Some (m1,
          [Kprint ''\<newline>  '', KprintColor '' saves '' 0x2A, KprintColor '' (FAT12 files = save candidates) -----\<newline>'' 0x08] @ listing @
          [Kprint ''  Backup: '', KprintColor ''saves backup <slot> [name]'' 0x0B, Kprint ''  Restore: '',
           KprintColor ''saves restore <slot> [name]\<newline>'' 0x0B, Kprint ''  Clone: '',
           KprintColor ''saves clone <dest> <src>\<newline>'' 0x0B, Kprint ''  ----------------------------------------\<newline>\<newline>'']))"

definition backup_output :: "save_manager \<Rightarrow> int \<Rightarrow> kout list" where
  "backup_output sm rc =
     (if rc \<noteq> 0 then [Kprint ''  saves: FAT12 write failed\<newline>'']
      else [Kprint ''  '', KprintColor ''saves'' 0x0A,
            Kprintf '' Backup '%s' written (%u bytes, v%u).\<newline>'' [StrArg (backup_name sm), IntArg (backup_size sm), IntArg (backup_version sm)]])"

definition restore_output :: "string \<Rightarrow> int \<Rightarrow> save_manager \<Rightarrow> int \<Rightarrow> kout list" where
  "restore_output src slot sm rc =
     (if rc \<noteq> 0 then [Kprint ''  saves: restore read failed\<newline>'']
      else [Kprint ''  '', KprintColor ''saves'' 0x0A,
            Kprintf '' Restore from '%s' (%u bytes) -> slot %d.\<newline>'' [StrArg src, IntArg (backup_size sm), IntArg (word_of_int slot)]])"

definition save_manager_list_versions :: "save_manager \<Rightarrow> kout list" where
  "save_manager_list_versions sm =
     [Kprint ''  '', KprintColor ''saves'' 0x0A, Kprint '' versions: '',
      if char_at (backup_name sm) 0 \<noteq> NUL then Kprintf ''1. %s (v%u)\<newline>'' [StrArg (backup_name sm), IntArg (backup_version sm)]
      else Kprint ''(none)\<newline>'']"

text \<open>A call of the save manager; \<open>report\<close> says what it prints, given its state after the call.\<close>

definition on_saves ::
  "'w hardware \<Rightarrow> (save_manager \<Rightarrow> 'w x86_fs \<Rightarrow> (save_manager \<times> 'w x86_fs \<times> int) option) \<Rightarrow> (save_manager \<Rightarrow> int \<Rightarrow> kout list) \<Rightarrow> 'w action" where
  "on_saves hw f report m =
     map_option (\<lambda>(sm, st, rc). ((set_files st m)\<lparr>m_saves := sm\<rparr>, report sm rc)) (f (m_saves m) (get_files hw m))"

definition slot_arg :: "string \<Rightarrow> int option" where
  "slot_arg a = (if char_at a 0 \<noteq> NUL then scan_int a ''%d'' 0 else Some 0)"

definition saves_restore_sub :: "'w hardware \<Rightarrow> int \<Rightarrow> string \<Rightarrow> 'w action" where
  "saves_restore_sub hw slot src = on_saves hw (save_manager_restore x86_ops (Some src)) (restore_output src slot)"

definition saves_usage :: "kout list" where
  "saves_usage =
     [Kprint ''  '', KprintColor ''saves'' C_GREEN, Kprint '' list|backup|restore|clone|versions|rollback\<newline>'',
      Kprint ''    list              list save candidates (FAT12)\<newline>'', Kprint ''    backup <slot> [n] backup to RAM\<newline>'',
      Kprint ''    restore <slot>    restore from backup\<newline>'', Kprint ''    clone <dest> <src> clone slot\<newline>'',
      Kprint ''    versions [slot]  list versions\<newline>'', Kprint ''    rollback <slot> <ver> restore version\<newline>'']"

definition saves_sub :: "'w hardware \<Rightarrow> string \<Rightarrow> string \<Rightarrow> string \<Rightarrow> 'w action" where
  "saves_sub hw sub a1 a2 m =
     (if ksstrcmp sub ''list'' = 0 then save_manager_list hw m
      else if ksstrcmp sub ''backup'' = 0 then
        (case slot_arg a1 of None \<Rightarrow> None
         | Some slot \<Rightarrow>
             on_saves hw (save_manager_backup x86_ops
                 (Some (if char_at a2 0 \<noteq> NUL then a2 else if char_at a1 0 \<noteq> NUL then a1 else ''backup''))) backup_output m)
      else if ksstrcmp sub ''restore'' = 0 then
        (case slot_arg a1 of None \<Rightarrow> None
         | Some slot \<Rightarrow> saves_restore_sub hw slot (if char_at a2 0 \<noteq> NUL then a2 else ''backup'') m)
      else if ksstrcmp sub ''clone'' = 0 \<and> char_at a1 0 \<noteq> NUL \<and> char_at a2 0 \<noteq> NUL then
        (case (scan_int a1 ''%d'' 0, scan_int a2 ''%d'' 0) of
           (Some dest, Some src) \<Rightarrow> on_saves hw (save_manager_clone x86_ops dest src) (\<lambda>sm rc. []) m
         | _ \<Rightarrow> None)
      else if ksstrcmp sub ''versions'' = 0 then
        (case slot_arg a1 of None \<Rightarrow> None | Some slot \<Rightarrow> Some (m, save_manager_list_versions (m_saves m)))
      else if ksstrcmp sub ''rollback'' = 0 \<and> char_at a1 0 \<noteq> NUL \<and> char_at a2 0 \<noteq> NUL then
        (case (scan_int a1 ''%d'' 0, scan_int a2 ''%d'' 0) of
           (Some slot, Some ver) \<Rightarrow>
             let src = backup_name (m_saves m)
             in on_saves hw (save_manager_rollback x86_ops ver)
                  (\<lambda>sm rc. if ver \<noteq> 1 \<or> char_at src 0 = NUL then [] else restore_output src slot sm rc) m
         | _ \<Rightarrow> None)
      else Some (m, saves_usage))"

definition cmd_saves :: "'w hardware \<Rightarrow> string \<Rightarrow> 'w action" where
  "cmd_saves hw args m =
     (case scan_words args ''%31s %31s %31s'' of
        None \<Rightarrow> None
      | Some vs \<Rightarrow> saves_sub hw (str_out vs 0) (str_out vs 1) (str_out vs 2) m)"

definition cmd_dashboard :: "'w hardware \<Rightarrow> string \<Rightarrow> 'w action" where
  "cmd_dashboard hw args m = map_option (Pair m) (dashboard_show m)"

text \<open>
  \<^verbatim>\<open>sys_exit\<close> leaves the address of its message in \<^verbatim>\<open>esi\<close>, but \<^verbatim>\<open>print_string\<close> takes its argument
  from the stack: it prints the bytes at the return address instead.
\<close>

definition sys_exit :: "'w hardware \<Rightarrow> 'w action" where
  "sys_exit hw m = Some (system_reboot hw m, [Kprintf ''%s'' [StrArg (hw_code hw)]])"

definition cmd_exit :: "'w hardware \<Rightarrow> string \<Rightarrow> 'w action" where
  "cmd_exit hw args =
     andthen (say [Kprint ''\<newline>  '', KprintColor '' session ended '' C_DIM, Kprint ''\<newline>  '', KprintColor ''asmos'' C_CYAN,
                   KprintColor '' out. '' C_DIM, Kprint ''\<newline>\<newline>'']) (sys_exit hw)"

section \<open>The command table\<close>

definition commands :: "'w hardware \<Rightarrow> (string \<times> (string \<Rightarrow> 'w action) \<times> string) list" where
  "commands hw =
     [(''help'', cmd_help hw, ''Show available commands''),
      (''ls'', cmd_ls hw, ''List files in current directory''),
      (''cd'', cmd_cd hw, ''Change directory''),
      (''cat'', cmd_cat hw, ''Display file contents''),
      (''meminfo'', cmd_meminfo hw, ''Show memory information''),
      (''ps2info'', cmd_ps2info hw, ''Show PS2 hardware information''),
      (''clear'', cmd_clear hw, ''Clear screen''),
      (''date'', cmd_date hw, ''Show current date/time''),
      (''echo'', cmd_echo hw, ''Echo text to screen''),
      (''reboot'', cmd_reboot hw, ''Reboot system''),
      (''network'', cmd_network hw, ''Network operations''),
      (''sound'', cmd_sound hw, ''Sound system control''),
      (''graphics'', cmd_graphics hw, ''Graphics system control''),
      (''timer'', cmd_timer hw, ''Timer operations''),
      (''controller'', cmd_controller hw, ''PS2 controller operations''),
      (''ping'', cmd_ping hw, ''Network ping''),
      (''observe'', cmd_observe hw, ''Observe subsystem into RAM''),
      (''collapse'', cmd_collapse hw, ''Collapse config profile''),
      (''superpose'', cmd_superpose hw, ''Superpose two profiles''),
      (''entangle'', cmd_entangle hw, ''Entangle controller ports''),
      (''coherence'', cmd_coherence hw, ''Show coherence status''),
      (''ftp'', cmd_ftp hw, ''FTP client''),
      (''telnet'', cmd_telnet hw, ''Telnet client''),
      (''irc'', cmd_irc hw, ''IRC client''),
      (''game'', cmd_game hw, ''Launch games''),
      (''games'', cmd_games hw, ''Game history (history|stats|last)''),
      (''music'', cmd_music hw, ''Music player''),
      (''demo'', cmd_demo hw, ''Graphics demos''),
      (''benchmark'', cmd_benchmark hw, ''System benchmarks''),
      (''system'', cmd_system hw, ''System control''),
      (''sysinfo'', cmd_sysinfo hw, ''Full system status (EE, RAM, IOP, ports, net, temp)''),
      (''memstat'', cmd_memstat hw, ''Memory usage''),
      (''ports'', cmd_ports hw, ''Controller/USB port status''),
      (''iopstat'', cmd_iopstat hw, ''IOP status''),
      (''temp'', cmd_temp hw, ''Temperature status''),
      (''mc'', cmd_mc hw, ''Memory card: list, mount, export, clone, repair''),
      (''led'', cmd_led hw, ''LED: set, pulse, rgb''),
      (''party'', cmd_party hw, ''Party: create/invite/list/join''),
      (''stream'', cmd_stream hw, ''Stream gameplay to PC''),
      (''bt'', cmd_bt hw, ''Bluetooth: scan/pair''),
      (''ctrlmap'', cmd_ctrlmap hw, ''Controller mapping''),
      (''ctrlprofile'', cmd_ctrlprofile hw, ''Controller profile''),
      (''saves'', cmd_saves hw, ''Save backup/restore/clone/versions''),
      (''dashboard'', cmd_dashboard hw, ''Visual dashboard (memory, LED, status)''),
      (''exit'', cmd_exit hw, ''Exit shell'')]"

definition unknown_command :: "string \<Rightarrow> kout list" where
  "unknown_command cmd =
     [KprintColor ''  >> '' C_DIM, KprintColor ''unknown command'' C_RED, Kprint '': '', KprintColor cmd C_BRIGHT,
      Kprint ''\<newline>  '', KprintColor ''run 'help' for command list\<newline>'' C_DIM]"

definition run_command :: "'w hardware \<Rightarrow> string \<Rightarrow> string \<Rightarrow> 'w action" where
  "run_command hw cmd args =
     (case List.find (\<lambda>(name, f, d). ksstrcmp cmd name = 0) (commands hw) of
        Some (name, f, d) \<Rightarrow> f args
      | None \<Rightarrow> say (unknown_command cmd))"

section \<open>Reading a line\<close>

definition keyboard_poll_scancode :: "'w port_io \<Rightarrow> 'w \<Rightarrow> 'w \<times> u8" where
  "keyboard_poll_scancode io w =
     (case inb io 0x64 w of (w1, v) \<Rightarrow> if v AND 1 = 0 then (w1, 0) else inb io 0x60 w1)"

definition rub_out :: "console \<Rightarrow> console option" where
  "rub_out con = each vga_putchar [CHR 0x08, CHR '' '', CHR 0x08] con"

text \<open>
  The loop of \<^verbatim>\<open>sys_read_line\<close> for a buffer with room for \<open>mx\<close> characters and the terminator;
  \<open>buf\<close> is what has been typed. It waits until Enter is read.
\<close>

partial_function (option) read_line_loop ::
  "'w port_io \<Rightarrow> nat \<Rightarrow> string \<Rightarrow> bool \<Rightarrow> console \<Rightarrow> 'w \<Rightarrow> (string \<times> bool \<times> console \<times> 'w) option" where
  "read_line_loop io mx buf sh con w =
     (case keyboard_poll_scancode io w of
        (w1, sc) \<Rightarrow>
          if sc = 0 then read_line_loop io mx buf sh con w1
          else if sc = 0x2A \<or> sc = 0x36 then read_line_loop io mx buf True con w1
          else if sc = 0xAA \<or> sc = 0xB6 then read_line_loop io mx buf False con w1
          else if sc = 0x1C then Option.bind (vga_putchar CHR 0x0A con) (\<lambda>con1. Some (buf, sh, con1, w1))
          else if sc = 0x0E then
            (if buf = [] then read_line_loop io mx buf sh con w1
             else Option.bind (rub_out con) (\<lambda>con1. read_line_loop io mx (butlast buf) sh con1 w1))
          else if scancode_to_ascii sc sh = NUL \<or> length buf \<ge> mx then read_line_loop io mx buf sh con w1
          else Option.bind (vga_putchar (scancode_to_ascii sc sh) con)
                 (\<lambda>con1. read_line_loop io mx (buf @ [scancode_to_ascii sc sh]) sh con1 w1))"

definition sys_read_line :: "'w hardware \<Rightarrow> nat \<Rightarrow> 'w machine \<Rightarrow> ('w machine \<times> string) option" where
  "sys_read_line hw max_len m =
     map_option (\<lambda>(buf, sh, con, w). (m\<lparr>m_shift_down := sh, m_console := con, m_world := w\<rparr>, buf))
       (read_line_loop (hw_ports hw) (max_len - 1) [] (m_shift_down m) (m_console m) (m_world m))"

definition plat_read_line :: "'w hardware \<Rightarrow> nat \<Rightarrow> 'w machine \<Rightarrow> ('w machine \<times> string) option" where
  "plat_read_line hw max_len m = sys_read_line hw max_len m"

section \<open>The main loop\<close>

definition show_outs :: "kout list \<Rightarrow> 'w machine \<Rightarrow> 'w machine option" where
  "show_outs outs m = map_option (\<lambda>con. m\<lparr>m_console := con\<rparr>) (each emit outs (m_console m))"

text \<open>One round of \<^verbatim>\<open>start_shell\<close>, which repeats until a command resets the machine.\<close>

definition shell_step :: "'w hardware \<Rightarrow> 'w machine \<Rightarrow> 'w machine option" where
  "shell_step hw m =
     Option.bind (subsys_tick_all hw m) (\<lambda>m1.
     Option.bind (show_outs print_prompt m1) (\<lambda>m2.
     Option.bind (sys_read_line hw 512 m2) (\<lambda>(m3, input).
       (case parse_cmd_args input 64 448 of
          (cmd, args) \<Rightarrow>
            if char_at cmd 0 = NUL then Some m3
            else Option.bind (run_command hw cmd args m3) (\<lambda>(m4, outs). show_outs outs m4)))))"

inductive start_shell :: "'w hardware \<Rightarrow> 'w machine \<Rightarrow> 'w machine \<Rightarrow> bool" for hw m0 where
  start: "start_shell hw m0 m0"
| round: "start_shell hw m0 m \<Longrightarrow> \<not> m_halted m \<Longrightarrow> shell_step hw m = Some m' \<Longrightarrow> start_shell hw m0 m'"

end
