(* ===== verification/Shell_Facts.thy ===== *)
theory Shell_Facts
  imports Shell
begin

text \<open>
  What the shell does with a line: the scanner formats with a width store nothing, so the
  commands that use them only ever print; splitting a line; typing a line; and what no
  sequence of shell rounds can change.
\<close>

section \<open>Formats with a width\<close>

text \<open>
  \<^verbatim>\<open>ksscanf\<close> takes the character after a percent sign for the conversion. A digit there is
  no conversion it knows, so nothing is stored.
\<close>

fun widths_only :: "string \<Rightarrow> bool" where
  "widths_only [] = True"
| "widths_only [c] = (c \<noteq> CHR ''%'')"
| "widths_only (c # d # f) = (if c = CHR ''%'' then is_dec d \<and> widths_only f else widths_only (d # f))"

lemma width_stores_nothing: "widths_only f \<Longrightarrow> ksscanf_loop s f = Some []"
proof (induction s f rule: ksscanf_loop.induct)
  case (4 c cs f d fs)
  have "is_dec d \<Longrightarrow> scan_directive d c cs = Some ([], c # cs)"
    by (auto simp: scan_directive_def is_dec_def)
  with 4 show ?case by (auto split: if_splits)
qed auto

lemma scan_widths [simp]:
  "ksscanf s ''%31s'' = Some []" "ksscanf s ''%63s'' = Some []" "ksscanf s ''%23s %23s'' = Some []"
  "ksscanf s ''%63s %31s'' = Some []" "ksscanf s ''%31s %23s %23s'' = Some []" "ksscanf s ''%31s %63s %63s'' = Some []"
  "ksscanf s ''%31s %31s %31s'' = Some []"
  by (simp_all add: ksscanf_def cstr_Cons width_stores_nothing is_dec_def)

lemma scan_words_widths [simp]:
  "scan_words s ''%31s'' = Some []" "scan_words s ''%63s'' = Some []" "scan_words s ''%63s %31s'' = Some []"
  "scan_words s ''%31s %31s %31s'' = Some []"
  by (simp_all add: scan_words_def)

lemma outs_Nil [simp]: "str_out [] i = []" "int_out [] i v = v"
  by (simp_all add: str_out_def int_out_def)

lemma char_at_Nil [simp]: "char_at [] i = NUL"
  by (simp add: char_at_def)

lemma ksstrcmp_Nil [simp]: "ksstrcmp [] s = 0 \<longleftrightarrow> cstr s = []"
  using ksstrcmp_eq [of "[]" s] by auto

lemma sub_unreachable:
  "f \<in> {cmd_controller hw, cmd_superpose hw, cmd_ftp hw, cmd_telnet hw, cmd_irc hw, cmd_games hw, cmd_music hw, cmd_saves hw} \<Longrightarrow>
   \<exists>outs. f args m = Some (m, outs) \<and> f [] m = Some (m, outs)"
  by (auto simp: cmd_controller_def controller_sub_def controller_usage_def cmd_superpose_def cmd_ftp_def cmd_telnet_def
      cmd_irc_def cmd_games_def cmd_music_def music_sub_def cmd_saves_def saves_sub_def cstr_Cons)

text \<open>
  C36: No subcommand of the commands that scan with widths can be reached. Whatever
  arguments are given, \<^verbatim>\<open>controller\<close>, \<^verbatim>\<open>superpose\<close>, \<^verbatim>\<open>ftp\<close>, \<^verbatim>\<open>telnet\<close>, \<^verbatim>\<open>irc\<close>, \<^verbatim>\<open>games\<close>, \<^verbatim>\<open>music\<close> and
  \<^verbatim>\<open>saves\<close> leave the machine as it is and print the same as without arguments.
\<close>

theorem subcommands_unreachable:
  "f \<in> {cmd_controller hw, cmd_superpose hw, cmd_ftp hw, cmd_telnet hw, cmd_irc hw, cmd_games hw, cmd_music hw, cmd_saves hw} \<Longrightarrow>
   \<exists>outs. f args m = Some (m, outs) \<and> f [] m = Some (m, outs)"
  by (rule sub_unreachable)

theorem subcommands_unreachable_witness:
  "\<forall>(hw :: unit hardware) m. \<exists>outs. cmd_music hw ''play song'' m = Some (m, outs) \<and> cmd_music hw [] m = Some (m, outs)"
  using subcommands_unreachable by blast

section \<open>What no round of the shell changes\<close>

definition kept :: "'w machine \<Rightarrow> 'w machine \<Rightarrow> bool" where
  "kept m m' \<longleftrightarrow>
     m_remap m' = m_remap m \<and> m_music m' = m_music m \<and> m_saves m' = m_saves m \<and> m_streams m' = m_streams m \<and>
     m_storage m' = m_storage m \<and> m_pause m' = m_pause m \<and> m_sched m' = m_sched m \<and>
     q_profile_count (m_quantum m') = q_profile_count (m_quantum m)"

lemma kept_refl [simp]: "kept m m"
  by (simp add: kept_def)

lemma kept_trans: "kept m1 m2 \<Longrightarrow> kept m2 m3 \<Longrightarrow> kept m1 m3"
  by (simp add: kept_def)

text \<open>An action that only ever goes to such machines.\<close>

definition keeps :: "'w action \<Rightarrow> bool" where
  "keeps f \<longleftrightarrow> (\<forall>m m' outs. f m = Some (m', outs) \<longrightarrow> kept m m')"

named_theorems keeps_intro

lemma keepsI: "(\<And>m m' outs. f m = Some (m', outs) \<Longrightarrow> kept m m') \<Longrightarrow> keeps f"
  by (auto simp: keeps_def)

lemma keepsD: "keeps f \<Longrightarrow> f m = Some (m', outs) \<Longrightarrow> kept m m'"
  by (auto simp: keeps_def)

lemma keeps_say [keeps_intro]: "keeps (say outs)"
  by (auto simp: keeps_def say_def)

lemma keeps_andthen [keeps_intro]: "keeps a \<Longrightarrow> keeps b \<Longrightarrow> keeps (andthen a b)"
  by (rule keepsI) (auto simp: andthen_def split: option.splits prod.splits dest!: keepsD intro: kept_trans)

lemma kept_files: "kept m (set_files st m)"
  by (auto simp: kept_def set_files_def split: prod.splits)

lemma kept_list: "fat12_list_files hw m = (m', outs) \<Longrightarrow> kept m m'"
  by (auto simp: kept_def fat12_list_files_def split: prod.splits option.splits)

lemma kept_party: "kept m (set_party p w m)"
  by (simp add: kept_def set_party_def)

lemma kept_streaming: "kept m (set_streaming g m)"
  by (simp add: kept_def set_streaming_def)

lemma kept_ports: "ports_from hw is m = (m', ps) \<Longrightarrow> kept m m'"
  by (induction "is" arbitrary: m m' ps) (fastforce simp: kept_def split: prod.splits)+

lemma kept_fields [simp]:
  "kept m (m'\<lparr>m_world := w\<rparr>) = kept m m'" "kept m (m'\<lparr>m_card := c\<rparr>) = kept m m'" "kept m (m'\<lparr>m_bt := b\<rparr>) = kept m m'"
  "kept m (m'\<lparr>m_led := l\<rparr>) = kept m m'" "kept m (m'\<lparr>m_games := g\<rparr>) = kept m m'" "kept m (m'\<lparr>m_budget := bu\<rparr>) = kept m m'"
  "kept m (m'\<lparr>m_net := n\<rparr>) = kept m m'" "kept m (m'\<lparr>m_hal_net := hn\<rparr>) = kept m m'" "kept m (m'\<lparr>m_pads := e\<rparr>) = kept m m'"
  "kept m (m'\<lparr>m_console := con\<rparr>) = kept m m'" "kept m (m'\<lparr>m_halted := h\<rparr>) = kept m m'" "kept m (m'\<lparr>m_shift_down := sh\<rparr>) = kept m m'"
  "kept m (m'\<lparr>m_transport := t\<rparr>) = kept m m'" "kept m (m'\<lparr>m_phase := ph\<rparr>) = kept m m'"
  by (simp_all add: kept_def)

lemma keeps_simple [keeps_intro]:
  "keeps (cmd_help hw args)" "keeps (cmd_cd hw args)" "keeps (cmd_cat hw args)" "keeps (cmd_clear hw args)" "keeps (cmd_date hw args)"
  "keeps (cmd_echo hw args)" "keeps (cmd_ps2info hw args)" "keeps (cmd_system hw args)" "keeps (cmd_temp hw args)"
  by (simp_all only: cmd_help_def cmd_cd_def cmd_cat_def cmd_clear_def cmd_date_def cmd_echo_def cmd_ps2info_def cmd_system_def cmd_temp_def keeps_say)

lemma keeps_world [keeps_intro]:
  "keeps (cmd_reboot hw args)" "keeps (cmd_network hw args)" "keeps (cmd_sound hw args)" "keeps (cmd_graphics hw args)"
  "keeps (cmd_timer hw args)" "keeps (cmd_meminfo hw args)" "keeps (cmd_benchmark hw args)" "keeps (cmd_demo hw args)"
  by (rule keepsI; clarsimp simp: cmd_reboot_def cmd_network_def cmd_sound_def cmd_graphics_def cmd_timer_def cmd_meminfo_def
      cmd_benchmark_def cmd_demo_def plat_reboot_def system_reboot_def Let_def split: prod.splits)+

lemma keeps_status [keeps_intro]:
  "keeps (cmd_memstat hw args)" "keeps (cmd_iopstat hw args)" "keeps (cmd_dashboard hw args)"
  "keeps (cmd_ports hw args)" "keeps (cmd_sysinfo hw args)"
  by (rule keepsI; auto simp: cmd_memstat_def cmd_iopstat_def cmd_dashboard_def cmd_ports_def cmd_sysinfo_def hw_status_get_ports_def
      hw_status_get_sysinfo_def split: prod.splits option.splits dest!: kept_ports)+

lemma keeps_ls [keeps_intro]: "keeps (cmd_ls hw args)"
  by (rule keepsI) (auto simp: cmd_ls_def split: prod.splits dest: kept_list)

lemma keeps_quantum [keeps_intro]:
  "keeps (cmd_observe hw args)" "keeps (cmd_collapse hw args)" "keeps (cmd_entangle hw args)"
  by (rule keepsI; auto simp: cmd_observe_def cmd_collapse_def cmd_entangle_def quantum_observe_def quantum_collapse_def quantum_entangle_input_def kept_def
      split: if_splits option.splits prod.splits)+

lemma keeps_same: "(\<And>m. \<exists>outs. f m = Some (m, outs)) \<Longrightarrow> keeps f"
  by (rule keepsI) (metis kept_refl option.inject prod.inject)

lemma keeps_unreachable [keeps_intro]:
  "keeps (cmd_controller hw args)" "keeps (cmd_superpose hw args)" "keeps (cmd_ftp hw args)" "keeps (cmd_telnet hw args)"
  "keeps (cmd_irc hw args)" "keeps (cmd_games hw args)" "keeps (cmd_music hw args)" "keeps (cmd_saves hw args)"
  by (rule keeps_same, use sub_unreachable [of _ hw args] in blast)+

lemma kept_validate: "subsys_status_all hw 96 m = Some (m', line) \<Longrightarrow> kept m m'"
  using status_line [of hw m] by auto

lemma kept_ping: "plat_net_ping hw host m = Some (m', r) \<Longrightarrow> kept m m'"
  by (auto simp: plat_net_ping_def Let_def split: prod.splits option.splits if_splits)

lemma keeps_net [keeps_intro]: "keeps (cmd_coherence hw args)" "keeps (cmd_ping hw args)" "keeps (cmd_game hw args)"
  by (rule keepsI; auto simp: cmd_coherence_def cmd_ping_def cmd_game_def split: option.splits prod.splits if_splits
      dest: kept_validate kept_ping)+

lemma kept_on_files: "on_files hw f m = Some (m', r) \<Longrightarrow> kept m m'"
  by (auto simp: on_files_def kept_files)

lemma keeps_mc_subs:
  "keeps (mc_list_sub hw)" "keeps (mc_mount_sub hw rest)" "keeps (mc_export_sub hw rest)" "keeps (mc_clone_sub hw rest)" "keeps (mc_repair_sub hw)"
proof -
  show "keeps (mc_list_sub hw)"
    by (rule keepsI) (auto simp: mc_list_sub_def split: prod.splits intro: kept_trans [OF kept_files kept_list])
  show "keeps (mc_mount_sub hw rest)"
    by (rule keepsI) (auto simp: mc_mount_sub_def kept_files split: prod.splits option.splits if_splits)
  show "keeps (mc_export_sub hw rest)"
    by (rule keepsI) (auto simp: mc_export_sub_def split: prod.splits if_splits dest: kept_on_files)
  show "keeps (mc_clone_sub hw rest)"
    by (rule keepsI) (auto simp: mc_clone_sub_def split: prod.splits option.splits if_splits dest: kept_on_files)
  show "keeps (mc_repair_sub hw)"
    by (rule keepsI) (auto simp: mc_repair_sub_def kept_files split: prod.splits)
qed

lemma keeps_mc [keeps_intro]: "keeps (cmd_mc hw args)"
  by (rule keepsI) (auto simp: cmd_mc_def split: prod.splits if_splits dest: keepsD [OF keeps_mc_subs(1)] keepsD [OF keeps_mc_subs(2)]
      keepsD [OF keeps_mc_subs(3)] keepsD [OF keeps_mc_subs(4)] keepsD [OF keeps_mc_subs(5)])

lemma kept_led: "with_led f ok m = (m', outs) \<Longrightarrow> kept m m'"
  by (auto simp: with_led_def split: prod.splits)

lemma keeps_led [keeps_intro]: "keeps (cmd_led hw args)"
proof -
  have "led_rgb_sub rest m = Some (m', outs) \<Longrightarrow> kept m m'" for rest m m' outs
    by (auto simp: led_rgb_sub_def Let_def split: prod.splits option.splits dest: kept_led)
  then show ?thesis
    by (intro keepsI) (auto simp: cmd_led_def Let_def split: prod.splits if_splits dest: kept_led)
qed

lemma keeps_party_call: "keeps (party_call_sub hw f ok failed)"
  by (rule keepsI) (auto simp: party_call_sub_def kept_party)

lemma keeps_bt [keeps_intro]: "keeps (cmd_bt hw args)" "keeps (cmd_ctrlmap hw args)" "keeps (cmd_ctrlprofile hw args)"
  by (rule keepsI; auto simp: cmd_bt_def cmd_ctrlmap_def cmd_ctrlprofile_def Let_def split: prod.splits if_splits)+

lemma keeps_stream [keeps_intro]: "keeps (cmd_stream hw args)"
  by (rule keepsI) (auto simp: cmd_stream_def Let_def kept_streaming kept_trans [OF kept_streaming kept_streaming] split: prod.splits if_splits)

lemma keeps_party [keeps_intro]: "keeps (cmd_party hw args)"
proof (rule keepsI)
  fix m m' :: "'a machine" and outs
  let ?m = "set_party (party_init (get_party m)) (m_world m) m"
  assume r: "cmd_party hw args m = Some (m', outs)"
  have "kept ?m m' \<or> m' = m"
    using r by (auto simp: cmd_party_def Let_def party_list_sub_def kept_party split: prod.splits if_splits
        dest: keepsD [OF keeps_party_call])
  then show "kept m m'" using kept_trans [OF kept_party [of m]] by auto
qed

lemma keeps_exit [keeps_intro]: "keeps (cmd_exit hw args)"
proof -
  have "keeps (sys_exit hw)" by (rule keepsI) (auto simp: sys_exit_def system_reboot_def)
  then show ?thesis unfolding cmd_exit_def by (intro keeps_intro)
qed

lemma keeps_run_command: "keeps (run_command hw cmd args)"
proof -
  have "\<forall>(name, f, d) \<in> set (commands hw). keeps (f args)"
    by (simp add: commands_def keeps_intro)
  then show ?thesis
    by (auto simp: run_command_def find_Some_iff keeps_say set_conv_nth split: option.splits)
qed

lemma kept_tick: "subsys_tick_all hw m = Some m' \<Longrightarrow> kept m m'"
proof -
  have n: "net_tick hw m = Some m' \<Longrightarrow> kept m m'" "party_tick hw m = Some m' \<Longrightarrow> kept m m'" for m m' :: "'a machine"
    by (auto simp: net_tick_def party_tick_def kept_party split: prod.splits)
  have q: "quantum_tick_sub hw m = Some m' \<Longrightarrow> kept m m'" for m m' :: "'a machine"
    by (auto simp: quantum_tick_sub_def quantum_tick_def kept_def)
  assume "subsys_tick_all hw m = Some m'"
  then obtain m1 m2 where "net_tick hw m = Some m1" "party_tick hw m1 = Some m2" "quantum_tick_sub hw m2 = Some m'"
    by (auto simp: subsys_tick_all_def subsystems_def split: option.splits)
  then show ?thesis using n q kept_trans by metis
qed

lemma kept_show: "show_outs outs m = Some m' \<Longrightarrow> kept m m'"
  by (auto simp: show_outs_def)

lemma kept_read_line: "sys_read_line hw n m = Some (m', line) \<Longrightarrow> kept m m'"
  by (auto simp: sys_read_line_def)

lemma kept_round:
  assumes "shell_step hw m = Some m'"
  shows "kept m m'"
proof -
  obtain m1 m2 m3 input where s: "subsys_tick_all hw m = Some m1" "show_outs print_prompt m1 = Some m2"
      "sys_read_line hw 512 m2 = Some (m3, input)"
    and r: "(case parse_cmd_args input 64 448 of (cmd, args) \<Rightarrow>
            if char_at cmd 0 = NUL then Some m3
            else Option.bind (run_command hw cmd args m3) (\<lambda>(m4, outs). show_outs outs m4)) = Some m'"
    using assms unfolding shell_step_def by (auto simp: bind_eq_Some_conv)
  have "kept m3 m'"
    using r by (auto split: prod.splits if_splits simp: bind_eq_Some_conv dest!: keepsD [OF keeps_run_command] kept_show intro: kept_trans)
  then show ?thesis
    using kept_tick [OF s(1)] kept_show [OF s(2)] kept_read_line [OF s(3)] by (meson kept_trans)
qed

text \<open>
  C15: However long the shell runs and whatever is typed, the controller settings and
  profiles, the music player, the save manager, the storage and pause tables, the task table
  and the pool of streams stay as they were at its start, and no profile is ever added:
  the commands meant to change them cannot.
\<close>

theorem shell_settings_fixed:
  assumes "start_shell hw m0 m"
  shows "m_remap m = m_remap m0 \<and> m_music m = m_music m0 \<and> m_saves m = m_saves m0 \<and> m_streams m = m_streams m0 \<and>
    m_storage m = m_storage m0 \<and> m_pause m = m_pause m0 \<and> m_sched m = m_sched m0 \<and>
    q_profile_count (m_quantum m) = q_profile_count (m_quantum m0)"
proof -
  have "kept m0 m" using assms by induction (auto intro: kept_trans kept_round)
  then show ?thesis by (simp add: kept_def)
qed

section \<open>Typing a line\<close>

text \<open>What one scancode does to the text typed so far and to the shift key.\<close>

definition press :: "nat \<Rightarrow> u8 \<Rightarrow> string \<times> bool \<Rightarrow> string \<times> bool" where
  "press mx sc s =
     (case s of (buf, sh) \<Rightarrow>
        if sc = 0x2A \<or> sc = 0x36 then (buf, True)
        else if sc = 0xAA \<or> sc = 0xB6 then (buf, False)
        else if sc = 0x0E then (butlast buf, sh)
        else if scancode_to_ascii sc sh = NUL \<or> length buf \<ge> mx then (buf, sh)
        else (buf @ [scancode_to_ascii sc sh], sh))"

lemma poll_kbd [simp]:
  "keyboard_poll_scancode kbd_io (k # ks) = (ks, k)" "keyboard_poll_scancode kbd_io [] = ([], 0)"
  by (simp_all add: keyboard_poll_scancode_def kbd_io_def)

lemma rub_out_safe: "safe rub_out"
  unfolding rub_out_def [abs_def] by (intro safe_each safe_vga_putchar)

lemma read_line_loop_types:
  assumes "con_ok con" "0 \<notin> set ks" "0x1C \<notin> set ks"
  shows "\<exists>con'. con_ok con' \<and> read_line_loop kbd_io mx buf sh con (ks @ 0x1C # rest) =
    Some (fst (fold (press mx) ks (buf, sh)), snd (fold (press mx) ks (buf, sh)), con', rest)"
  using assms
proof (induction ks arbitrary: buf sh con)
  case Nil
  then obtain con' where "vga_putchar CHR 0x0A con = Some con'" "con_ok con'" using safeD [OF safe_vga_putchar] by blast
  then show ?case by (subst read_line_loop.simps) simp
next
  case (Cons k ks)
  then have k: "k \<noteq> 0" "k \<noteq> 0x1C" "0 \<notin> set ks" "0x1C \<notin> set ks" by auto
  obtain con1 where r: "rub_out con = Some con1" "con_ok con1" using safeD [OF rub_out_safe Cons.prems(1)] by blast
  obtain con2 where v: "vga_putchar (scancode_to_ascii k sh) con = Some con2" "con_ok con2"
    using safeD [OF safe_vga_putchar Cons.prems(1)] by blast
  note IH = Cons.IH [OF _ k(3,4)]
  let ?c = "scancode_to_ascii k sh"
  consider (sh_on) "k = 0x2A \<or> k = 0x36" | (sh_off) "\<not> (k = 0x2A \<or> k = 0x36)" "k = 0xAA \<or> k = 0xB6"
    | (nothing) "k = 0x0E" "buf = []" | (rub) "k = 0x0E" "buf \<noteq> []"
    | (ignored) "\<not> (k = 0x2A \<or> k = 0x36)" "\<not> (k = 0xAA \<or> k = 0xB6)" "k \<noteq> 0x0E" "?c = NUL \<or> length buf \<ge> mx"
    | (typed) "\<not> (k = 0x2A \<or> k = 0x36)" "\<not> (k = 0xAA \<or> k = 0xB6)" "k \<noteq> 0x0E" "\<not> (?c = NUL \<or> length buf \<ge> mx)"
    by blast
  then show ?case
  proof cases
    case sh_on
    then have "press mx k (buf, sh) = (buf, True)" "read_line_loop kbd_io mx buf sh con ((k # ks) @ 0x1C # rest) =
        read_line_loop kbd_io mx buf True con (ks @ 0x1C # rest)"
      using k(1) by (simp_all only: press_def split_conv if_True, subst read_line_loop.simps, auto)
    then show ?thesis using IH [OF Cons.prems(1), of buf True] by simp
  next
    case sh_off
    then have "press mx k (buf, sh) = (buf, False)" "read_line_loop kbd_io mx buf sh con ((k # ks) @ 0x1C # rest) =
        read_line_loop kbd_io mx buf False con (ks @ 0x1C # rest)"
      using k(1) by (simp_all only: press_def split_conv if_True if_False, subst read_line_loop.simps, auto)
    then show ?thesis using IH [OF Cons.prems(1), of buf False] by simp
  next
    case nothing
    then have "press mx k (buf, sh) = (buf, sh)" "read_line_loop kbd_io mx buf sh con ((k # ks) @ 0x1C # rest) =
        read_line_loop kbd_io mx buf sh con (ks @ 0x1C # rest)"
      by (simp add: press_def, subst read_line_loop.simps, simp)
    then show ?thesis using IH [OF Cons.prems(1), of buf sh] by simp
  next
    case rub
    then have "press mx k (buf, sh) = (butlast buf, sh)" "read_line_loop kbd_io mx buf sh con ((k # ks) @ 0x1C # rest) =
        read_line_loop kbd_io mx (butlast buf) sh con1 (ks @ 0x1C # rest)"
      by (simp add: press_def, subst read_line_loop.simps, simp add: r(1))
    then show ?thesis using IH [OF r(2), of "butlast buf" sh] by simp
  next
    case ignored
    then have "press mx k (buf, sh) = (buf, sh)" "read_line_loop kbd_io mx buf sh con ((k # ks) @ 0x1C # rest) =
        read_line_loop kbd_io mx buf sh con (ks @ 0x1C # rest)"
      using k(1,2) by (simp_all only: press_def split_conv if_True if_False, subst read_line_loop.simps, simp)
    then show ?thesis using IH [OF Cons.prems(1), of buf sh] by simp
  next
    case typed
    then have "press mx k (buf, sh) = (buf @ [?c], sh)" "read_line_loop kbd_io mx buf sh con ((k # ks) @ 0x1C # rest) =
        read_line_loop kbd_io mx (buf @ [?c]) sh con2 (ks @ 0x1C # rest)"
      using k(1,2) by (simp_all only: press_def split_conv if_False, subst read_line_loop.simps, simp add: v(1))
    then show ?thesis using IH [OF v(2), of "buf @ [?c]" sh] by simp
  qed
qed

text \<open>
  C13: Line input. Scancodes typed up to Enter give exactly the edited text: printable keys
  append while there is room (511 characters), backspace removes the last one, shift
  switches the table, everything else is ignored. The call returns, leaves what was
  typed after Enter to the next call, and keeps the cursor on the screen.
\<close>

theorem read_line_types:
  assumes "con_ok (m_console m)" "hw_ports hw = kbd_io" "m_world m = ks @ 0x1C # rest" "0 \<notin> set ks" "0x1C \<notin> set ks"
  shows "\<exists>con'. con_ok con' \<and> sys_read_line hw 512 m =
    Some (m\<lparr>m_shift_down := snd (fold (press 511) ks ([], m_shift_down m)), m_console := con', m_world := rest\<rparr>,
          fst (fold (press 511) ks ([], m_shift_down m)))"
  using read_line_loop_types [OF assms(1,4,5), of 511 "[]" "m_shift_down m" rest] assms(2,3)
  by (auto simp: sys_read_line_def)

definition kbd_hardware :: "u8 list hardware" where
  "kbd_hardware =
     \<lparr>hw_ports = kbd_io, hw_disk = \<lparr>rd_sector = (\<lambda>lba w. (w, None)), wr_sector = (\<lambda>lba d w. (w, False))\<rparr>,
      hw_clock = (\<lambda>w. (w, 0)), hw_pause = (\<lambda>w. w), hw_mem_mb = 32, hw_code = [], hw_packet = replicate 64 0\<rparr>"

theorem read_line_witness:
  "\<exists>con'. con_ok con' \<and> sys_read_line kbd_hardware 512 (machine_zero [0x26, 0x2D, 0x0E, 0x1F, 0x1C, 0x10]) =
     Some ((machine_zero [0x26, 0x2D, 0x0E, 0x1F, 0x1C, 0x10])\<lparr>m_shift_down := False, m_console := con', m_world := [0x10]\<rparr>, ''ls'')"
proof -
  have p: "fold (press 511) [0x26, 0x2D, 0x0E, 0x1F] ([], False) = (''ls'', False)"
    by (simp add: press_def scancode_to_ascii_def asc_unshift_def)
  let ?m = "machine_zero [0x26, 0x2D, 0x0E, 0x1F, 0x1C, 0x10 :: u8]"
  have m: "con_ok (m_console ?m)" "m_world ?m = [0x26, 0x2D, 0x0E, 0x1F] @ 0x1C # [0x10]" "m_shift_down ?m = False"
    by (simp_all add: machine_zero_def con_ok_def)
  have h: "hw_ports kbd_hardware = kbd_io" by (simp add: kbd_hardware_def)
  show ?thesis using read_line_types [OF m(1) h m(2)] unfolding m(3) p by simp
qed

text \<open>Without the shift key no blank can be typed: the entry of the space bar is empty.\<close>

definition plain_key :: "u8 \<Rightarrow> bool" where
  "plain_key k \<longleftrightarrow> k \<noteq> 0x2A \<and> k \<noteq> 0x36"

lemma unshifted_chars: "\<forall>k < 58. \<not> is_blank (asc_unshift ! k) \<and> \<not> is_eol (asc_unshift ! k) \<or> asc_unshift ! k = NUL"
  by (simp add: asc_unshift_def is_blank_def is_eol_def All_less_Suc numeral_eq_Suc)

lemma press_plain:
  assumes "plain_key k" "\<forall>c\<in>set buf. \<not> is_blank c \<and> \<not> is_eol c"
  shows "snd (press mx k (buf, False)) = False \<and> (\<forall>c\<in>set (fst (press mx k (buf, False))). \<not> is_blank c \<and> \<not> is_eol c) \<and>
    length (fst (press mx k (buf, False))) \<le> length buf + 1"
proof -
  have "\<not> is_blank (scancode_to_ascii k False) \<and> \<not> is_eol (scancode_to_ascii k False)" if "scancode_to_ascii k False \<noteq> NUL"
  proof -
    have "unat k < 58" using that by (auto simp: scancode_to_ascii_def word_less_nat_alt split: if_splits)
    then show ?thesis using unshifted_chars that by (auto simp: scancode_to_ascii_def split: if_splits)
  qed
  then show ?thesis using assms by (auto simp: press_def plain_key_def dest: in_set_butlastD)
qed

lemma press_all_plain:
  assumes "\<forall>k\<in>set ks. plain_key k" "\<forall>c\<in>set buf. \<not> is_blank c \<and> \<not> is_eol c"
  shows "(\<forall>c\<in>set (fst (fold (press mx) ks (buf, False))). \<not> is_blank c \<and> \<not> is_eol c) \<and>
    length (fst (fold (press mx) ks (buf, False))) \<le> length buf + length ks"
  using assms
proof (induction ks arbitrary: buf)
  case (Cons k ks)
  obtain buf' where p: "press mx k (buf, False) = (buf', False)"
    using press_plain [of k buf mx] Cons.prems by (cases "press mx k (buf, False)") auto
  have b: "\<forall>c\<in>set buf'. \<not> is_blank c \<and> \<not> is_eol c" "length buf' \<le> length buf + 1"
    using press_plain [of k buf mx] Cons.prems by (simp_all add: p)
  have ks: "\<forall>k\<in>set ks. plain_key k" using Cons.prems(1) by simp
  have "fold (press mx) (k # ks) (buf, False) = fold (press mx) ks (buf', False)" by (simp add: p)
  then show ?case using Cons.IH [OF ks b(1)] b(2) by simp
qed simp

section \<open>Splitting a line\<close>

lemma strip_end_id: "s = [] \<or> \<not> is_blank (last s) \<Longrightarrow> strip_end s = s"
  by (induction s) (auto split: list.splits if_splits)

lemma takeWhile_all: "\<forall>c\<in>set s. P c \<Longrightarrow> takeWhile P s = s"
  by (simp add: takeWhile_eq_all_conv)

lemma blanks_skipped: "\<forall>c\<in>set b. is_blank c \<Longrightarrow> s = [] \<or> \<not> is_blank (hd s) \<Longrightarrow> dropWhile is_blank (b @ s) = s"
  by (induction b) (cases s; auto)+

lemma word_split:
  assumes "w \<noteq> []" "\<forall>c\<in>set w. \<not> is_blank c \<and> \<not> is_eol c" "length w \<le> 63" "\<forall>c\<in>set b. is_blank c" "b \<noteq> [] \<or> a = []"
    "\<forall>c\<in>set a. \<not> is_eol c" "a = [] \<or> \<not> is_blank (hd a) \<and> \<not> is_blank (last a)" "length a \<le> 447"
  shows "parse_cmd_args (w @ b @ a) 64 448 = (w, a)"
proof -
  have d: "dropWhile is_blank (w @ b @ a) = w @ b @ a" using assms(1,2) by (cases w) auto
  have "takeWhile (\<lambda>c. \<not> is_eol c \<and> \<not> is_blank c) (b @ a) = []" using assms(4,5) by (cases b) auto
  then have t: "takeWhile (\<lambda>c. \<not> is_eol c \<and> \<not> is_blank c) (w @ b @ a) = w"
    using assms(2) by (subst takeWhile_append2) auto
  have "dropWhile is_blank (b @ a) = a" using assms(4,7) by (intro blanks_skipped) auto
  moreover have "strip_end a = a" using assms(7) by (intro strip_end_id) auto
  ultimately show ?thesis
    using assms(3,6,8) by (simp add: parse_cmd_args_def d t takeWhile_all Let_def)
qed

text \<open>
  C14: Splitting undoes joining. A command word of at most 63 characters and an argument
  text of at most 447 that neither begins nor ends with a blank, joined by one or more
  blanks, with blanks before and after, are taken apart into exactly the two.
\<close>

theorem parse_line_splits:
  assumes "w \<noteq> []" "\<forall>c\<in>set w. \<not> is_blank c \<and> \<not> is_eol c" "length w \<le> 63" "\<forall>c\<in>set b. is_blank c" "b \<noteq> []" "a \<noteq> []"
    "\<forall>c\<in>set a. \<not> is_eol c" "\<not> is_blank (hd a)" "\<not> is_blank (last a)" "length a \<le> 447"
    "\<forall>c\<in>set lead. is_blank c"
  shows "parse_cmd_args (lead @ w @ b @ a) 64 448 = (w, a)"
proof -
  have "dropWhile is_blank (lead @ w @ b @ a) = w @ b @ a" "dropWhile is_blank (w @ b @ a) = w @ b @ a"
    using assms(1,2,11) by (auto intro!: blanks_skipped simp: dropWhile_append3) (cases w; auto)+
  then have "parse_cmd_args (lead @ w @ b @ a) 64 448 = parse_cmd_args (w @ b @ a) 64 448" by (simp add: parse_cmd_args_def)
  then show ?thesis using word_split [OF assms(1-4) _ assms(7)] assms(5,6,8-10) by auto
qed

theorem parse_line_witness: "parse_cmd_args ''  mc  mount 1'' 64 448 = (''mc'', ''mount 1'')"
  using parse_line_splits [of "''mc''" "''  ''" "''mount 1''" "''  ''"] by (simp add: is_blank_def is_eol_def)

lemma parse_without_blanks:
  assumes "\<forall>c\<in>set w. \<not> is_blank c \<and> \<not> is_eol c"
  shows "parse_cmd_args w 64 448 = (take 63 w, take 447 (drop 63 w))"
proof -
  have d: "dropWhile is_blank v = v" if "set v \<subseteq> set w" for v
    using that assms by (cases v) auto
  have t: "takeWhile (\<lambda>c. \<not> is_eol c \<and> \<not> is_blank c) w = w" "takeWhile (\<lambda>c. \<not> is_eol c) (drop 63 w) = drop 63 w"
    using assms by (auto simp: takeWhile_eq_all_conv dest: in_set_dropD)
  have "set (drop 63 w) \<subseteq> set w" by (rule set_drop_subset)
  moreover have "strip_end (take 447 (drop 63 w)) = take 447 (drop 63 w)"
  proof (rule strip_end_id)
    show "take 447 (drop 63 w) = [] \<or> \<not> is_blank (last (take 447 (drop 63 w)))"
      using assms last_in_set [of "take 447 (drop 63 w)"] by (meson in_set_takeD in_set_dropD)
  qed
  moreover have "drop (min (length w) 63) w = drop 63 w" by (simp add: min_def)
  ultimately show ?thesis by (simp add: parse_cmd_args_def d t Let_def)
qed

text \<open>
  C37: A line typed without the shift key has no blanks, so what is cut off it depends only on
  its length: for keys of a queueing keyboard, with shift up at the start and never pressed, the first 63 characters
  of the line become the command and the rest, which is empty for at most 63 keys, the
  argument text. The table entry of the space bar is zero, so only shift and space together type a blank.
\<close>

theorem no_arguments_without_shift:
  assumes "con_ok (m_console m)" "hw_ports hw = kbd_io" "m_world m = ks @ 0x1C # rest" "0 \<notin> set ks" "0x1C \<notin> set ks"
    "\<forall>k\<in>set ks. plain_key k" "\<not> m_shift_down m"
  shows "\<exists>m' line. sys_read_line hw 512 m = Some (m', line) \<and> (\<forall>c\<in>set line. \<not> is_blank c) \<and> length line \<le> length ks \<and>
    parse_cmd_args line 64 448 = (take 63 line, take 447 (drop 63 line)) \<and>
    (length ks \<le> 63 \<longrightarrow> parse_cmd_args line 64 448 = (line, []))"
proof -
  let ?line = "fst (fold (press 511) ks ([], False))"
  have l: "\<forall>c\<in>set ?line. \<not> is_blank c \<and> \<not> is_eol c" "length ?line \<le> length ks"
    using press_all_plain [OF assms(6), of "[]" 511] by auto
  have "parse_cmd_args ?line 64 448 = (take 63 ?line, take 447 (drop 63 ?line))"
    by (rule parse_without_blanks [OF l(1)])
  moreover obtain con' where "read_line_loop kbd_io 511 [] False (m_console m) (ks @ 0x1C # rest) =
      Some (?line, snd (fold (press 511) ks ([], False)), con', rest)"
    using read_line_loop_types [OF assms(1,4,5)] by blast
  ultimately show ?thesis using assms(2,3,7) l by (auto simp: sys_read_line_def)
qed

theorem no_arguments_witness:
  "\<exists>m' line. sys_read_line kbd_hardware 512 (machine_zero [0x26, 0x1F, 0x39, 0x1E, 0x1C]) = Some (m', line) \<and>
     parse_cmd_args line 64 448 = (line, [])"
proof -
  let ?m = "machine_zero [0x26, 0x1F, 0x39, 0x1E, 0x1C :: u8]"
  have m: "con_ok (m_console ?m)" "m_world ?m = [0x26, 0x1F, 0x39, 0x1E] @ 0x1C # []" "\<not> m_shift_down ?m"
    by (simp_all add: machine_zero_def con_ok_def)
  have h: "hw_ports kbd_hardware = kbd_io" by (simp add: kbd_hardware_def)
  have k: "0 \<notin> set [0x26, 0x1F, 0x39, 0x1E :: u8]" "0x1C \<notin> set [0x26, 0x1F, 0x39, 0x1E :: u8]"
    "\<forall>k\<in>set [0x26, 0x1F, 0x39, 0x1E]. plain_key k" by (simp_all add: plain_key_def)
  show ?thesis using no_arguments_without_shift [OF m(1) h m(2) k m(3)] by auto
qed

section \<open>A round of the shell\<close>

lemma show_safe:
  assumes "con_ok (m_console m)" "\<forall>out\<in>set outs. safe (emit out)"
  shows "\<exists>con'. show_outs outs m = Some (m\<lparr>m_console := con'\<rparr>) \<and> con_ok con'"
proof -
  have "safe (each emit outs)" using assms(2) by (intro safe_each) auto
  then show ?thesis using safeD [OF _ assms(1)] by (fastforce simp: show_outs_def)
qed

lemma emit_safe [simp]: "safe (emit (Kprint s))" "safe (emit (KprintColor s color))" "safe (emit ClearScreen)"
  using safe_strings safe_clear by simp_all

lemma prompt_safe: "\<forall>out\<in>set print_prompt. safe (emit out)"
  by (simp add: print_prompt_def del: emit.simps)

lemma unknown_safe: "\<forall>out\<in>set (unknown_command cmd). safe (emit out)"
  by (simp add: unknown_command_def del: emit.simps)

text \<open>With neither transport nor party in use the ticks only touch the profile manager.\<close>

lemma idle_tick:
  assumes "\<not> t_initialized (m_transport m)" "\<not> party_initialized (m_party m)"
  shows "\<exists>m'. subsys_tick_all hw m = Some m' \<and> m_world m' = m_world m \<and> m_console m' = m_console m \<and>
    m_shift_down m' = m_shift_down m \<and> m_halted m' = m_halted m"
  using assms
  by (simp add: subsys_tick_all_def subsystems_def net_tick_def party_tick_def quantum_tick_sub_def quantum_tick_def
      quantum_phase_sync_tick_def transport_tick_def party_poll_def get_party_def set_party_def)

text \<open>A round on a typed word that is no command: the message, and nothing else.\<close>

lemma unknown_round:
  assumes "\<not> t_initialized (m_transport m)" "\<not> party_initialized (m_party m)" "con_ok (m_console m)"
    "hw_ports hw = kbd_io" "m_world m = ks @ 0x1C # rest" "0 \<notin> set ks" "0x1C \<notin> set ks"
    "parse_cmd_args (fst (fold (press 511) ks ([], m_shift_down m))) 64 448 = (cmd, args)" "cmd \<noteq> []"
    "\<forall>(name, f, d)\<in>set (commands hw). cstr cmd \<noteq> cstr name"
  shows "\<exists>m'. shell_step hw m = Some m' \<and> m_world m' = rest"
proof -
  obtain m1 where t: "subsys_tick_all hw m = Some m1" "m_world m1 = m_world m" "m_console m1 = m_console m" "m_shift_down m1 = m_shift_down m"
    using idle_tick [OF assms(1,2)] by blast
  obtain con2 where p: "show_outs print_prompt m1 = Some (m1\<lparr>m_console := con2\<rparr>)" "con_ok con2"
    using show_safe [OF _ prompt_safe, of m1] assms(3) t(3) by auto
  obtain con3 sh where r: "sys_read_line hw 512 (m1\<lparr>m_console := con2\<rparr>) =
      Some (m1\<lparr>m_shift_down := sh, m_console := con3, m_world := rest\<rparr>, fst (fold (press 511) ks ([], m_shift_down m)))" "con_ok con3"
    using read_line_loop_types [OF p(2) assms(6,7), of 511 "[]" "m_shift_down m" rest] assms(4,5) t(2,4)
    by (auto simp: sys_read_line_def)
  let ?m3 = "m1\<lparr>m_shift_down := sh, m_console := con3, m_world := rest\<rparr>"
  have "List.find (\<lambda>(name, f, d). ksstrcmp cmd name = 0) (commands hw) = None"
    using assms(10) by (auto simp: find_None_iff ksstrcmp_eq)
  then have c: "run_command hw cmd args ?m3 = Some (?m3, unknown_command cmd)" by (simp add: run_command_def say_def)
  obtain con4 where o4: "show_outs (unknown_command cmd) ?m3 = Some (?m3\<lparr>m_console := con4\<rparr>)"
    using show_safe [OF _ unknown_safe, of ?m3 cmd] r(2) by auto
  show ?thesis
  proof (cases "char_at cmd 0 = NUL")
    case True
    then show ?thesis using t(1) p(1) r(1) assms(8) by (simp add: shell_step_def)
  next
    case False
    then show ?thesis using t(1) p(1) r(1) assms(8) c o4 by (simp add: shell_step_def)
  qed
qed

theorem shell_settings_witness:
  "\<exists>m. start_shell kbd_hardware (machine_zero [0x26, 0x1C]) m \<and> m_world m = [] \<and> m_music m = music_init"
proof -
  let ?m = "machine_zero [0x26, 0x1C :: u8]"
  have m: "\<not> t_initialized (m_transport ?m)" "\<not> party_initialized (m_party ?m)" "con_ok (m_console ?m)" "m_world ?m = [0x26] @ 0x1C # []"
    by (simp_all add: machine_zero_def con_ok_def transport_zero_def party_zero_def)
  have h: "hw_ports kbd_hardware = kbd_io" by (simp add: kbd_hardware_def)
  have p: "parse_cmd_args (fst (fold (press 511) [0x26] ([], m_shift_down ?m))) 64 448 = (''l'', [])"
    by (simp add: machine_zero_def press_def scancode_to_ascii_def asc_unshift_def parse_cmd_args_def is_blank_def is_eol_def)
  have u: "\<forall>(name, f, d)\<in>set (commands kbd_hardware). cstr ''l'' \<noteq> cstr name" by (simp add: commands_def cstr_Cons)
  obtain m' where s: "shell_step kbd_hardware ?m = Some m'" "m_world m' = []"
    using unknown_round [OF m(1,2,3) h m(4) _ _ p _ u] by auto
  have "\<not> m_halted ?m" by (simp add: machine_zero_def)
  then have "start_shell kbd_hardware ?m m'" using s(1) start_shell.intros by metis
  then show ?thesis using shell_settings_fixed [of kbd_hardware ?m m'] s(2) by (auto simp: machine_zero_def)
qed

section \<open>The benchmark\<close>

text \<open>The sum leaves the 32-bit range at 65536, so the command has no defined result.\<close>

lemma bench_from: "k \<le> 65536 \<Longrightarrow> 2 * c = (65536 - int k) * (65535 - int k) \<Longrightarrow> bench_loop (65536 - int k) c = None"
proof (induction k arbitrary: c)
  case 0
  then have "c = 2147450880" by simp
  then show ?case by (simp add: bench_loop.simps [of 65536])
next
  case (Suc k)
  define i where "i = 65536 - int (Suc k)"
  have i: "0 \<le> i" "i \<le> 65535" "65536 - int k = i + 1" using Suc.prems(1) by (auto simp: i_def)
  have c: "2 * c = i * (i - 1)" using Suc.prems(2) by (simp add: i_def algebra_simps)
  have s: "2 * (c + i) = (i + 1) * i" using c by (simp add: algebra_simps)
  have "(i + 1) * i \<le> 65536 * 65535" using i by (intro mult_mono) auto
  then have "c + i < 2 ^ 31" using s by simp
  then have "bench_loop i c = bench_loop (i + 1) (c + i)" using i(2) by (simp add: bench_loop.simps [of i])
  also have "\<dots> = None"
  proof -
    have "65535 - int k = i" using i(3) by simp
    then have "2 * (c + i) = (65536 - int k) * (65535 - int k)" using s i(3) by (simp only:)
    then show ?thesis using Suc.IH [of "c + i"] Suc.prems(1) by (simp only: i(3) [symmetric])
  qed
  finally show ?case by (simp add: i_def)
qed

lemma benchmark_overflows: "cmd_benchmark hw args m = None"
  using bench_from [of 65536 0] by (simp add: cmd_benchmark_def)

end
