(* ===== verification/Kernel.thy ===== *)
theory Kernel
  imports Shell_Facts
begin

text \<open>
  The start of the kernel: \<^verbatim>\<open>src/kernel_start.c\<close>, \<^verbatim>\<open>src/debugcon.c\<close> and \<^verbatim>\<open>kernel_main\<close> of
  \<^verbatim>\<open>src/kernel.c\<close>, from the machine as the boot loader leaves it to the shell. The steps
  are listed in the order of the source; each acts on the whole machine.
\<close>

section \<open>The entry\<close>

definition debugcon_putc :: "'w port_io \<Rightarrow> char \<Rightarrow> 'w \<Rightarrow> 'w" where
  "debugcon_putc io c w = outb io 0xE9 (of_char c) w"

definition debugcon_puts :: "'w port_io \<Rightarrow> string option \<Rightarrow> 'w \<Rightarrow> 'w" where
  "debugcon_puts io s w = (case s of None \<Rightarrow> w | Some t \<Rightarrow> fold (debugcon_putc io) (cstr t) w)"

section \<open>kernel\_main\<close>

definition read_info :: "'w hardware \<Rightarrow> ps2_info" where
  "read_info hw = \<lparr>total_memory = detect_ps2_memory hw, ps2_detected = (detect_ps2_memory hw \<ge> 32)\<rparr>"

definition get_system_memory :: "ps2_info \<Rightarrow> u32" where
  "get_system_memory info = total_memory info"

definition detect_step :: "'w hardware \<Rightarrow> ps2_info \<Rightarrow> 'w machine \<Rightarrow> 'w machine option" where
  "detect_step hw info m =
     (if ps2_detected info
      then map_option (\<lambda>m1. m1\<lparr>m_world := init_ps2_controllers hw (m_world m1)\<rparr>)
             (show_outs [Kprintf ''PS2 detected! Total memory: %u MB\<newline>'' [IntArg (total_memory info)]] m)
      else show_outs [Kprint ''Running in compatibility mode\<newline>''] m)"

text \<open>The heap is one area of memory; the budget and the task table both use it.\<close>

definition init_heap :: "'w machine \<Rightarrow> 'w machine" where
  "init_heap m =
     (let h = init_memory_manager (bheap (m_budget m))
      in m\<lparr>m_budget := (m_budget m)\<lparr>bheap := h\<rparr>, m_sched := (m_sched m)\<lparr>sheap := h\<rparr>\<rparr>)"

definition init_scheduler :: "'w machine \<Rightarrow> kout list" where
  "init_scheduler m = [Kprintf ''Scheduler: %d tasks registered\<newline>'' [IntArg (word_of_int (task_count (m_sched m)))]]"

definition init_games :: "'w hardware \<Rightarrow> 'w machine \<Rightarrow> 'w machine option" where
  "init_games hw m =
     (case init_game_system (hw_ports hw) (m_games m) (m_world m) of
        (g, w, outs) \<Rightarrow> show_outs outs (m\<lparr>m_games := g\<lparr>gs_history := game_history_init\<rparr>, m_world := w\<rparr>))"

definition splash :: "ps2_info \<Rightarrow> 'w machine \<Rightarrow> 'w machine option" where
  "splash info m = map_option (\<lambda>con. m\<lparr>m_console := con\<rparr>) (show_enhanced_boot_splash info (m_console m))"

definition kernel_steps :: "'w hardware \<Rightarrow> ('w machine \<Rightarrow> 'w machine option) list" where
  "kernel_steps hw =
     (let info = read_info hw
      in [\<lambda>m. Some (plat_init hw m),
          show_outs [Kprint ''ASMOS Kernel v3.0 - Physical Console Edition\<newline>''],
          show_outs [Kprint ''Detecting PS2 hardware...\<newline>''],
          detect_step hw info,
          show_outs [Kprint ''Initializing memory manager...\<newline>''],
          \<lambda>m. Some (init_heap m),
          show_outs [Kprint ''Initializing scheduler and filesystem...\<newline>''],
          \<lambda>m. show_outs (init_scheduler m) m,
          \<lambda>m. Some (fst (storage_init_sub hw m)),
          \<lambda>m. Some (m\<lparr>m_budget := memory_budget_init (m_budget m)\<rparr>),
          show_outs [Kprint ''Initializing subsystems...\<newline>''],
          \<lambda>m. Some (subsys_init_all hw m),
          \<lambda>m. Some (m\<lparr>m_net := net_init (m_net m), m_storage := storage_init (m_storage m), m_pause := pause_engine_init (m_pause m)\<rparr>),
          show_outs [Kprint ''Initializing enhanced shell...\<newline>''],
          show_outs init_shell,
          show_outs [Kprint ''Initializing game system...\<newline>''],
          init_games hw,
          \<lambda>m. Some (m\<lparr>m_music := music_init, m_remap := controller_remap_init (m_remap m), m_saves := save_manager_init (m_saves m)\<rparr>),
          show_outs [Kprint ''Showing enhanced boot splash...\<newline>''],
          splash info,
          show_outs [Kprint ''ASMOS Kernel v2.0 - Ready!\<newline>'']])"

text \<open>Everything \<^verbatim>\<open>kernel_main\<close> does before it starts the shell.\<close>

definition kernel_main :: "'w hardware \<Rightarrow> 'w machine \<Rightarrow> 'w machine option" where
  "kernel_main hw m = each (\<lambda>f. f) (kernel_steps hw) m"

definition halt_system :: "'w hardware \<Rightarrow> 'w machine \<Rightarrow> 'w machine option" where
  "halt_system hw m = map_option (system_reboot hw) (show_outs [Kprint ''System halted.\<newline>''] m)"

text \<open>The kernel from its entry: the marker on the debug port, then \<^verbatim>\<open>kernel_main\<close>.\<close>

definition kernel_start :: "'w hardware \<Rightarrow> 'w machine \<Rightarrow> 'w machine option" where
  "kernel_start hw m = kernel_main hw (m\<lparr>m_world := debugcon_puts (hw_ports hw) (Some ''DEBUG:KERNEL_START\<newline>'') (m_world m)\<rparr>)"

section \<open>The kernel reaches the shell\<close>

text \<open>
  A step that prints safely and otherwise does \<open>g\<close>, which does not look at the console and
  registers no task; and a list of such steps.
\<close>

definition acts :: "('w machine \<Rightarrow> 'w machine option) \<Rightarrow> ('w machine \<Rightarrow> 'w machine) \<Rightarrow> bool" where
  "acts f g \<longleftrightarrow>
     (\<forall>m c. g (m\<lparr>m_console := c\<rparr>) = (g m)\<lparr>m_console := c\<rparr>) \<and>
     (\<forall>m. task_count (m_sched (g m)) = task_count (m_sched m)) \<and>
     (\<forall>m. con_ok (m_console m) \<longrightarrow> task_count (m_sched m) = 0 \<longrightarrow> (\<exists>c. con_ok c \<and> f m = Some ((g m)\<lparr>m_console := c\<rparr>)))"

lemma acts_fold: "list_all2 acts fs gs \<Longrightarrow> fold (\<lambda>g. g) gs (m\<lparr>m_console := c\<rparr>) = (fold (\<lambda>g. g) gs m)\<lparr>m_console := c\<rparr>"
  by (induction fs gs arbitrary: m rule: list_all2_induct) (auto simp: acts_def)

lemma acts_each:
  assumes "list_all2 acts fs gs" "con_ok (m_console m)" "task_count (m_sched m) = 0"
  shows "\<exists>c. con_ok c \<and> each (\<lambda>f. f) fs m = Some ((fold (\<lambda>g. g) gs m)\<lparr>m_console := c\<rparr>)"
  using assms
proof (induction fs gs arbitrary: m rule: list_all2_induct)
  case Nil
  then show ?case by (intro exI [of _ "m_console m"]) simp
next
  case (Cons f fs g gs)
  obtain c where c: "con_ok c" "f m = Some ((g m)\<lparr>m_console := c\<rparr>)"
    using Cons.hyps(1) Cons.prems by (auto simp: acts_def)
  then obtain c' where "con_ok c'" "each (\<lambda>f. f) fs ((g m)\<lparr>m_console := c\<rparr>) =
      Some ((fold (\<lambda>g. g) gs ((g m)\<lparr>m_console := c\<rparr>))\<lparr>m_console := c'\<rparr>)"
    using Cons.IH [of "(g m)\<lparr>m_console := c\<rparr>"] Cons.hyps(1) Cons.prems(2) by (auto simp: acts_def)
  then show ?case using c acts_fold [OF Cons.hyps(2)] by (intro exI [of _ c']) simp
qed

lemma printf_safe: "format_text f args \<noteq> None \<Longrightarrow> safe (emit (Kprintf f args))"
  using safe_kprintf by (auto intro: safeI)

lemma acts_show: "\<forall>out\<in>set outs. safe (emit out) \<Longrightarrow> acts (show_outs outs) (\<lambda>m. m)"
  using show_safe by (fastforce simp: acts_def)

lemma acts_pure:
  assumes g: "\<And>m c. g (m\<lparr>m_console := c\<rparr>) = (g m)\<lparr>m_console := c\<rparr>"
    and t: "\<And>m. task_count (m_sched (g m)) = task_count (m_sched m)"
  shows "acts (\<lambda>m. Some (g m)) g"
proof -
  have "g m = (g m)\<lparr>m_console := m_console m\<rparr>" for m
    using g [where m = m and c = "m_console m"] by simp
  then show ?thesis using g t by (auto simp: acts_def)
qed

text \<open>What the steps before the splash do apart from printing.\<close>

definition info_state :: "'w hardware \<Rightarrow> 'w machine \<Rightarrow> 'w machine" where
  "info_state hw m =
     (if ps2_detected (read_info hw) then m\<lparr>m_world := init_ps2_controllers hw (m_world m)\<rparr> else m)"

definition games_state :: "'w hardware \<Rightarrow> 'w machine \<Rightarrow> 'w machine" where
  "games_state hw m =
     (case init_game_system (hw_ports hw) (m_games m) (m_world m) of
        (g, w, outs) \<Rightarrow> m\<lparr>m_games := g\<lparr>gs_history := game_history_init\<rparr>, m_world := w\<rparr>)"

definition boot_states :: "'w hardware \<Rightarrow> ('w machine \<Rightarrow> 'w machine) list" where
  "boot_states hw =
     [plat_init hw, \<lambda>m. m, \<lambda>m. m, info_state hw, \<lambda>m. m, init_heap, \<lambda>m. m, \<lambda>m. m, \<lambda>m. fst (storage_init_sub hw m),
      \<lambda>m. m\<lparr>m_budget := memory_budget_init (m_budget m)\<rparr>, \<lambda>m. m, subsys_init_all hw,
      \<lambda>m. m\<lparr>m_net := net_init (m_net m), m_storage := storage_init (m_storage m), m_pause := pause_engine_init (m_pause m)\<rparr>,
      \<lambda>m. m, \<lambda>m. m, \<lambda>m. m, games_state hw,
      \<lambda>m. m\<lparr>m_music := music_init, m_remap := controller_remap_init (m_remap m), m_saves := save_manager_init (m_saves m)\<rparr>, \<lambda>m. m]"

definition boot_state :: "'w hardware \<Rightarrow> 'w machine \<Rightarrow> 'w machine" where
  "boot_state hw = fold (\<lambda>g. g) (boot_states hw)"

lemma decimal_total: "v \<noteq> - (2 ^ 31) \<Longrightarrow> \<exists>t. decimal_chars v = Some t"
  by (simp add: decimal_chars_def)

lemma detect_acts: "acts (detect_step hw (read_info hw)) (info_state hw)"
proof -
  have "safe (emit (Kprintf ''PS2 detected! Total memory: %u MB\<newline>'' [IntArg x]))" for x
    by (rule printf_safe) (simp add: arg_text_def)
  then have "con_ok (m_console m) \<Longrightarrow> \<exists>c. con_ok c \<and> detect_step hw (read_info hw) m = Some ((info_state hw m)\<lparr>m_console := c\<rparr>)" for m :: "'a machine"
    using show_safe [of m "[Kprintf ''PS2 detected! Total memory: %u MB\<newline>'' [IntArg (total_memory (read_info hw))]]"]
      show_safe [of m "[Kprint ''Running in compatibility mode\<newline>'']"]
    by (auto simp: detect_step_def info_state_def simp del: emit.simps)
  then show ?thesis by (auto simp: acts_def info_state_def)
qed

lemma games_acts: "acts (init_games hw) (games_state hw)"
proof -
  have "safe (emit (Kprintf ''Game system initialized! %d games available\<newline>'' [IntArg (of_nat game_count)]))"
    by (rule printf_safe) (simp add: arg_text_def game_count_def games_def decimal_chars_def)
  then have "\<forall>out\<in>set (snd (snd (init_game_system (hw_ports hw) g w))). safe (emit out)" for g w
    by (simp add: init_game_system_def init_graphics_demo_def del: emit.simps)
  then have "con_ok (m_console m) \<Longrightarrow> \<exists>c. con_ok c \<and> init_games hw m = Some ((games_state hw m)\<lparr>m_console := c\<rparr>)" for m :: "'a machine"
    using show_safe [of "games_state hw m" "snd (snd (init_game_system (hw_ports hw) (m_games m) (m_world m)))"]
    by (auto simp: init_games_def games_state_def simp del: emit.simps split: prod.splits)
  then show ?thesis by (auto simp: acts_def games_state_def split: prod.splits)
qed

lemma sched_acts: "acts (\<lambda>m. show_outs (init_scheduler m) m) (\<lambda>m. m)"
proof -
  have "safe (emit (Kprintf ''Scheduler: %d tasks registered\<newline>'' [IntArg 0]))"
    by (rule printf_safe) (simp add: arg_text_def decimal_chars_def)
  then have "con_ok (m_console m) \<Longrightarrow> task_count (m_sched m) = 0 \<Longrightarrow>
      \<exists>c. con_ok c \<and> show_outs (init_scheduler m) m = Some (m\<lparr>m_console := c\<rparr>)" for m :: "'a machine"
    using show_safe [of m "init_scheduler m"] by (auto simp: init_scheduler_def simp del: emit.simps)
  then show ?thesis by (auto simp: acts_def)
qed

lemma storage_sub_console: "fst (storage_init_sub hw (m\<lparr>m_console := c\<rparr>)) = (fst (storage_init_sub hw m))\<lparr>m_console := c\<rparr>"
  "task_count (m_sched (fst (storage_init_sub hw m))) = task_count (m_sched m)"
  by (simp_all add: storage_init_sub_def split: prod.splits)

lemma subsys_console: "subsys_init_all hw (m\<lparr>m_console := c\<rparr>) = (subsys_init_all hw m)\<lparr>m_console := c\<rparr>"
  "task_count (m_sched (subsys_init_all hw m)) = task_count (m_sched m)"
  by (simp_all add: subsys_init_all_def subsystems_def core_init_def storage_init_sub_def net_init_sub_def input_init_def
      audio_init_def video_init_def iop_init_sub_def party_init_sub_def quantum_init_sub_def split: prod.splits)

lemma boot_acts: "list_all2 acts (take 19 (kernel_steps hw)) (boot_states hw)"
proof -
  have out: "acts (show_outs [Kprint s]) (\<lambda>m. m)" for s by (rule acts_show) (simp del: emit.simps)
  have sh: "acts (show_outs init_shell) (\<lambda>m. m)" by (rule acts_show) (simp add: init_shell_def del: emit.simps)
  show ?thesis
    by (simp add: kernel_steps_def boot_states_def Let_def out sh detect_acts games_acts sched_acts)
      (intro conjI acts_pure; simp add: plat_init_def init_heap_def storage_sub_console subsys_console Let_def)
qed

text \<open>
  What the single steps leave alone, and from it the fields of the machine that the boot
  leaves in a known state.
\<close>

lemma storage_sub_fields:
  "m_budget (fst (storage_init_sub hw m)) = m_budget m" "m_net (fst (storage_init_sub hw m)) = m_net m"
  "m_music (fst (storage_init_sub hw m)) = m_music m" "m_remap (fst (storage_init_sub hw m)) = m_remap m"
  "m_storage (fst (storage_init_sub hw m)) = m_storage m" "m_halted (fst (storage_init_sub hw m)) = m_halted m"
  "m_quantum (fst (storage_init_sub hw m)) = m_quantum m"
  by (simp_all add: storage_init_sub_def split: prod.splits)

lemma net_sub_fields:
  "m_budget (fst (net_init_sub hw m)) = m_budget m" "m_net (fst (net_init_sub hw m)) = m_net m"
  "m_music (fst (net_init_sub hw m)) = m_music m" "m_remap (fst (net_init_sub hw m)) = m_remap m"
  "m_storage (fst (net_init_sub hw m)) = m_storage m" "m_halted (fst (net_init_sub hw m)) = m_halted m"
  "m_quantum (fst (net_init_sub hw m)) = m_quantum m"
  by (simp_all add: net_init_sub_def split: prod.splits)

lemma subsys_fields:
  "m_budget (subsys_init_all hw m) = m_budget m" "m_net (subsys_init_all hw m) = m_net m"
  "m_music (subsys_init_all hw m) = m_music m" "m_remap (subsys_init_all hw m) = m_remap m"
  "m_storage (subsys_init_all hw m) = m_storage m" "m_halted (subsys_init_all hw m) = m_halted m"
  "m_quantum (subsys_init_all hw m) = quantum_init (m_quantum m)"
  by (simp_all add: subsys_init_all_def subsystems_def core_init_def input_init_def audio_init_def video_init_def
      iop_init_sub_def party_init_sub_def quantum_init_sub_def storage_sub_fields net_sub_fields)

lemma info_fields:
  "m_budget (info_state hw m) = m_budget m" "m_net (info_state hw m) = m_net m"
  "m_music (info_state hw m) = m_music m" "m_remap (info_state hw m) = m_remap m"
  "m_storage (info_state hw m) = m_storage m" "m_halted (info_state hw m) = m_halted m"
  "m_quantum (info_state hw m) = m_quantum m"
  by (simp_all add: info_state_def)

lemma games_fields:
  "m_budget (games_state hw m) = m_budget m" "m_net (games_state hw m) = m_net m"
  "m_music (games_state hw m) = m_music m" "m_remap (games_state hw m) = m_remap m"
  "m_storage (games_state hw m) = m_storage m" "m_halted (games_state hw m) = m_halted m"
  "m_quantum (games_state hw m) = m_quantum m"
  by (simp_all add: games_state_def split: prod.splits)

lemmas step_fields = storage_sub_fields subsys_fields info_fields games_fields

lemma boot_state_fields:
  "m_budget (boot_state hw m) =
     memory_budget_init ((m_budget m)\<lparr>bheap := init_memory_manager (bheap (m_budget m))\<rparr>)"
  "net_up (m_net (boot_state hw m))" "rx_head (m_net (boot_state hw m)) = 0" "rx_tail (m_net (boot_state hw m)) = 0"
  "m_music (boot_state hw m) = music_init"
  "m_remap (boot_state hw m) = controller_remap_init (m_remap m)"
  "m_storage (boot_state hw m) = storage_init (m_storage m)"
  "m_halted (boot_state hw m) = m_halted m"
  "m_quantum (boot_state hw m) = quantum_init (m_quantum m)"
  by (simp_all add: boot_state_def boot_states_def step_fields plat_init_def init_heap_def net_init_def Let_def)

lemma quantum_boot: "profiles_ok (m_quantum m) \<Longrightarrow> quantum_ok (m_quantum (boot_state hw m))"
  by (simp add: boot_state_fields quantum_init_ok)

lemma budget_boot:
  assumes "budget_wf b" "\<not> inited b"
  shows "swap_inv (memory_budget_init (b\<lparr>bheap := init_memory_manager h\<rparr>)) \<and>
         blocks (bheap (memory_budget_init (b\<lparr>bheap := init_memory_manager h\<rparr>))) = [(1048564, True)]"
proof -
  let ?b = "b\<lparr>bheap := init_memory_manager h\<rparr>"
  have wf: "budget_wf ?b" "\<not> inited ?b" "length (swap_slots ?b) = 32" using assms by (auto simp: budget_wf_def)
  have h: "blocks (init_memory_manager h) = [(1048564, True)] \<and> heap_inv (init_memory_manager h)"
    by (rule heap_rep_blocks [OF init_rep])
  have "slot_ptr (memory_budget_init ?b) i = NULL" if "i < 32" for i
    using init_frame(2) [OF wf(2), of i] that wf(3) by simp
  then have "tracked (owned (bheap (memory_budget_init ?b))) 32 (slot_ptr (memory_budget_init ?b))"
    by (simp add: tracked_def)
  then show ?thesis using h budget_wf_init [OF wf(1)] by (simp add: swap_inv_def init_frame)
qed

lemma kernel_runs:
  assumes "con_ok (m_console m)" "task_count (m_sched m) = 0"
  shows "kernel_main hw m = Some ((boot_state hw m)\<lparr>m_console := display (type_out (Kprint ''ASMOS Kernel v2.0 - Ready!\<newline>'') [[]])\<rparr>)"
proof -
  obtain c where c: "con_ok c" "each (\<lambda>f. f) (take 19 (kernel_steps hw)) m = Some ((boot_state hw m)\<lparr>m_console := c\<rparr>)"
    using acts_each [OF boot_acts assms] by (auto simp: boot_state_def)
  have steps: "kernel_steps hw = take 19 (kernel_steps hw) @ [splash (read_info hw), show_outs [Kprint ''ASMOS Kernel v2.0 - Ready!\<newline>'']]"
    by (simp add: kernel_steps_def Let_def)
  have "lines_ok [[]]" by (simp add: lines_ok_def)
  then have e: "emit (Kprint ''ASMOS Kernel v2.0 - Ready!\<newline>'') (display [[]]) =
      Some (display (type_out (Kprint ''ASMOS Kernel v2.0 - Ready!\<newline>'') [[]]))"
    by (simp add: emit_display del: emit.simps type_out.simps)
  show ?thesis
    unfolding kernel_main_def by (subst steps)
      (simp add: each_append c(2) splash_def splash_leaves_clear_screen [OF c(1)] show_outs_def e del: emit.simps type_out.simps)
qed

lemma ready_line: "type_out (Kprint ''ASMOS Kernel v2.0 - Ready!\<newline>'') [[]] = [map (cell DEFAULT_COLOR) ''ASMOS Kernel v2.0 - Ready!'', []]"
  by (simp add: cstr_Cons type_char_def add_cell_def)

text \<open>The values that the boot leaves, written out.\<close>

lemma quantum_boot_values:
  assumes "profiles_ok q"
  shows "q_profile_count (quantum_init q) = 0" "q_active (quantum_init q) = []" "q_coherence (quantum_init q) = 200"
    "length (q_profiles (quantum_init q)) = 4"
    "\<forall>p\<in>set (q_profiles (quantum_init q)). hd (qp_name p) = NUL \<and> qp_weight p = 0 \<and> \<not> qp_collapsed p \<and> qp_ram_cost_kb p = 0"
proof -
  have "hd ((qp_name p)[0 := NUL]) = NUL" if "p \<in> set (q_profiles q)" for p
    using assms that by (cases "qp_name p") (auto simp: profiles_ok_def QUANTUM_NAME_MAX_def)
  then show "\<forall>p\<in>set (q_profiles (quantum_init q)). hd (qp_name p) = NUL \<and> qp_weight p = 0 \<and> \<not> qp_collapsed p \<and> qp_ram_cost_kb p = 0"
    by (simp add: quantum_init_def)
qed (use assms in \<open>simp_all add: quantum_init_def profiles_ok_def QUANTUM_PROFILE_MAX_def\<close>)

lemma budget_boot_values:
  assumes "\<not> inited b"
  shows "map (\<lambda>r. (be_name r, limit_kb r, used_kb r)) (regions (memory_budget_init b)) =
      [(Some ''kernel'', 4096, 0), (Some ''network'', 2048, 0), (Some ''fs'', 1024, 0), (Some ''streaming'', 2048, 0),
       (Some ''app'', 16384, 0), (Some ''pause_cache'', 2048, 0), (Some ''swap_cache'', 4096, 0), (Some ''other'', 1024, 0)]"
    "\<forall>t\<in>set (swap_slots (memory_budget_init b)). \<not> in_use t \<and> local_ptr t = NULL"
  using assms by (simp_all add: memory_budget_init_def memory_budget_set_limit_def region_names_def budget_consts Let_def)

lemma remap_boot_values:
  "rm_count (controller_remap_init r) = 0"
  "\<forall>p\<in>set (rm_current (controller_remap_init r) # rm_profiles (controller_remap_init r)).
     cp_name p = [] \<and> button_remap p = [0, 1, 2, 3, 4, 5, 6, 7, 8, 9, 10, 11, 12, 13, 14, 15] \<and>
     sensitivity p = 128 \<and> deadzone p = 32 \<and> turbo_mask p = 0 \<and> macro_len p = 0"
  by (auto simp: controller_remap_init_def default_profile_def upt_rec)

text \<open>
  C4: From its entry the kernel runs to the shell without a fault in any of its prints,
  whatever the disk, the network card and the other devices answer, if the static tables
  are as the loader leaves them: a console within its bounds, no task, a memory budget
  that is not yet set up, with its 8 regions and 32 slots, four quantum profiles of 16
  bytes each, and no halt. Then the screen shows only the line that it is ready, with
  the cursor below it; the heap is one free block of all the pool but its header; the
  eight regions of the memory budget have their names and limits and nothing used, and no
  slot of the swap table is in use; the network is up with head and tail of its ring at 0;
  no quantum profile is counted, active, collapsed, weighted or charged, and the coherence is
  200; no music plays, in the foreground or in the background, and the playlist is empty;
  no controller profile is counted, and every one maps each button to itself with
  sensitivity 128, dead zone 32, no turbo and no macro; and the machine is not halted.
\<close>
theorem kernel_boots:
  assumes "con_ok (m_console m)" "task_count (m_sched m) = 0" "budget_wf (m_budget m)" "\<not> inited (m_budget m)"
    "profiles_ok (m_quantum m)" "\<not> m_halted m"
  shows "\<exists>m'. kernel_start hw m = Some m' \<and>
     m_console m' = display [map (cell DEFAULT_COLOR) ''ASMOS Kernel v2.0 - Ready!'', []] \<and>
     swap_inv (m_budget m') \<and> blocks (bheap (m_budget m')) = [(1048564, True)] \<and>
     map (\<lambda>r. (be_name r, limit_kb r, used_kb r)) (regions (m_budget m')) =
       [(Some ''kernel'', 4096, 0), (Some ''network'', 2048, 0), (Some ''fs'', 1024, 0), (Some ''streaming'', 2048, 0),
        (Some ''app'', 16384, 0), (Some ''pause_cache'', 2048, 0), (Some ''swap_cache'', 4096, 0), (Some ''other'', 1024, 0)] \<and>
     (\<forall>t\<in>set (swap_slots (m_budget m')). \<not> in_use t \<and> local_ptr t = NULL) \<and>
     net_up (m_net m') \<and> rx_head (m_net m') = 0 \<and> rx_tail (m_net m') = 0 \<and>
     quantum_ok (m_quantum m') \<and>
     q_profile_count (m_quantum m') = 0 \<and> q_active (m_quantum m') = [] \<and> q_coherence (m_quantum m') = 200 \<and>
     length (q_profiles (m_quantum m')) = 4 \<and>
     (\<forall>p\<in>set (q_profiles (m_quantum m')). hd (qp_name p) = NUL \<and> qp_weight p = 0 \<and> \<not> qp_collapsed p \<and> qp_ram_cost_kb p = 0) \<and>
     m_music m' = \<lparr>now_playing = [], background_mode = False, playlist = replicate 32 [], playlist_count = 0\<rparr> \<and>
     m_remap m' = controller_remap_init (m_remap m) \<and> rm_count (m_remap m') = 0 \<and>
     (\<forall>p\<in>set (rm_current (m_remap m') # rm_profiles (m_remap m')).
        cp_name p = [] \<and> button_remap p = [0, 1, 2, 3, 4, 5, 6, 7, 8, 9, 10, 11, 12, 13, 14, 15] \<and>
        sensitivity p = 128 \<and> deadzone p = 32 \<and> turbo_mask p = 0 \<and> macro_len p = 0) \<and>
     \<not> m_halted m'"
proof -
  define n where "n = m\<lparr>m_world := debugcon_puts (hw_ports hw) (Some ''DEBUG:KERNEL_START\<newline>'') (m_world m)\<rparr>"
  have n: "m_console n = m_console m" "m_sched n = m_sched m" "m_budget n = m_budget m" "m_quantum n = m_quantum m"
    "m_remap n = m_remap m" "m_halted n = m_halted m"
    by (simp_all add: n_def)
  have "kernel_start hw m = Some ((boot_state hw n)\<lparr>m_console := display [map (cell DEFAULT_COLOR) ''ASMOS Kernel v2.0 - Ready!'', []]\<rparr>)"
    unfolding kernel_start_def n_def [symmetric] using kernel_runs [of n hw] assms(1,2) by (simp only: n ready_line)
  moreover have "\<not> inited ((m_budget m)\<lparr>bheap := init_memory_manager (bheap (m_budget m))\<rparr>)" using assms(4) by simp
  note budget_boot_values [OF this]
  moreover note budget_boot [OF assms(3,4)] quantum_boot [of n hw] quantum_boot_values [OF assms(5)] remap_boot_values [of "m_remap m"]
  moreover have "music_init = \<lparr>now_playing = [], background_mode = False, playlist = replicate 32 [], playlist_count = 0\<rparr>"
    by (simp add: music_init_def MUSIC_PLAYLIST_MAX_def)
  ultimately show ?thesis using assms(5,6) by (simp add: boot_state_fields n)
qed

theorem kernel_boots_witness:
  "\<exists>m. kernel_start kbd_hardware (machine_zero [0x1C]) = Some m \<and> con_ok (m_console m) \<and> swap_inv (m_budget m) \<and> net_up (m_net m)"
proof -
  let ?m = "machine_zero [0x1C :: u8]"
  have "con_ok (m_console ?m)" "task_count (m_sched ?m) = 0" "budget_wf (m_budget ?m)" "\<not> inited (m_budget ?m)"
    "profiles_ok (m_quantum ?m)" "\<not> m_halted ?m"
    by (simp_all add: machine_zero_def con_ok_def sched_zero_def budget_zero_def budget_wf_def profiles_ok_def quantum_zero_def
        budget_consts QUANTUM_PROFILE_MAX_def QUANTUM_NAME_MAX_def)
  from kernel_boots [OF this, of kbd_hardware] show ?thesis by (auto intro!: display_ok simp: lines_ok_def)
qed

end
