(* ===== verification/Shell_Output.thy ===== *)
theory Shell_Output
  imports Kernel
begin

text \<open>
  The console never stops the shell. A typing of the print formats says which argument lists
  they may be called with; every command of the shell prints only typed formats and keeps
  the state its numbers come from in range; and the work between two commands always ends.
\<close>

section \<open>Typed formats\<close>

text \<open>
  The arguments a format asks for: text for \<^verbatim>\<open>%s\<close>, a number for \<^verbatim>\<open>%c\<close>, \<^verbatim>\<open>%d\<close> and \<^verbatim>\<open>%x\<close>, and
  for \<^verbatim>\<open>%d\<close> not the smallest one, whose negation overflows. Every other directive asks
  for nothing.
\<close>

definition arg_fits :: "char \<Rightarrow> karg list \<Rightarrow> bool" where
  "arg_fits d args =
     (if d = CHR ''s'' then (case args of StrArg s # _ \<Rightarrow> True | _ \<Rightarrow> False)
      else if d = CHR ''d'' then (case args of IntArg v # _ \<Rightarrow> sint v \<noteq> - (2 ^ 31) | _ \<Rightarrow> False)
      else if d = CHR ''c'' \<or> d = CHR ''x'' then (case args of IntArg v # _ \<Rightarrow> True | _ \<Rightarrow> False)
      else True)"

definition takes_arg :: "char \<Rightarrow> bool" where
  "takes_arg d \<longleftrightarrow> d \<in> {CHR ''s'', CHR ''c'', CHR ''d'', CHR ''x''}"

fun fits :: "string \<Rightarrow> karg list \<Rightarrow> bool" where
  "fits [] args = True"
| "fits [c] args = (c \<noteq> CHR ''%'')"
| "fits (c # d # f) args =
     (if c = NUL then True
      else if c = CHR ''%''
      then d \<noteq> NUL \<and> arg_fits d args \<and> fits f (if takes_arg d then tl args else args)
      else fits (d # f) args)"

primrec typed :: "kout \<Rightarrow> bool" where
  "typed (Kprint s) = True"
| "typed (KprintColor s color) = True"
| "typed (KprintChar c) = True"
| "typed (Kprintf f args) = fits f args"
| "typed ClearScreen = True"

lemma arg_fits_text:
  assumes "arg_fits d args"
  shows "\<exists>t. arg_text d args = Some (t, if takes_arg d then tl args else args)"
  using assms by (auto simp: arg_fits_def arg_text_def takes_arg_def decimal_chars_def split: list.splits karg.splits if_splits)

lemma fits_text: "fits f args \<Longrightarrow> format_text f args \<noteq> None"
proof (induction f args rule: fits.induct)
  case (3 c d f args)
  show ?case
  proof (cases "c = CHR ''%''")
    case True
    then have d: "d \<noteq> NUL" "arg_fits d args" "fits f (if takes_arg d then tl args else args)" using 3(3) by auto
    obtain t where "arg_text d args = Some (t, if takes_arg d then tl args else args)" using arg_fits_text [OF d(2)] by blast
    moreover have "format_text f (if takes_arg d then tl args else args) \<noteq> None" using 3(1) True d by simp
    ultimately show ?thesis using True d(1) by auto
  qed (use 3 in \<open>auto split: if_splits\<close>)
qed auto

text \<open>Soundness: a typed call never faults and keeps the cursor on the screen.\<close>

lemma typed_safe: "typed out \<Longrightarrow> safe (emit out)"
proof (cases out)
  case (Kprintf f args)
  then show "typed out \<Longrightarrow> safe (emit out)" using printf_safe fits_text by simp
next
  case (KprintChar c)
  have "emit (KprintChar c) = kprint_char c" by (rule ext) simp
  then show ?thesis using KprintChar safe_chars(1) by simp
qed (auto intro: inv_intro)

lemma scanned_number:
  assumes "\<bar>v\<bar> < 2 ^ 31"
  shows "sint (word_of_int v :: u32) \<noteq> - (2 ^ 31)"
proof -
  have "sint (word_of_int v :: u32) = v" using assms by (simp add: signed_of_int signed_take_bit_int_eq_self)
  then show ?thesis using assms by linarith
qed

lemma counted_number: "n < 2 ^ 31 \<Longrightarrow> sint (of_nat n :: u32) \<noteq> - (2 ^ 31)"
  using scanned_number [of "int n"] by simp

lemma byte_number: "sint (ucast (b :: u8) :: u32) \<noteq> - (2 ^ 31)"
proof -
  have "unat b < 2 ^ LENGTH(8)" by (rule unsigned_less)
  then have "unat b < 2 ^ 31" by simp
  moreover have "(ucast b :: u32) = of_nat (unat b)" by simp
  ultimately show ?thesis using counted_number [of "unat b"] by simp
qed

section \<open>Scanned numbers are in range\<close>

lemma digit_value: "is_dec c \<Longrightarrow> 48 \<le> int (of_char c)"
  by (simp only: is_dec_def) linarith

lemma scan_dec_range: "scan_dec s v = Some (n, r) \<Longrightarrow> 0 \<le> v \<Longrightarrow> v < 2 ^ 31 \<Longrightarrow> 0 \<le> n \<and> n < 2 ^ 31"
proof (induction s v rule: scan_dec.induct)
  case (2 c s v)
  show ?case
  proof (cases "is_dec c")
    case True
    then have "0 \<le> v * 10 + (int (of_char c) - 48)" using digit_value 2(3) by simp
    then show ?thesis using 2(1) [OF True refl] 2(2) True by (simp only: scan_dec.simps if_True Let_def split: if_splits) auto
  qed (use 2 in auto)
qed auto

lemma scan_hex_range: "scan_hex s v = Some (n, r) \<Longrightarrow> 0 \<le> v \<Longrightarrow> v < 2 ^ 31 \<Longrightarrow> 0 \<le> n \<and> n < 2 ^ 31"
proof (induction s v rule: scan_hex.induct)
  case (2 c s v)
  have "hex_value c = Some d \<Longrightarrow> 0 \<le> d" for d by (auto simp: hex_value_def Let_def split: if_splits)
  with 2 show ?case by (auto simp: Let_def split: option.splits if_splits)
qed auto

lemma directive_range: "scan_directive d c cs = Some (vs, s) \<Longrightarrow> IntVal n \<in> set vs \<Longrightarrow> \<bar>n\<bar> < 2 ^ 31"
  by (auto simp: scan_directive_def Let_def simp del: scan_dec.simps scan_hex.simps split: if_splits
      dest!: scan_dec_range scan_hex_range)

lemma scanned_range: "ksscanf_loop str f = Some vs \<Longrightarrow> IntVal n \<in> set vs \<Longrightarrow> \<bar>n\<bar> < 2 ^ 31"
proof (induction str f arbitrary: vs rule: ksscanf_loop.induct)
  case (4 c cs f d fs)
  then show ?case by (auto split: if_splits option.splits prod.splits dest!: directive_range simp: abs_less_iff)
qed (auto split: if_splits)

lemma int_out_range:
  assumes "ksscanf str f = Some vs" "\<bar>v\<bar> < 2 ^ 31"
  shows "\<bar>int_out vs i v\<bar> < 2 ^ 31"
proof (cases "drop i vs")
  case (Cons x xs)
  then have "x \<in> set vs" by (metis in_set_dropD list.set_intros(1))
  then have "x = IntVal n \<Longrightarrow> \<bar>n\<bar> < 2 ^ 31" for n
    using assms(1) scanned_range [of "cstr str" "cstr f" vs n] by (simp add: ksscanf_def)
  then show ?thesis using Cons assms(2) by (cases x) (simp_all add: int_out_def)
qed (use assms(2) in \<open>simp add: int_out_def\<close>)

lemma scan_int_range: "scan_int str f v = Some n \<Longrightarrow> \<bar>v\<bar> < 2 ^ 31 \<Longrightarrow> \<bar>n\<bar> < 2 ^ 31"
  using int_out_range by (auto simp: scan_int_def)

section \<open>The state the numbers come from\<close>

text \<open>
  What the commands print from tables: the button maps, the counters of devices and members,
  the mounted slot and the levels of the controller profile.
\<close>

definition map_ok :: "int list \<Rightarrow> bool" where
  "map_ok bs \<longleftrightarrow> length bs = BT_LOGICAL_BUTTONS \<and> list_all (\<lambda>v. 0 \<le> v \<and> v < 2 ^ 31) bs"

definition bt_typed :: "bluetooth \<Rightarrow> bool" where
  "bt_typed b \<longleftrightarrow> (bt_initialized b \<longrightarrow>
     map_ok (controller_map b) \<and> list_all (\<lambda>p. map_ok (bp_map p)) (bt_profiles b) \<and>
     length (bt_profiles b) = BT_PROFILE_SLOTS \<and> bt_profile_count b \<le> BT_PROFILE_SLOTS \<and> paired_count b \<le> BT_DEVICE_MAX)"

definition level_ok :: "int \<Rightarrow> bool" where
  "level_ok v \<longleftrightarrow> 0 \<le> v \<and> v < 2 ^ 31"

definition machine_typed :: "'w machine \<Rightarrow> bool" where
  "machine_typed m \<longleftrightarrow>
     con_ok (m_console m) \<and> party_ok (get_party m) \<and> bt_typed (m_bt m) \<and> mounted_slot (m_card m) \<in> {0, 1} \<and>
     level_ok (sensitivity (rm_current (m_remap m))) \<and> level_ok (deadzone (rm_current (m_remap m)))"

lemma typed_fields [simp]:
  "machine_typed (m\<lparr>m_world := w\<rparr>) = machine_typed m" "machine_typed (m\<lparr>m_budget := bu\<rparr>) = machine_typed m"
  "machine_typed (m\<lparr>m_led := l\<rparr>) = machine_typed m" "machine_typed (m\<lparr>m_games := g\<rparr>) = machine_typed m"
  "machine_typed (m\<lparr>m_net := n\<rparr>) = machine_typed m" "machine_typed (m\<lparr>m_hal_net := hn\<rparr>) = machine_typed m"
  "machine_typed (m\<lparr>m_pads := e\<rparr>) = machine_typed m" "machine_typed (m\<lparr>m_halted := h\<rparr>) = machine_typed m"
  "machine_typed (m\<lparr>m_quantum := q\<rparr>) = machine_typed m" "machine_typed (m\<lparr>m_phase := ph\<rparr>) = machine_typed m"
  "machine_typed (m\<lparr>m_fs := fs\<rparr>) = machine_typed m" "machine_typed (m\<lparr>m_shift_down := sh\<rparr>) = machine_typed m"
  "machine_typed (m\<lparr>m_pad_shift := sh\<rparr>) = machine_typed m" "machine_typed (m\<lparr>m_streaming := g2\<rparr>) = machine_typed m"
  "machine_typed (m\<lparr>m_storage := s\<rparr>) = machine_typed m" "machine_typed (m\<lparr>m_pause := p\<rparr>) = machine_typed m"
  "machine_typed (m\<lparr>m_sched := sc\<rparr>) = machine_typed m" "machine_typed (m\<lparr>m_tick_ms := ti\<rparr>) = machine_typed m"
  by (simp_all add: machine_typed_def get_party_def)

lemma typed_console: "machine_typed m \<Longrightarrow> con_ok c \<Longrightarrow> machine_typed (m\<lparr>m_console := c\<rparr>)"
  by (simp add: machine_typed_def get_party_def)

lemma typed_transport: "machine_typed m \<Longrightarrow> transport_wf t \<Longrightarrow> machine_typed (m\<lparr>m_transport := t\<rparr>)"
  by (simp add: machine_typed_def get_party_def party_ok_def)

lemma typed_bt: "machine_typed m \<Longrightarrow> bt_typed b \<Longrightarrow> machine_typed (m\<lparr>m_bt := b\<rparr>)"
  by (simp add: machine_typed_def get_party_def)

lemma typed_card: "machine_typed m \<Longrightarrow> mounted_slot c \<in> {0, 1} \<Longrightarrow> machine_typed (m\<lparr>m_card := c\<rparr>)"
  by (simp add: machine_typed_def get_party_def)

lemma typed_party: "machine_typed m \<Longrightarrow> party_ok p \<Longrightarrow> machine_typed (set_party p w m)"
  by (simp add: machine_typed_def get_party_def set_party_def party_ok_def)

lemma typed_files [simp]: "machine_typed (set_files st m) = machine_typed m"
  by (simp add: set_files_def split: prod.splits)

lemma typed_wf: "machine_typed m \<Longrightarrow> transport_wf (m_transport m)"
  by (simp add: machine_typed_def get_party_def party_ok_def)

lemma typed_party_ok: "machine_typed m \<Longrightarrow> party_ok (get_party m)"
  by (simp add: machine_typed_def)

lemma typed_streaming:
  "machine_typed m \<Longrightarrow> transport_wf (s_transport g) \<Longrightarrow> machine_typed (set_streaming g m)"
  by (simp add: set_streaming_def typed_transport)

section \<open>Commands that only print typed formats\<close>

definition prints :: "'w action \<Rightarrow> bool" where
  "prints f \<longleftrightarrow>
     (\<forall>m m' outs. machine_typed m \<longrightarrow> f m = Some (m', outs) \<longrightarrow> machine_typed m' \<and> list_all typed outs)"

named_theorems prints_intro

lemma printsI:
  "(\<And>m m' outs. machine_typed m \<Longrightarrow> f m = Some (m', outs) \<Longrightarrow> machine_typed m' \<and> list_all typed outs) \<Longrightarrow> prints f"
  by (auto simp: prints_def)

lemma printsD:
  "prints f \<Longrightarrow> machine_typed m \<Longrightarrow> f m = Some (m', outs) \<Longrightarrow> machine_typed m' \<and> list_all typed outs"
  by (auto simp: prints_def)

lemma prints_say [prints_intro]: "list_all typed outs \<Longrightarrow> prints (say outs)"
  by (auto simp: prints_def say_def)

lemma prints_andthen [prints_intro]: "prints a \<Longrightarrow> prints b \<Longrightarrow> prints (andthen a b)"
  by (rule printsI) (fastforce simp: andthen_def split: option.splits prod.splits dest: printsD)

lemmas fits_simps = arg_fits_def takes_arg_def

lemma prints_simple [prints_intro]:
  "prints (cmd_help hw args)" "prints (cmd_cd hw args)" "prints (cmd_cat hw args)" "prints (cmd_clear hw args)" "prints (cmd_date hw args)"
  "prints (cmd_echo hw args)" "prints (cmd_ps2info hw args)" "prints (cmd_system hw args)" "prints (cmd_temp hw args)"
proof -
  show "prints (cmd_help hw args)"
    unfolding cmd_help_def by (rule prints_say) (simp add: help_group_def help_line_def fits_simps end_rule_def rule_def)
qed (simp_all add: cmd_cd_def cmd_cat_def cmd_clear_def cmd_date_def cmd_echo_def cmd_ps2info_def cmd_system_def cmd_temp_def
      fits_simps end_rule_def rule_def prints_say hw_status_get_temp_def plat_temp_celsius_def)

lemma list_from_length: "length (list_from root is mx out) \<le> max mx (length out)"
  by (induction root "is" mx out rule: list_from.induct) auto

lemma typed_list:
  assumes "fat12_list_files hw m = (m', outs)" "machine_typed m"
  shows "machine_typed m' \<and> list_all typed outs"
proof -
  obtain fs w r where l: "plat_fs_list (hw_disk hw) 32 (m_fs m) (m_world m) = (fs, w, r)"
    by (cases "plat_fs_list (hw_disk hw) 32 (m_fs m) (m_world m)")
  have "length files \<le> 32" if "r = Some files" for files
    using l that list_from_length [of _ _ 32 "[]"] by (fastforce simp: plat_fs_list_def split: prod.splits if_splits)
  then have "sint (of_nat (length files) :: u32) \<noteq> - (2 ^ 31)" if "r = Some files" for files
    using that by (intro counted_number) (fastforce intro: le_less_trans)
  then show ?thesis
    using assms l by (cases r) (auto simp: fat12_list_files_def list_all_iff fits_simps)
qed

lemma typed_ports: "ports_from hw is m = (m', ps) \<Longrightarrow> machine_typed m \<Longrightarrow> machine_typed m' \<and> length ps = length is \<and>
    list_all (\<lambda>p. ps_device_count p \<in> {0, 1}) ps"
proof (induction "is" arbitrary: m m' ps)
  case (Cons i "is")
  obtain sh w ctrl rc where c: "plat_controller_read (hw_ports hw) (int i) (m_pad_shift m) (m_world m) = (sh, w, ctrl, rc)"
    by (cases "plat_controller_read (hw_ports hw) (int i) (m_pad_shift m) (m_world m)")
  obtain m1 qs where r: "ports_from hw is (m\<lparr>m_pad_shift := sh, m_world := w\<rparr>) = (m1, qs)"
    by (cases "ports_from hw is (m\<lparr>m_pad_shift := sh, m_world := w\<rparr>)")
  show ?case using Cons.IH [OF r] Cons.prems c r by auto
qed simp

lemma prints_world [prints_intro]:
  "prints (cmd_reboot hw args)" "prints (cmd_network hw args)" "prints (cmd_sound hw args)" "prints (cmd_graphics hw args)"
  "prints (cmd_timer hw args)" "prints (cmd_meminfo hw args)" "prints (cmd_benchmark hw args)" "prints (cmd_demo hw args)"
proof -
  show "prints (cmd_reboot hw args)"
    by (rule printsI) (auto simp: cmd_reboot_def plat_reboot_def system_reboot_def)
  show "prints (cmd_network hw args)"
    by (rule printsI) (clarsimp simp: cmd_network_def Let_def fits_simps end_rule_def rule_def split: prod.splits)
  show "prints (cmd_sound hw args)" "prints (cmd_graphics hw args)"
    by (rule printsI; clarsimp simp: cmd_sound_def cmd_graphics_def)+
  show "prints (cmd_timer hw args)"
    by (rule printsI) (clarsimp simp: cmd_timer_def fits_simps split: prod.splits)
  show "prints (cmd_meminfo hw args)"
    by (rule printsI) (clarsimp simp: cmd_meminfo_def Let_def fits_simps end_rule_def rule_def)
  show "prints (cmd_benchmark hw args)"
    by (rule printsI) (simp add: benchmark_overflows)
  show "prints (cmd_demo hw args)"
    by (rule printsI) (clarsimp simp: cmd_demo_def Let_def init_graphics_demo_def run_graphics_demo_def split: prod.splits if_splits)
qed

lemma typed_bar: "list_all typed (bar pct)"
  by (auto simp: bar_def list_all_iff)

lemma prints_status [prints_intro]:
  "prints (cmd_memstat hw args)" "prints (cmd_iopstat hw args)" "prints (cmd_dashboard hw args)" "prints (cmd_sysinfo hw args)"
proof -
  show "prints (cmd_memstat hw args)" "prints (cmd_iopstat hw args)"
    by (rule printsI; clarsimp simp: cmd_memstat_def cmd_iopstat_def fits_simps end_rule_def rule_def)+
  show "prints (cmd_dashboard hw args)"
    by (rule printsI) (clarsimp simp: cmd_dashboard_def dashboard_show_def typed_bar Let_def fits_simps)
  show "prints (cmd_sysinfo hw args)"
  proof (rule printsI)
    fix m m' :: "'a machine" and outs
    assume m: "machine_typed m" "cmd_sysinfo hw args m = Some (m', outs)"
    then obtain si where si: "hw_status_get_sysinfo hw m = Some (m', si)" by (auto simp: cmd_sysinfo_def)
    have "machine_typed m'"
      using si m(1) by (auto simp: hw_status_get_sysinfo_def hw_status_get_ports_def split: option.splits prod.splits dest!: typed_ports)
    then show "machine_typed m' \<and> list_all typed outs"
      using m(2) si by (auto simp: cmd_sysinfo_def fits_simps rule_def)
  qed
qed

lemma prints_ports [prints_intro]: "prints (cmd_ports hw args)"
proof (rule printsI)
  fix m m' :: "'a machine" and outs
  assume m: "machine_typed m" "cmd_ports hw args m = Some (m', outs)"
  obtain p where p: "ports_from hw [0, 1] m = (m', p)"
    using m(2) by (auto simp: cmd_ports_def hw_status_get_ports_def HW_STATUS_MAX_PORTS_def upt_rec split: prod.splits)
  obtain p0 p1 where l: "p = [p0, p1]" "ps_device_count p0 \<in> {0, 1}" "ps_device_count p1 \<in> {0, 1}"
    using typed_ports [OF p m(1)] by (auto simp: length_Suc_conv)
  then have "sint (word_of_int (ps_device_count p0) :: u32) \<noteq> - (2 ^ 31)" "sint (word_of_int (ps_device_count p1) :: u32) \<noteq> - (2 ^ 31)"
    by (intro scanned_number; auto)+
  then show "machine_typed m' \<and> list_all typed outs"
    using m(2) typed_ports [OF p m(1)] p l(1)
    by (auto simp: cmd_ports_def hw_status_get_ports_def HW_STATUS_MAX_PORTS_def upt_rec fits_simps end_rule_def rule_def)
qed

lemma prints_ls [prints_intro]: "prints (cmd_ls hw args)"
  by (rule printsI) (auto simp: cmd_ls_def end_rule_def rule_def split: prod.splits dest: typed_list)

text \<open>The commands whose subcommands cannot be reached print what they print without arguments.\<close>

lemma prints_without_args:
  assumes "\<And>m. \<exists>outs. f m = Some (m, outs) \<and> f0 m = Some (m, outs)" "prints f0"
  shows "prints f"
proof (rule printsI)
  fix m m' outs
  assume m: "machine_typed m" "f m = Some (m', outs)"
  then have "f0 m = Some (m', outs)" using assms(1) [of m] by auto
  then show "machine_typed m' \<and> list_all typed outs" using printsD [OF assms(2) m(1)] by blast
qed

lemma typed_current: "machine_typed m \<Longrightarrow> list_all typed (controller_remap_print_current (m_remap m))"
  using scanned_number by (auto simp: controller_remap_print_current_def Let_def fits_simps machine_typed_def level_ok_def)

lemma prints_unreachable [prints_intro]:
  "prints (cmd_controller hw args)" "prints (cmd_superpose hw args)" "prints (cmd_ftp hw args)" "prints (cmd_telnet hw args)"
  "prints (cmd_irc hw args)" "prints (cmd_games hw args)" "prints (cmd_music hw args)" "prints (cmd_saves hw args)"
proof -
  have "\<forall>f\<in>{cmd_controller hw, cmd_superpose hw, cmd_ftp hw, cmd_telnet hw, cmd_irc hw, cmd_games hw, cmd_music hw, cmd_saves hw}.
      prints (f []) \<longrightarrow> prints (f args)"
    by (intro ballI impI) (rule prints_without_args, rule sub_unreachable)
  moreover have "prints (cmd_controller hw [])"
    by (rule printsI) (auto simp: cmd_controller_def controller_usage_def typed_current)
  moreover have "prints (cmd_superpose hw [])" "prints (cmd_ftp hw [])" "prints (cmd_telnet hw [])" "prints (cmd_irc hw [])"
    by (rule printsI; clarsimp simp: cmd_superpose_def cmd_ftp_def cmd_telnet_def cmd_irc_def)+
  moreover have "prints (cmd_games hw [])" "prints (cmd_music hw [])" "prints (cmd_saves hw [])"
    by (rule printsI; clarsimp simp: cmd_games_def cmd_music_def music_usage_def cmd_saves_def saves_sub_def saves_usage_def cstr_Cons)+
  ultimately show "prints (cmd_controller hw args)" "prints (cmd_superpose hw args)" "prints (cmd_ftp hw args)" "prints (cmd_telnet hw args)"
    "prints (cmd_irc hw args)" "prints (cmd_games hw args)" "prints (cmd_music hw args)" "prints (cmd_saves hw args)"
    by simp_all
qed

lemma prints_quantum [prints_intro]:
  "prints (cmd_observe hw args)" "prints (cmd_collapse hw args)" "prints (cmd_entangle hw args)"
proof -
  show "prints (cmd_observe hw args)"
    by (rule printsI) (auto simp: cmd_observe_def quantum_observe_def fits_simps split: if_splits)
  show "prints (cmd_collapse hw args)"
    by (rule printsI) (auto simp: cmd_collapse_def quantum_collapse_def fits_simps split: if_splits option.splits)
  show "prints (cmd_entangle hw args)"
  proof (rule printsI)
    fix m m' :: "'a machine" and outs
    assume m: "machine_typed m" "cmd_entangle hw args m = Some (m', outs)"
    then obtain vs where "ksscanf args ''%d %d'' = Some vs" by (auto simp: cmd_entangle_def)
    then have "sint (word_of_int (int_out vs 0 0) :: u32) \<noteq> - (2 ^ 31)" "sint (word_of_int (int_out vs 1 1) :: u32) \<noteq> - (2 ^ 31)"
      by (intro scanned_number int_out_range; simp)+
    then show "machine_typed m' \<and> list_all typed outs"
      using m \<open>ksscanf args ''%d %d'' = Some vs\<close> by (auto simp: cmd_entangle_def quantum_entangle_input_def fits_simps)
  qed
qed

lemma typed_games: "list_all typed list_games"
  by (simp add: list_games_def game_count_def games_def fits_simps upt_rec)

lemma typed_launch: "launch_game io i g w = Some (g', w', outs) \<Longrightarrow> list_all typed outs"
  by (auto simp: launch_game_def Let_def fits_simps split: if_splits option.splits prod.splits)

lemma typed_ping: "plat_net_ping hw host m = Some (m', r) \<Longrightarrow> machine_typed m' = machine_typed m"
  by (auto simp: plat_net_ping_def Let_def split: prod.splits option.splits if_splits)

lemma typed_validate: "subsys_status_all hw 96 m = Some (m', line) \<Longrightarrow> machine_typed m' = machine_typed m"
  using status_line [of hw m] by auto

lemma prints_net [prints_intro]: "prints (cmd_coherence hw args)" "prints (cmd_ping hw args)" "prints (cmd_game hw args)"
proof -
  show "prints (cmd_coherence hw args)"
    by (rule printsI) (auto simp: cmd_coherence_def fits_simps split: option.splits prod.splits dest: typed_validate)
  show "prints (cmd_ping hw args)"
  proof (rule printsI)
    fix m m' :: "'a machine" and outs
    assume m: "machine_typed m" "cmd_ping hw args m = Some (m', outs)"
    show "machine_typed m' \<and> list_all typed outs"
    proof (cases "ksstrcmp args [] = 0")
      case False
      then obtain rc rtt where p: "plat_net_ping hw args m = Some (m', rc, rtt)" using m(2) by (auto simp: cmd_ping_def)
      show ?thesis using m False p typed_ping [OF p] by (auto simp: cmd_ping_def fits_simps)
    qed (use m in \<open>auto simp: cmd_ping_def\<close>)
  qed
  show "prints (cmd_game hw args)"
    by (rule printsI) (auto simp: cmd_game_def typed_games split: option.splits prod.splits if_splits dest: typed_launch)
qed

section \<open>Memory card, LED, Bluetooth, party, streaming\<close>

lemma typed_on_files: "on_files hw f m = Some (m', r) \<Longrightarrow> machine_typed m' = machine_typed m"
  by (auto simp: on_files_def)

lemma mount_slot: "mc_mount ops slot mc st = (mc', st', r) \<Longrightarrow> mounted_slot mc \<in> {0, 1} \<Longrightarrow> mounted_slot mc' \<in> {0, 1}"
  by (auto simp: mc_mount_def split: if_splits)

lemma prints_mc_list: "prints (mc_list_sub hw)"
proof (rule printsI)
  fix m m' :: "'a machine" and outs
  assume m: "machine_typed m" "mc_list_sub hw m = Some (m', outs)"
  obtain st s where g: "mc_get_status x86_ops (m_card m) (get_files hw m) = (st, s)"
    by (cases "mc_get_status x86_ops (m_card m) (get_files hw m)")
  obtain m1 listing where l: "fat12_list_files hw (set_files st m) = (m1, listing)"
    by (cases "fat12_list_files hw (set_files st m)")
  have "mcs_mounted s \<in> {0, 1}"
    using g m(1) by (auto simp: mc_get_status_def machine_typed_def split: prod.splits)
  then have "sint (word_of_int (mcs_mounted s + 1) :: u32) \<noteq> - (2 ^ 31)" by (intro scanned_number) auto
  then show "machine_typed m' \<and> list_all typed outs"
    using m typed_list [OF l] g l by (auto simp: mc_list_sub_def fits_simps end_rule_def rule_def)
qed

lemma prints_mc_mount: "prints (mc_mount_sub hw rest)"
proof (rule printsI)
  fix m m' :: "'a machine" and outs
  assume m: "machine_typed m" "mc_mount_sub hw rest m = Some (m', outs)"
  then obtain slot where s: "scan_int (fst (next_word rest 16)) ''%d'' 0 = Some slot"
    by (auto simp: mc_mount_sub_def split: option.splits)
  obtain mc st r where r: "mc_mount x86_ops (slot - 1) (m_card m) (get_files hw m) = (mc, st, r)"
    by (cases "mc_mount x86_ops (slot - 1) (m_card m) (get_files hw m)")
  have "mounted_slot mc \<in> {0, 1}" using mount_slot [OF r] m(1) by (simp add: machine_typed_def)
  moreover have "sint (word_of_int slot :: u32) \<noteq> - (2 ^ 31)"
    using scan_int_range [OF s] by (intro scanned_number) simp
  ultimately show "machine_typed m' \<and> list_all typed outs"
    using m s r typed_card [of "set_files st m" mc] by (auto simp: mc_mount_sub_def fits_simps split: if_splits)
qed

lemma prints_mc_rest: "prints (mc_export_sub hw rest)" "prints (mc_clone_sub hw rest)" "prints (mc_repair_sub hw)"
proof -
  show "prints (mc_export_sub hw rest)"
    by (rule printsI) (auto simp: mc_export_sub_def split: prod.splits if_splits dest: typed_on_files)
  show "prints (mc_clone_sub hw rest)"
    by (rule printsI) (auto simp: mc_clone_sub_def split: prod.splits option.splits if_splits dest: typed_on_files)
  show "prints (mc_repair_sub hw)"
    by (rule printsI) (auto simp: mc_repair_sub_def split: prod.splits)
qed

lemma prints_mc [prints_intro]: "prints (cmd_mc hw args)"
proof (rule printsI)
  fix m m' :: "'a machine" and outs
  assume m: "machine_typed m" "cmd_mc hw args m = Some (m', outs)"
  obtain sub rest where w: "next_word args 32 = (sub, rest)" by (cases "next_word args 32")
  have "m' = m \<and> list_all typed outs \<or> mc_list_sub hw m = Some (m', outs) \<or> mc_mount_sub hw rest m = Some (m', outs) \<or>
      mc_export_sub hw rest m = Some (m', outs) \<or> mc_clone_sub hw rest m = Some (m', outs) \<or> mc_repair_sub hw m = Some (m', outs)"
    using m(2) w by (auto simp: cmd_mc_def mc_usage_def split: if_splits)
  then show "machine_typed m' \<and> list_all typed outs"
    using m(1) by (auto dest: printsD [OF prints_mc_list] printsD [OF prints_mc_mount] printsD [OF prints_mc_rest(1)]
        printsD [OF prints_mc_rest(2)] printsD [OF prints_mc_rest(3)])
qed

lemma typed_led:
  assumes "with_led f ok m = (m', outs)" "machine_typed m" "list_all typed ok" "\<And>l. list_all typed (fst (snd (f l)))"
  shows "machine_typed m' \<and> list_all typed outs"
  using assms(1-3) assms(4) [of "m_led m"] by (auto simp: with_led_def split: prod.splits if_splits)

lemma prints_led [prints_intro]: "prints (cmd_led hw args)"
proof (rule printsI)
  fix m m' :: "'a machine" and outs
  assume m: "machine_typed m" "cmd_led hw args m = Some (m', outs)"
  have f: "list_all typed (fst (snd (led_set c l)))" "list_all typed (fst (snd (led_pulse p l)))" "list_all typed (fst (snd (led_rgb r g b l)))"
    for c p r g b l
    by (auto simp: led_set_def led_pulse_def led_rgb_def split: option.splits prod.splits)
  have rgb: "machine_typed m' \<and> list_all typed outs" if s: "led_rgb_sub rest m = Some (m', outs)" for rest
  proof -
    obtain r g b where "with_led (led_rgb r g b) [Kprintf ''  led rgb %d %d %d\<newline>'' [IntArg (ucast r), IntArg (ucast g), IntArg (ucast b)]] m = (m', outs)"
      using s by (auto simp: led_rgb_sub_def Let_def split: prod.splits option.splits)
    then show ?thesis by (rule typed_led) (use m(1) f byte_number in \<open>simp_all add: fits_simps\<close>)
  qed
  obtain sub rest where w: "next_word args 32 = (sub, rest)" by (cases "next_word args 32")
  have "m' = m \<and> list_all typed outs \<or>
      (\<exists>color. with_led (led_set (Some color)) [Kprintf ''  led set %s\<newline>'' [StrArg color]] m = (m', outs)) \<or>
      (\<exists>ms. with_led (led_pulse ms) [Kprint ''  led pulse\<newline>''] m = (m', outs)) \<or> led_rgb_sub rest m = Some (m', outs)"
    using m(2) w by (auto simp: cmd_led_def Let_def split: if_splits)
  then consider "m' = m \<and> list_all typed outs"
    | color where "with_led (led_set (Some color)) [Kprintf ''  led set %s\<newline>'' [StrArg color]] m = (m', outs)"
    | ms where "with_led (led_pulse ms) [Kprint ''  led pulse\<newline>''] m = (m', outs)" | "led_rgb_sub rest m = Some (m', outs)"
    by blast
  then show "machine_typed m' \<and> list_all typed outs"
  proof cases
    case 2
    then show ?thesis by (rule typed_led) (use m(1) f in \<open>simp_all add: fits_simps\<close>)
  next
    case 3
    then show ?thesis by (rule typed_led) (use m(1) f in simp_all)
  qed (use m(1) rgb in auto)
qed

lemma bt_init_typed: "bt_typed b \<Longrightarrow> bt_typed (bt_init b) \<and> bt_initialized (bt_init b)"
  by (auto simp: bt_init_def bt_typed_def map_ok_def list_all_iff BT_LOGICAL_BUTTONS_def)

lemma map_entry: "map_ok bs \<Longrightarrow> i < BT_LOGICAL_BUTTONS \<Longrightarrow> sint (word_of_int (bs ! i) :: u32) \<noteq> - (2 ^ 31)"
  by (rule scanned_number) (auto simp: map_ok_def list_all_length)

lemma paired_number: "bt_typed b \<Longrightarrow> bt_initialized b \<Longrightarrow> sint (word_of_int (int (paired_count b)) :: u32) \<noteq> - (2 ^ 31)"
  by (rule scanned_number) (simp add: bt_typed_def BT_DEVICE_MAX_def)

lemma bt_calls_typed:
  assumes "bt_typed b"
  shows "bt_pair a b = (b', r) \<Longrightarrow> bt_typed b'" "bt_typed (fst (bt_unpair a b))"
    "bt_controller_profile_create n b = (b', r) \<Longrightarrow> bt_typed b'" "bt_controller_profile_load n b = (b', r) \<Longrightarrow> bt_typed b'"
proof -
  show "bt_pair a b = (b', r) \<Longrightarrow> bt_typed b'" "bt_typed (fst (bt_unpair a b))"
    using assms by (auto simp: bt_pair_def bt_unpair_def bt_typed_def split: option.splits if_splits)
  show "bt_controller_profile_create n b = (b', r) \<Longrightarrow> bt_typed b'"
    using assms by (auto simp: bt_controller_profile_create_def bt_typed_def list_all_length nth_list_update split: option.splits if_splits)
  show "bt_controller_profile_load n b = (b', r) \<Longrightarrow> bt_typed b'"
    using assms by (auto simp: bt_controller_profile_load_def bt_typed_def list_all_length find_Some_iff split: option.splits if_splits)
qed

lemma map_show_typed:
  assumes "bt_typed b" "bt_initialized b"
  shows "list_all typed (fst (controller_map_show b))"
proof -
  have "map_ok (controller_map b)" using assms by (simp add: bt_typed_def)
  note map_entry [OF this]
  moreover have "sint (of_nat i :: u32) \<noteq> - (2 ^ 31)" if "i < BT_LOGICAL_BUTTONS" for i
    using that by (intro counted_number) (simp add: BT_LOGICAL_BUTTONS_def)
  ultimately show ?thesis
    using assms(2) by (auto simp: controller_map_show_def list_all_iff fits_simps)
qed

lemma prints_bt [prints_intro]: "prints (cmd_bt hw args)" "prints (cmd_ctrlmap hw args)" "prints (cmd_ctrlprofile hw args)"
proof -
  have b: "bt_typed (bt_init (m_bt m)) \<and> bt_initialized (bt_init (m_bt m))" if "machine_typed m" for m :: "'a machine"
    using that bt_init_typed by (auto simp: machine_typed_def)
  show "prints (cmd_bt hw args)"
  proof (rule printsI)
    fix m m' :: "'a machine" and outs
    assume m: "machine_typed m" "cmd_bt hw args m = Some (m', outs)"
    note bi = conjunct1 [OF b [OF m(1)]] conjunct2 [OF b [OF m(1)]]
    have "sint (word_of_int (bt_scan (bt_init (m_bt m))) :: u32) \<noteq> - (2 ^ 31)"
      by (rule scanned_number) (simp add: bt_scan_def)
    then show "machine_typed m' \<and> list_all typed outs"
      using m bi paired_number [OF bi]
      by (auto simp: cmd_bt_def Let_def fits_simps bt_list_def bt_calls_typed(2) intro!: typed_bt dest: bt_calls_typed(1) [OF bi(1)]
          split: prod.splits if_splits)
  qed
  show "prints (cmd_ctrlmap hw args)"
  proof (rule printsI)
    fix m m' :: "'a machine" and outs
    assume m: "machine_typed m" "cmd_ctrlmap hw args m = Some (m', outs)"
    show "machine_typed m' \<and> list_all typed outs"
      using m map_show_typed [of "bt_init (m_bt m)"] b [OF m(1)] by (auto simp: cmd_ctrlmap_def Let_def typed_bt split: prod.splits)
  qed
  show "prints (cmd_ctrlprofile hw args)"
  proof (rule printsI)
    fix m m' :: "'a machine" and outs
    assume m: "machine_typed m" "cmd_ctrlprofile hw args m = Some (m', outs)"
    note bi = conjunct1 [OF b [OF m(1)]]
    show "machine_typed m' \<and> list_all typed outs"
      using m bi
      by (auto simp: cmd_ctrlprofile_def Let_def fits_simps intro!: typed_bt dest: bt_calls_typed(3,4) [OF bi] split: prod.splits if_splits)
  qed
qed

lemma prints_stream [prints_intro]: "prints (cmd_stream hw args)"
proof (rule printsI)
  fix m m' :: "'a machine" and outs
  assume m: "machine_typed m" "cmd_stream hw args m = Some (m', outs)"
  let ?g = "streaming_init (get_streaming m)"
  define m1 where "m1 = set_streaming ?g m"
  have wf: "transport_wf (s_transport ?g)"
    using typed_wf [OF m(1)] by (simp add: streaming_init_def get_streaming_def transport_init_def transport_wf_def)
  then have m1: "machine_typed m1" unfolding m1_def by (rule typed_streaming [OF m(1)])
  have g: "s_transport (get_streaming m1) = s_transport ?g" by (simp add: m1_def get_streaming_def set_streaming_def)
  have set: "machine_typed (set_streaming g m1)" if "s_transport g = s_transport ?g" for g
    using that wf by (intro typed_streaming [OF m1]) simp
  obtain sub rest where w: "next_word args 24 = (sub, rest)" by (cases "next_word args 24")
  have q: "s_transport (streaming_set_quality v (get_streaming m1)) = s_transport ?g"
      "s_transport (streaming_stop (get_streaming m1)) = s_transport ?g" for v
    by (simp_all add: streaming_set_quality_def streaming_stop_def g)
  have st: "streaming_start (get_streaming m1) = (g', r) \<Longrightarrow> s_transport g' = s_transport ?g" for g' r
    by (auto simp: streaming_start_def g split: if_splits)
  have n: "scan_int q ''%d'' 1 = Some v \<Longrightarrow> sint (word_of_int v :: u32) \<noteq> - (2 ^ 31)" for q v
    using scan_int_range [of q "''%d''" 1 v] by (intro scanned_number) simp
  show "machine_typed m' \<and> list_all typed outs"
    using m w m1 n unfolding cmd_stream_def m1_def [symmetric]
    by (auto simp: Let_def fits_simps q intro!: set dest: st split: prod.splits if_splits)
qed

text \<open>A party call of the shell goes to a well-formed party.\<close>

lemma party_call_typed:
  assumes "machine_typed m" "party_call (net_of hw m) c (get_party m, m_world m) = Some (p, w)"
  shows "machine_typed (set_party p w m)"
proof -
  have "delivers (net_of hw m)" unfolding net_of_def by (rule x86_delivers)
  from party_call_ok [OF typed_party_ok [OF assms(1)] this, of c "m_world m"] have "party_ok p" using assms(2) by auto
  then show ?thesis by (rule typed_party [OF assms(1)])
qed

lemma member_number: "party_ok p \<Longrightarrow> sint (of_nat (member_count (room p)) :: u32) \<noteq> - (2 ^ 31)"
  by (rule counted_number) (simp add: party_ok_def room_ok_def)

lemma party_sub_typed:
  assumes "party_call_sub hw f ok failed m = Some (m', outs)" "machine_typed m" "typed ok" "typed failed"
    "\<And>ops p w. party_call ops c (p, w) = map_option (\<lambda>(p1, w1, rc). (p1, w1)) (f ops p w)"
  shows "machine_typed m' \<and> list_all typed outs"
proof -
  obtain p w r where f: "f (net_of hw m) (get_party m) (m_world m) = Some (p, w, r)" "m' = set_party p w m"
    "outs = [if r = 0 then ok else failed]"
    using assms(1) by (auto simp: party_call_sub_def)
  then show ?thesis using party_call_typed [OF assms(2), of hw c p w] assms(3-5) by simp
qed

lemma prints_party [prints_intro]: "prints (cmd_party hw args)"
proof (rule printsI)
  fix m m' :: "'a machine" and outs
  assume m: "machine_typed m" "cmd_party hw args m = Some (m', outs)"
  define m1 where "m1 = set_party (party_init (get_party m)) (m_world m) m"
  have m1: "machine_typed m1"
    unfolding m1_def by (rule party_call_typed [OF m(1), where c = Init]) (simp add: party_call_def)
  let ?good = "machine_typed m' \<and> list_all typed outs"
  have create: "party_call_sub hw (\<lambda>ops. party_create ops n) ok failed m1 = Some (m', outs) \<Longrightarrow> typed ok \<Longrightarrow> typed failed \<Longrightarrow> ?good"
    for n ok failed by (erule party_sub_typed [OF _ m1, where c = "Create n"]) (simp_all add: party_call_def)
  have invite: "party_call_sub hw (\<lambda>ops. party_invite ops n) ok failed m1 = Some (m', outs) \<Longrightarrow> typed ok \<Longrightarrow> typed failed \<Longrightarrow> ?good"
    for n ok failed by (erule party_sub_typed [OF _ m1, where c = "Invite n"]) (simp_all add: party_call_def)
  have join: "party_call_sub hw party_join ok failed m1 = Some (m', outs) \<Longrightarrow> typed ok \<Longrightarrow> typed failed \<Longrightarrow> ?good"
    for ok failed by (erule party_sub_typed [OF _ m1, where c = Join]) (simp_all add: party_call_def)
  have chat: "party_call_sub hw (\<lambda>ops. party_chat ops n) ok failed m1 = Some (m', outs) \<Longrightarrow> typed ok \<Longrightarrow> typed failed \<Longrightarrow> ?good"
    for n ok failed by (erule party_sub_typed [OF _ m1, where c = "Chat n"]) (simp_all add: party_call_def)
  have leave: "party_leave (net_of hw m1) (get_party m1) (m_world m1) = Some (p, w) \<Longrightarrow> machine_typed (set_party p w m1)" for p w
    using party_call_typed [OF m1, of hw Leave p w] by (simp add: party_call_def)
  have list: "?good" if s: "party_list_sub hw m1 = Some (m', outs)"
  proof -
    obtain p w rc where p: "party_list (net_of hw m1) (get_party m1) (m_world m1) = (p, w, rc)"
      by (cases "party_list (net_of hw m1) (get_party m1) (m_world m1)")
    have t: "machine_typed (set_party p w m1)"
      by (rule party_call_typed [OF m1, of hw List]) (simp add: party_call_def p)
    then have "sint (of_nat (member_count (room p)) :: u32) \<noteq> - (2 ^ 31)"
      using member_number [OF typed_party_ok [OF t]] by (simp add: get_party_def set_party_def)
    then show ?thesis using s t p by (auto simp: party_list_sub_def party_get_room_def Let_def fits_simps)
  qed
  obtain sub rest where w: "next_word args 32 = (sub, rest)" by (cases "next_word args 32")
  show ?good
    using m(2) m(1) m1 unfolding cmd_party_def m1_def [symmetric] Let_def w prod.case
    by (simp only: split: if_split_asm)
      (auto simp: fits_simps dest: create invite join chat leave list)
qed

lemma prints_exit [prints_intro]: "prints (cmd_exit hw args)"
proof -
  have "prints (sys_exit hw)" by (rule printsI) (auto simp: sys_exit_def system_reboot_def fits_simps)
  then show ?thesis unfolding cmd_exit_def by (intro prints_intro) simp
qed

lemma prints_run_command: "prints (run_command hw cmd args)"
proof -
  have "\<forall>(name, f, d) \<in> set (commands hw). prints (f args)"
    by (simp add: commands_def prints_intro)
  moreover have "prints (say (unknown_command cmd))" by (rule prints_say) (simp add: unknown_command_def)
  ultimately show ?thesis
    by (auto simp: run_command_def find_Some_iff set_conv_nth split: option.splits)
qed

section \<open>The work between two commands always ends\<close>

lemma heartbeat_total:
  assumes "transport_wf t"
  shows "\<exists>t' w' rc. transport_send ops ty None 0 t w = Some (t', w', rc) \<and> transport_wf t'"
  using assms by (auto simp: transport_send_def copy_payload_def transport_wf_def put_header_def Let_def split: prod.splits)

lemma transport_tick_total:
  assumes "transport_wf t"
  shows "\<exists>t' w'. transport_tick ops t w = Some (t', w') \<and> transport_wf t'"
proof -
  have wf: "transport_wf (t\<lparr>transport_ticks := k, session := s\<rparr>)" for k s using assms by (simp add: transport_wf_def)
  show ?thesis
    using assms heartbeat_total [OF wf, of ops TRANSPORT_TYPE_HEARTBEAT]
    by (fastforce simp: transport_tick_def Let_def transport_wf_def)
qed

lemma typed_tick:
  assumes "machine_typed m"
  shows "\<exists>m'. subsys_tick_all hw m = Some m' \<and> machine_typed m'"
proof -
  have net: "\<exists>m'. net_tick hw m = Some m' \<and> machine_typed m'" if m: "machine_typed m" for m :: "'a machine"
  proof -
    obtain t w where "transport_tick (net_of hw m) (m_transport m) (m_world m) = Some (t, w)" "transport_wf t"
      using transport_tick_total [OF typed_wf [OF m], of "net_of hw m" "m_world m"] by blast
    then show ?thesis using typed_transport [OF m] by (simp add: net_tick_def)
  qed
  have party: "\<exists>m'. party_tick hw m = Some m' \<and> machine_typed m'" if m: "machine_typed m" for m :: "'a machine"
  proof -
    obtain p w where p: "party_poll (net_of hw m) (get_party m) (m_world m) = (p, w)"
      by (cases "party_poll (net_of hw m) (get_party m) (m_world m)")
    have "machine_typed (set_party p w m)" by (rule party_call_typed [OF m, of hw Poll]) (simp add: party_call_def p)
    then show ?thesis by (simp add: party_tick_def p)
  qed
  have quantum: "\<exists>m'. quantum_tick_sub hw m = Some m' \<and> machine_typed m'" if m: "machine_typed m" for m :: "'a machine"
  proof -
    obtain t w where t: "transport_tick (net_of hw m) (m_transport m) (m_world m) = Some (t, w)" "transport_wf t"
      using transport_tick_total [OF typed_wf [OF m], of "net_of hw m" "m_world m"] by blast
    then show ?thesis using m
      by (auto simp: quantum_tick_sub_def quantum_tick_def quantum_phase_sync_tick_def intro!: typed_transport)
  qed
  obtain m1 where 1: "net_tick hw m = Some m1" "machine_typed m1" using net [OF assms] by blast
  obtain m2 where 2: "party_tick hw m1 = Some m2" "machine_typed m2" using party [OF 1(2)] by blast
  obtain m3 where 3: "quantum_tick_sub hw m2 = Some m3" "machine_typed m3" using quantum [OF 2(2)] by blast
  show ?thesis using 1 2 3 by (simp add: subsys_tick_all_def subsystems_def)
qed

lemma typed_show:
  assumes "machine_typed m" "list_all typed outs"
  shows "\<exists>m'. show_outs outs m = Some m' \<and> machine_typed m'"
proof -
  have "safe (each emit outs)" using assms(2) by (intro safe_each typed_safe) (simp add: list_all_iff)
  moreover have "con_ok (m_console m)" using assms(1) by (simp add: machine_typed_def)
  ultimately obtain con where "each emit outs (m_console m) = Some con" "con_ok con" by (blast dest: safeD)
  then show ?thesis using typed_console [OF assms(1)] by (simp add: show_outs_def)
qed

lemma read_line_console:
  assumes "read_line_loop io mx buf sh con w = Some r" "con_ok con"
  shows "con_ok (fst (snd (snd r)))"
  using assms
proof (rule read_line_loop.raw_induct [where P = "\<lambda>io mx buf sh con w r. con_ok con \<longrightarrow> con_ok (fst (snd (snd r)))", rule_format, rotated])
  fix rl :: "'a port_io \<Rightarrow> nat \<Rightarrow> string \<Rightarrow> bool \<Rightarrow> console \<Rightarrow> 'a \<Rightarrow> (string \<times> bool \<times> console \<times> 'a) option"
    and io :: "'a port_io" and mx buf sh con w r
  assume IH: "\<And>io mx buf sh con w r. rl io mx buf sh con w = Some r \<Longrightarrow> con_ok con \<Longrightarrow> con_ok (fst (snd (snd r)))"
    and s: "(case keyboard_poll_scancode io w of
        (w1, sc) \<Rightarrow>
          if sc = 0 then rl io mx buf sh con w1
          else if sc = 0x2A \<or> sc = 0x36 then rl io mx buf True con w1
          else if sc = 0xAA \<or> sc = 0xB6 then rl io mx buf False con w1
          else if sc = 0x1C then Option.bind (vga_putchar CHR 0x0A con) (\<lambda>con1. Some (buf, sh, con1, w1))
          else if sc = 0x0E then
            (if buf = [] then rl io mx buf sh con w1
             else Option.bind (rub_out con) (\<lambda>con1. rl io mx (butlast buf) sh con1 w1))
          else if scancode_to_ascii sc sh = NUL \<or> length buf \<ge> mx then rl io mx buf sh con w1
          else Option.bind (vga_putchar (scancode_to_ascii sc sh) con)
                 (\<lambda>con1. rl io mx (buf @ [scancode_to_ascii sc sh]) sh con1 w1)) = Some r"
    and con: "con_ok con"
  have v: "vga_putchar c con = Some con1 \<Longrightarrow> con_ok con1" for c con1 using safeD [OF safe_vga_putchar con, of c] by auto
  have r: "rub_out con = Some con1 \<Longrightarrow> con_ok con1" for con1 using safeD [OF rub_out_safe con] by auto
  show "con_ok (fst (snd (snd r)))"
    using s con by (auto split: prod.splits if_splits simp: bind_eq_Some_conv dest: IH v r)
qed

lemma typed_read_line:
  assumes "sys_read_line hw n m = Some (m', line)" "machine_typed m"
  shows "machine_typed m'"
proof -
  obtain buf sh con w where r: "read_line_loop (hw_ports hw) (n - 1) [] (m_shift_down m) (m_console m) (m_world m) = Some (buf, sh, con, w)"
    and m': "m' = m\<lparr>m_shift_down := sh, m_console := con, m_world := w\<rparr>"
    using assms(1) by (auto simp: sys_read_line_def)
  have "con_ok con" using read_line_console [OF r] assms(2) by (simp add: machine_typed_def)
  then have "machine_typed (m\<lparr>m_console := con\<rparr>)" by (rule typed_console [OF assms(2)])
  moreover have "machine_typed m' = machine_typed (m\<lparr>m_console := con\<rparr>)"
    by (simp add: m' machine_typed_def get_party_def)
  ultimately show ?thesis by simp
qed

text \<open>What a round waits for: a line to be typed.\<close>

definition awaits :: "'w hardware \<Rightarrow> 'w machine \<Rightarrow> ('w machine \<times> string) option" where
  "awaits hw m = Option.bind (subsys_tick_all hw m) (\<lambda>m1. Option.bind (show_outs print_prompt m1) (sys_read_line hw 512))"

lemma shell_step_awaits:
  "shell_step hw m = Option.bind (awaits hw m) (\<lambda>(m3, input). case parse_cmd_args input 64 448 of
     (cmd, args) \<Rightarrow> if char_at cmd 0 = NUL then Some m3
       else Option.bind (run_command hw cmd args m3) (\<lambda>(m4, outs). show_outs outs m4))"
  by (simp add: shell_step_def awaits_def)

lemma typed_awaits:
  assumes "machine_typed m" "awaits hw m = Some (m3, input)"
  shows "machine_typed m3"
proof -
  obtain m1 m2 where s: "subsys_tick_all hw m = Some m1" "show_outs print_prompt m1 = Some m2" "sys_read_line hw 512 m2 = Some (m3, input)"
    using assms(2) by (auto simp: awaits_def bind_eq_Some_conv)
  have "machine_typed m1" using typed_tick [OF assms(1), of hw] s(1) by auto
  moreover have "list_all typed print_prompt" by (simp add: print_prompt_def)
  ultimately have "machine_typed m2" using typed_show [of m1 print_prompt] s(2) by auto
  then show ?thesis by (rule typed_read_line [OF s(3)])
qed

lemma typed_round: "machine_typed m \<Longrightarrow> shell_step hw m = Some m' \<Longrightarrow> machine_typed m'"
proof -
  assume m: "machine_typed m" "shell_step hw m = Some m'"
  then obtain m3 input where a: "awaits hw m = Some (m3, input)" by (auto simp: shell_step_awaits bind_eq_Some_conv)
  have m3: "machine_typed m3" by (rule typed_awaits [OF m(1) a])
  obtain cmd args where p: "parse_cmd_args input 64 448 = (cmd, args)" by (cases "parse_cmd_args input 64 448")
  show ?thesis
  proof (cases "char_at cmd 0 = NUL")
    case False
    then obtain m4 outs where r: "run_command hw cmd args m3 = Some (m4, outs)" "show_outs outs m4 = Some m'"
      using m(2) a p by (auto simp: shell_step_awaits bind_eq_Some_conv)
    then show ?thesis using printsD [OF prints_run_command m3 r(1)] typed_show [of m4 outs] by auto
  qed (use m(2) a p m3 in \<open>simp add: shell_step_awaits\<close>)
qed

text \<open>
  C3: The shell is well typed. Started on a machine whose tables are in range, it never
  passes an argument of the wrong type to a print format, however long it runs and whatever
  is typed: the ticks and the prompt of a round always return, every output of a command
  that returns suits its format, showing it succeeds, and the machine is again
  well typed. A round can only fail to return by waiting for a line, or inside the
  command itself.
\<close>

theorem shell_well_typed:
  assumes "start_shell hw m0 m" "machine_typed m0"
  shows "machine_typed m \<and>
    (\<exists>m1 m2. subsys_tick_all hw m = Some m1 \<and> show_outs print_prompt m1 = Some m2) \<and>
    (\<forall>m3 input cmd args. awaits hw m = Some (m3, input) \<longrightarrow> parse_cmd_args input 64 448 = (cmd, args) \<longrightarrow>
       (case run_command hw cmd args m3 of
          Some (m4, outs) \<Rightarrow> list_all typed outs \<and> (\<exists>m'. shell_step hw m = Some m' \<and> machine_typed m')
        | None \<Rightarrow> shell_step hw m \<noteq> None \<longleftrightarrow> char_at cmd 0 = NUL))"
proof -
  have m: "machine_typed m" using assms by induction (auto intro: typed_round)
  obtain m1 where 1: "subsys_tick_all hw m = Some m1" "machine_typed m1" using typed_tick [OF m] by blast
  have "list_all typed print_prompt" by (simp add: print_prompt_def)
  then have 2: "\<exists>m1 m2. subsys_tick_all hw m = Some m1 \<and> show_outs print_prompt m1 = Some m2"
    using typed_show [OF 1(2), of print_prompt] 1(1) by blast
  have 3: "case run_command hw cmd args m3 of
          Some (m4, outs) \<Rightarrow> list_all typed outs \<and> (\<exists>m'. shell_step hw m = Some m' \<and> machine_typed m')
        | None \<Rightarrow> shell_step hw m \<noteq> None \<longleftrightarrow> char_at cmd 0 = NUL"
    if a: "awaits hw m = Some (m3, input)" and p: "parse_cmd_args input 64 448 = (cmd, args)" for m3 input cmd args
  proof (cases "run_command hw cmd args m3")
    case None
    then show ?thesis using a p by (simp add: shell_step_awaits)
  next
    case (Some r)
    obtain m4 outs where r: "r = (m4, outs)" by (cases r)
    have m3: "machine_typed m3" by (rule typed_awaits [OF m a])
    have t: "machine_typed m4 \<and> list_all typed outs" using printsD [OF prints_run_command m3, of hw cmd args] Some r by simp
    obtain m' where "show_outs outs m4 = Some m'" "machine_typed m'" using typed_show [of m4 outs] t by blast
    then show ?thesis using Some r t a p m3 by (simp add: shell_step_awaits)
  qed
  show ?thesis using m 2 3 by blast
qed

section \<open>The kernel starts a well-typed shell\<close>

lemma init_sub_typed:
  "machine_typed m \<Longrightarrow> machine_typed (fst (storage_init_sub hw m))" "machine_typed m \<Longrightarrow> machine_typed (fst (net_init_sub hw m))"
  by (simp_all add: storage_init_sub_def net_init_sub_def split: prod.splits)

lemma subsys_init_typed: "machine_typed m \<Longrightarrow> machine_typed (subsys_init_all hw m)"
  by (simp add: subsys_init_all_def subsystems_def core_init_def input_init_def audio_init_def video_init_def
      iop_init_sub_def party_init_sub_def quantum_init_sub_def init_sub_typed)

lemma remap_init_typed: "machine_typed m \<Longrightarrow> machine_typed (m\<lparr>m_music := mu, m_remap := controller_remap_init r, m_saves := sv\<rparr>)"
  by (simp add: machine_typed_def get_party_def controller_remap_init_def default_profile_def level_ok_def)

lemma boot_typed:
  assumes "machine_typed m"
  shows "machine_typed (boot_state hw m)"
proof -
  have "list_all (\<lambda>g. \<forall>m. machine_typed m \<longrightarrow> machine_typed (g m)) (boot_states hw)"
    by (simp add: boot_states_def plat_init_def info_state_def init_heap_def games_state_def init_sub_typed subsys_init_typed
        remap_init_typed Let_def split: prod.splits)
  moreover have "machine_typed (fold (\<lambda>g. g) gs m)" if "list_all (\<lambda>g. \<forall>m. machine_typed m \<longrightarrow> machine_typed (g m)) gs" for gs
    using that assms by (induction gs arbitrary: m) auto
  ultimately show ?thesis by (simp add: boot_state_def)
qed

lemma kernel_typed:
  assumes "machine_typed m" "task_count (m_sched m) = 0"
  shows "\<exists>m0. kernel_start hw m = Some m0 \<and> machine_typed m0"
proof -
  define n where "n = m\<lparr>m_world := debugcon_puts (hw_ports hw) (Some ''DEBUG:KERNEL_START\<newline>'') (m_world m)\<rparr>"
  have n: "machine_typed n" "con_ok (m_console n)" "task_count (m_sched n) = 0"
    using assms by (simp_all add: n_def machine_typed_def get_party_def)
  have "con_ok (display (type_out (Kprint ''ASMOS Kernel v2.0 - Ready!\<newline>'') [[]]))"
    unfolding ready_line by (rule display_ok) (simp add: lines_ok_def)
  then have "machine_typed ((boot_state hw n)\<lparr>m_console := display (type_out (Kprint ''ASMOS Kernel v2.0 - Ready!\<newline>'') [[]])\<rparr>)"
    by (rule typed_console [OF boot_typed [OF n(1)]])
  then show ?thesis
    using kernel_runs [OF n(2,3), of hw] unfolding kernel_start_def n_def [symmetric] by blast
qed

lemma zero_typed: "machine_typed (machine_zero w)"
proof -
  have "party_ok party_zero" "transport_wf transport_zero"
    using clear_room_ok
    by (simp_all add: party_zero_def party_ok_def transport_zero_def transport_wf_def party_consts
        TRANSPORT_PACKET_MAX_def TRANSPORT_HEADER_SIZE_def)
  then have "party_ok (get_party (machine_zero w))" by (simp add: machine_zero_def get_party_def party_ok_def)
  moreover have "con_ok (m_console (machine_zero w))" "bt_typed (m_bt (machine_zero w))"
    "mounted_slot (m_card (machine_zero w)) \<in> {0, 1}" "m_remap (machine_zero w) = remap_zero"
    by (simp_all add: machine_zero_def con_ok_def bt_typed_def mem_card_zero_def)
  moreover have "level_ok (sensitivity (rm_current remap_zero))" "level_ok (deadzone (rm_current remap_zero))"
    by (simp_all add: remap_zero_def controller_remap_init_def default_profile_def level_ok_def)
  ultimately show ?thesis by (simp only: machine_typed_def)
qed

text \<open>A format of the program that is not well typed, in a command that cannot be reached.\<close>

lemma playlist_untyped: "playlist_count m = 1 \<Longrightarrow> \<not> list_all typed (music_playlist_list m)"
  by (simp add: music_playlist_list_def fits_simps)

theorem shell_well_typed_witness:
  "\<exists>m. kernel_start kbd_hardware (machine_zero [0x26, 0x1F, 0x1C]) = Some m \<and> machine_typed m \<and>
     (\<exists>m1 m2. subsys_tick_all kbd_hardware m = Some m1 \<and> show_outs print_prompt m1 = Some m2)"
proof -
  have "task_count (m_sched (machine_zero [0x26, 0x1F, 0x1C :: u8])) = 0" by (simp add: machine_zero_def sched_zero_def)
  from kernel_typed [OF zero_typed this, of kbd_hardware]
  obtain m where m: "kernel_start kbd_hardware (machine_zero [0x26, 0x1F, 0x1C]) = Some m" "machine_typed m"
    by blast
  show ?thesis using m shell_well_typed [OF start_shell.start m(2), THEN conjunct2, THEN conjunct1] by blast
qed

end
