(* ===== verification/Boot.thy ===== *)
theory Boot
  imports Fat_Storage Transport
begin

text \<open>
  The alternate boot path: the BIOS block device (\<^verbatim>\<open>src/block_dev.c\<close>), the FAT12 reader
  over it (\<^verbatim>\<open>src/fat12.c\<close>), the descriptor of the kernel image that the host tool writes
  (\<^verbatim>\<open>tools/gen_boot_meta.c\<close>, \<^verbatim>\<open>include/boot_meta.h\<close>) and the loader that checks it
  (\<^verbatim>\<open>boot/stage2.c\<close>). None of it is linked into the x86 kernel.

  Memory is a function from addresses to bytes, because the disk writes where the
  registers say and not where the C pointer points. The BIOS is a parameter: what
  \<^verbatim>\<open>int 13h\<close> does to memory and to the device, and its carry flag.
\<close>

section \<open>Memory\<close>

type_synonym mem = "u32 \<Rightarrow> u8"

definition bytes_at :: "mem \<Rightarrow> u32 \<Rightarrow> nat \<Rightarrow> u8 list" where
  "bytes_at m a n = map (\<lambda>i. m (a + of_nat i)) [0..<n]"

definition mem16 :: "mem \<Rightarrow> u32 \<Rightarrow> u16" where
  "mem16 m a = get16 (bytes_at m a 2) 0"

definition mem32 :: "mem \<Rightarrow> u32 \<Rightarrow> u32" where
  "mem32 m a = get32 (bytes_at m a 4) 0"

section \<open>The block device\<close>

record regs =
  r_ah :: u8
  r_al :: u8
  r_ch :: u8
  r_cl :: u8
  r_dh :: u8
  r_dl :: u8
  r_es :: u16
  r_bx :: u16

record 'w bios =
  int13 :: "regs \<Rightarrow> mem \<times> 'w \<Rightarrow> (mem \<times> 'w) \<times> bool"
  int13_reset :: "u8 \<Rightarrow> mem \<times> 'w \<Rightarrow> mem \<times> 'w"

record block_dev =
  bd_drive :: u8
  sectors_per_track :: u16
  heads :: u16
  bd_ready :: bool

definition block_dev_init :: "u8 \<Rightarrow> block_dev" where
  "block_dev_init drive = \<lparr>bd_drive = drive, sectors_per_track = 18, heads = 2, bd_ready = True\<rparr>"

text \<open>Head, sector and cylinder of a sector number.\<close>

definition lba_to_chs :: "block_dev \<Rightarrow> u32 \<Rightarrow> (u8 \<times> u8 \<times> u8) option" where
  "lba_to_chs dev lba =
     (let spt = ucast (sectors_per_track dev) :: u32; hpc = ucast (heads dev) :: u32
      in if spt = 0 \<or> hpc = 0 then None
         else
           let s = lba mod spt + 1; c = lba div (spt * hpc); h = (lba div spt) mod hpc
           in if c > 255 then None else Some (ucast h, ucast s, ucast c))"

fun transfer_tries :: "nat \<Rightarrow> 'w bios \<Rightarrow> u8 \<Rightarrow> block_dev \<Rightarrow> u32 \<Rightarrow> u32 \<Rightarrow> mem \<times> 'w \<Rightarrow> (mem \<times> 'w) \<times> int" where
  "transfer_tries 0 bios ah dev lba p st = (st, - 1)"
| "transfer_tries (Suc n) bios ah dev lba p st =
     (case lba_to_chs dev lba of
        None \<Rightarrow> (st, - 1)
      | Some (head, sec, cyl) \<Rightarrow>
          (let seg = ucast (drop_bit 4 p AND 0xF000); off = ucast (p AND 0x0F)
           in case int13 bios \<lparr>r_ah = ah, r_al = 0x01, r_ch = cyl, r_cl = sec, r_dh = head, r_dl = bd_drive dev, r_es = seg, r_bx = off\<rparr> st of
                (st1, False) \<Rightarrow> (st1, 0)
              | (st1, True) \<Rightarrow> transfer_tries n bios ah dev lba p (int13_reset bios (bd_drive dev) st1)))"

definition block_dev_read :: "'w bios \<Rightarrow> block_dev \<Rightarrow> u32 \<Rightarrow> u32 \<Rightarrow> mem \<times> 'w \<Rightarrow> (mem \<times> 'w) \<times> int" where
  "block_dev_read bios dev lba buf st =
     (if \<not> bd_ready dev \<or> buf = 0 then (st, - 1) else transfer_tries 5 bios 0x02 dev lba buf st)"

definition block_dev_write :: "'w bios \<Rightarrow> block_dev \<Rightarrow> u32 \<Rightarrow> u32 \<Rightarrow> mem \<times> 'w \<Rightarrow> (mem \<times> 'w) \<times> int" where
  "block_dev_write bios dev lba buf st =
     (if \<not> bd_ready dev \<or> buf = 0 then (st, - 1) else transfer_tries 5 bios 0x03 dev lba buf st)"

section \<open>The FAT12 reader\<close>

definition fat12_normalize_name :: "string \<Rightarrow> u8 list" where
  "fat12_normalize_name src =
     (let dest0 = replicate 11 (of_char CHR '' '');
          (i, j, dest1) = copy_base src 0 8 dest0;
          i' = (if char_at src i = CHR ''.'' then i + 1 else i)
      in copy_ext src i' 8 dest1)"

text \<open>The file system structure: the addresses of its two tables.\<close>

record fat12_fs =
  f12_dev :: "block_dev option"
  f12_fat :: u32
  f12_root :: u32
  f12_ready :: bool

definition fat12_init :: "block_dev option \<Rightarrow> fat12_fs \<Rightarrow> fat12_fs" where
  "fat12_init dev fs = fs\<lparr>f12_dev := dev, f12_ready := False\<rparr>"

definition fat12_read_sector :: "'w bios \<Rightarrow> fat12_fs \<Rightarrow> u32 \<Rightarrow> u32 \<Rightarrow> mem \<times> 'w \<Rightarrow> (mem \<times> 'w) \<times> int" where
  "fat12_read_sector bios fs lba buf st =
     (case f12_dev fs of None \<Rightarrow> (st, - 1) | Some dev \<Rightarrow> block_dev_read bios dev lba buf st)"

definition fat12_write_sector :: "'w bios \<Rightarrow> fat12_fs \<Rightarrow> u32 \<Rightarrow> u32 \<Rightarrow> mem \<times> 'w \<Rightarrow> (mem \<times> 'w) \<times> int" where
  "fat12_write_sector bios fs lba buf st =
     (case f12_dev fs of None \<Rightarrow> (st, - 1)
      | Some dev \<Rightarrow>
          (case block_dev_write bios dev lba buf st of
             (st1, r) \<Rightarrow>
               if r \<noteq> 0 then (st1, r)
               else if lba \<ge> 33 \<and> lba < 33 + 9 then (fst (block_dev_write bios dev (lba + 9) buf st1), 0)
               else (st1, 0)))"

fun mount_sectors :: "'w bios \<Rightarrow> fat12_fs \<Rightarrow> u32 \<Rightarrow> u32 \<Rightarrow> nat list \<Rightarrow> mem \<times> 'w \<Rightarrow> (mem \<times> 'w) \<times> bool" where
  "mount_sectors bios fs base dest [] st = (st, True)"
| "mount_sectors bios fs base dest (s # ss) st =
     (case fat12_read_sector bios fs (base + of_nat s) (dest + of_nat (s * 512)) st of
        (st1, r) \<Rightarrow> if r \<noteq> 0 then (st1, False) else mount_sectors bios fs base dest ss st1)"

definition fat12_mount :: "'w bios \<Rightarrow> fat12_fs \<Rightarrow> mem \<times> 'w \<Rightarrow> fat12_fs \<times> (mem \<times> 'w) \<times> int" where
  "fat12_mount bios fs st =
     (case f12_dev fs of None \<Rightarrow> (fs, st, - 1)
      | Some dev \<Rightarrow>
          (case mount_sectors bios fs 33 (f12_fat fs) [0..<9] st of
             (st1, False) \<Rightarrow> (fs, st1, - 1)
           | (st1, True) \<Rightarrow>
               (case mount_sectors bios fs (33 + 9 * 2) (f12_root fs) [0..<14] st1 of
                  (st2, False) \<Rightarrow> (fs, st2, - 1)
                | (st2, True) \<Rightarrow> (fs\<lparr>f12_ready := True\<rparr>, st2, 0))))"

definition fat12_next_cluster :: "mem \<Rightarrow> fat12_fs \<Rightarrow> u16 \<Rightarrow> u16" where
  "fat12_next_cluster m fs cluster =
     (let off = ucast cluster + ucast (drop_bit 1 cluster) :: u32; val = mem16 m (f12_fat fs + off)
      in if cluster AND 1 \<noteq> 0 then drop_bit 4 val else val AND 0x0FFF)"

definition fat12_read_cluster :: "'w bios \<Rightarrow> fat12_fs \<Rightarrow> u16 \<Rightarrow> u32 \<Rightarrow> mem \<times> 'w \<Rightarrow> (mem \<times> 'w) \<times> int" where
  "fat12_read_cluster bios fs cluster buf st =
     (if cluster < 2 then (st, - 1) else fat12_read_sector bios fs (65 + (ucast cluster - 2)) buf st)"

definition name_matches :: "mem \<Rightarrow> u32 \<Rightarrow> u8 list \<Rightarrow> bool" where
  "name_matches m e name83 \<longleftrightarrow> (\<forall>j < 11. m (e + of_nat j) = name83 ! j)"

definition fat12_find_entry :: "mem \<Rightarrow> fat12_fs \<Rightarrow> u8 list \<Rightarrow> nat option" where
  "fat12_find_entry m fs name83 =
     List.find (\<lambda>i. let e = f12_root fs + of_nat (i * 32)
                    in \<not> (m e = 0x00 \<or> m e = 0xE5) \<and> m (e + 11) AND 0x10 = 0 \<and> name_matches m e name83) [0..<224]"

text \<open>A chain of clusters read to consecutive addresses; a failed read ends it with \<open>False\<close>.\<close>

partial_function (option) chain_loop ::
  "'w bios \<Rightarrow> fat12_fs \<Rightarrow> u32 \<Rightarrow> u32 \<Rightarrow> u16 \<Rightarrow> u32 \<Rightarrow> mem \<times> 'w \<Rightarrow> ((mem \<times> 'w) \<times> u32 \<times> bool) option" where
  "chain_loop bios fs dst mx cluster written st =
     (if cluster < FAT_END \<and> written < mx then
        (case fat12_read_cluster bios fs cluster (dst + written) st of
           (st1, r) \<Rightarrow>
             if r \<noteq> 0 then Some (st1, written, False)
             else chain_loop bios fs dst mx (fat12_next_cluster (fst st1) fs cluster) (written + 512) st1)
      else Some (st, written, True))"

definition fat12_read_file ::
  "'w bios \<Rightarrow> fat12_fs \<Rightarrow> u8 list \<Rightarrow> u32 \<Rightarrow> u32 \<Rightarrow> mem \<times> 'w \<Rightarrow> ((mem \<times> 'w) \<times> int \<times> u32) option" where
  "fat12_read_file bios fs name83 buf mx st =
     (case (if f12_ready fs then fat12_find_entry (fst st) fs name83 else None) of
        None \<Rightarrow> Some (st, - 1, 0)
      | Some slot \<Rightarrow>
          (let e = f12_root fs + of_nat (slot * 32); fsize = mem32 (fst st) (e + 28)
           in map_option (\<lambda>(st1, written, ok). if ok then (st1, 0, if written > fsize then fsize else written) else (st1, - 1, 0))
                (chain_loop bios fs buf mx (mem16 (fst st) (e + 26)) 0 st)))"

section \<open>The boot descriptor\<close>

definition ASMOS_KERNEL_MAGIC :: u32 where "ASMOS_KERNEL_MAGIC = 0x41534D4B"
definition ASMOS_KERNEL_LOAD :: u32 where "ASMOS_KERNEL_LOAD = 0x00100000"
definition SIZEOF_BOOT_META :: nat where "SIZEOF_BOOT_META = 508"

definition text_bytes :: "string \<Rightarrow> u8 list" where
  "text_bytes s = map of_char s"

definition ASMOS_META_FILENAME :: "u8 list" where "ASMOS_META_FILENAME = text_bytes ''ASMOS   MET''"
definition ASMOS_KERNEL_FILENAME :: "u8 list" where "ASMOS_KERNEL_FILENAME = text_bytes ''KERNEL  BIN''"

definition tool_crc_bit :: "u32 \<Rightarrow> u32" where
  "tool_crc_bit crc = drop_bit 1 crc XOR (0xEDB88320 AND - (crc AND 1))"

definition crc32 :: "u8 list \<Rightarrow> u32" where
  "crc32 data = NOT (foldl (\<lambda>crc b. (tool_crc_bit ^^ 8) (crc XOR ucast b)) 0xFFFFFFFF data)"

text \<open>The descriptor the tool writes for a kernel image.\<close>

definition gen_meta :: "u8 list \<Rightarrow> string \<Rightarrow> u8 list" where
  "gen_meta img platform =
     text_bytes ''ASMOSBT1'' @
     take 24 (drop 8 (put32 28 (crc32 img) (put16 26 1 (put16 24 2 (put32 20 (of_nat (length img))
       (put32 16 ASMOS_KERNEL_LOAD (put32 12 ASMOS_KERNEL_LOAD (put32 8 ASMOS_KERNEL_MAGIC (replicate 32 0))))))))) @
     (let t = text_bytes (take 15 (cstr platform)) in t @ replicate (16 - length t) 0) @ replicate 460 0"

section \<open>The loader\<close>

definition crc32_byte :: "u32 \<Rightarrow> u8 \<Rightarrow> u32" where
  "crc32_byte crc b =
     ((\<lambda>crc. drop_bit 1 crc XOR (0xEDB88320 AND (if crc AND 1 \<noteq> 0 then 0xFFFFFFFF else 0))) ^^ 8) (crc XOR ucast b)"

definition crc32_buf :: "mem \<Rightarrow> u32 \<Rightarrow> u32 \<Rightarrow> u32" where
  "crc32_buf m data len = NOT (fold (\<lambda>i crc. crc32_byte crc (m (data + of_nat i))) [0..<unat len] 0xFFFFFFFF)"

text \<open>The loader ends in an endless loop, or calls the kernel.\<close>

datatype boot_end = Stuck | Enter u32

text \<open>The load loop ignores the result of \<^verbatim>\<open>fat12_read_cluster\<close>.\<close>

partial_function (option) load_loop ::
  "'w bios \<Rightarrow> fat12_fs \<Rightarrow> u32 \<Rightarrow> u32 \<Rightarrow> u16 \<Rightarrow> u32 \<Rightarrow> mem \<times> 'w \<Rightarrow> ((mem \<times> 'w) \<times> u32) option" where
  "load_loop bios fs load sz cluster loaded st =
     (if cluster < FAT_END \<and> loaded < sz then
        let st1 = fst (fat12_read_cluster bios fs cluster (load + loaded) st)
        in load_loop bios fs load sz (fat12_next_cluster (fst st1) fs cluster) (loaded + 512) st1
      else Some (st, loaded))"

text \<open>The checks on the loaded bytes, and the jump.\<close>

definition stage2_verify :: "mem \<Rightarrow> u32 \<Rightarrow> u32 \<Rightarrow> u32 \<Rightarrow> boot_end" where
  "stage2_verify m meta load loaded =
     (let crc = crc32_buf m load loaded
      in if mem32 m (meta + 28) \<noteq> 0 \<and> crc \<noteq> mem32 m (meta + 28) then Stuck
         else if mem32 m load \<noteq> ASMOS_KERNEL_MAGIC then Stuck
         else Enter (mem32 m (meta + 16)))"

definition stage2_start :: "'w bios \<Rightarrow> u8 \<Rightarrow> fat12_fs \<Rightarrow> u32 \<Rightarrow> mem \<times> 'w \<Rightarrow> ((mem \<times> 'w) \<times> boot_end) option" where
  "stage2_start bios drive fs0 meta st =
     (case fat12_mount bios (fat12_init (Some (block_dev_init drive)) fs0) st of
        (fs, st1, r) \<Rightarrow>
          if r \<noteq> 0 then Some (st1, Stuck)
          else Option.bind (fat12_read_file bios fs ASMOS_META_FILENAME meta (of_nat SIZEOF_BOOT_META) st1) (\<lambda>(st2, r2, n).
            if r2 \<noteq> 0 then Some (st2, Stuck)
            else if fst st2 meta \<noteq> of_char CHR ''A'' then Some (st2, Stuck)
            else
              let load = mem32 (fst st2) (meta + 12)
              in case fat12_find_entry (fst st2) fs ASMOS_KERNEL_FILENAME of
                   None \<Rightarrow> Some (st2, Stuck)
                 | Some slot \<Rightarrow>
                     (let e = f12_root fs + of_nat (slot * 32); sz = mem32 (fst st2) (e + 28)
                      in map_option (\<lambda>(st3, loaded). (st3, stage2_verify (fst st3) meta load (if loaded > sz then sz else loaded)))
                           (load_loop bios fs load sz (mem16 (fst st2) (e + 26)) 0 st2))))"

section \<open>Addressing the disk\<close>

lemma chs_back: "x = (x div 36 * 2 + x div 18 mod 2) * 18 + (x mod 18 + 1 - 1)" for x :: nat
proof -
  have "x div 36 * 2 + x div 18 mod 2 = x div 18" using div_mult2_eq [of x 18 2] by simp
  then show ?thesis by simp
qed

lemma chs_init:
  "lba_to_chs (block_dev_init drive) lba =
     (if unat lba < 9216 then Some (of_nat (unat lba div 18 mod 2), of_nat (unat lba mod 18 + 1), of_nat (unat lba div 36)) else None)"
proof -
  have "255 < x div 36 \<longleftrightarrow> \<not> x < 9216" for x :: nat
    using less_eq_div_iff_mult_less_eq [of 36 256 x] by linarith
  then have c: "lba div (18 * 2) > 255 \<longleftrightarrow> \<not> unat lba < 9216"
    by (simp add: word_less_nat_alt unat_div)
  have u: "ucast w = (of_nat (unat w) :: u8)" for w :: u32 by (simp add: of_nat_unat)
  have "unat (lba mod 18) = unat lba mod 18" by (simp add: unat_mod)
  then have m: "unat (lba mod 18 + 1) = unat lba mod 18 + 1" by (subst unat_word_ariths) simp
  have "ucast (lba div 18 mod 2) = (of_nat (unat lba div 18 mod 2) :: u8)"
    "ucast (lba mod 18 + 1) = (of_nat (unat lba mod 18 + 1) :: u8)"
    "ucast (lba div (18 * 2)) = (of_nat (unat lba div 36) :: u8)"
    by (simp_all only: u m) (simp_all add: unat_div unat_mod)
  then show ?thesis using c by (simp add: lba_to_chs_def block_dev_init_def Let_def)
qed

text \<open>
  On the device the initialisation sets up, a sector number below 9216 has a
  head below 2 and a sector from 1 to 18, from which with the cylinder it can be
  computed back, and every larger one is refused.
\<close>

theorem chs_roundtrip:
  "case lba_to_chs (block_dev_init drive) lba of
     None \<Rightarrow> 9216 \<le> unat lba
   | Some (h, s, c) \<Rightarrow>
       unat lba < 9216 \<and> unat h < 2 \<and> 1 \<le> unat s \<and> unat s \<le> 18 \<and> unat lba = (unat c * 2 + unat h) * 18 + (unat s - 1)"
proof (cases "unat lba < 9216")
  case True
  have u: "x < 256 \<Longrightarrow> unat (of_nat x :: u8) = x" for x by (simp add: unat_of_nat)
  have b: "unat lba div 36 < 256" "unat lba div 18 mod 2 < 2" "unat lba mod 18 < 18"
    using True by (simp_all add: less_mult_imp_div_less)
  have "unat lba div 36 < 256" "unat lba div 18 mod 2 < 256" "unat lba mod 18 + 1 < 256"
    using b by linarith+
  note v = this [THEN u]
  show ?thesis using True chs_back [of "unat lba"] b(2,3)
    unfolding chs_init if_P [OF True] option.case prod.case v by (intro conjI) linarith+
qed (simp add: chs_init)

section \<open>Agreement with the driver of the kernel\<close>

lemma bytes_at_nth: "i < n \<Longrightarrow> bytes_at m a n ! i = m (a + of_nat i)"
  by (simp add: bytes_at_def)

lemma bytes_at_length [simp]: "length (bytes_at m a n) = n"
  by (simp add: bytes_at_def)

lemma mem16_get16: "off + 1 < n \<Longrightarrow> mem16 m (a + of_nat off) = get16 (bytes_at m a n) off"
  by (simp add: mem16_def get16_def bytes_at_nth algebra_simps)

lemma mem32_get32: "off + 3 < n \<Longrightarrow> mem32 m (a + of_nat off) = get32 (bytes_at m a n) off"
  by (simp add: mem32_def get32_def bytes_at_nth algebra_simps)

lemma find_agrees:
  assumes "bytes_at m (f12_root fs) 7168 = root_cache g"
  shows "fat12_find_entry m fs name83 = fat_find_entry g name83"
proof -
  have "m (f12_root fs + of_nat j) = root_cache g ! j" if "j < 7168" for j
    using that bytes_at_nth [of j 7168 m "f12_root fs"] assms by simp
  note r = this
  have "(let e = f12_root fs + of_nat (i * 32)
         in \<not> (m e = 0x00 \<or> m e = 0xE5) \<and> m (e + 11) AND 0x10 = 0 \<and> name_matches m e name83) =
        hit (root_cache g) name83 i" if "i < 224" for i
  proof -
    let ?e = "f12_root fs + of_nat (i * 32)"
    have "m (?e + of_nat j) = root_cache g ! (i * 32 + j)" if "j < 32" for j
      using r [of "i * 32 + j"] that \<open>i < 224\<close> by (simp add: add.assoc)
    from this [of 0] this [of 11] this show ?thesis
      by (auto simp: Let_def hit_def entry_used_def entry_is_dir_def entry_matches_def name_matches_def)
  qed
  then show ?thesis
    unfolding fat12_find_entry_def fat_find_entry_find by (intro find_cong) auto
qed

lemma next_agrees:
  assumes "bytes_at m (f12_fat fs) 4608 = fat_cache g" "unat c \<le> 3070"
  shows "fat_next_cluster (fat_cache g) c = Some (fat12_next_cluster m fs c)"
proof -
  let ?off = "unat c + unat c div 2"
  have "length (fat_cache g) = 4608" using arg_cong [OF assms(1), of length] by simp
  moreover have "?off + 1 < 4608" using assms(2) by linarith
  moreover have half: "unat c div 2 = unat (drop_bit 1 c)" by (simp add: drop_bit_Suc unat_div)
  have "(ucast c :: u32) + ucast (drop_bit 1 c) = of_nat ?off"
    unfolding half of_nat_add of_nat_unat ..
  ultimately show ?thesis
    using mem16_get16 [of ?off 4608 m "f12_fat fs"] assms(1)
    by (simp add: fat_next_cluster_def fat12_next_cluster_def Let_def)
qed

lemma normalize_agrees: "fat12_normalize_name src = fat_normalize src"
  by (simp add: fat12_normalize_name_def fat_normalize_def Let_def)

text \<open>
  On the same tables, the reader of the boot path and the driver of the kernel agree:
  they normalise every name in the same way, find the same directory entry for it (the
  first one that is a file of that name), and follow a cluster in range to the same next
  cluster.
\<close>

theorem fat12_agrees:
  assumes "bytes_at m (f12_root fs) 7168 = root_cache g" "bytes_at m (f12_fat fs) 4608 = fat_cache g" "unat c \<le> 3070"
  shows "fat12_find_entry m fs (fat12_normalize_name name) = fat_find_entry g (fat_normalize name) \<and>
         Some (fat12_next_cluster m fs c) = fat_next_cluster (fat_cache g) c"
  using find_agrees [OF assms(1)] next_agrees [OF assms(2,3)] by (simp add: normalize_agrees)

theorem fat12_agrees_witness:
  "fat12_find_entry (\<lambda>a. if a = 7 then 0x12 else 0) \<lparr>f12_dev = None, f12_fat = 4, f12_root = 10000, f12_ready = True\<rparr>
       (fat12_normalize_name ''a.b'') =
     fat_find_entry \<lparr>fat_cache = [0, 0, 0, 0x12] @ replicate 4604 0, root_cache = replicate 7168 0, fs_ready = True\<rparr> (fat_normalize ''a.b'') \<and>
   Some (0x12 :: u16) = fat_next_cluster ([0, 0, 0, 0x12] @ replicate 4604 0) 2"
proof -
  let ?m = "\<lambda>a. if a = 7 then 0x12 else 0" and ?g = "\<lparr>fat_cache = [0, 0, 0, 0x12] @ replicate 4604 0, root_cache = replicate 7168 0, fs_ready = True\<rparr>"
  let ?fs = "\<lparr>f12_dev = None, f12_fat = 4, f12_root = 10000, f12_ready = True\<rparr>"
  have a: "unat (w + of_nat i :: u32) = unat w + i" if "unat w + i < 20000" for w i
    using that by (subst unat_word_ariths) (simp add: unat_of_nat)
  have seven: "unat (7 :: u32) = 7" by simp
  have "w + of_nat i = 7 \<longleftrightarrow> unat w + i = 7" if "unat w + i < 20000" for w :: u32 and i
    using a [OF that] by (metis seven word_unat_eq_iff)
  note z = this [of 10000] this [of 4]
  have "bytes_at ?m (f12_root ?fs) 7168 = root_cache ?g"
    by (rule nth_equalityI) (use z(1) in \<open>auto simp: bytes_at_nth\<close>)
  moreover have "bytes_at ?m (f12_fat ?fs) 4608 = fat_cache ?g"
    by (rule nth_equalityI) (use z(2) in \<open>auto simp: bytes_at_nth nth_append nth_Cons numeral_3_eq_3 split: nat.splits\<close>)
  ultimately show ?thesis
    using fat12_agrees [of ?m ?fs ?g 2 "''a.b''"] by (simp add: fat12_next_cluster_def mem16_def get16_def bytes_at_def)
qed

section \<open>The descriptor and its check\<close>

lemma crc32_step: "(if crc AND 1 \<noteq> 0 then 0xFFFFFFFF else 0) = - (crc AND 1 :: u32)"
  by (cases "even crc") (simp_all add: and_one_eq mod_2_eq_odd)

lemma crc32_bufs: "crc32_buf m a len = crc32 (bytes_at m a (unat len))"
  by (simp add: crc32_buf_def crc32_def bytes_at_def crc32_byte_def [abs_def] tool_crc_bit_def [abs_def] crc32_step
      foldl_conv_fold fold_map comp_def)

lemma bit0_parity: "bit x 0 = bit y 0 \<longleftrightarrow> (x :: u32) AND 1 = y AND 1"
  by (cases "even x"; cases "even y") (simp_all add: and_one_eq mod_2_eq_odd bit_0)

lemma tool_crc_bit_top: "bit (tool_crc_bit x) 31 = bit x 0"
proof -
  have "\<not> bit x 32" by (auto dest: bit_imp_le_length)
  then show ?thesis by (cases "even x") (simp_all add: tool_crc_bit_def and_one_eq mod_2_eq_odd bit_simps bit_0)
qed

lemma xor_right_cancel: "a XOR c = b XOR c \<Longrightarrow> a = b" for a b c :: u32
proof -
  assume "a XOR c = b XOR c"
  then have "(a XOR c) XOR c = (b XOR c) XOR c" by simp
  then show ?thesis by (simp add: xor.assoc)
qed

lemma inj_tool_crc_bit: "inj tool_crc_bit"
proof (rule injI)
  fix x y assume e: "tool_crc_bit x = tool_crc_bit y"
  then have b: "bit x 0 = bit y 0" using tool_crc_bit_top by metis
  then have "x AND 1 = y AND 1" by (simp add: bit0_parity)
  with e have "drop_bit 1 x = drop_bit 1 y" by (auto simp: tool_crc_bit_def dest: xor_right_cancel)
  then have "bit x (Suc n) = bit y (Suc n)" for n by (metis bit_drop_bit_eq comp_apply plus_1_eq_Suc)
  with b show "x = y" by (intro bit_eqI) (metis not0_implies_Suc)
qed

lemma crc32_byte_injective:
  "(tool_crc_bit ^^ 8) (c XOR ucast (a :: u8)) = (tool_crc_bit ^^ 8) (d XOR ucast a) \<Longrightarrow> c = d"
  "(tool_crc_bit ^^ 8) (c XOR ucast a) = (tool_crc_bit ^^ 8) (c XOR ucast b) \<Longrightarrow> a = b"
proof -
  assume "(tool_crc_bit ^^ 8) (c XOR ucast a) = (tool_crc_bit ^^ 8) (d XOR ucast a)"
  then have "c XOR ucast a = d XOR ucast a" using inj_fn [OF inj_tool_crc_bit, of 8] by (auto dest: injD)
  then show "c = d" by (rule xor_right_cancel)
next
  assume "(tool_crc_bit ^^ 8) (c XOR ucast a) = (tool_crc_bit ^^ 8) (c XOR ucast b)"
  then have "c XOR ucast a = c XOR ucast b" using inj_fn [OF inj_tool_crc_bit, of 8] by (auto dest: injD)
  then have "ucast a XOR c = ucast b XOR c" by (subst (1 2) xor.commute)
  then have u: "(ucast a :: u32) = ucast b" by (rule xor_right_cancel)
  show "a = b"
  proof (rule bit_word_eqI)
    fix n assume n: "n < LENGTH(8)"
    have "bit (ucast a :: u32) n = bit (ucast b :: u32) n" by (simp only: u)
    then show "bit a n = bit b n" using n by (simp add: bit_simps)
  qed
qed

lemma crc32_rest:
  "foldl (\<lambda>crc b. (tool_crc_bit ^^ 8) (crc XOR ucast b)) c (ys :: u8 list) = foldl (\<lambda>crc b. (tool_crc_bit ^^ 8) (crc XOR ucast b)) d ys \<Longrightarrow> c = d"
  by (induction ys arbitrary: c d) (auto dest: crc32_byte_injective(1))

lemma crc32_detects: "a \<noteq> b \<Longrightarrow> crc32 (xs @ a # ys) \<noteq> crc32 (xs @ b # ys)"
  by (auto simp: crc32_def dest!: crc32_rest crc32_byte_injective(2))

lemma get32_cong: "(\<And>k. k < 4 \<Longrightarrow> l ! (i + k) = l' ! (i + k)) \<Longrightarrow> get32 l i = get32 l' i"
proof -
  assume e: "\<And>k. k < 4 \<Longrightarrow> l ! (i + k) = l' ! (i + k)"
  from e [of 0] e [of 1] e [of 2] e [of 3] show ?thesis by (simp add: get32_def)
qed

lemma gen_meta_fields:
  "get32 (gen_meta img platform) 12 = ASMOS_KERNEL_LOAD"
  "get32 (gen_meta img platform) 16 = ASMOS_KERNEL_LOAD"
  "get32 (gen_meta img platform) 28 = crc32 img"
  "length (gen_meta img platform) = SIZEOF_BOOT_META"
proof -
  define h1 where "h1 = put32 12 ASMOS_KERNEL_LOAD (put32 8 ASMOS_KERNEL_MAGIC (replicate 32 0))"
  define h2 where "h2 = put32 16 ASMOS_KERNEL_LOAD h1"
  define h3 where "h3 = put16 26 1 (put16 24 2 (put32 20 (of_nat (length img)) h2))"
  define h where "h = put32 28 (crc32 img) h3"
  have len: "length h1 = 32" "length h2 = 32" "length h3 = 32" "length h = 32"
    by (simp_all add: h1_def h2_def h3_def h_def)
  have fields: "gen_meta img platform = text_bytes ''ASMOSBT1'' @ take 24 (drop 8 h) @
      (let t = text_bytes (take 15 (cstr platform)) in t @ replicate (16 - length t) 0) @ replicate 460 0"
    by (simp add: gen_meta_def h1_def h2_def h3_def h_def)
  have nth: "gen_meta img platform ! k = h ! k" if "8 \<le> k" "k < 32" for k
  proof -
    have l: "length (text_bytes ''ASMOSBT1'') = 8" by (simp add: text_bytes_def)
    have k: "k - 8 < 24" "8 + (k - 8) = k" using that by linarith+
    have "gen_meta img platform ! k = take 24 (drop 8 h) ! (k - 8)"
      unfolding fields using l that k(1) len(4) by (subst nth_append_right, simp, subst nth_append_left) simp_all
    then show ?thesis using k len(4) by simp
  qed
  have "get32 (gen_meta img platform) i = get32 h i" if "8 \<le> i" "i \<le> 28" for i
    using that by (intro get32_cong nth) auto
  note g = this
  have low: "h ! k = h2 ! k" if "k < 20" for k
    using that by (simp add: h_def h3_def put32_nth put16_nth)
  show "get32 (gen_meta img platform) 28 = crc32 img" using g [of 28] get_put32 [of 28 h3] len by (simp add: h_def)
  have "get32 h 16 = get32 h2 16" by (rule get32_cong) (simp add: low)
  then show "get32 (gen_meta img platform) 16 = ASMOS_KERNEL_LOAD" using g [of 16] get_put32 [of 16 h1] len by (simp add: h2_def)
  have "get32 h 12 = get32 h1 12" by (rule get32_cong) (simp add: low h2_def put32_nth)
  then show "get32 (gen_meta img platform) 12 = ASMOS_KERNEL_LOAD"
    using g [of 12] get_put32 [of 12 "put32 8 ASMOS_KERNEL_MAGIC (replicate 32 0)"] by (simp add: h1_def)
  show "length (gen_meta img platform) = SIZEOF_BOOT_META"
    unfolding fields using len by (simp add: text_bytes_def SIZEOF_BOOT_META_def Let_def)
qed

text \<open>
  C20: The loader's verdict on an image that may differ in one byte from the one the tool
  described, for a memory that already holds the descriptor and, at its load address, the image
  (that stage2's own load loop puts them there is not claimed: its transfers go to address
  0, \<^verbatim>\<open>kernel_loads_at_zero\<close>). The loader takes the load address from the descriptor. It stops if
  the byte is not the original one, unless the CRC of the original image is 0, which it takes for
  a descriptor without one; it stops if the first word is not the kernel's magic; and in all
  other cases it calls the kernel at its load address.
\<close>

theorem boot_verdict:
  assumes meta: "bytes_at m meta SIZEOF_BOOT_META = gen_meta (xs @ a # ys) platform"
    and img: "bytes_at m ASMOS_KERNEL_LOAD n = xs @ b # ys" and n: "n < 2 ^ 32"
  shows "stage2_verify m meta (mem32 m (meta + 12)) (of_nat n) =
    (if a \<noteq> b \<and> crc32 (xs @ a # ys) \<noteq> 0 \<or> mem32 m ASMOS_KERNEL_LOAD \<noteq> ASMOS_KERNEL_MAGIC then Stuck
     else Enter ASMOS_KERNEL_LOAD)"
proof -
  have f: "mem32 m (meta + of_nat i) = get32 (gen_meta (xs @ a # ys) platform) i" if "i \<le> 500" for i
    using mem32_get32 [of i SIZEOF_BOOT_META m meta] that unfolding meta by (simp add: SIZEOF_BOOT_META_def)
  have "mem32 m (meta + 12) = ASMOS_KERNEL_LOAD" "mem32 m (meta + 16) = ASMOS_KERNEL_LOAD"
    "mem32 m (meta + 28) = crc32 (xs @ a # ys)"
    using f [of 12] f [of 16] f [of 28] gen_meta_fields by simp_all
  moreover have "crc32_buf m ASMOS_KERNEL_LOAD (of_nat n) = crc32 (xs @ b # ys)"
    using n by (simp add: crc32_bufs unat_of_nat img)
  ultimately show ?thesis using crc32_detects [of b a xs ys] by (cases "a = b") (simp_all add: stage2_verify_def Let_def)
qed

definition poke :: "u32 \<Rightarrow> u8 list \<Rightarrow> mem \<Rightarrow> mem" where
  "poke a bs m = (\<lambda>x. if unat (x - a) < length bs then bs ! unat (x - a) else m x)"

lemma bytes_at_poke: "length bs < 2 ^ 32 \<Longrightarrow> bytes_at (poke a bs m) a (length bs) = bs"
  by (rule nth_equalityI) (simp_all add: bytes_at_nth poke_def unat_of_nat)

lemma bytes_at_poke_other:
  "(\<And>i. i < n \<Longrightarrow> length bs \<le> unat (b + of_nat i - a)) \<Longrightarrow> bytes_at (poke a bs m) b n = bytes_at m b n"
  by (rule nth_equalityI) (simp_all add: bytes_at_nth poke_def not_less [symmetric])

lemma eight_bits: "(tool_crc_bit ^^ 8) x = tool_crc_bit (tool_crc_bit (tool_crc_bit (tool_crc_bit
    (tool_crc_bit (tool_crc_bit (tool_crc_bit (tool_crc_bit x)))))))"
  by (simp add: eval_nat_numeral)

lemma crc_small: "crc32 [0x4B, 0x4D, 0x53, 0x41, 7] \<noteq> 0"
proof -
  have c1: "(tool_crc_bit ^^ 8) (0xFFFFFFFF XOR ucast (0x4B :: u8)) = 0xCCF3886A"
    by (simp add: eight_bits tool_crc_bit_def)
  have c2: "(tool_crc_bit ^^ 8) (0xCCF3886A XOR ucast (0x4D :: u8)) = 0xA5C646E3"
    by (simp add: eight_bits tool_crc_bit_def)
  have c3: "(tool_crc_bit ^^ 8) (0xA5C646E3 XOR ucast (0x53 :: u8)) = 0xCBC475CA"
    by (simp add: eight_bits tool_crc_bit_def)
  have c4: "(tool_crc_bit ^^ 8) (0xCBC475CA XOR ucast (0x41 :: u8)) = 0x7AA19EDD"
    by (simp add: eight_bits tool_crc_bit_def)
  have c5: "(tool_crc_bit ^^ 8) (0x7AA19EDD XOR ucast (0x7 :: u8)) = 0x667C9A54"
    by (simp add: eight_bits tool_crc_bit_def)
  show ?thesis unfolding crc32_def foldl.simps c1 c2 c3 c4 c5 by simp
qed

theorem boot_verdict_witness:
  "\<exists>m. bytes_at m 0x5000 SIZEOF_BOOT_META = gen_meta [0x4B, 0x4D, 0x53, 0x41, 7] ''x86-qemu'' \<and>
       bytes_at m ASMOS_KERNEL_LOAD 5 = [0x4B, 0x4D, 0x53, 0x41, 8] \<and>
       stage2_verify m 0x5000 (mem32 m 0x500C) 5 = Stuck"
proof -
  let ?d = "gen_meta [0x4B, 0x4D, 0x53, 0x41, 7] ''x86-qemu''" and ?k = "[0x4B, 0x4D, 0x53, 0x41, 8 :: u8]"
  define m where "m = poke ASMOS_KERNEL_LOAD ?k (poke 0x5000 ?d (\<lambda>_. 0))"
  have "length ?k \<le> unat (0x5000 + of_nat i - ASMOS_KERNEL_LOAD)" if "i < 508" for i
  proof -
    have "0x5000 + of_nat i - ASMOS_KERNEL_LOAD = of_nat (i + 0xFFF05000)"
      by (simp add: ASMOS_KERNEL_LOAD_def)
    then show ?thesis using that by (simp only: unat_of_nat) simp
  qed
  then have d: "bytes_at m 0x5000 SIZEOF_BOOT_META = ?d"
    using bytes_at_poke [of ?d "0x5000" "\<lambda>_. 0"] gen_meta_fields(4) [of "[0x4B, 0x4D, 0x53, 0x41, 7]" "''x86-qemu''"]
    by (simp add: m_def SIZEOF_BOOT_META_def bytes_at_poke_other)
  have k: "bytes_at m ASMOS_KERNEL_LOAD 5 = ?k"
  proof -
    have l: "length ?k = 5" by simp
    have "bytes_at m ASMOS_KERNEL_LOAD (length ?k) = ?k" unfolding m_def by (rule bytes_at_poke) simp
    then show ?thesis unfolding l .
  qed
  show ?thesis
    using boot_verdict [of m "0x5000" "[0x4B, 0x4D, 0x53, 0x41]" 7 "[]" "''x86-qemu''" 5 8] d k crc_small by auto
qed

section \<open>Retries and the address of a transfer\<close>

text \<open>
  A transfer is tried up to five times, the drive reset after every failure; it succeeds
  iff one of the five calls does.
\<close>

lemma transfer_retries:
  assumes chs: "lba_to_chs dev lba \<noteq> None"
    and dev: "\<And>r st. snd (int13 bios r st) \<longleftrightarrow> fails (snd st)" "\<And>r st. snd (fst (int13 bios r st)) = after (snd st)"
      "\<And>d st. snd (int13_reset bios d st) = snd st"
  shows "snd (transfer_tries n bios ah dev lba p st) = 0 \<longleftrightarrow> (\<exists>k < n. \<not> fails ((after ^^ k) (snd st)))"
proof (induction n arbitrary: st)
  case (Suc n)
  obtain head sec cyl where c: "lba_to_chs dev lba = Some (head, sec, cyl)" using chs by auto
  define r where "r = \<lparr>r_ah = ah, r_al = 0x01, r_ch = cyl, r_cl = sec, r_dh = head, r_dl = bd_drive dev,
      r_es = ucast (drop_bit 4 p AND 0xF000), r_bx = ucast (p AND 0x0F)\<rparr>"
  obtain st1 e where i: "int13 bios r st = (st1, e)" by (cases "int13 bios r st")
  have e: "e = fails (snd st)" "snd st1 = after (snd st)" using dev(1,2) [of r st] i by simp_all
  have shift_k: "(\<exists>k < Suc n. \<not> fails ((after ^^ k) w)) \<longleftrightarrow> \<not> fails w \<or> (\<exists>k < n. \<not> fails ((after ^^ k) (after w)))" for w
    by (auto simp: funpow_swap1 less_Suc_eq_0_disj)
  show ?case
    using i e Suc.IH [of "int13_reset bios (bd_drive dev) st1"] dev(3) [of "bd_drive dev" st1]
    unfolding shift_k by (auto simp: c Let_def simp flip: r_def)
qed simp

text \<open>
  The BIOS transfers to the address that the segment and offset registers name. It keeps
  only bits 0 to 3 and 16 to 19 of the pointer, so that the whole of a kernel loaded at
  \<^verbatim>\<open>0x100000\<close> goes to address 0.
\<close>

lemma transfer_address:
  "push_bit 4 (ucast (ucast (drop_bit 4 p AND 0xF000) :: u16)) + ucast (ucast (p AND 0x0F) :: u16) = (p AND 0xF000F :: u32)"
proof -
  have m: "0xF000 = (push_bit 12 (mask 4) :: u32)" "0x0F = (mask 4 :: u32)" "0xF000F = (push_bit 16 (mask 4) OR mask 4 :: u32)"
    by (simp_all add: mask_eq_exp_minus_1)
  have "push_bit 4 (ucast (ucast (drop_bit 4 p AND 0xF000) :: u16)) AND ucast (ucast (p AND 0x0F) :: u16) = (0 :: u32)"
    unfolding m by (rule bit_word_eqI) (auto simp: bit_simps)
  then have "push_bit 4 (ucast (ucast (drop_bit 4 p AND 0xF000) :: u16)) + ucast (ucast (p AND 0x0F) :: u16) =
      (push_bit 4 (ucast (ucast (drop_bit 4 p AND 0xF000) :: u16)) OR ucast (ucast (p AND 0x0F) :: u16) :: u32)"
    by (rule disjunctive_add_eq_or)
  also have "\<dots> = p AND 0xF000F"
    unfolding m by (rule bit_word_eqI) (auto simp: bit_simps)
  finally show ?thesis .
qed

lemma kernel_loads_at_zero:
  "list_all (\<lambda>k. (ASMOS_KERNEL_LOAD + of_nat k * 512) AND 0xF000F = 0) [0..<128]"
  by code_simp

section \<open>The loops end\<close>

text \<open>
  The limit on the number of bytes makes reading a file end whatever the chain of
  clusters is, unless the counter could wrap past the limit.
\<close>

lemma chain_loop_returns:
  assumes "unat mx \<le> 2 ^ 32 - 512"
  shows "\<exists>st' n ok. chain_loop bios fs dst mx c n0 st = Some (st', n, ok)"
proof (induction "unat mx - unat n0" arbitrary: c n0 st rule: less_induct)
  case less
  show ?case
  proof (cases "c < FAT_END \<and> n0 < mx \<and> snd (fat12_read_cluster bios fs c (dst + n0) st) = 0")
    case True
    then have "unat (n0 + 512) = unat n0 + 512" using assms
      by (subst unat_word_ariths) (auto simp: word_less_nat_alt)
    then have "unat mx - unat (n0 + 512) < unat mx - unat n0"
      using True by (simp add: word_less_nat_alt diff_less_mono2)
    from less [OF this] show ?thesis
      using True by (subst chain_loop.simps) (auto split: prod.splits)
  next
    case False
    then show ?thesis by (subst chain_loop.simps) (auto split: prod.splits)
  qed
qed

lemma fat12_read_file_returns:
  "unat mx \<le> 2 ^ 32 - 512 \<Longrightarrow> \<exists>st' rc n. fat12_read_file bios fs name83 buf mx st = Some (st', rc, n)"
proof -
  assume mx: "unat mx \<le> 2 ^ 32 - 512"
  show ?thesis
  proof (cases "if f12_ready fs then fat12_find_entry (fst st) fs name83 else None")
    case (Some slot)
    obtain st' n ok where "chain_loop bios fs buf mx (mem16 (fst st) (f12_root fs + of_nat (slot * 32) + 26)) 0 st = Some (st', n, ok)"
      using chain_loop_returns [OF mx] by blast
    then show ?thesis unfolding fat12_read_file_def Some by (cases ok) (simp_all add: Let_def)
  qed (simp add: fat12_read_file_def)
qed

end
