(* ===== verification/Ps2_Platform.thy ===== *)
theory Ps2_Platform
  imports Storage_Clients Devices Transport Heap_Alloc
begin

text \<open>
  The second platform layer, \<^verbatim>\<open>platform/ps2/\<close>: files on a memory card, system, network and
  pad functions, line input, the console and the loading of IOP modules. Everything it
  calls belongs to the PS2 SDK, which is a parameter (\<open>sdk\<close>) over the state \<open>'w\<close> of the
  machine. What the file functions rely on is the hypothesis \<open>card_files\<close>, which states
  what the C library documents for the calls used: open, read, write and close.
\<close>

section \<open>The SDK\<close>

record pad_status =
  btns :: u16
  ljoy_h :: u8
  ljoy_v :: u8
  rjoy_h :: u8
  rjoy_v :: u8

record 'w sdk =
  sd_mkdir :: "string \<Rightarrow> 'w \<Rightarrow> 'w"
  sd_open_read :: "string \<Rightarrow> 'w \<Rightarrow> 'w \<times> int"
  sd_open_write :: "string \<Rightarrow> 'w \<Rightarrow> 'w \<times> int"
  sd_read :: "int \<Rightarrow> u32 \<Rightarrow> 'w \<Rightarrow> 'w \<times> int \<times> u8 list"
  sd_write :: "int \<Rightarrow> u8 list \<Rightarrow> 'w \<Rightarrow> 'w \<times> int"
  sd_close :: "int \<Rightarrow> 'w \<Rightarrow> 'w"
  sd_remove :: "string \<Rightarrow> 'w \<Rightarrow> 'w \<times> int"
  sd_load_module :: "string \<Rightarrow> 'w \<Rightarrow> 'w \<times> int"
  sd_netman :: "'w \<Rightarrow> 'w"
  sd_ip_init :: "u32 \<Rightarrow> u32 \<Rightarrow> u32 \<Rightarrow> 'w \<Rightarrow> 'w \<times> int"
  sd_ip_deinit :: "'w \<Rightarrow> 'w"
  sd_pad_state :: "int \<Rightarrow> 'w \<Rightarrow> 'w \<times> int"
  sd_pad_read :: "int \<Rightarrow> 'w \<Rightarrow> 'w \<times> int \<times> pad_status"
  sd_pad_stable :: int
  sd_pad_findctp1 :: int
  sd_getchar :: "'w \<Rightarrow> 'w \<times> int"
  sd_EOF :: int
  sd_print :: "string \<Rightarrow> 'w \<Rightarrow> 'w"
  sd_clear :: "'w \<Rightarrow> 'w"
  sd_delay :: "u32 \<Rightarrow> 'w \<Rightarrow> 'w"
  sd_sleep :: "'w \<Rightarrow> 'w"
  sd_rpc_init :: "'w \<Rightarrow> 'w"
  sd_scr_init :: "'w \<Rightarrow> 'w"
  sd_pad_init :: "'w \<Rightarrow> 'w \<times> int"
  sd_vsnprintf :: "string \<Rightarrow> karg list \<Rightarrow> string"
  sd_vram :: "int \<Rightarrow> int \<Rightarrow> 'w \<Rightarrow> 'w \<times> u32"
  sd_graph :: "u32 \<Rightarrow> int \<Rightarrow> int \<Rightarrow> 'w \<Rightarrow> 'w"

section \<open>Files\<close>

definition MC_BASE :: string where "MC_BASE = ''mc0:/asmos''"

text \<open>\<^verbatim>\<open>snprintf\<close> into a path of \<open>mx\<close> bytes.\<close>

definition mc_path :: "nat \<Rightarrow> string \<Rightarrow> string" where
  "mc_path mx name = take (mx - 1) (MC_BASE @ ''/'' @ cstr name)"

definition plat_fs_init_ps2 :: "'w sdk \<Rightarrow> bool \<Rightarrow> 'w \<Rightarrow> bool \<times> 'w \<times> int" where
  "plat_fs_init_ps2 sd ready w = (True, sd_mkdir sd MC_BASE w, 0)"

definition plat_fs_list_ps2 :: "'w sdk \<Rightarrow> nat \<Rightarrow> bool \<Rightarrow> 'w \<Rightarrow> bool \<times> 'w \<times> plat_file_info list option" where
  "plat_fs_list_ps2 sd mx ready w =
     (if ready then (ready, w, Some []) else case plat_fs_init_ps2 sd ready w of (r, w1, _) \<Rightarrow> (r, w1, Some []))"

definition plat_fs_read_ps2 :: "'w sdk \<Rightarrow> string \<Rightarrow> u32 \<Rightarrow> 'w \<Rightarrow> 'w \<times> int \<times> u8 list \<times> u32" where
  "plat_fs_read_ps2 sd name buf_size w =
     (case sd_open_read sd (mc_path 128 name) w of
        (w1, fd) \<Rightarrow>
          if fd < 0 then (w1, - 1, [], 0)
          else case sd_read sd fd buf_size w1 of
                 (w2, n, data) \<Rightarrow>
                   let w3 = sd_close sd fd w2
                   in if n < 0 then (w3, - 1, data, 0) else (w3, 0, data, word_of_int n))"

definition plat_fs_write_ps2 :: "'w sdk \<Rightarrow> string \<Rightarrow> u8 list \<Rightarrow> u32 \<Rightarrow> 'w \<Rightarrow> ('w \<times> int) option" where
  "plat_fs_write_ps2 sd name data sz w =
     (case sd_open_write sd (mc_path 128 name) w of
        (w1, fd) \<Rightarrow>
          if fd < 0 then Some (w1, - 1)
          else if length data < unat sz then None
          else case sd_write sd fd (take (unat sz) data) w1 of
                 (w2, n) \<Rightarrow> Some (sd_close sd fd w2, if n = sint sz then 0 else - 1))"

definition plat_fs_delete_ps2 :: "'w sdk \<Rightarrow> string option \<Rightarrow> 'w \<Rightarrow> 'w \<times> int" where
  "plat_fs_delete_ps2 sd name w = (case name of None \<Rightarrow> (w, - 1) | Some n \<Rightarrow> sd_remove sd (mc_path 128 n) w)"

definition plat_fs_validate_ps2 :: "bool \<Rightarrow> int" where
  "plat_fs_validate_ps2 ready = (if ready then 0 else - 1)"

definition plat_fs_repair_ps2 :: "'w sdk \<Rightarrow> bool \<Rightarrow> 'w \<Rightarrow> bool \<times> 'w \<times> int" where
  "plat_fs_repair_ps2 sd ready w = plat_fs_init_ps2 sd ready w"

definition plat_fs_read_sector_ps2 :: "u32 \<Rightarrow> int" where
  "plat_fs_read_sector_ps2 lba = - 1"

definition plat_fs_write_sector_ps2 :: "u32 \<Rightarrow> int" where
  "plat_fs_write_sector_ps2 lba = - 1"

definition fat12_list_files_ps2 :: "'w sdk \<Rightarrow> bool \<Rightarrow> 'w \<Rightarrow> bool \<times> 'w \<times> kout list" where
  "fat12_list_files_ps2 sd ready w =
     (case plat_fs_list_ps2 sd 32 ready w of
        (r, w1, None) \<Rightarrow> (r, w1, [Kprint ''  fs: list failed\<newline>''])
      | (r, w1, Some files) \<Rightarrow>
          (r, w1, map (\<lambda>f. Kprintf ''  %s  %u bytes\<newline>'' [StrArg (fi_name f), IntArg (fi_size f)]) files @
                  [Kprintf ''  %d file(s)\<newline>'' [IntArg (of_nat (length files))]]))"

definition fat12_read_file_ps2 :: "'w sdk \<Rightarrow> string \<Rightarrow> 'w \<Rightarrow> 'w \<times> int \<times> u8 list" where
  "fat12_read_file_ps2 sd name w =
     (case plat_fs_read_ps2 sd name 65536 w of (w1, rc, data, sz) \<Rightarrow> (w1, if rc \<noteq> 0 then - 1 else sint sz, data))"

definition fat12_write_file_ps2 :: "'w sdk \<Rightarrow> string \<Rightarrow> u8 list \<Rightarrow> u32 \<Rightarrow> 'w \<Rightarrow> ('w \<times> int) option" where
  "fat12_write_file_ps2 sd name data sz w = plat_fs_write_ps2 sd name data sz w"

definition fat12_delete_file_ps2 :: "'w sdk \<Rightarrow> string option \<Rightarrow> 'w \<Rightarrow> 'w \<times> int" where
  "fat12_delete_file_ps2 sd name w = plat_fs_delete_ps2 sd name w"

definition fat12_validate_fs_ps2 :: "bool \<Rightarrow> int" where
  "fat12_validate_fs_ps2 ready = plat_fs_validate_ps2 ready"

definition init_fat12_ps2 :: "'w sdk \<Rightarrow> bool \<Rightarrow> 'w \<Rightarrow> bool \<times> 'w" where
  "init_fat12_ps2 sd ready w = (case plat_fs_init_ps2 sd ready w of (r, w1, _) \<Rightarrow> (r, w1))"

section \<open>System\<close>

text \<open>Time only passes in \<^verbatim>\<open>plat_delay_ms\<close>: the counter comes with the state.\<close>

definition plat_init_ps2 :: "u32 \<times> 'w \<Rightarrow> u32 \<times> 'w" where
  "plat_init_ps2 st = (0, snd st)"

definition plat_model_string_ps2 :: string where
  "plat_model_string_ps2 = ''ASMOS PS2 Native (EE/FMCB)''"

definition detect_ps2_memory_ps2 :: u32 where
  "detect_ps2_memory_ps2 = 32"

definition plat_mem_total_kb_ps2 :: u32 where
  "plat_mem_total_kb_ps2 = 32 * 1024"

definition sys_get_memory_size_ps2 :: u32 where
  "sys_get_memory_size_ps2 = plat_mem_total_kb_ps2"

definition plat_mem_used_kb_ps2 :: "heap \<Rightarrow> u32 option" where
  "plat_mem_used_kb_ps2 h = map_option (\<lambda>pct. (plat_mem_total_kb_ps2 * pct) div 100) (get_memory_usage_percent h)"

definition plat_mem_free_kb_ps2 :: "heap \<Rightarrow> u32 option" where
  "plat_mem_free_kb_ps2 h =
     map_option (\<lambda>u. let t = plat_mem_total_kb_ps2 in if u < t then t - u else 0) (plat_mem_used_kb_ps2 h)"

definition plat_ticks_ms_ps2 :: "u32 \<times> 'w \<Rightarrow> (u32 \<times> 'w) \<times> u32" where
  "plat_ticks_ms_ps2 st = (st, fst st)"

definition plat_delay_ms_ps2 :: "'w sdk \<Rightarrow> u32 \<Rightarrow> u32 \<times> 'w \<Rightarrow> u32 \<times> 'w" where
  "plat_delay_ms_ps2 sd ms st = (fst st + ms, sd_delay sd (ms * 1000) (snd st))"

definition plat_temp_celsius_ps2 :: "int \<times> int" where
  "plat_temp_celsius_ps2 = (55, 0)"

definition plat_reboot_ps2 :: "'w sdk \<Rightarrow> 'w \<Rightarrow> 'w" where
  "plat_reboot_ps2 sd w = sd_print sd (''Reboot not implemented on PS2 '' @ [CHR 0xE2, CHR 0x80, CHR 0x94] @ '' reset console.\<newline>'') w"

section \<open>Pads\<close>

text \<open>The caller's structure is an argument: a failed read leaves all of it but one field.\<close>

definition plat_controller_read_ps2 :: "'w sdk \<Rightarrow> int \<Rightarrow> controller_state \<Rightarrow> 'w \<Rightarrow> 'w \<times> controller_state \<times> int" where
  "plat_controller_read_ps2 sd port out w =
     (if port \<noteq> 0 then (w, out, - 1)
      else case sd_pad_state sd port w of
             (w1, s) \<Rightarrow>
               if s \<noteq> sd_pad_stable sd \<and> s \<noteq> sd_pad_findctp1 sd then (w1, out\<lparr>cs_present := False\<rparr>, - 1)
               else case sd_pad_read sd port w1 of
                      (w2, r, b) \<Rightarrow>
                        if r \<noteq> 0 then (w2, out\<lparr>cs_present := False\<rparr>, - 1)
                        else (w2, \<lparr>cs_buttons = btns b, cs_axes = [ljoy_h b, ljoy_v b, rjoy_h b, rjoy_v b], cs_present = True\<rparr>, 0))"

definition sys_ps2_controller_read_ps2 :: "'w sdk \<Rightarrow> controller_state \<Rightarrow> 'w \<Rightarrow> 'w \<times> u8 list" where
  "sys_ps2_controller_read_ps2 sd st0 w =
     (case plat_controller_read_ps2 sd 0 st0 w of
        (w1, st, rc) \<Rightarrow>
          (w1, if rc \<noteq> 0 \<or> \<not> cs_present st then replicate 6 0
               else [ucast (cs_buttons st AND 0xFF), ucast (drop_bit 8 (cs_buttons st) AND 0xFF)] @ cs_axes st))"

definition init_ps2_controllers_ps2 :: "'w sdk \<Rightarrow> controller_state \<Rightarrow> 'w \<Rightarrow> 'w" where
  "init_ps2_controllers_ps2 sd st0 w = fst (plat_controller_read_ps2 sd 0 st0 w)"

definition plat_keyboard_scancode_ps2 :: int where
  "plat_keyboard_scancode_ps2 = 0"

section \<open>Video\<close>

record ps2_video =
  gfx_inited :: bool
  frame_addr :: u32
  fb_width :: int
  fb_height :: int

definition ps2_video_zero :: ps2_video where
  "ps2_video_zero = \<lparr>gfx_inited = False, frame_addr = 0, fb_width = 640, fb_height = 448\<rparr>"

definition plat_video_mode_text_ps2 :: "'w sdk \<Rightarrow> 'w \<Rightarrow> 'w" where
  "plat_video_mode_text_ps2 sd w = sd_clear sd w"

definition plat_video_mode_13h_ps2 :: "'w sdk \<Rightarrow> ps2_video \<Rightarrow> 'w \<Rightarrow> ps2_video \<times> 'w" where
  "plat_video_mode_13h_ps2 sd v w =
     (if gfx_inited v then (v, w)
      else case sd_vram sd 320 256 w of
             (w1, a) \<Rightarrow> (\<lparr>gfx_inited = True, frame_addr = a, fb_width = 320, fb_height = 256\<rparr>, sd_graph sd a 320 256 w1))"

definition plat_framebuffer_ps2 :: "ps2_video \<Rightarrow> u32" where
  "plat_framebuffer_ps2 v = push_bit 8 (frame_addr v)"

section \<open>Network\<close>

definition ps2_our_ip :: u32 where
  "ps2_our_ip = push_bit 24 10 OR push_bit 16 0 OR push_bit 8 0 OR 2"

definition load_network_modules :: "'w sdk \<Rightarrow> 'w \<Rightarrow> 'w \<times> int" where
  "load_network_modules sd w =
     (case sd_load_module sd ''host:netman.irx'' w of
        (w1, r) \<Rightarrow>
          if r < 0 then (w1, - 1)
          else case sd_load_module sd ''host:smap.irx'' w1 of (w2, r2) \<Rightarrow> (w2, if r2 < 0 then - 1 else 0))"

text \<open>\<^verbatim>\<open>net_init\<close> is called on every path but the first.\<close>

definition plat_net_init_ps2 :: "'w sdk \<Rightarrow> bool \<Rightarrow> net_state \<Rightarrow> 'w \<Rightarrow> bool \<times> net_state \<times> 'w" where
  "plat_net_init_ps2 sd ready st w =
     (if ready then (ready, st, w)
      else case load_network_modules sd w of
             (w1, r) \<Rightarrow>
               if r \<noteq> 0 then (False, net_init st, w1)
               else case sd_ip_init sd 0x0A000002 0xFFFFFF00 0x0A000001 (sd_netman sd w1) of
                      (w2, r2) \<Rightarrow> (r2 = 0, net_init st, w2))"

definition plat_net_shutdown_ps2 :: "'w sdk \<Rightarrow> bool \<Rightarrow> net_state \<Rightarrow> 'w \<Rightarrow> bool \<times> net_state \<times> 'w" where
  "plat_net_shutdown_ps2 sd ready st w = (False, net_shutdown st, if ready then sd_ip_deinit sd w else w)"

definition plat_net_send_ps2 :: "u8 list \<Rightarrow> 'w \<Rightarrow> 'w \<times> int" where
  "plat_net_send_ps2 data w = (w, if data = [] then - 1 else int (length data))"

definition plat_net_recv_ps2 :: "nat \<Rightarrow> 'w \<Rightarrow> 'w \<times> int \<times> u8 list" where
  "plat_net_recv_ps2 mx w = (w, 0, [])"

definition plat_net_get_info_ps2 :: "bool \<Rightarrow> plat_net_info" where
  "plat_net_get_info_ps2 ready =
     \<lparr>ni_linked = ready, ni_ip = ps2_our_ip, ni_netmask = 0xFFFFFF00,
      ni_ip_str = (case net_ip_to_str ps2_our_ip 16 of Some s \<Rightarrow> s | None \<Rightarrow> []), ni_mac_str = ''00:00:00:00:00:00''\<rparr>"

text \<open>What the shared network code sees; the clock is the counter of the state.\<close>

definition ps2_net_ops :: "'w sdk \<Rightarrow> (u32 \<times> 'w) net_ops" where
  "ps2_net_ops sd =
     \<lparr>no_send = plat_net_send_ps2, no_recv = plat_net_recv_ps2, no_ip = (\<lambda>_. ps2_our_ip),
      no_ticks = plat_ticks_ms_ps2, no_delay = plat_delay_ms_ps2 sd 1\<rparr>"

definition plat_net_ping_ps2 ::
  "'w sdk \<Rightarrow> string option \<Rightarrow> net_state \<Rightarrow> u32 \<times> 'w \<Rightarrow> (net_state \<times> (u32 \<times> 'w) \<times> int \<times> u32 option) option" where
  "plat_net_ping_ps2 sd host st w = net_ping (ps2_net_ops sd) host st w"

section \<open>Line input\<close>

text \<open>The bytes of the line in \<open>buf\<close>; the call also returns when it is full.\<close>

partial_function (option) read_line_ps2 :: "'w sdk \<Rightarrow> nat \<Rightarrow> string \<Rightarrow> u32 \<times> 'w \<Rightarrow> (string \<times> (u32 \<times> 'w)) option" where
  "read_line_ps2 sd mx buf st =
     (if length buf < mx - 1 then
        (case sd_getchar sd (snd st) of
           (w1, c) \<Rightarrow>
             if c = sd_EOF sd then read_line_ps2 sd mx buf (plat_delay_ms_ps2 sd 10 (fst st, w1))
             else if c = 13 \<or> c = 10 then Some (buf, (fst st, sd_print sd ''\<newline>'' w1))
             else if c = 8 \<or> c = 127 then
               (if buf = [] then read_line_ps2 sd mx buf (fst st, w1)
                else read_line_ps2 sd mx (butlast buf) (fst st, sd_print sd [CHR 0x08, CHR '' '', CHR 0x08] w1))
             else read_line_ps2 sd mx (buf @ [char_of (nat (c mod 256))]) (fst st, sd_print sd [char_of (nat (c mod 256))] w1))
      else Some (buf, st))"

definition sys_read_line_ps2 :: "'w sdk \<Rightarrow> nat \<Rightarrow> u32 \<times> 'w \<Rightarrow> (string \<times> (u32 \<times> 'w)) option" where
  "sys_read_line_ps2 sd mx st = (if mx = 0 then Some ([], st) else read_line_ps2 sd mx [] st)"

definition sys_exit_ps2 :: "'w sdk \<Rightarrow> 'w \<Rightarrow> 'w" where
  "sys_exit_ps2 sd w = sd_sleep sd (sd_print sd ''ASMOS exit.\<newline>'' w)"

section \<open>Console\<close>

definition show_boot_splash_ps2 :: "'w sdk \<Rightarrow> 'w \<Rightarrow> 'w" where
  "show_boot_splash_ps2 sd w =
     fold (sd_print sd)
       [''\<newline>'', ''  ================================\<newline>'', ''   ASMOS PS2 Native v2.0\<newline>'',
        ''   FreeMCBoot Edition\<newline>'', ''  ================================\<newline>'',
        ''  Initializing components...\<newline>'', ''  [####################] 100%\<newline>'', ''  Ready.\<newline>\<newline>''] w"

definition kprint_char_ps2 :: "'w sdk \<Rightarrow> char \<Rightarrow> 'w \<Rightarrow> 'w" where
  "kprint_char_ps2 sd c w = sd_print sd [c] w"

definition kprint_ps2 :: "'w sdk \<Rightarrow> string option \<Rightarrow> 'w \<Rightarrow> 'w" where
  "kprint_ps2 sd s w = (case s of None \<Rightarrow> w | Some t \<Rightarrow> sd_print sd (cstr t) w)"

definition kprint_color_ps2 :: "'w sdk \<Rightarrow> string option \<Rightarrow> u8 \<Rightarrow> 'w \<Rightarrow> 'w" where
  "kprint_color_ps2 sd s color w = kprint_ps2 sd s w"

definition clear_screen_ps2 :: "'w sdk \<Rightarrow> 'w \<Rightarrow> 'w" where
  "clear_screen_ps2 sd w = sd_clear sd w"

text \<open>The formatted text is cut to the buffer of 512 bytes.\<close>

definition kprintf_ps2 :: "'w sdk \<Rightarrow> string \<Rightarrow> karg list \<Rightarrow> 'w \<Rightarrow> 'w" where
  "kprintf_ps2 sd f args w = sd_print sd (take 511 (sd_vsnprintf sd f args)) w"

section \<open>The start\<close>

definition iop_module :: "'w sdk \<Rightarrow> string \<Rightarrow> string \<Rightarrow> 'w \<Rightarrow> 'w" where
  "iop_module sd path label w =
     (case sd_load_module sd path w of
        (w1, r) \<Rightarrow> if r < 0 then sd_print sd (sd_vsnprintf sd (''iop: '' @ label @ '' load %d\<newline>'') [IntArg (word_of_int r)]) w1 else w1)"

definition ps2_iop_init :: "'w sdk \<Rightarrow> bool \<Rightarrow> 'w \<Rightarrow> bool \<times> 'w \<times> int" where
  "ps2_iop_init sd ready w =
     (if ready then (ready, w, 0)
      else (True, iop_module sd ''host:irx/mcman_irx.irx'' ''mcman''
                    (iop_module sd ''host:irx/padman_irx.irx'' ''padman'' (iop_module sd ''host:irx/smap_irx.irx'' ''smap'' w)), 0))"

text \<open>The text takes five bytes, but a buffer of four is accepted.\<close>

definition ps2_iop_status :: "bool \<Rightarrow> int \<Rightarrow> (string option) option" where
  "ps2_iop_status ready mx =
     (if mx < 4 then Some None else if mx < 5 then None else Some (Some ((if ready then ''r'' else ''d'') @ ''ead'')))"

text \<open>\<open>run\<close> is what the shared \<^verbatim>\<open>kernel_main\<close> does when it returns.\<close>

definition main_ps2 :: "'w sdk \<Rightarrow> ('w \<Rightarrow> 'w) \<Rightarrow> bool \<Rightarrow> 'w \<Rightarrow> 'w" where
  "main_ps2 sd run iop_ready w =
     (let w1 = sd_print sd ''\<newline>ASMOS PS2 Native Boot\<newline>'' (sd_scr_init sd (sd_rpc_init sd w))
      in case ps2_iop_init sd iop_ready w1 of
           (ready, w2, _) \<Rightarrow>
             (case sd_pad_init sd w2 of
                (w3, r) \<Rightarrow>
                  let w4 = (if r \<noteq> 1 then sd_print sd ''Warning: padInit failed\<newline>'' w3 else w3)
                  in sd_sleep sd (sd_print sd ''ASMOS halted.\<newline>'' (run w4))))"

section \<open>The line that is read is the line that was typed\<close>

definition press_ps2 :: "int \<Rightarrow> string \<Rightarrow> string" where
  "press_ps2 c buf = (if c = 8 \<or> c = 127 then butlast buf else buf @ [char_of (nat (c mod 256))])"

text \<open>
  Bytes that come before a carriage return or line feed are edited into the line, as long
  as there is room for all of them, and those after it stay for the next call.
\<close>

lemma read_line_ps2_types:
  assumes sd: "\<And>c cs. sd_getchar sd (c # cs) = (cs, c)" "\<And>t cs. sd_print sd t cs = cs"
    and ks: "sd_EOF sd \<notin> set ks" "10 \<notin> set ks" "13 \<notin> set ks" "e = 10 \<or> e = 13" "e \<noteq> sd_EOF sd"
    and room: "length buf + length ks < mx - 1"
  shows "read_line_ps2 sd mx buf (t, ks @ e # rest) = Some (fold press_ps2 ks buf, (t, rest))"
  using ks(1-3) room
proof (induction ks arbitrary: buf)
  case Nil
  then show ?case using sd ks(4,5) by (subst read_line_ps2.simps) auto
next
  case (Cons k ks)
  show ?case
  proof (cases "k = 8 \<or> k = 127")
    case True
    then show ?thesis
      using Cons.IH [of "butlast buf"] Cons.prems sd
      by (subst read_line_ps2.simps) (auto simp: press_ps2_def [of k])
  next
    case False
    then show ?thesis
      using Cons.IH [of "buf @ [char_of (nat (k mod 256))]"] Cons.prems sd
      by (subst read_line_ps2.simps) (auto simp: press_ps2_def [of k])
  qed
qed

section \<open>The memory card keeps files\<close>

type_synonym 'w ps2_fs = "'w sdk \<times> bool \<times> 'w"

definition ps2_ops :: "'w ps2_fs file_ops" where
  "ps2_ops =
     \<lparr>fo_init = (\<lambda>(sd, r, w). case plat_fs_init_ps2 sd r w of (r1, w1, rc) \<Rightarrow> ((sd, r1, w1), rc)),
      fo_list = (\<lambda>mx (sd, r, w). case plat_fs_list_ps2 sd mx r w of (r1, w1, l) \<Rightarrow> ((sd, r1, w1), l)),
      fo_read = (\<lambda>name bsz (sd, r, w). case plat_fs_read_ps2 sd name bsz w of (w1, rc, d, n) \<Rightarrow> Some ((sd, r, w1), rc, d, n)),
      fo_write = (\<lambda>name d n (sd, r, w). map_option (\<lambda>(w1, rc). ((sd, r, w1), rc)) (plat_fs_write_ps2 sd name d n w)),
      fo_validate = (\<lambda>(sd, r, w). ((sd, r, w), plat_fs_validate_ps2 r)),
      fo_repair = (\<lambda>(sd, r, w). case plat_fs_repair_ps2 sd r w of (r1, w1, rc) \<Rightarrow> ((sd, r1, w1), rc))\<rparr>"

text \<open>
  The documented behaviour of the calls, in terms of the files on the card and of which
  file a descriptor has open at its start. Opening for reading fails exactly on a missing
  file; opening for writing empties or creates the file, or fails and changes nothing; a
  read gives what the file has, up to the limit; a write that reports its whole length
  has stored all of it.
\<close>

definition card_files :: "'w sdk \<Rightarrow> ('w \<Rightarrow> string \<Rightarrow> u8 list option) \<Rightarrow> ('w \<Rightarrow> int \<Rightarrow> string option) \<Rightarrow> bool" where
  "card_files sd files at_start \<longleftrightarrow>
     (\<forall>w p w' fd. sd_open_read sd p w = (w', fd) \<longrightarrow>
        files w' = files w \<and> (files w p = None \<longrightarrow> fd < 0) \<and> (files w p \<noteq> None \<longrightarrow> fd \<ge> 0 \<and> at_start w' fd = Some p)) \<and>
     (\<forall>w p w' fd. sd_open_write sd p w = (w', fd) \<longrightarrow>
        (fd < 0 \<longrightarrow> files w' = files w) \<and> (fd \<ge> 0 \<longrightarrow> files w' = (files w)(p := Some []) \<and> at_start w' fd = Some p)) \<and>
     (\<forall>w fd p d n w' k x. at_start w fd = Some p \<longrightarrow> files w p = Some d \<longrightarrow> sd_read sd fd n w = (w', k, x) \<longrightarrow>
        files w' = files w \<and> x = take (unat n) d \<and> k = int (length x)) \<and>
     (\<forall>w fd p d w' k. at_start w fd = Some p \<longrightarrow> files w p = Some [] \<longrightarrow> sd_write sd fd d w = (w', k) \<longrightarrow>
        k = int (length d) \<longrightarrow> files w' = (files w)(p := Some d)) \<and>
     (\<forall>w fd. files (sd_close sd fd w) = files w)"

definition ps2_good :: "'w ps2_fs \<Rightarrow> bool" where
  "ps2_good st \<longleftrightarrow> (\<exists>files at_start. card_files (fst st) files at_start)"

lemma card_open_read:
  "card_files sd files at_start \<Longrightarrow> sd_open_read sd p w = (w', fd) \<Longrightarrow>
   files w' = files w \<and> (files w p = None \<longrightarrow> fd < 0) \<and> (files w p \<noteq> None \<longrightarrow> fd \<ge> 0 \<and> at_start w' fd = Some p)"
  unfolding card_files_def by (drule conjunct1, drule spec, drule spec, drule spec, drule spec, drule mp, assumption, assumption)

lemma card_open_write:
  "card_files sd files at_start \<Longrightarrow> sd_open_write sd p w = (w', fd) \<Longrightarrow>
   (fd < 0 \<longrightarrow> files w' = files w) \<and> (fd \<ge> 0 \<longrightarrow> files w' = (files w)(p := Some []) \<and> at_start w' fd = Some p)"
  unfolding card_files_def by (drule conjunct2, drule conjunct1) fast

lemma card_read:
  "card_files sd files at_start \<Longrightarrow> at_start w fd = Some p \<Longrightarrow> files w p = Some d \<Longrightarrow> sd_read sd fd n w = (w', k, x) \<Longrightarrow>
   files w' = files w \<and> x = take (unat n) d \<and> k = int (length x)"
  unfolding card_files_def by (drule conjunct2, drule conjunct2, drule conjunct1) fast

lemma card_write:
  "card_files sd files at_start \<Longrightarrow> at_start w fd = Some p \<Longrightarrow> files w p = Some [] \<Longrightarrow> sd_write sd fd d w = (w', k) \<Longrightarrow>
   k = int (length d) \<Longrightarrow> files w' = (files w)(p := Some d)"
  unfolding card_files_def by (drule conjunct2, drule conjunct2, drule conjunct2, drule conjunct1) fast

lemma card_close: "card_files sd files at_start \<Longrightarrow> files (sd_close sd fd w) = files w"
  unfolding card_files_def by simp

lemma ps2_read:
  assumes c: "card_files sd files at_start"
  shows "case files w (mc_path 128 a) of
      None \<Rightarrow> \<exists>w'. plat_fs_read_ps2 sd a bsz w = (w', - 1, [], 0)
    | Some d \<Rightarrow> \<exists>w'. plat_fs_read_ps2 sd a bsz w = (w', 0, take (unat bsz) d, of_nat (length (take (unat bsz) d)))"
proof -
  let ?p = "mc_path 128 a"
  obtain w1 fd where o: "sd_open_read sd ?p w = (w1, fd)" by (cases "sd_open_read sd ?p w")
  have op: "files w1 = files w" "files w ?p = None \<Longrightarrow> fd < 0" "files w ?p \<noteq> None \<Longrightarrow> fd \<ge> 0 \<and> at_start w1 fd = Some ?p"
    using card_open_read [OF c o] by simp_all
  show ?thesis
  proof (cases "files w ?p")
    case None
    then show ?thesis using op o by (simp add: plat_fs_read_ps2_def)
  next
    case (Some d)
    then have fd: "\<not> fd < 0" "at_start w1 fd = Some ?p" "files w1 ?p = Some d" using op by simp_all
    obtain w2 k x where r: "sd_read sd fd bsz w1 = (w2, k, x)" by (cases "sd_read sd fd bsz w1")
    have "x = take (unat bsz) d \<and> k = int (length x)"
      using card_read [OF c fd(2,3) r] by simp
    then show ?thesis using Some o fd(1) r by (simp add: plat_fs_read_ps2_def Let_def)
  qed
qed

lemma sint_small: "unat (n :: u32) < 2 ^ 31 \<Longrightarrow> sint n = int (unat n)"
proof -
  assume "unat n < 2 ^ 31"
  then have "int (unat n) < int (2 ^ 31)" by (simp only: of_nat_less_iff)
  then have "uint n < 2 ^ 31" by (simp only: uint_nat of_nat_power of_nat_numeral)
  then have "signed_take_bit 31 (uint n) = uint n"
    by (intro signed_take_bit_int_eq_self) (simp_all add: order_trans [OF _ uint_u32_bounds(1)])
  then show ?thesis by (simp add: sint_uint)
qed

lemma ps2_write:
  assumes c: "card_files sd files at_start" and d: "length d = unat n" "length d < 2 ^ 31"
  shows "\<exists>w' rc. plat_fs_write_ps2 sd a d n w = Some (w', rc) \<and> (rc = 0 \<longrightarrow> files w' (mc_path 128 a) = Some d)"
proof -
  let ?p = "mc_path 128 a"
  obtain w1 fd where o: "sd_open_write sd ?p w = (w1, fd)" by (cases "sd_open_write sd ?p w")
  show ?thesis
  proof (cases "fd < 0")
    case False
    then have "fd \<ge> 0" by simp
    then have fd: "at_start w1 fd = Some ?p" "files w1 = (files w)(?p := Some [])"
      using card_open_write [OF c o] by simp_all
    then have e: "files w1 ?p = Some []" by simp
    obtain w2 k where r: "sd_write sd fd d w1 = (w2, k)" by (cases "sd_write sd fd d w1")
    have "sint n = int (unat n)"
      using d by (intro sint_small) simp
    then have n: "k = sint n \<longleftrightarrow> k = int (length d)" using d(1) by simp
    have "files (sd_close sd fd w2) = files w2" by (rule card_close [OF c])
    moreover have "k = int (length d) \<Longrightarrow> files w2 = (files w1)(?p := Some d)"
      by (rule card_write [OF c fd(1) e r])
    ultimately have "k = int (length d) \<Longrightarrow> files (sd_close sd fd w2) ?p = Some d" by simp
    then show ?thesis using False o r d(1) n by (simp add: plat_fs_write_ps2_def)
  qed (use o in \<open>simp add: plat_fs_write_ps2_def\<close>)
qed

lemma ps2_good_world: "ps2_good (sd, r, w) \<Longrightarrow> ps2_good (sd, r', w')"
  by (simp add: ps2_good_def)

interpretation ps2: file_store ps2_ops ps2_good "mc_path 128" "2 ^ 31 - 1"
proof
  fix st :: "'w ps2_fs" and d :: "u8 list" and n :: u32 and a :: string
  assume h: "ps2_good st" "length d = unat n" "length d \<le> 2 ^ 31 - 1"
  obtain sd r w where st: "st = (sd, r, w)" by (cases st)
  obtain files at_start where c: "card_files sd files at_start" using h(1) by (auto simp: ps2_good_def st)
  have "length d < 2 ^ 31" using h(3) by simp
  from ps2_write [OF c h(2) this] obtain w' rc where "plat_fs_write_ps2 sd a d n w = Some (w', rc)" by blast
  then show "\<exists>st' rc. fo_write ps2_ops a d n st = Some (st', rc) \<and> ps2_good st'"
    using ps2_good_world h(1) by (auto simp: ps2_ops_def st)
next
  fix st st' :: "'w ps2_fs" and d :: "u8 list" and n bsz :: u32 and a a' :: string
  assume h: "ps2_good st" "length d = unat n" "length d \<le> 2 ^ 31 - 1" "fo_write ps2_ops a d n st = Some (st', 0)"
    "mc_path 128 a' = mc_path 128 a" "unat n \<le> unat bsz"
  obtain sd r w where st: "st = (sd, r, w)" by (cases st)
  obtain files at_start where c: "card_files sd files at_start" using h(1) by (auto simp: ps2_good_def st)
  have "length d < 2 ^ 31" using h(3) by simp
  from ps2_write [OF c h(2) this] obtain w' rc where "plat_fs_write_ps2 sd a d n w = Some (w', rc)"
    "rc = 0 \<longrightarrow> files w' (mc_path 128 a) = Some d" by blast
  then have w: "st' = (sd, r, w')" "files w' (mc_path 128 a) = Some d"
    using h(4) by (auto simp: ps2_ops_def st)
  obtain w'' where "plat_fs_read_ps2 sd a' bsz w' = (w'', 0, d, n)"
    using ps2_read [OF c, where w = w' and a = a' and bsz = bsz] w(2) h(2,5,6) by (auto simp: of_nat_unat)
  then show "\<exists>st''. fo_read ps2_ops a' bsz st' = Some (st'', 0, d, n) \<and> ps2_good st''"
    using ps2_good_world h(1) by (auto simp: ps2_ops_def st w)
next
  fix st st' :: "'w ps2_fs" and d :: "u8 list" and n bsz :: u32 and a :: string and rc :: int
  assume h: "ps2_good st" "unat bsz \<le> 2 ^ 31 - 1" "fo_read ps2_ops a bsz st = Some (st', rc, d, n)"
  obtain sd r w where st: "st = (sd, r, w)" by (cases st)
  obtain files at_start where c: "card_files sd files at_start" using h(1) by (auto simp: ps2_good_def st)
  have "length (take (unat bsz) x) < 2 ^ 32" for x :: "u8 list" using h(2) by simp
  then have "unat (of_nat (length (take (unat bsz) x)) :: u32) = length (take (unat bsz) x)" for x :: "u8 list"
    by (simp only: unat_of_nat) simp
  then show "ps2_good st' \<and> length d \<le> unat bsz \<and> (rc = 0 \<longrightarrow> length d = unat n)"
    using ps2_read [OF c, where w = w and a = a and bsz = bsz] h(1,3) ps2_good_world
    by (auto simp: ps2_ops_def st split: option.splits)
qed

text \<open>
  Copying a file on the memory card. With the files behaving as documented, when
  storage_copy reports success, reading the destination gives exactly the bytes that
  reading the source gave before the copy.
\<close>

theorem ps2_copy_correct:
  assumes "card_files sd files at_start" "storage_copy ps2_ops (Some src) (Some dst) (sd, ready, w) = Some (st', 0)"
  shows "\<exists>st1 st2 d n. fo_read ps2_ops src 8192 (sd, ready, w) = Some (st1, 0, d, n) \<and>
    fo_read ps2_ops dst 8192 st' = Some (st2, 0, d, n)"
proof -
  have g: "ps2_good (sd, ready, w)" using assms(1) by (auto simp: ps2_good_def)
  have "copy_file ps2_ops 8192 src dst (sd, ready, w) = Some (st', 0)"
    using assms(2) by (auto simp: storage_copy_def split: if_splits)
  then show ?thesis using ps2.copy_then_read [OF g _ _ refl, of 8192 src dst st'] by auto
qed

text \<open>A card that keeps its files in a table and has one descriptor.\<close>

definition table_sdk :: "((string \<Rightarrow> u8 list option) \<times> string option) sdk" where
  "table_sdk =
     \<lparr>sd_mkdir = (\<lambda>_ w. w),
      sd_open_read = (\<lambda>p (f, c). if f p = None then ((f, c), - 1) else ((f, Some p), 3)),
      sd_open_write = (\<lambda>p (f, c). ((f(p := Some []), Some p), 3)),
      sd_read = (\<lambda>fd n (f, c). case c of None \<Rightarrow> ((f, c), - 1, [])
         | Some p \<Rightarrow> ((f, None), int (length (take (unat n) (the (f p)))), take (unat n) (the (f p)))),
      sd_write = (\<lambda>fd d (f, c). case c of None \<Rightarrow> ((f, c), - 1) | Some p \<Rightarrow> ((f(p := Some d), None), int (length d))),
      sd_close = (\<lambda>fd (f, c). (f, None)), sd_remove = (\<lambda>p (f, c). ((f(p := None), c), 0)),
      sd_load_module = (\<lambda>_ w. (w, 0)), sd_netman = (\<lambda>w. w), sd_ip_init = (\<lambda>_ _ _ w. (w, 0)), sd_ip_deinit = (\<lambda>w. w),
      sd_pad_state = (\<lambda>_ w. (w, 6)), sd_pad_read = (\<lambda>_ w. (w, 0, \<lparr>btns = 0, ljoy_h = 0, ljoy_v = 0, rjoy_h = 0, rjoy_v = 0\<rparr>)),
      sd_pad_stable = 6, sd_pad_findctp1 = 2, sd_getchar = (\<lambda>w. (w, 10)), sd_EOF = - 1, sd_print = (\<lambda>_ w. w),
      sd_clear = (\<lambda>w. w), sd_delay = (\<lambda>_ w. w), sd_sleep = (\<lambda>w. w), sd_rpc_init = (\<lambda>w. w), sd_scr_init = (\<lambda>w. w),
      sd_pad_init = (\<lambda>w. (w, 1)), sd_vsnprintf = (\<lambda>f _. f), sd_vram = (\<lambda>_ _ w. (w, 0)), sd_graph = (\<lambda>_ _ _ w. w)\<rparr>"

lemma table_card: "card_files table_sdk fst (\<lambda>(f, c) fd. if fd = 3 then c else None)"
  by (auto simp: card_files_def table_sdk_def split: option.splits if_splits)

theorem ps2_copy_witness:
  "\<exists>st'. storage_copy ps2_ops (Some ''a'') (Some ''b'') (table_sdk, True, [''mc0:/asmos/a'' \<mapsto> [1, 2, 3]], None) = Some (st', 0) \<and>
     (\<exists>st2. fo_read ps2_ops ''b'' 8192 st' = Some (st2, 0, [1, 2, 3], 3))"
proof -
  let ?w = "([''mc0:/asmos/a'' \<mapsto> [1, 2, 3]], None)"
  have p: "mc_path 128 ''a'' = ''mc0:/asmos/a''" "mc_path 128 ''b'' = ''mc0:/asmos/b''"
    by (simp_all add: mc_path_def MC_BASE_def cstr_Cons)
  have r: "fo_read ps2_ops ''a'' 8192 (table_sdk, True, ?w) = Some ((table_sdk, True, ([''mc0:/asmos/a'' \<mapsto> [1, 2, 3]], None)), 0, [1, 2, 3], 3)"
    by (simp add: ps2_ops_def plat_fs_read_ps2_def p table_sdk_def Let_def)
  let ?w2 = "([''mc0:/asmos/a'' \<mapsto> [1, 2, 3], ''mc0:/asmos/b'' \<mapsto> [1, 2, 3]], None)"
  have wr: "fo_write ps2_ops ''b'' [1, 2, 3] 3 (table_sdk, True, ?w) = Some ((table_sdk, True, ?w2), 0)"
    by (simp add: ps2_ops_def plat_fs_write_ps2_def p table_sdk_def)
  have s: "storage_copy ps2_ops (Some ''a'') (Some ''b'') (table_sdk, True, ?w) = Some ((table_sdk, True, ?w2), 0)"
    by (simp add: storage_copy_def copy_file_def r wr)
  from ps2_copy_correct [OF table_card s] show ?thesis using r s by auto
qed

section \<open>Pings on a network that never delivers\<close>

lemma ps2_recv_ring: "net_up st \<Longrightarrow> net_udp_recv (ps2_net_ops sd) mx st w = map_option (\<lambda>(st2, rc, r). (st2, w, rc, r)) (ring_pop mx st)"
  by (simp add: net_udp_recv_def ps2_net_ops_def plat_net_recv_ps2_def accept_raw_def)

lemma ps2_ping_loop_empty:
  "net_up st \<Longrightarrow> rx_head st = rx_tail st \<Longrightarrow> \<exists>w'. ping_loop n (ps2_net_ops sd) st w = Some (st, w', False)"
  by (induction n arbitrary: w) (simp_all add: ps2_recv_ring ring_pop_def)

lemma ps2_ping_loop_own:
  assumes "net_up st" "rx_head st < 8" "rx_tail st < 8" "rx_head st \<noteq> rx_tail st"
    "rx_len (rx_ring st ! rx_head st) = 4" "take 4 (rx_data (rx_ring st ! rx_head st)) = map of_char ''PING''"
  shows "\<exists>st'. ping_loop (Suc n) (ps2_net_ops sd) st w = Some (st', w, True)"
proof -
  let ?s = "rx_ring st ! rx_head st"
  have "4 \<le> length (rx_data ?s)" using arg_cong [OF assms(6), of length] by simp
  then show ?thesis using assms by (simp add: ps2_recv_ring ring_pop_def Let_def)
qed

text \<open>
  C40: A ping on the PS2 succeeds exactly for the machine's own addresses. With the network
  up and nothing queued, pinging a well-formed address returns; it answers with a round
  trip time for 10.0.0.2 and 127.0.0.1, which are looped back, and reports a failure for
  every other host, because the driver never delivers a packet.
\<close>

theorem ps2_ping_own_only:
  assumes "net_up st" "ring_inv st" "rx_head st = rx_tail st" "net_parse_ip host = Some ip"
  shows "\<exists>st' w' rc rtt. plat_net_ping_ps2 sd host st w = Some (st', w', rc, rtt) \<and>
     (rc = 0 \<longleftrightarrow> ip = ps2_our_ip \<or> ip = 0x7F000001) \<and> (rc = 0 \<longleftrightarrow> rtt \<noteq> None)"
proof -
  have tail: "rx_tail st < 8" "length (rx_ring st) = 8" using assms(2) by (simp_all add: ring_inv_def)
  have loop: "\<exists>w'. ping_loop 1000 (ps2_net_ops sd) st w1 = Some (st, w', False)" for w1
    using ps2_ping_loop_empty [OF assms(1,3)] by blast
  let ?st = "st\<lparr>rx_ring := (rx_ring st)[rx_tail st := \<lparr>src_ip = ps2_our_ip, src_port = 0, rx_len = 4,
       rx_data = map of_char ''PING'' @ drop 4 (rx_data (rx_ring st ! rx_tail st))\<rparr>], rx_tail := (rx_tail st + 1) mod 8\<rparr>"
  have nx: "(rx_tail st + 1) mod 8 \<noteq> rx_tail st" using tail(1) by (cases "rx_tail st = 7") auto
  have push: "ring_push ps2_our_ip 0 (map of_char ''PING'') 4 st = Some ?st"
    using nx assms(3) by (simp add: ring_push_def RX_SLOTS_def NET_MAX_PAYLOAD_def Let_def)
  have own: "\<exists>st'. ping_loop (Suc 999) (ps2_net_ops sd) ?st w1 = Some (st', w1, True)" for w1
    by (rule ps2_ping_loop_own) (use assms(1,3) nx tail in simp_all)
  have send: "net_udp_send (ps2_net_ops sd) ip 0 (map of_char ''PING'') 4 st w =
      Some (if ip = ps2_our_ip \<or> ip = 0x7F000001 then ?st else st, w, 4)"
    using assms(1) push by (simp add: net_udp_send_def ps2_net_ops_def plat_net_send_ps2_def NET_MAX_PAYLOAD_def del: list.map)
  have ticks: "no_ticks (ps2_net_ops sd) w1 = (w1, fst w1)" for w1
    by (simp add: ps2_net_ops_def plat_ticks_ms_ps2_def)
  show ?thesis
  proof (cases "ip = ps2_our_ip \<or> ip = 0x7F000001")
    case True
    obtain st1 where "ping_loop 1000 (ps2_net_ops sd) ?st w = Some (st1, w, True)" using own [of w] by auto
    then show ?thesis using True send
      by (simp add: plat_net_ping_ps2_def net_ping_def assms(4) ticks del: list.map)
  next
    case False
    obtain w1 where "ping_loop 1000 (ps2_net_ops sd) st w = Some (st, w1, False)" using loop by blast
    then show ?thesis using False send
      by (simp add: plat_net_ping_ps2_def net_ping_def assms(4) ticks del: list.map)
  qed
qed

theorem ps2_ping_witness:
  "\<exists>st' w' rc rtt. plat_net_ping_ps2 table_sdk (Some ''10.0.0.3'') (net_init net_zero) (0, Map.empty, None) = Some (st', w', rc, rtt) \<and>
     rc \<noteq> 0 \<and> rtt = None"
proof -
  have "net_up (net_init net_zero)" "ring_inv (net_init net_zero)" "rx_head (net_init net_zero) = rx_tail (net_init net_zero)"
    by (simp_all add: net_init_def net_zero_def ring_inv_def slot_ok_def RX_SLOTS_def NET_MAX_PAYLOAD_def list_all_iff)
  moreover have "net_parse_ip (Some ''10.0.0.3'') = Some 0x0A000003"
    by (simp add: net_parse_ip_def is_digit_def expect_dot_def)
  ultimately show ?thesis
    using ps2_ping_own_only [of "net_init net_zero" "Some ''10.0.0.3''" "0x0A000003" table_sdk "(0, Map.empty, None)"]
    by (auto simp: ps2_our_ip_def)
qed

end
