(* ===== verification/Spec2Isabelle.thy ===== *)
theory Spec2Isabelle
  imports Shell_Output Boot Ps2_Platform
begin

text \<open>
  asmOS is a small kernel in C for x86 (with a second target over the PlayStation 2 SDK):
  a heap, a cooperative scheduler, a FAT12 driver, a UDP stack with a transport and a
  party layer, a text console, five games, and a shell that reaches all of them. This
  library models its code in definitions that compute, and proves what makes
  each part correct; where the code does something else than it means to, the theorem
  states what it does.

  How the program is modelled. A file with static variables becomes a record, a
  function that uses them becomes a HOL function from the record to the record and the
  result. Integers keep their width (\<^verbatim>\<open>u8\<close>, \<^verbatim>\<open>u16\<close>, \<^verbatim>\<open>u32\<close> are words); an \<^verbatim>\<open>int\<close> that cannot overflow is
  \<^verbatim>\<open>int\<close> or \<^verbatim>\<open>nat\<close>. A read or write outside an object, and a loop that does not end, is \<open>None\<close>: a
  theorem that says \<open>Some\<close> says that the call returns and stays in its objects. What is
  printed is a list of calls of the print routines, which the console runs; error codes
  are the integers of the source, and NULL arguments are \<open>None\<close>.

  The hardware is a parameter: ports (\<^verbatim>\<open>port_io\<close>), sectors (\<^verbatim>\<open>sector_io\<close>), the BIOS (\<^verbatim>\<open>bios\<close>), the
  PS2 SDK (\<^verbatim>\<open>sdk\<close>), each a record of functions over an arbitrary device state, and the clock. Hypotheses
  on them are named definitions (\<^verbatim>\<open>reliable\<close>, \<^verbatim>\<open>card_files\<close>) that say a disk keeps what is
  written, and every theorem with hypotheses is applied once to concrete devices.
\<close>

section \<open>The theories\<close>

text \<open>
  \<^item> \<^verbatim>\<open>Asmos_Prelude\<close>: machine integers, C strings, little-endian memory, ports, loops
    over arrays (\<^verbatim>\<open>each\<close>, \<^verbatim>\<open>fold\<close>) with their lemmas.
  \<^item> \<^verbatim>\<open>Heap_Alloc\<close> (\<^verbatim>\<open>src/memory_manager.c\<close>): block headers at addresses. The heap is well
    formed when its blocks tile the pool; the operations are first fit, split and merge on
    the list of blocks (\<^verbatim>\<open>heap_rep\<close>), and the locale \<^verbatim>\<open>allocator\<close> is what its clients rely on.
  \<^item> \<^verbatim>\<open>Mem_Budget\<close> (\<^verbatim>\<open>src/memory_budget.c\<close>): accounting, swap slots and run-length coding; slots
    own heap blocks, proved over the locale. \<^verbatim>\<open>Sched\<close> (\<^verbatim>\<open>src/scheduler.c\<close>): tasks, stack frames, yield.
  \<^item> \<^verbatim>\<open>Fat_Storage\<close> (\<^verbatim>\<open>platform/x86/hal_storage.c\<close>): names, directory, clusters. \<^verbatim>\<open>Storage_Clients\<close>
    (\<^verbatim>\<open>storage.c\<close>, \<^verbatim>\<open>save_manager.c\<close>, \<^verbatim>\<open>memory_card.c\<close>, \<^verbatim>\<open>pause_engine.c\<close>): what is built on files,
    over the locale \<^verbatim>\<open>file_store\<close>, which the FAT12 driver and the PS2 memory card both
    interpret.
  \<^item> \<^verbatim>\<open>Net\<close> (\<^verbatim>\<open>src/net/\<close>): addresses, the receive ring (locale \<^verbatim>\<open>bounded_fifo\<close>), datagrams, pings.
    \<^verbatim>\<open>Transport\<close> (\<^verbatim>\<open>src/transport.c\<close>, \<^verbatim>\<open>platform/x86/hal_net.c\<close>): packets, CRC, sessions. \<^verbatim>\<open>Party\<close> and
    \<^verbatim>\<open>Streaming\<close>: rooms and chunks over it.
  \<^item> \<^verbatim>\<open>Console\<close> (\<^verbatim>\<open>src/kernel.c\<close>, \<^verbatim>\<open>vga_text.asm\<close>): the text buffer refines a list of lines; printing,
    scanning, the splash. \<^verbatim>\<open>Video\<close>, \<^verbatim>\<open>Graphics\<close> (\<^verbatim>\<open>vga.c\<close>, \<^verbatim>\<open>graphics.c\<close>, \<^verbatim>\<open>font_8x8.c\<close>): register programming and
    drawing.
  \<^item> \<^verbatim>\<open>Game_Loop\<close> (locale \<^verbatim>\<open>game\<close>), \<^verbatim>\<open>Snake\<close>, \<^verbatim>\<open>Tetris\<close>, \<^verbatim>\<open>Arcade\<close>, \<^verbatim>\<open>Games\<close> (\<^verbatim>\<open>src/game.c\<close>) and \<^verbatim>\<open>Game_History\<close>: the five
    games, the loop they share, the launcher and the statistics it records.
  \<^item> \<^verbatim>\<open>Devices\<close> (bluetooth, remapping, keys; locale \<^verbatim>\<open>name_table\<close>), \<^verbatim>\<open>Media\<close> (music, LEDs), \<^verbatim>\<open>Quantum\<close>
    (\<^verbatim>\<open>src/quantum/\<close>).
  \<^item> \<^verbatim>\<open>Machine\<close> puts all states into one record and lifts each component's operations to it;
    \<^verbatim>\<open>Registry\<close> (\<^verbatim>\<open>src/subsys/registry.c\<close>) and \<^verbatim>\<open>Status\<close> (\<^verbatim>\<open>hw_status.c\<close>, \<^verbatim>\<open>dashboard.c\<close>, \<^verbatim>\<open>net_clients.c\<close>)
    run on it.
  \<^item> \<^verbatim>\<open>Shell\<close> (\<^verbatim>\<open>src/shell.c\<close>, \<^verbatim>\<open>syscalls_x86.asm\<close>): every command as an action on the machine, and
    the loop as the inductive relation \<^verbatim>\<open>start_shell\<close>. \<^verbatim>\<open>Shell_Facts\<close>: its theorems.
  \<^item> \<^verbatim>\<open>Kernel\<close> (\<^verbatim>\<open>kernel_start.c\<close>, \<^verbatim>\<open>kernel_main\<close>): the start, composed from the components'
    initialisations. \<^verbatim>\<open>Shell_Output\<close>: a typing of the print formats, under which no output of the
    kernel or the shell can fault.
  \<^item> \<^verbatim>\<open>Boot\<close> (\<^verbatim>\<open>block_dev.c\<close>, \<^verbatim>\<open>fat12.c\<close>, \<^verbatim>\<open>stage2.c\<close>, \<^verbatim>\<open>gen_boot_meta.c\<close>): the alternate loader. \<^verbatim>\<open>Ps2_Platform\<close>
    (\<^verbatim>\<open>platform/ps2/\<close>): the second platform layer.
\<close>

section \<open>How the parts interact\<close>

text \<open>
  The kernel's start runs every initialisation in the order of the source and ends in the
  shell; \<^verbatim>\<open>Kernel.kernel_boots\<close> says that it gets there with the state it means to set up. A
  round of the shell reads a line (\<^verbatim>\<open>Shell_Facts.read_line_types\<close>), splits it, runs a command and shows
  what it printed. Commands act on the components through \<^verbatim>\<open>Machine\<close>. The heap is shared by the
  budget and the task table; the party, the streaming and the
  network subsystem share one transport session, which the functions \<^verbatim>\<open>get_party\<close> and
  \<^verbatim>\<open>set_party\<close> (and those of streaming) copy in and out. Files are reached through
  \<^verbatim>\<open>file_ops\<close>, so the clients are proved once for both platforms.
\<close>

section \<open>What the groups of lemmas show\<close>

text \<open>
  \<^item> Invariants: the heap tiles its pool after every operation, swap buffers are blocks in use
    and not shared, the snake is a path inside the walls, room tables and buffers are
    never overrun, the quantum table stays in range, and no shell round changes the settings.
  \<^item> Types: every command prints formats that suit their arguments, from tables that stay in
    range, so a round of the shell only fails to return inside a command.
  \<^item> Refinement: the ring is a queue under any interleaving of calls, the screen the last 25 lines of a text, file copies
    and backups are reads after writes, line input is an editor of key presses.
  \<^item> Round trips: files, packets, addresses, decimal numbers, compressed data,
    blocks, saves, command lines, disk addresses.
  \<^item> Termination: list walks and line drawing end by measures on what is left; waiting for a
    stream returns, and the synchronous stream calls do not. The allocator's walks need no fuel
    because a well-formed list of blocks is finite.
  \<^item> Bounds and errors: wrap-around in \<^verbatim>\<open>ALIGN\<close>, percentages without overflow, texts that fit
    their buffers, and the inputs for which the code fails.
\<close>

section \<open>Bounds and fuel\<close>

text \<open>
  Loops are structural recursion over lists of indices where the source counts, recursion
  with a measure where it divides or copies, and \<^verbatim>\<open>partial_function\<close> where it waits for a
  device or walks a list, so that there is no fuel to run out. Only two loops carry
  a counter, and it is the source's own: the 1000 tries of \<^verbatim>\<open>net_ping\<close> and the
  2000 milliseconds of \<^verbatim>\<open>net_icmp_ping\<close>. The file properties bound a file by 8192 bytes, the
  buffer of \<^verbatim>\<open>storage_copy\<close>, which sixteen clusters hold. The driver fills clusters 2, 3, ... but
  never links them in the FAT, so the properties of files of more than one cluster say what is
  read where the FAT already links them, and where it ends the chain at the first.
\<close>

section \<open>Not modelled\<close>

text \<open>
  \<^item> The real-mode boot chain and the ATA driver (\<^verbatim>\<open>boot/*.asm\<close>, \<^verbatim>\<open>disk_io.asm\<close>): 16-bit
    assembly before the kernel; the driver is the sector parameter.
  \<^item> The interrupt flag (\<^verbatim>\<open>src/msp.c\<close>) and the empty handlers: no handler touches the
    modelled state. The register contents that \<^verbatim>\<open>context.asm\<close> saves are on the stacks, of which
    the model keeps the pointers.
  \<^item> \<^verbatim>\<open>include/ps2_hardware.h\<close> and \<^verbatim>\<open>uart.h\<close>: declarations without code. The empty stubs of the PS2
    layer, and its functions that only forward to the C library.
  \<^item> The empty cleanup hooks of the games, local copies of \<^verbatim>\<open>memcpy\<close>, \<^verbatim>\<open>memset\<close> and string
    copying (list operations here), and the file input and output of \<^verbatim>\<open>gen_boot_meta\<close>.
  \<^item> Build scripts, tests and documents.
\<close>

end
